(* ===== verification/Prelude.thy ===== *)
theory Prelude
  imports Main "HOL-Library.Word" "HOL-Library.AList" "HOL-Library.Char_ord"
    "HOL-Library.List_Lexorder" "HOL-Library.Multiset"
begin

text \<open>
  What every component shares: the machine integers of the Go code, Go's map as an association
  list with its iteration order made explicit, the generic facts on lists and options the
  component proofs use, and two interfaces: a machine that keeps an invariant along every run,
  and an allocator that is stable per key.
\<close>

unbundle bit_operations_syntax

section \<open>Types\<close>

type_synonym byte = "8 word"
type_synonym u16 = "16 word"
type_synonym u32 = "32 word"

text \<open>
  A Go map that the code iterates over. The order of a Go iteration is unspecified, so an
  operation that ranges over a map takes the order as an argument (a rearrangement of the entries).
  A Go map that is only looked up is a HOL map.
\<close>

type_synonym ('k, 'v) gomap = "('k \<times> 'v) list"

definition gomap_ok :: "('k, 'v) gomap \<Rightarrow> bool" where
  "gomap_ok m \<longleftrightarrow> distinct (map fst m)"

definition reorders :: "('a list \<Rightarrow> 'a list) \<Rightarrow> bool" where
  "reorders it \<longleftrightarrow> (\<forall>xs. mset (it xs) = mset xs)"

named_theorems gomap_simps \<open>lookup and well-formedness of the association-list maps\<close>
named_theorems inv_intros \<open>preservation of the component invariants\<close>

section \<open>Maps\<close>

lemma gomap_ok_Nil [simp, gomap_simps]: "gomap_ok []"
  by (simp add: gomap_ok_def)

lemma gomap_ok_update [simp, gomap_simps]: "gomap_ok m \<Longrightarrow> gomap_ok (AList.update k v m)"
  by (simp add: gomap_ok_def distinct_update)

lemma gomap_ok_delete [simp, gomap_simps]: "gomap_ok m \<Longrightarrow> gomap_ok (AList.delete k m)"
  by (simp add: gomap_ok_def distinct_delete)

lemma gomap_get_update [simp, gomap_simps]:
  "map_of (AList.update k v m) k' = (if k' = k then Some v else map_of m k')"
  by (simp add: update_conv')

lemma gomap_get_delete [simp, gomap_simps]:
  "map_of (AList.delete k m) k' = (if k' = k then None else map_of m k')"
  by (simp add: delete_conv')

lemma gomap_in_iff: "gomap_ok m \<Longrightarrow> (k, v) \<in> set m \<longleftrightarrow> map_of m k = Some v"
  by (simp add: gomap_ok_def)

lemma gomap_entry_get: "gomap_ok m \<Longrightarrow> (k, v) \<in> set m \<Longrightarrow> map_of m k = Some v"
  by (simp add: gomap_ok_def)

lemma gomap_values_iff:
  assumes "gomap_ok m"
  shows "v \<in> snd ` set m \<longleftrightarrow> (\<exists>k. map_of m k = Some v)"
  using gomap_in_iff[OF assms] by force

lemma reorders_set: "reorders it \<Longrightarrow> set (it xs) = set xs"
  unfolding reorders_def by (metis set_mset_mset)

lemma reorders_length: "reorders it \<Longrightarrow> length (it xs) = length xs"
  unfolding reorders_def by (metis size_mset)

lemma reorders_distinct: "reorders it \<Longrightarrow> distinct xs \<Longrightarrow> distinct (it xs)"
  unfolding reorders_def by (metis mset_eq_imp_distinct_iff)

lemma reorders_id [simp]: "reorders (\<lambda>xs. xs)"
  by (simp add: reorders_def)

lemma reorders_rev [simp]: "reorders rev"
  by (simp add: reorders_def)

section \<open>Lists and options\<close>

lemma find_Some_iff_ex: "(\<exists>x. List.find P xs = Some x) \<longleftrightarrow> (\<exists>x \<in> set xs. P x)"
  by (induction xs) auto

lemma find_SomeD: "List.find P xs = Some x \<Longrightarrow> x \<in> set xs \<and> P x"
  by (induction xs) (auto split: if_splits)

lemma find_unique:
  assumes "\<And>y. y \<in> set xs \<Longrightarrow> P y \<Longrightarrow> y = x" and "x \<in> set xs" and "P x"
  shows "List.find P xs = Some x"
  using assms by (metis find_SomeD find_Some_iff_ex)

lemma sort_key_set [simp]: "set (sort_key f xs) = set xs"
  by simp

lemma filter_only:
  assumes "distinct zs" and "k \<in> set zs" and "\<And>x. x \<in> set zs \<Longrightarrow> P x = (x = k)"
  shows "filter P zs = [k]"
  using assms
proof (induction zs)
  case (Cons z zs)
  show ?case
  proof (cases "z = k")
    case True
    with Cons.prems have "filter P zs = []" by (auto simp: filter_empty_conv)
    with True Cons.prems show ?thesis by simp
  next
    case False
    with Cons show ?thesis by simp
  qed
qed simp

text \<open>
  Two rearrangements of a list whose keys are distinct sort to the same list: this is why the
  iteration order of a map cannot be seen in a sorted listing.
\<close>

lemma sort_key_rearranged:
  assumes "mset xs = mset ys" and "distinct (map f xs)"
  shows "sort_key f xs = sort_key f ys"
proof (rule properties_for_sort_key)
  show "mset (sort_key f ys) = mset xs" using assms(1) by simp
  show "sorted (map f (sort_key f ys))" by simp
  have inj: "inj_on f (set xs)" and dist: "distinct xs" using assms(2) by (simp_all add: distinct_map)
  have set_eq: "set ys = set xs" using assms(1) by (metis set_mset_mset)
  have "distinct ys" using dist assms(1) by (metis mset_eq_imp_distinct_iff)
  then have dist2: "distinct (sort_key f ys)" by simp
  show "filter (\<lambda>x. f k = f x) (sort_key f ys) = filter (\<lambda>x. f k = f x) xs"
    if k: "k \<in> set (sort_key f ys)" for k
  proof -
    from k set_eq have kx: "k \<in> set xs" by simp
    with inj have uniq: "\<And>x. x \<in> set xs \<Longrightarrow> (f k = f x) = (x = k)"
      by (auto dest: inj_onD)
    have "filter (\<lambda>x. f k = f x) (sort_key f ys) = [k]"
      by (rule filter_only[OF dist2 k]) (use uniq set_eq in auto)
    moreover have "filter (\<lambda>x. f k = f x) xs = [k]"
      by (rule filter_only[OF dist kx uniq])
    ultimately show ?thesis by simp
  qed
qed

section \<open>Invariants along runs\<close>

text \<open>
  A component whose operations are the steps of a relation, and a condition every step keeps. What
  can be concluded is about every state the component can get into.
\<close>

locale step_invariant =
  fixes step :: "'s \<Rightarrow> 's \<Rightarrow> bool"
    and inv :: "'s \<Rightarrow> bool"
  assumes step_inv: "inv s \<Longrightarrow> step s s' \<Longrightarrow> inv s'"
begin

lemma steps_inv: "step\<^sup>*\<^sup>* s s' \<Longrightarrow> inv s \<Longrightarrow> inv s'"
  by (induction rule: rtranclp_induct) (auto intro: step_inv)

end

section \<open>An allocator that is stable per key\<close>

text \<open>
  Two components hand out addresses: the server's IPAM (to devices and to service names) and the
  client's VIP table (to overlay addresses). Both promise the same three things: a key that has
  an address keeps it, a key that has none gets one nobody else holds, and nothing else changes.
\<close>

locale stable_allocator =
  fixes alloc :: "'s \<Rightarrow> 'k \<Rightarrow> 'a option \<times> 's"
    and held :: "'s \<Rightarrow> 'k \<Rightarrow> 'a option"
    and inv :: "'s \<Rightarrow> bool"
  assumes alloc_inv: "inv s \<Longrightarrow> inv (snd (alloc s k))"
    and alloc_known: "inv s \<Longrightarrow> held s k = Some x \<Longrightarrow> alloc s k = (Some x, s)"
    and alloc_new: "inv s \<Longrightarrow> held s k = None \<Longrightarrow> alloc s k = (Some x, s') \<Longrightarrow>
          held s' = (held s)(k \<mapsto> x) \<and> x \<notin> ran (held s)"
    and alloc_none: "inv s \<Longrightarrow> alloc s k = (None, s') \<Longrightarrow> held s' = held s"
begin

lemma alloc_held: "inv s \<Longrightarrow> alloc s k = (Some x, s') \<Longrightarrow> held s' k = Some x"
  by (cases "held s k") (auto simp: alloc_known dest: alloc_new)

lemma alloc_keeps:
  assumes "inv s" and "held s k = Some x"
  shows "held (snd (alloc s k')) k = Some x"
proof (cases "held s k'")
  case None
  obtain r s' where *: "alloc s k' = (r, s')" by fastforce
  show ?thesis
  proof (cases r)
    case None
    with alloc_none[OF assms(1)] * assms(2) show ?thesis by simp
  next
    case (Some y)
    with alloc_new[OF assms(1) None] * have "held s' = (held s)(k' \<mapsto> y)" by simp
    with * assms(2) None show ?thesis by auto
  qed
next
  case (Some y)
  from alloc_known[OF assms(1) this] assms(2) show ?thesis by simp
qed

definition held_inj :: "'s \<Rightarrow> bool" where
  "held_inj s \<longleftrightarrow> (\<forall>k k' x. held s k = Some x \<longrightarrow> held s k' = Some x \<longrightarrow> k = k')"

lemma alloc_inj:
  assumes "inv s" and "held_inj s"
  shows "held_inj (snd (alloc s k))"
proof (cases "held s k")
  case None
  obtain r s' where *: "alloc s k = (r, s')" by fastforce
  show ?thesis
  proof (cases r)
    case None
    with alloc_none[OF assms(1)] * assms(2) show ?thesis by (simp add: held_inj_def)
  next
    case (Some y)
    with alloc_new[OF assms(1) None] * have "held s' = (held s)(k \<mapsto> y)" "y \<notin> ran (held s)"
      by simp_all
    with * assms(2) show ?thesis by (auto simp: held_inj_def ran_def)
  qed
next
  case (Some y)
  from alloc_known[OF assms(1) this] assms(2) show ?thesis by simp
qed

definition alloc_all :: "'s \<Rightarrow> 'k list \<Rightarrow> 's" where
  "alloc_all s ks = foldl (\<lambda>s k. snd (alloc s k)) s ks"

lemma alloc_all_inv: "inv s \<Longrightarrow> inv (alloc_all s ks)"
  unfolding alloc_all_def by (induction ks arbitrary: s) (auto intro: alloc_inv)

lemma alloc_all_keeps: "inv s \<Longrightarrow> held s k = Some x \<Longrightarrow> held (alloc_all s ks) k = Some x"
  unfolding alloc_all_def by (induction ks arbitrary: s) (auto intro: alloc_inv alloc_keeps)

lemma alloc_all_inj: "inv s \<Longrightarrow> held_inj s \<Longrightarrow> held_inj (alloc_all s ks)"
  unfolding alloc_all_def by (induction ks arbitrary: s) (auto intro: alloc_inv alloc_inj)

text \<open>Asking again, after any number of other requests, answers the same address.\<close>

lemma alloc_stable:
  assumes "inv s" and "alloc s k = (Some x, s')"
  shows "alloc (alloc_all s' ks) k = (Some x, alloc_all s' ks)"
proof -
  have "inv s'" using alloc_inv[OF assms(1), of k] assms(2) by simp
  moreover from assms have "held s' k = Some x" by (rule alloc_held)
  ultimately show ?thesis by (intro alloc_known alloc_all_inv alloc_all_keeps)
qed

text \<open>Two keys never get the same address, whatever is requested in between.\<close>

lemma alloc_distinct:
  assumes "inv s" and "held_inj s" and "alloc s k = (Some x, s1)"
    and "alloc (alloc_all s1 ks) k' = (Some y, s2)" and "k \<noteq> k'"
  shows "x \<noteq> y"
proof -
  have i1: "inv s1" "held_inj s1"
    using alloc_inv[OF assms(1), of k] alloc_inj[OF assms(1,2), of k] assms(3) by simp_all
  then have i2: "inv (alloc_all s1 ks)" "held_inj (alloc_all s1 ks)"
    by (auto intro: alloc_all_inv alloc_all_inj)
  have hk: "held (alloc_all s1 ks) k = Some x"
    using i1(1) alloc_held[OF assms(1,3)] by (rule alloc_all_keeps)
  have "held s2 k = Some x"
    using alloc_keeps[OF i2(1) hk, of k'] assms(4) by simp
  moreover have "held s2 k' = Some y" using i2(1) assms(4) by (rule alloc_held)
  moreover have "held_inj s2" using alloc_inj[OF i2, of k'] assms(4) by simp
  ultimately show ?thesis using assms(5) unfolding held_inj_def by blast
qed

end

end
