(* ===== verification/GoStrings.thy ===== *)
theory GoStrings
  imports Prelude
begin

text \<open>
  The functions of Go's \<open>strings\<close>, \<open>strconv\<close> and \<open>fmt\<close> packages that the program uses. A Go
  string is a sequence of bytes and so is a \<open>string\<close> here. Case mapping and white space are those
  of the ASCII range: the group names, host labels, aliases and addresses the program compares
  are ASCII, and a byte above 127 is left as it is.
\<close>

section \<open>Characters\<close>

definition lower_char :: "char \<Rightarrow> char" where
  "lower_char c = (if CHR ''A'' \<le> c \<and> c \<le> CHR ''Z'' then char_of (of_char c + (32::nat)) else c)"

definition is_space :: "char \<Rightarrow> bool" where
  "is_space c \<longleftrightarrow> c = CHR '' '' \<or> (CHR 0x09 \<le> c \<and> c \<le> CHR 0x0D)"

definition is_digit :: "char \<Rightarrow> bool" where
  "is_digit c \<longleftrightarrow> CHR ''0'' \<le> c \<and> c \<le> CHR ''9''"

definition is_lower_alnum :: "char \<Rightarrow> bool" where
  "is_lower_alnum c \<longleftrightarrow> (CHR ''a'' \<le> c \<and> c \<le> CHR ''z'') \<or> is_digit c"

lemma char_eq_nat: "c = d \<longleftrightarrow> (of_char c :: nat) = of_char d"
  by simp

lemma char_le_nat: "c \<le> d \<longleftrightarrow> (of_char c :: nat) \<le> of_char d"
  by (simp add: less_eq_char_def)

lemma of_char_bound: "(of_char c :: nat) < 256"
  by simp

lemma lower_char_nat:
  "(of_char (lower_char c) :: nat) =
     (if 65 \<le> (of_char c :: nat) \<and> (of_char c :: nat) \<le> 90 then of_char c + 32 else of_char c)"
  by (simp add: lower_char_def char_le_nat)

lemma is_space_nat:
  "is_space c \<longleftrightarrow> (of_char c :: nat) = 32 \<or> (9 \<le> (of_char c :: nat) \<and> (of_char c :: nat) \<le> 13)"
  using char_eq_nat[of c "CHR '' ''"] by (simp add: is_space_def char_le_nat)

lemma is_digit_nat: "is_digit c \<longleftrightarrow> 48 \<le> (of_char c :: nat) \<and> (of_char c :: nat) \<le> 57"
  by (simp add: is_digit_def char_le_nat)

lemma is_lower_alnum_nat:
  "is_lower_alnum c \<longleftrightarrow> (97 \<le> (of_char c :: nat) \<and> (of_char c :: nat) \<le> 122) \<or>
     (48 \<le> (of_char c :: nat) \<and> (of_char c :: nat) \<le> 57)"
  by (simp add: is_lower_alnum_def is_digit_nat char_le_nat)

lemma lower_char_idem [simp]: "lower_char (lower_char c) = lower_char c"
  by (subst char_eq_nat) (simp add: lower_char_nat)

lemma is_space_lower [simp]: "is_space (lower_char c) = is_space c"
  by (auto simp: is_space_nat lower_char_nat)

lemma lower_char_alnum: "is_lower_alnum c \<Longrightarrow> lower_char c = c"
  by (subst char_eq_nat) (auto simp: lower_char_nat is_lower_alnum_nat)

section \<open>Case and trimming\<close>

definition to_lower :: "string \<Rightarrow> string" where
  "to_lower s = map lower_char s"

definition equal_fold :: "string \<Rightarrow> string \<Rightarrow> bool" where
  "equal_fold s t \<longleftrightarrow> to_lower s = to_lower t"

definition trim_left_by :: "(char \<Rightarrow> bool) \<Rightarrow> string \<Rightarrow> string" where
  "trim_left_by P s = dropWhile P s"

definition trim_right_by :: "(char \<Rightarrow> bool) \<Rightarrow> string \<Rightarrow> string" where
  "trim_right_by P s = rev (dropWhile P (rev s))"

definition trim_by :: "(char \<Rightarrow> bool) \<Rightarrow> string \<Rightarrow> string" where
  "trim_by P s = trim_right_by P (trim_left_by P s)"

definition trim_space :: "string \<Rightarrow> string" where
  "trim_space s = trim_by is_space s"

definition trim_dots :: "string \<Rightarrow> string" where
  "trim_dots s = trim_by (\<lambda>c. c = CHR ''.'') s"

lemma to_lower_Nil [simp]: "to_lower [] = []" and to_lower_eq_Nil [simp]: "to_lower s = [] \<longleftrightarrow> s = []"
  by (simp_all add: to_lower_def)

lemma to_lower_idem [simp]: "to_lower (to_lower s) = to_lower s"
  by (simp add: to_lower_def)

lemma length_to_lower [simp]: "length (to_lower s) = length s"
  by (simp add: to_lower_def)

lemma to_lower_append [simp]: "to_lower (s @ t) = to_lower s @ to_lower t"
  by (simp add: to_lower_def)

lemma dropWhile_map_lower:
  assumes "\<And>c. P (lower_char c) = P c"
  shows "dropWhile P (map lower_char s) = map lower_char (dropWhile P s)"
  using assms by (induction s) auto

lemma trim_by_lower:
  assumes "\<And>c. P (lower_char c) = P c"
  shows "trim_by P (to_lower s) = to_lower (trim_by P s)"
  using dropWhile_map_lower[of P, OF assms]
  by (simp add: trim_by_def trim_left_by_def trim_right_by_def to_lower_def rev_map)

lemma trim_space_lower: "trim_space (to_lower s) = to_lower (trim_space s)"
  unfolding trim_space_def by (rule trim_by_lower) simp

lemma trim_dots_lower: "trim_dots (to_lower s) = to_lower (trim_dots s)"
  unfolding trim_dots_def
proof (rule trim_by_lower)
  fix c
  show "(lower_char c = CHR ''.'') = (c = CHR ''.'')"
    using char_eq_nat[of "lower_char c" "CHR ''.''"] char_eq_nat[of c "CHR ''.''"]
    by (auto simp: lower_char_nat)
qed

text \<open>A trimmed string neither starts nor ends with what was trimmed.\<close>

lemma trim_by_ends:
  assumes "trim_by P s \<noteq> []"
  shows "\<not> P (hd (trim_by P s)) \<and> \<not> P (last (trim_by P s))"
proof -
  let ?l = "dropWhile P s" and ?t = "rev (dropWhile P (rev (dropWhile P s)))"
  have t: "trim_by P s = ?t" by (simp add: trim_by_def trim_left_by_def trim_right_by_def)
  with assms have ne: "dropWhile P (rev ?l) \<noteq> []" by simp
  then have l: "last ?t = hd (dropWhile P (rev ?l))" by (simp add: last_rev)
  have "\<not> P (hd (dropWhile P (rev ?l)))" using ne by (rule hd_dropWhile)
  moreover have "\<not> P (hd ?t)"
  proof -
    have eq: "?l = ?t @ rev (takeWhile P (rev ?l))"
      by (metis rev_append rev_rev_ident takeWhile_dropWhile_id)
    have "?l \<noteq> []" using ne by (metis dropWhile.simps(1) rev.simps(1))
    then have "\<not> P (hd ?l)" by (rule hd_dropWhile)
    moreover have "hd ?l = hd ?t" using eq ne by (metis hd_append2 rev_is_Nil_conv)
    ultimately show ?thesis by simp
  qed
  ultimately show ?thesis using t l by simp
qed

lemma dropWhile_hd: "xs = [] \<or> \<not> P (hd xs) \<Longrightarrow> dropWhile P xs = xs"
  by (cases xs) auto

lemma trim_by_fixed:
  "s = [] \<or> (\<not> P (hd s) \<and> \<not> P (last s)) \<Longrightarrow> trim_by P s = s"
  by (auto simp: trim_by_def trim_left_by_def trim_right_by_def dropWhile_hd hd_rev)

lemma trim_by_idem [simp]: "trim_by P (trim_by P s) = trim_by P s"
  using trim_by_ends[of P s] by (intro trim_by_fixed) auto

lemma trim_space_idem [simp]: "trim_space (trim_space s) = trim_space s"
  by (simp add: trim_space_def)

lemma trim_by_subset: "set (trim_by P s) \<subseteq> set s"
  unfolding trim_by_def trim_left_by_def trim_right_by_def
  by (auto dest!: set_dropWhileD)

lemma trim_by_none: "(\<And>c. c \<in> set s \<Longrightarrow> \<not> P c) \<Longrightarrow> trim_by P s = s"
  by (rule trim_by_fixed) (cases s; auto)

lemma trim_space_Nil [simp]: "trim_space [] = []"
  by (simp add: trim_space_def trim_by_def trim_left_by_def trim_right_by_def)

section \<open>Searching and cutting\<close>

definition has_prefix :: "string \<Rightarrow> string \<Rightarrow> bool" where
  "has_prefix s p \<longleftrightarrow> length p \<le> length s \<and> take (length p) s = p"

definition has_suffix :: "string \<Rightarrow> string \<Rightarrow> bool" where
  "has_suffix s p \<longleftrightarrow> length p \<le> length s \<and> drop (length s - length p) s = p"

definition trim_prefix :: "string \<Rightarrow> string \<Rightarrow> string" where
  "trim_prefix s p = (if has_prefix s p then drop (length p) s else s)"

definition trim_suffix :: "string \<Rightarrow> string \<Rightarrow> string" where
  "trim_suffix s p = (if has_suffix s p then take (length s - length p) s else s)"

fun str_contains :: "string \<Rightarrow> string \<Rightarrow> bool" where
  "str_contains [] sub = (sub = [])"
| "str_contains (c # cs) sub = (has_prefix (c # cs) sub \<or> str_contains cs sub)"

text \<open>\<open>strings.Cut\<close>: what comes before and after the first occurrence of the separator.\<close>

fun cut :: "string \<Rightarrow> string \<Rightarrow> (string \<times> string) option" where
  "cut [] sep = (if sep = [] then Some ([], []) else None)"
| "cut (c # cs) sep =
     (if has_prefix (c # cs) sep then Some ([], drop (length sep) (c # cs))
      else map_option (\<lambda>(a, b). (c # a, b)) (cut cs sep))"

text \<open>\<open>strings.LastIndexByte\<close>: the text before and after the last occurrence of a byte.\<close>

fun cut_last :: "string \<Rightarrow> char \<Rightarrow> (string \<times> string) option" where
  "cut_last [] x = None"
| "cut_last (c # cs) x =
     (case cut_last cs x of
        Some (a, b) \<Rightarrow> Some (c # a, b)
      | None \<Rightarrow> if c = x then Some ([], cs) else None)"

fun split_on :: "char \<Rightarrow> string \<Rightarrow> string list" where
  "split_on x [] = [[]]"
| "split_on x (c # cs) =
     (if c = x then [] # split_on x cs
      else case split_on x cs of [] \<Rightarrow> [[c]] | p # ps \<Rightarrow> (c # p) # ps)"

fun join_with :: "string \<Rightarrow> string list \<Rightarrow> string" where
  "join_with sep [] = []"
| "join_with sep [p] = p"
| "join_with sep (p # q # ps) = p @ sep @ join_with sep (q # ps)"

definition replace_quote :: "string \<Rightarrow> string" where
  "replace_quote s = concat (map (\<lambda>c. if c = CHR 0x27 then [CHR 0x27, CHR 0x27] else [c]) s)"

lemma has_prefix_append [simp]: "has_prefix (p @ s) p"
  by (simp add: has_prefix_def)

lemma has_suffix_append [simp]: "has_suffix (s @ p) p"
  by (simp add: has_suffix_def)

lemma has_prefix_iff: "has_prefix s p \<longleftrightarrow> (\<exists>t. s = p @ t)"
  unfolding has_prefix_def by (metis append_eq_conv_conj append_take_drop_id le_add1 length_append)

lemma has_suffix_iff: "has_suffix s p \<longleftrightarrow> (\<exists>t. s = t @ p)"
  unfolding has_suffix_def
  by (metis add_diff_cancel_right' append_eq_conv_conj append_take_drop_id le_add2 length_append)

lemma trim_prefix_append [simp]: "trim_prefix (p @ s) p = s"
  by (simp add: trim_prefix_def)

lemma trim_suffix_append [simp]: "trim_suffix (s @ p) p = s"
  by (simp add: trim_suffix_def)

lemma cut_Some: "cut s sep = Some (a, b) \<Longrightarrow> s = a @ sep @ b"
proof (induction s arbitrary: a b)
  case (Cons c cs)
  then show ?case by (auto simp: has_prefix_iff split: if_splits)
qed (auto split: if_splits)

lemma cut_first:
  assumes "x \<notin> set a"
  shows "cut (a @ x # b) [x] = Some (a, b)"
  using assms by (induction a) (auto simp: has_prefix_def)

lemma str_contains_prefix: "has_prefix s sub \<Longrightarrow> str_contains s sub"
  by (cases s) (auto simp: has_prefix_def)

lemma str_contains_middle: "str_contains (a @ sub @ b) sub"
  by (induction a) (simp_all add: str_contains_prefix)

lemma cut_None_char: "cut s [x] = None \<longleftrightarrow> x \<notin> set s"
  by (induction s) (auto simp: has_prefix_def)

lemma cut_last_Some: "cut_last s x = Some (a, b) \<Longrightarrow> s = a @ x # b \<and> x \<notin> set b"
proof (induction s arbitrary: a b)
  case (Cons c cs)
  have none: "cut_last t x = None \<longleftrightarrow> x \<notin> set t" for t
    by (induction t) (auto split: option.splits)
  from Cons show ?case by (auto simp: none split: option.splits if_splits)
qed simp

lemma cut_last_None: "cut_last s x = None \<longleftrightarrow> x \<notin> set s"
  by (induction s) (auto split: option.splits)

lemma cut_last_append: "x \<notin> set b \<Longrightarrow> cut_last (a @ x # b) x = Some (a, b)"
proof (induction a)
  case Nil
  then have "cut_last b x = None" by (simp add: cut_last_None)
  then show ?case by simp
qed auto

lemma split_on_nonempty [simp]: "split_on x s \<noteq> []"
  by (induction s) (auto split: list.splits)

lemma split_on_no_sep: "p \<in> set (split_on x s) \<Longrightarrow> x \<notin> set p"
proof (induction s arbitrary: p)
  case (Cons c cs)
  then show ?case by (cases "split_on x cs") (auto split: if_splits)
qed simp

lemma split_on_absent: "x \<notin> set s \<Longrightarrow> split_on x s = [s]"
  by (induction s) auto

lemma split_on_append: "x \<notin> set p \<Longrightarrow> split_on x (p @ x # s) = p # split_on x s"
  by (induction p) auto

lemma split_join:
  "ps \<noteq> [] \<Longrightarrow> (\<And>p. p \<in> set ps \<Longrightarrow> x \<notin> set p) \<Longrightarrow> split_on x (join_with [x] ps) = ps"
  by (induction "[x]" ps rule: join_with.induct) (auto simp: split_on_absent split_on_append)

lemma join_split: "join_with [x] (split_on x s) = s"
proof (induction s)
  case (Cons c cs)
  show ?case
  proof (cases "split_on x cs")
    case (Cons p ps)
    with Cons.IH show ?thesis by (cases ps) auto
  qed simp
qed simp

section \<open>Decimal numbers\<close>

fun digit_char :: "nat \<Rightarrow> char" where
  "digit_char n = char_of (48 + n)"

fun nat_str :: "nat \<Rightarrow> string" where
  "nat_str n = (if n < 10 then [digit_char n] else nat_str (n div 10) @ [digit_char (n mod 10)])"

declare nat_str.simps [simp del]

definition int_str :: "int \<Rightarrow> string" where
  "int_str i = (if i < 0 then ''-'' @ nat_str (nat (- i)) else nat_str (nat i))"

definition digit_val :: "char \<Rightarrow> nat" where
  "digit_val c = of_char c - 48"

text \<open>The digits of a decimal numeral, or \<open>None\<close> where a character is not a digit.\<close>

definition parse_digits :: "string \<Rightarrow> nat option" where
  "parse_digits s =
     (if s \<noteq> [] \<and> list_all is_digit s then Some (foldl (\<lambda>n c. n * 10 + digit_val c) 0 s) else None)"

lemma digit_char_nat: "n < 10 \<Longrightarrow> (of_char (digit_char n) :: nat) = 48 + n"
  by simp

lemma is_digit_digit_char: "n < 10 \<Longrightarrow> is_digit (digit_char n)"
  by (simp add: is_digit_nat)

lemma digit_val_digit_char [simp]: "n < 10 \<Longrightarrow> digit_val (digit_char n) = n"
  by (simp add: digit_val_def)

lemma nat_str_digits: "list_all is_digit (nat_str n)"
proof (induction n rule: nat_str.induct)
  case (1 n)
  then show ?case
    by (subst nat_str.simps) (auto simp: is_digit_digit_char simp del: digit_char.simps)
qed

lemma nat_str_nonempty [simp]: "nat_str n \<noteq> []"
  by (subst nat_str.simps) simp

lemma nat_str_value: "foldl (\<lambda>n c. n * 10 + digit_val c) 0 (nat_str n) = n"
proof (induction n rule: nat_str.induct)
  case (1 n)
  show ?case
  proof (cases "n < 10")
    case True
    then show ?thesis by (subst nat_str.simps) (simp del: digit_char.simps)
  next
    case False
    with "1.IH" show ?thesis by (subst nat_str.simps) (simp del: digit_char.simps)
  qed
qed

lemma parse_nat_str [simp]: "parse_digits (nat_str n) = Some n"
  by (simp add: parse_digits_def nat_str_digits nat_str_value)

lemma nat_str_inj [simp]: "nat_str m = nat_str n \<longleftrightarrow> m = n"
  by (metis nat_str_value)

lemma nat_str_no_char: "\<not> is_digit c \<Longrightarrow> c \<notin> set (nat_str n)"
  using nat_str_digits[of n] by (auto simp: list_all_iff)

lemma nat_str_hd: "10 \<le> n \<Longrightarrow> hd (nat_str n) \<noteq> CHR ''0''"
proof (induction n rule: nat_str.induct)
  case (1 n)
  have hd_eq: "hd (nat_str n) = hd (nat_str (n div 10))"
    using 1 by (subst nat_str.simps) simp
  show ?case
  proof (cases "n div 10 < 10")
    case True
    then have "hd (nat_str (n div 10)) = digit_char (n div 10)" by (subst nat_str.simps) simp
    moreover have "0 < n div 10" using 1 by simp
    ultimately show ?thesis
      using hd_eq True char_eq_nat[of "digit_char (n div 10)" "CHR ''0''"] by simp
  next
    case False
    with 1 show ?thesis by (simp add: hd_eq)
  qed
qed

end
