(* ===== verification/NetAddr.thy ===== *)
theory NetAddr
  imports GoStrings
begin

text \<open>
  Go's \<open>net/netip\<close> addresses and prefixes and the parts of \<open>net\<close> that take host:port strings
  apart, as far as the program uses them. An IPv4 address is a 32-bit word; an IPv6 address is a
  128-bit word with its zone. The invalid zero address is a value of its own.
\<close>

section \<open>Addresses\<close>

datatype addr = AddrZero | V4 u32 | V6 "128 word" string

datatype prefix = NoPrefix | Prefix addr nat

fun addr_is4 :: "addr \<Rightarrow> bool" where
  "addr_is4 (V4 _) = True"
| "addr_is4 _ = False"

fun addr_bits :: "addr \<Rightarrow> nat" where
  "addr_bits AddrZero = 0"
| "addr_bits (V4 _) = 32"
| "addr_bits (V6 _ _) = 128"

fun addr_unmap :: "addr \<Rightarrow> addr" where
  "addr_unmap (V6 a z) = (if drop_bit 32 a = 0xffff then V4 (ucast a) else V6 a z)"
| "addr_unmap a = a"

text \<open>\<open>As4\<close> panics on an address that is neither IPv4 nor IPv4-mapped: \<open>None\<close> is the panic.\<close>

fun addr_as4 :: "addr \<Rightarrow> u32 option" where
  "addr_as4 (V4 a) = Some a"
| "addr_as4 (V6 a z) = (if drop_bit 32 a = 0xffff then Some (ucast a) else None)"
| "addr_as4 AddrZero = None"

fun addr_next :: "addr \<Rightarrow> addr" where
  "addr_next (V4 a) = (if a = 0xffffffff then AddrZero else V4 (a + 1))"
| "addr_next (V6 a z) = (if a = - 1 then AddrZero else V6 (a + 1) z)"
| "addr_next AddrZero = AddrZero"

section \<open>Prefixes\<close>

fun prefix_addr :: "prefix \<Rightarrow> addr" where
  "prefix_addr NoPrefix = AddrZero"
| "prefix_addr (Prefix a _) = a"

fun prefix_bits :: "prefix \<Rightarrow> int" where
  "prefix_bits NoPrefix = -1"
| "prefix_bits (Prefix _ b) = int b"

definition prefix_valid :: "prefix \<Rightarrow> bool" where
  "prefix_valid p \<longleftrightarrow> p \<noteq> NoPrefix"

fun prefix_from :: "addr \<Rightarrow> nat \<Rightarrow> prefix" where
  "prefix_from AddrZero b = NoPrefix"
| "prefix_from (V4 a) b = (if b \<le> 32 then Prefix (V4 a) b else NoPrefix)"
| "prefix_from (V6 a z) b = (if b \<le> 128 then Prefix (V6 a []) b else NoPrefix)"

definition mask4 :: "u32 \<Rightarrow> nat \<Rightarrow> u32" where
  "mask4 a b = a AND NOT (mask (32 - b))"

fun prefix_masked :: "prefix \<Rightarrow> prefix" where
  "prefix_masked (Prefix (V4 a) b) = Prefix (V4 (mask4 a b)) b"
| "prefix_masked (Prefix (V6 a z) b) = Prefix (V6 (a AND NOT (mask (128 - b))) z) b"
| "prefix_masked _ = NoPrefix"

fun prefix_contains :: "prefix \<Rightarrow> addr \<Rightarrow> bool" where
  "prefix_contains (Prefix (V4 p) b) (V4 a) = (drop_bit (32 - b) (a XOR p) = 0)"
| "prefix_contains (Prefix (V6 p _) b) (V6 a z) = (z = [] \<and> drop_bit (128 - b) (a XOR p) = 0)"
| "prefix_contains _ _ = False"

fun prefix_overlaps :: "prefix \<Rightarrow> prefix \<Rightarrow> bool" where
  "prefix_overlaps (Prefix a b) (Prefix c d) =
     (Prefix a b = Prefix c d \<or>
      (addr_bits a = addr_bits c \<and>
       (min b d = 0 \<or>
        prefix_masked (Prefix a (min b d)) = prefix_masked (Prefix c (min b d)))))"
| "prefix_overlaps _ _ = False"

text \<open>
  A masked IPv4 prefix covers an interval of numbers: from its base, \<open>2 ^ (32 - bits)\<close> of them.
\<close>

definition v4_block :: "u32 \<Rightarrow> nat \<Rightarrow> bool" where
  "v4_block base b \<longleftrightarrow> b \<le> 32 \<and> unat base mod 2 ^ (32 - b) = 0"

lemma unat32_bound [simp]: "unat (a :: u32) < 4294967296"
proof -
  have "unat a < 2 ^ LENGTH(32)" by (rule unsigned_less)
  then show ?thesis by simp
qed

lemma xor_eq_0_word: "x XOR y = 0 \<longleftrightarrow> x = (y :: 'a::len word)"
  by (auto simp: bit_eq_iff bit_simps)

lemma drop_bit_eq_unat:
  "drop_bit n a = drop_bit n p \<longleftrightarrow> unat a div 2 ^ n = unat (p :: 'a::len word) div 2 ^ n"
  by (simp only: word_unat_eq_iff unat_drop_bit_eq) (simp add: drop_bit_eq_div)

lemma prefix_contains_v4:
  "prefix_contains (Prefix (V4 p) b) (V4 a) \<longleftrightarrow> unat a div 2 ^ (32 - b) = unat p div 2 ^ (32 - b)"
  by (simp add: drop_bit_xor xor_eq_0_word drop_bit_eq_unat)

lemma div_block:
  fixes m :: nat
  assumes "0 < m" and "p mod m = 0"
  shows "a div m = p div m \<longleftrightarrow> p \<le> a \<and> a < p + m"
proof
  have p: "p = m * (p div m)" using assms(2) by auto
  have a: "m * (a div m) \<le> a" "a < m * (a div m) + m"
    using assms(1) mod_less_divisor[of m a] mult_div_mod_eq[of m a] by linarith+
  show "a div m = p div m \<Longrightarrow> p \<le> a \<and> a < p + m" using a p by simp
  assume "p \<le> a \<and> a < p + m"
  then show "a div m = p div m"
    using p by (intro div_nat_eqI) (simp_all add: algebra_simps)
qed

lemma prefix_contains_block:
  assumes "v4_block p b"
  shows "prefix_contains (Prefix (V4 p) b) (V4 a) \<longleftrightarrow>
    unat p \<le> unat a \<and> unat a < unat p + 2 ^ (32 - b)"
  using assms unfolding prefix_contains_v4 v4_block_def by (intro div_block) auto

lemma prefix_contains_v4D: "prefix_contains (Prefix (V4 p) b) a \<Longrightarrow> \<exists>x. a = V4 x"
  by (cases a) auto

lemma mask4_unat: "unat (mask4 a b) = unat a - unat a mod 2 ^ (32 - b)"
proof -
  have "mask4 a b = a - take_bit (32 - b) a"
  proof -
    have "a - take_bit (32 - b) a = a AND NOT (take_bit (32 - b) a)"
      by (rule disjunctive_diff) (simp add: bit_simps)
    then show ?thesis unfolding mask4_def by (auto simp: bit_eq_iff bit_simps)
  qed
  moreover have t: "unat (take_bit (32 - b) a) = unat a mod 2 ^ (32 - b)"
    by (simp only: unsigned_take_bit_eq) (simp add: take_bit_eq_mod)
  moreover have "take_bit (32 - b) a \<le> a"
    unfolding word_le_nat_alt t by simp
  ultimately show ?thesis by (simp add: unat_sub)
qed

lemma mask4_block: "b \<le> 32 \<Longrightarrow> v4_block (mask4 a b) b"
  by (simp add: v4_block_def mask4_unat minus_mod_eq_mult_div)

lemma mask4_block_id: "v4_block a b \<Longrightarrow> mask4 a b = a"
  by (rule word_unat_eq_iff[THEN iffD2]) (simp add: mask4_unat v4_block_def)

lemma v4_block_bound:
  assumes "v4_block p b"
  shows "unat p + 2 ^ (32 - b) \<le> 2 ^ 32"
proof -
  from assms have b: "b \<le> 32" and m: "unat p mod 2 ^ (32 - b) = 0" by (simp_all add: v4_block_def)
  then obtain k where k: "unat p = k * 2 ^ (32 - b)" by auto
  have pow: "(2::nat) ^ 32 = 2 ^ b * 2 ^ (32 - b)" using b by (simp flip: power_add)
  have "unat p < 2 ^ 32" using unat32_bound[of p] by simp
  then have "k < 2 ^ b" unfolding k pow by simp
  then have "Suc k \<le> 2 ^ b" by simp
  then have "Suc k * 2 ^ (32 - b) \<le> 2 ^ b * 2 ^ (32 - b)" by (rule mult_le_mono1)
  then show ?thesis unfolding k pow by simp
qed

lemma unat_succ32: "(x :: u32) \<noteq> 0xffffffff \<Longrightarrow> unat (x + 1) = unat x + 1"
proof -
  assume "x \<noteq> 0xffffffff"
  then have "unat x \<noteq> unat (0xffffffff :: u32)" by (simp only: word_unat_eq_iff not_False_eq_True)
  then have "unat x \<noteq> 4294967295" by simp
  with unat32_bound[of x] have "Suc (unat x) < 4294967296" by linarith
  then show ?thesis by (simp add: unat_word_ariths)
qed

lemma unat_of_nat32: "n < 2 ^ 32 \<Longrightarrow> unat (of_nat n :: u32) = n"
  by (simp add: unat_of_nat)

section \<open>Addresses as text\<close>

fun octets :: "u32 \<Rightarrow> nat list" where
  "octets a = [unat (drop_bit 24 a), unat (drop_bit 16 a) mod 256, unat (drop_bit 8 a) mod 256,
               unat a mod 256]"

definition of_octets :: "nat list \<Rightarrow> u32" where
  "of_octets os = of_nat (foldl (\<lambda>n k. n * 256 + k) 0 os)"

definition string4 :: "u32 \<Rightarrow> string" where
  "string4 a = join_with ''.'' (map nat_str (octets a))"

text \<open>One field of a dotted address: digits, no leading zero, at most 255.\<close>

definition parse_octet :: "string \<Rightarrow> nat option" where
  "parse_octet f =
     (case parse_digits f of
        None \<Rightarrow> None
      | Some n \<Rightarrow> if (length f > 1 \<and> hd f = CHR ''0'') \<or> n > 255 then None else Some n)"

fun opt_all :: "'a option list \<Rightarrow> 'a list option" where
  "opt_all [] = Some []"
| "opt_all (None # xs) = None"
| "opt_all (Some x # xs) = map_option ((#) x) (opt_all xs)"

definition parse_ipv4 :: "string \<Rightarrow> u32 option" where
  "parse_ipv4 s =
     (let fs = split_on CHR ''.'' s in
      if length fs = 4 then map_option of_octets (opt_all (map parse_octet fs)) else None)"

lemma octets_bound: "n \<in> set (octets a) \<Longrightarrow> n < 256"
proof -
  have "unat (drop_bit 24 a) < 256"
    using unat32_bound[of a] unfolding unat_drop_bit_eq
    by (simp add: drop_bit_eq_div less_mult_imp_div_less)
  then show "n \<in> set (octets a) \<Longrightarrow> n < 256" by auto
qed

lemma base256_digits:
  "16777216 * (n div 16777216) + 65536 * (n div 65536 mod 256) + n div 256 mod 256 * 256 + n mod 256
     = (n :: nat)"
proof -
  define q1 q2 q3 where q: "q1 = n div 256" "q2 = q1 div 256" "q3 = q2 div 256"
  define r0 r1 r2 where r: "r0 = n mod 256" "r1 = q1 mod 256" "r2 = q2 mod 256"
  have d: "n div 65536 = q2" "n div 16777216 = q3" unfolding q by (simp_all flip: div_mult2_eq)
  have "n = 256 * q1 + r0" "q1 = 256 * q2 + r1" "q2 = 256 * q3 + r2"
    unfolding q r by simp_all
  then have "16777216 * q3 + 65536 * r2 + r1 * 256 + r0 = n" by linarith
  then show ?thesis unfolding d by (simp only: q(1)[symmetric] r[symmetric])
qed

lemma of_octets_octets [simp]: "of_octets (octets a) = a"
proof -
  let ?n = "unat a"
  have d: "unat (drop_bit k a) = ?n div 2 ^ k" for k
    by (simp only: unat_drop_bit_eq) (simp add: drop_bit_eq_div)
  have "foldl (\<lambda>n k. n * 256 + k) 0 (octets a) = ?n"
    unfolding octets.simps d using base256_digits[of ?n] by simp
  then show ?thesis by (simp add: of_octets_def del: octets.simps)
qed

lemma parse_octet_nat_str: "n < 256 \<Longrightarrow> parse_octet (nat_str n) = Some n"
  by (cases "n < 10") (auto simp: parse_octet_def nat_str_hd, simp add: nat_str.simps)

lemma opt_all_map_Some: "(\<And>x. x \<in> set xs \<Longrightarrow> f x = Some (g x)) \<Longrightarrow> opt_all (map f xs) = Some (map g xs)"
  by (induction xs) auto

lemma parse_string4 [simp]: "parse_ipv4 (string4 a) = Some a"
proof -
  have dot: "p \<in> set (map nat_str (octets a)) \<Longrightarrow> CHR ''.'' \<notin> set p" for p
    using nat_str_no_char[of "CHR ''.''"] by (auto simp: is_digit_def less_eq_char_def)
  have "split_on CHR ''.'' (string4 a) = map nat_str (octets a)"
    unfolding string4_def by (rule split_join) (use dot in auto)
  moreover have "opt_all (map parse_octet (map nat_str (octets a))) = Some (octets a)"
    unfolding map_map
    by (subst opt_all_map_Some[where g = "\<lambda>x. x"]) (auto simp: parse_octet_nat_str dest: octets_bound simp del: octets.simps)
  ultimately show ?thesis by (simp add: parse_ipv4_def del: octets.simps) simp
qed

lemma string4_inj [simp]: "string4 a = string4 b \<longleftrightarrow> a = b"
  by (metis option.inject parse_string4)

subsection \<open>IPv6 text\<close>

definition is_hex :: "char \<Rightarrow> bool" where
  "is_hex c \<longleftrightarrow> is_digit c \<or> (CHR ''a'' \<le> c \<and> c \<le> CHR ''f'') \<or> (CHR ''A'' \<le> c \<and> c \<le> CHR ''F'')"

definition hex_digit_val :: "char \<Rightarrow> nat" where
  "hex_digit_val c = (if is_digit c then of_char c - 48 else of_char (lower_char c) - 87)"

definition hex_val :: "string \<Rightarrow> nat" where
  "hex_val s = foldl (\<lambda>n c. n * 16 + hex_digit_val c) 0 s"

text \<open>
  The loop of \<open>netip.parseIPv6\<close> over the 16-bit groups: \<open>n\<close> groups are still free, \<open>gs\<close> were read,
  \<open>e\<close> is where an ellipsis stood.
\<close>

fun parse6_loop :: "nat \<Rightarrow> string \<Rightarrow> nat list \<Rightarrow> nat option \<Rightarrow> (nat list \<times> nat option) option" where
  "parse6_loop 0 s gs e = (if s = [] then Some (gs, e) else None)"
| "parse6_loop (Suc n) s gs e =
     (let h = takeWhile is_hex s; r = dropWhile is_hex s in
      if h = [] \<or> length h > 4 then None
      else case r of
        [] \<Rightarrow> Some (gs @ [hex_val h], e)
      | c # r' \<Rightarrow>
          if c = CHR ''.'' then
            (if (e = None \<and> length gs \<noteq> 6) \<or> length gs + 2 > 8 then None
             else case parse_ipv4 s of
                    None \<Rightarrow> None
                  | Some a \<Rightarrow> Some (gs @ [unat (drop_bit 16 a), unat a mod 65536], e))
          else if c \<noteq> CHR '':'' \<or> r' = [] then None
          else if hd r' = CHR '':'' then
            (if e \<noteq> None then None
             else if tl r' = [] then Some (gs @ [hex_val h], Some (length gs + 1))
             else parse6_loop n (tl r') (gs @ [hex_val h]) (Some (length gs + 1)))
          else parse6_loop n r' (gs @ [hex_val h]) e)"

definition of_groups :: "nat list \<Rightarrow> 128 word" where
  "of_groups gs = of_nat (foldl (\<lambda>n k. n * 65536 + k) 0 gs)"

definition parse6_finish :: "(nat list \<times> nat option) option \<Rightarrow> 128 word option" where
  "parse6_finish r =
     (case r of
        None \<Rightarrow> None
      | Some (gs, None) \<Rightarrow> if length gs = 8 then Some (of_groups gs) else None
      | Some (gs, Some e) \<Rightarrow>
          if length gs < 8
          then Some (of_groups (take e gs @ replicate (8 - length gs) 0 @ drop e gs)) else None)"

definition parse_ipv6_body :: "string \<Rightarrow> 128 word option" where
  "parse_ipv6_body s =
     (if has_prefix s ''::'' then
        (if length s = 2 then Some 0 else parse6_finish (parse6_loop 8 (drop 2 s) [] (Some 0)))
      else parse6_finish (parse6_loop 8 s [] None))"

definition parse_ipv6 :: "string \<Rightarrow> addr option" where
  "parse_ipv6 s =
     (case cut s ''%'' of
        None \<Rightarrow> map_option (\<lambda>a. V6 a []) (parse_ipv6_body s)
      | Some (b, z) \<Rightarrow> if z = [] then None else map_option (\<lambda>a. V6 a z) (parse_ipv6_body b))"

text \<open>\<open>netip.ParseAddr\<close>: the first of a dot, a colon and a percent sign decides.\<close>

definition parse_addr :: "string \<Rightarrow> addr option" where
  "parse_addr s =
     (case List.find (\<lambda>c. c \<in> {CHR ''.'', CHR '':'', CHR ''%''}) s of
        None \<Rightarrow> None
      | Some c \<Rightarrow>
          if c = CHR ''.'' then map_option V4 (parse_ipv4 s)
          else if c = CHR '':'' then parse_ipv6 s else None)"

definition groups6 :: "128 word \<Rightarrow> nat list" where
  "groups6 a = map (\<lambda>i. unat (drop_bit (112 - 16 * i) a) mod 65536) [0..<8]"

fun hex_str :: "nat \<Rightarrow> string" where
  "hex_str n = (if n < 16 then [if n < 10 then char_of (48 + n) else char_of (87 + n)]
                else hex_str (n div 16) @ [if n mod 16 < 10 then char_of (48 + n mod 16) else char_of (87 + n mod 16)])"

declare hex_str.simps [simp del]

definition zero_run :: "nat list \<Rightarrow> nat \<Rightarrow> nat" where
  "zero_run gs i = length (takeWhile (\<lambda>g. g = 0) (drop i gs))"

text \<open>The leftmost longest run of at least two zero groups, as start and length.\<close>

definition best_run :: "nat list \<Rightarrow> (nat \<times> nat) option" where
  "best_run gs = fold (\<lambda>i best.
     let l = zero_run gs i in
     if l \<ge> 2 \<and> (case best of None \<Rightarrow> True | Some (_, m) \<Rightarrow> l > m) then Some (i, l) else best)
   [0..<length gs] None"

definition string6 :: "128 word \<Rightarrow> string" where
  "string6 a =
     (let gs = groups6 a in
      case best_run gs of
        None \<Rightarrow> join_with '':'' (map hex_str gs)
      | Some (i, l) \<Rightarrow>
          join_with '':'' (map hex_str (take i gs)) @ ''::'' @ join_with '':'' (map hex_str (drop (i + l) gs)))"

fun addr_string :: "addr \<Rightarrow> string" where
  "addr_string AddrZero = ''invalid IP''"
| "addr_string (V4 a) = string4 a"
| "addr_string (V6 a z) =
     (if drop_bit 32 a = 0xffff then ''::ffff:'' @ string4 (ucast a) else string6 a) @
     (if z = [] then [] else ''%'' @ z)"

lemma string4_chars: "c \<in> set (string4 a) \<Longrightarrow> is_digit c \<or> c = CHR ''.''"
proof -
  have "set (join_with ''.'' ps) \<subseteq> \<Union> (set ` set ps) \<union> {CHR ''.''}" for ps
    by (induction "''.''" ps rule: join_with.induct) auto
  then show "c \<in> set (string4 a) \<Longrightarrow> is_digit c \<or> c = CHR ''.''"
    using nat_str_digits by (fastforce simp: string4_def list_all_iff simp del: octets.simps)
qed

lemma string4_has_dot: "CHR ''.'' \<in> set (string4 a)"
  by (simp add: string4_def)

lemma string4_no_char: "\<not> is_digit c \<Longrightarrow> c \<noteq> CHR ''.'' \<Longrightarrow> c \<notin> set (string4 a)"
  using string4_chars by blast

lemma parse_addr_string4 [simp]: "parse_addr (string4 a) = Some (V4 a)"
proof -
  have "List.find (\<lambda>c. c \<in> {CHR ''.'', CHR '':'', CHR ''%''}) (string4 a) = Some CHR ''.''"
    by (rule find_unique)
      (use string4_no_char string4_has_dot in \<open>auto simp: is_digit_nat\<close>)
  then show ?thesis by (simp add: parse_addr_def)
qed

section \<open>Prefixes and ports as text\<close>

definition prefix_string :: "prefix \<Rightarrow> string" where
  "prefix_string p = (case p of NoPrefix \<Rightarrow> ''invalid Prefix'' | Prefix a b \<Rightarrow> addr_string a @ ''/'' @ nat_str b)"

definition parse_prefix :: "string \<Rightarrow> prefix option" where
  "parse_prefix s =
     (case cut_last s CHR ''/'' of
        None \<Rightarrow> None
      | Some (a, b) \<Rightarrow>
          (case parse_addr a of
             None \<Rightarrow> None
           | Some ip \<Rightarrow>
               if (case ip of V6 _ z \<Rightarrow> z \<noteq> [] | _ \<Rightarrow> False) \<or> (length b > 1 \<and> hd b = CHR ''0'') then None
               else case parse_digits b of
                      None \<Rightarrow> None
                    | Some n \<Rightarrow> if n > addr_bits ip then None else Some (Prefix ip n)))"

lemma parse_prefix_string:
  assumes "b \<le> 32"
  shows "parse_prefix (prefix_string (Prefix (V4 a) b)) = Some (Prefix (V4 a) b)"
proof -
  have ns: "CHR ''/'' \<notin> set (nat_str b)"
    by (rule nat_str_no_char) (simp add: is_digit_def less_eq_char_def)
  have z: "\<not> (length (nat_str b) > 1 \<and> hd (nat_str b) = CHR ''0'')"
    by (cases "b < 10") (auto simp: nat_str_hd, simp add: nat_str.simps)
  show ?thesis
    using z assms by (auto simp: prefix_string_def parse_prefix_def cut_last_append[OF ns])
qed

text \<open>\<open>netip.ParseAddrPort\<close>, with the port checked to be a 16-bit decimal number.\<close>

definition parse_port :: "string \<Rightarrow> nat option" where
  "parse_port s = (case parse_digits s of None \<Rightarrow> None | Some n \<Rightarrow> if n \<le> 65535 then Some n else None)"

definition parse_addrport :: "string \<Rightarrow> (addr \<times> nat) option" where
  "parse_addrport s =
     (case cut_last s CHR '':'' of
        None \<Rightarrow> None
      | Some (h, p) \<Rightarrow>
          if h = [] \<or> p = [] then None
          else
            let br = (hd h = CHR ''['') in
            if br \<and> (length h < 2 \<or> last h \<noteq> CHR '']'') then None
            else case parse_port p of
                   None \<Rightarrow> None
                 | Some port \<Rightarrow>
                     (case parse_addr (if br then butlast (tl h) else h) of
                        None \<Rightarrow> None
                      | Some a \<Rightarrow> if br = addr_is4 a then None else Some (a, port)))"

definition addrport_string :: "addr \<times> nat \<Rightarrow> string" where
  "addrport_string ap =
     (case fst ap of
        V4 a \<Rightarrow> string4 a @ '':'' @ nat_str (snd ap)
      | V6 a z \<Rightarrow> ''['' @ addr_string (V6 a z) @ '']:'' @ nat_str (snd ap)
      | AddrZero \<Rightarrow> ''invalid AddrPort'')"

lemma parse_addrport_string:
  assumes "p \<le> 65535"
  shows "parse_addrport (addrport_string (V4 a, p)) = Some (V4 a, p)"
proof -
  have np: "CHR '':'' \<notin> set (nat_str p)"
    by (rule nat_str_no_char) (simp add: is_digit_def less_eq_char_def)
  have ne: "string4 a \<noteq> []" using string4_has_dot[of a] by auto
  then have "hd (string4 a) \<noteq> CHR ''[''"
    using string4_chars[of "hd (string4 a)" a] by (auto simp: is_digit_def less_eq_char_def)
  then show ?thesis
    using ne assms
    by (simp add: addrport_string_def parse_addrport_def cut_last_append[OF np] parse_port_def Let_def)
qed

text \<open>\<open>net.SplitHostPort\<close> and \<open>net.JoinHostPort\<close>.\<close>

definition split_host_port :: "string \<Rightarrow> (string \<times> string) option" where
  "split_host_port s =
     (case cut_last s CHR '':'' of
        None \<Rightarrow> None
      | Some (h, p) \<Rightarrow>
          if h \<noteq> [] \<and> hd h = CHR ''['' then
            (case cut (tl h) '']'' of
               None \<Rightarrow> None
             | Some (host, rest) \<Rightarrow>
                 if rest \<noteq> [] \<or> CHR ''['' \<in> set host \<or> CHR ''['' \<in> set p \<or> CHR '']'' \<in> set p then None
                 else Some (host, p))
          else if CHR '':'' \<in> set h \<or> CHR ''['' \<in> set s \<or> CHR '']'' \<in> set s then None
          else Some (h, p))"

definition join_host_port :: "string \<Rightarrow> string \<Rightarrow> string" where
  "join_host_port h p = (if CHR '':'' \<in> set h then ''['' @ h @ '']:'' @ p else h @ '':'' @ p)"

definition host_chars :: "string \<Rightarrow> bool" where
  "host_chars s \<longleftrightarrow> CHR ''['' \<notin> set s \<and> CHR '']'' \<notin> set s"

lemma split_join_host_port:
  assumes "host_chars h" and "host_chars p" and "CHR '':'' \<notin> set p"
  shows "split_host_port (join_host_port h p) = Some (h, p)"
proof (cases "CHR '':'' \<in> set h")
  case True
  have "cut_last (''['' @ h @ '']:'' @ p) CHR '':'' = Some (''['' @ h @ '']'', p)"
    using cut_last_append[OF assms(3), of "''['' @ h @ '']''"] by simp
  moreover have "cut (h @ '']'') '']'' = Some (h, [])"
    using assms(1) cut_first[of "CHR '']''" h "[]"] by (simp add: host_chars_def)
  ultimately show ?thesis
    using True assms by (simp add: split_host_port_def join_host_port_def host_chars_def)
next
  case False
  then show ?thesis
    using assms cut_last_append[OF assms(3), of h]
    by (auto simp: split_host_port_def join_host_port_def host_chars_def dest: hd_in_set)
qed

text \<open>\<open>net.ParseIP\<close>: an address without a zone; IPv4 and IPv4-mapped addresses are the same value.\<close>

definition net_parse_ip :: "string \<Rightarrow> addr option" where
  "net_parse_ip s =
     (case parse_addr s of
        Some (V6 a z) \<Rightarrow> if z = [] then Some (addr_unmap (V6 a [])) else None
      | r \<Rightarrow> r)"

lemma net_parse_ip_string4 [simp]: "net_parse_ip (string4 a) = Some (V4 a)"
  by (simp add: net_parse_ip_def)

end
