(* ===== verification/Ipam.thy ===== *)
theory Ipam
  imports NetAddr
begin

text \<open>
  \<open>server/ipam/ipam.go\<close>: the allocator that hands out overlay addresses, and the split of a
  network's range into a half for nodes and a half for services.

  The mutex makes each call atomic, so a call is a function on the allocator's state. The scan of
  \<open>Allocate\<close> is the loop \<open>alloc_scan\<close>, which keeps the check of the \<open>used\<close> set; the invariant shows
  that the check never fires, because addresses are handed out in order.
\<close>

record allocator =
  al_prefix :: prefix
  al_next :: addr
  al_byKey :: "string \<rightharpoonup> addr"
  al_used :: "addr \<Rightarrow> bool"

datatype ipam_error =
    BadCIDR string
  | NotIPv4 prefix
  | TooSmall prefix
  | Exhausted prefix

definition newFrom :: "prefix \<Rightarrow> allocator" where
  "newFrom p = \<lparr>al_prefix = p, al_next = addr_next (prefix_addr p), al_byKey = Map.empty, al_used = (\<lambda>_. False)\<rparr>"

definition New :: "string \<Rightarrow> ipam_error + allocator" where
  "New cidr =
     (case parse_prefix cidr of
        None \<Rightarrow> Inl (BadCIDR cidr)
      | Some p \<Rightarrow>
          (let p = prefix_masked p in
           Inr \<lparr>al_prefix = p, al_next = addr_next (prefix_addr p), al_byKey = Map.empty,
                al_used = (\<lambda>_. False)\<rparr>))"

definition Split :: "string \<Rightarrow> ipam_error + (allocator \<times> allocator)" where
  "Split cidr =
     (case parse_prefix cidr of
        None \<Rightarrow> Inl (BadCIDR cidr)
      | Some p0 \<Rightarrow>
          (let p = prefix_masked p0 in
           case prefix_addr p of
             V4 base \<Rightarrow>
               if prefix_bits p > 28 then Inl (TooSmall p)
               else
                 (let half = nat (prefix_bits p) + 1;
                      lower = prefix_masked (prefix_from (V4 base) half);
                      step = push_bit (32 - half) (1 :: u32);
                      top = base + step;
                      upper = prefix_masked (prefix_from (V4 top) half)
                  in Inr (newFrom lower, newFrom upper))
           | _ \<Rightarrow> Inl (NotIPv4 p)))"

text \<open>The scan for a free address: what was found, and where the next scan starts.\<close>

fun addr_room :: "addr \<Rightarrow> nat" where
  "addr_room AddrZero = 0"
| "addr_room (V4 a) = 2 ^ 32 - unat a"
| "addr_room (V6 a _) = 2 ^ 128 - unat a"

lemma word_succ_unat: "x \<noteq> - 1 \<Longrightarrow> unat (x + 1) = unat (x :: 'a::len word) + 1"
  by (metis Suc_eq_plus1 add.commute add_eq_0_iff2 unatSuc)

lemma addr_room_next:
  assumes "prefix_contains p a"
  shows "addr_room (addr_next a) < addr_room a"
proof (cases a)
  case AddrZero
  with assms show ?thesis by (cases p) (auto elim: prefix_contains.elims)
next
  case (V4 x)
  have "unat x < 2 ^ 32" using unat32_bound[of x] by simp
  with V4 show ?thesis by (cases "x = 0xffffffff") (auto simp: unat_succ32 simp del: unat32_bound)
next
  case (V6 x z)
  have "unat x < 2 ^ LENGTH(128)" by (rule unsigned_less)
  then have lt: "unat x < 2 ^ 128" by (simp only: len_num0 len_bit0 len_num1) simp
  show ?thesis
  proof (cases "x = - 1")
    case True
    have "0 < 2 ^ 128 - unat x" using lt by (simp only: zero_less_diff)
    with V6 True show ?thesis by (simp only: addr_next.simps addr_room.simps refl if_True)
  next
    case False
    have "2 ^ 128 - (unat x + 1) < 2 ^ 128 - unat x" using lt by (intro diff_less_mono2) simp_all
    with V6 False show ?thesis
      by (simp only: addr_next.simps addr_room.simps if_False word_succ_unat[OF False])
  qed
qed

function alloc_scan :: "prefix \<Rightarrow> (addr \<Rightarrow> bool) \<Rightarrow> addr \<Rightarrow> addr option \<times> addr" where
  "alloc_scan p used nxt =
     (if prefix_contains p nxt then
        (if used nxt then alloc_scan p used (addr_next nxt) else (Some nxt, addr_next nxt))
      else (None, nxt))"
  by pat_completeness auto
termination
  by (relation "measure (\<lambda>(p, used, nxt). addr_room nxt)") (auto simp: addr_room_next)

declare alloc_scan.simps [simp del]

definition Allocate :: "allocator \<Rightarrow> string \<Rightarrow> (ipam_error + addr) \<times> allocator" where
  "Allocate a key =
     (case al_byKey a key of
        Some ip \<Rightarrow> (Inr ip, a)
      | None \<Rightarrow>
          (case alloc_scan (al_prefix a) (al_used a) (al_next a) of
             (Some ip, nxt) \<Rightarrow>
               (Inr ip, a\<lparr>al_next := nxt, al_used := (al_used a)(ip := True),
                          al_byKey := (al_byKey a)(key \<mapsto> ip)\<rparr>)
           | (None, nxt) \<Rightarrow> (Inl (Exhausted (al_prefix a)), a\<lparr>al_next := nxt\<rparr>)))"

definition Prefix_of :: "allocator \<Rightarrow> prefix" where
  "Prefix_of a = al_prefix a"

section \<open>The invariant\<close>

text \<open>The position of an address on the number line; the address after the last is at \<open>2 ^ 32\<close>.\<close>

fun addr_pos :: "addr \<Rightarrow> nat" where
  "addr_pos (V4 a) = unat a"
| "addr_pos _ = 2 ^ 32"

text \<open>
  An allocator over the IPv4 range \<open>base/b\<close> holds exactly the addresses between the network address
  and its cursor, each by one key.
\<close>

definition ipam_ok :: "u32 \<Rightarrow> nat \<Rightarrow> allocator \<Rightarrow> bool" where
  "ipam_ok base b a \<longleftrightarrow>
     v4_block base b \<and> b < 32 \<and> al_prefix a = Prefix (V4 base) b \<and>
     (al_next a = AddrZero \<or> addr_is4 (al_next a)) \<and>
     unat base < addr_pos (al_next a) \<and> addr_pos (al_next a) \<le> unat base + 2 ^ (32 - b) \<and>
     finite (dom (al_byKey a)) \<and> inj_on (al_byKey a) (dom (al_byKey a)) \<and>
     ran (al_byKey a) = {ip. \<exists>x. ip = V4 x \<and> unat base < unat x \<and> unat x < addr_pos (al_next a)} \<and>
     (\<forall>ip. al_used a ip \<longleftrightarrow> ip \<in> ran (al_byKey a))"

lemma addr_pos_next: "addr_is4 a \<Longrightarrow> addr_pos (addr_next a) = addr_pos a + 1"
  by (cases a) (auto simp: unat_succ32)

lemma addr_next_is4: "addr_is4 a \<Longrightarrow> addr_next a = AddrZero \<or> addr_is4 (addr_next a)"
  by (cases a) auto

lemma v4_block_room: "v4_block base b \<Longrightarrow> b < 32 \<Longrightarrow> unat base + 1 < 2 ^ 32"
proof -
  assume "v4_block base b" "b < 32"
  then have "unat base + 2 ^ (32 - b) \<le> 2 ^ 32" by (intro v4_block_bound)
  moreover have "(2::nat) ^ 1 \<le> 2 ^ (32 - b)" using \<open>b < 32\<close> by (intro power_increasing) auto
  ultimately show ?thesis by simp
qed

lemma newFrom_ok [inv_intros]:
  assumes "v4_block base b" and "b < 32"
  shows "ipam_ok base b (newFrom (Prefix (V4 base) b))"
proof -
  have r: "unat base + 1 < 2 ^ 32" using assms by (rule v4_block_room)
  then have n: "base \<noteq> 0xffffffff" by auto
  have "(2::nat) ^ 1 \<le> 2 ^ (32 - b)" using assms(2) by (intro power_increasing) auto
  with n assms r show ?thesis
    by (auto simp: ipam_ok_def newFrom_def unat_succ32)
qed

lemma contains_pos:
  assumes "v4_block base b" and "a = AddrZero \<or> addr_is4 a"
  shows "prefix_contains (Prefix (V4 base) b) a \<longleftrightarrow>
    unat base \<le> addr_pos a \<and> addr_pos a < unat base + 2 ^ (32 - b)"
  using assms v4_block_bound[OF assms(1)]
  by (cases a) (auto simp: prefix_contains_block simp del: prefix_contains.simps(1))

text \<open>Because addresses go out in order, the scan never has to step over a used one.\<close>

lemma scan_immediate:
  assumes "ipam_ok base b a"
  shows "alloc_scan (al_prefix a) (al_used a) (al_next a) =
    (if addr_pos (al_next a) < unat base + 2 ^ (32 - b) then (Some (al_next a), addr_next (al_next a))
     else (None, al_next a))"
proof -
  have c: "prefix_contains (al_prefix a) (al_next a) \<longleftrightarrow> addr_pos (al_next a) < unat base + 2 ^ (32 - b)"
    using assms contains_pos[of base b "al_next a"] by (auto simp: ipam_ok_def)
  have "\<not> al_used a (al_next a)" using assms by (auto simp: ipam_ok_def)
  then show ?thesis by (subst alloc_scan.simps) (simp add: c)
qed

lemma Allocate_known: "al_byKey a key = Some ip \<Longrightarrow> Allocate a key = (Inr ip, a)"
  by (simp add: Allocate_def)

lemma Allocate_new:
  assumes "ipam_ok base b a" and "al_byKey a key = None"
  shows "Allocate a key =
    (if addr_pos (al_next a) < unat base + 2 ^ (32 - b)
     then (Inr (al_next a), a\<lparr>al_next := addr_next (al_next a),
             al_used := (al_used a)(al_next a := True), al_byKey := (al_byKey a)(key \<mapsto> al_next a)\<rparr>)
     else (Inl (Exhausted (al_prefix a)), a))"
  by (simp add: Allocate_def assms(2) scan_immediate[OF assms(1)])

lemma Allocate_ok [inv_intros]:
  assumes "ipam_ok base b a"
  shows "ipam_ok base b (snd (Allocate a key))"
proof (cases "al_byKey a key")
  case (Some ip)
  with assms show ?thesis by (simp add: Allocate_known)
next
  case None
  show ?thesis
  proof (cases "addr_pos (al_next a) < unat base + 2 ^ (32 - b)")
    case True
    let ?n = "al_next a"
    have ok: "v4_block base b" "unat base < addr_pos ?n" "ran (al_byKey a) =
        {ip. \<exists>x. ip = V4 x \<and> unat base < unat x \<and> unat x < addr_pos ?n}"
      "?n = AddrZero \<or> addr_is4 ?n"
      using assms by (auto simp: ipam_ok_def)
    have "addr_pos ?n < 2 ^ 32" using True v4_block_bound[OF ok(1)] by simp
    with ok(4) have n4: "addr_is4 ?n" by (cases ?n) auto
    then obtain x where x: "?n = V4 x" by (cases ?n) auto
    have "ran ((al_byKey a)(key \<mapsto> ?n)) = insert ?n (ran (al_byKey a))"
      using None by (rule ran_map_upd)
    also have "\<dots> = {ip. \<exists>y. ip = V4 y \<and> unat base < unat y \<and> unat y < addr_pos (addr_next ?n)}"
      using ok(2) unfolding ok(3) addr_pos_next[OF n4]
      by (auto simp: x less_Suc_eq word_unat_eq_iff)
    finally have ran': "ran ((al_byKey a)(key \<mapsto> ?n)) = \<dots>" .
    have inj: "inj_on ((al_byKey a)(key \<mapsto> ?n)) (insert key (dom (al_byKey a)))"
    proof -
      have "?n \<notin> ran (al_byKey a)" unfolding ok(3) by (auto simp: x)
      moreover have "inj_on (al_byKey a) (dom (al_byKey a))" using assms by (simp add: ipam_ok_def)
      ultimately show ?thesis
        using None by (auto simp: inj_on_def ran_def)
    qed
    show ?thesis
      unfolding Allocate_new[OF assms None] ipam_ok_def
      using True assms None inj ran' addr_pos_next[OF n4] addr_next_is4[OF n4]
      by (auto simp: ipam_ok_def)
  next
    case False
    with assms None show ?thesis by (simp add: Allocate_new)
  qed
qed

section \<open>The allocator keeps its contract\<close>

definition allocate :: "allocator \<Rightarrow> string \<Rightarrow> addr option \<times> allocator" where
  "allocate a key = (case Allocate a key of (Inr ip, a') \<Rightarrow> (Some ip, a') | (Inl _, a') \<Rightarrow> (None, a'))"

lemma allocate_snd [simp]: "snd (allocate a key) = snd (Allocate a key)"
  by (simp add: allocate_def split: prod.splits sum.splits)

interpretation ipam: stable_allocator allocate al_byKey "ipam_ok base b" for base b
proof
  fix a key ip a'
  assume ok: "ipam_ok base b a"
  show "ipam_ok base b (snd (allocate a key))" using ok by (simp add: Allocate_ok)
  show "allocate a key = (Some ip, a)" if "al_byKey a key = Some ip"
    using that by (simp add: allocate_def Allocate_known)
  show "al_byKey a' = (al_byKey a)(key \<mapsto> ip) \<and> ip \<notin> ran (al_byKey a)"
    if "al_byKey a key = None" "allocate a key = (Some ip, a')"
    using ok that by (auto simp: allocate_def Allocate_new ipam_ok_def split: if_splits)
  show "al_byKey a' = al_byKey a" if "allocate a key = (None, a')"
    using ok that by (cases "al_byKey a key")
      (auto simp: allocate_def Allocate_known Allocate_new split: if_splits)
qed

lemma ipam_held_inj: "ipam_ok base b a \<Longrightarrow> ipam.held_inj a"
proof -
  assume "ipam_ok base b a"
  then have "inj_on (al_byKey a) (dom (al_byKey a))" by (simp add: ipam_ok_def)
  then show "ipam.held_inj a"
    unfolding ipam.held_inj_def by (metis domI inj_onD)
qed

lemma ipam_ok_ran:
  "ipam_ok base b a \<Longrightarrow> ran (al_byKey a) =
     {ip. \<exists>x. ip = V4 x \<and> unat base < unat x \<and> unat x < addr_pos (al_next a)}"
  unfolding ipam_ok_def by (elim conjE)

lemma ipam_ok_bounds:
  "ipam_ok base b a \<Longrightarrow> v4_block base b \<and> b < 32 \<and> unat base < addr_pos (al_next a) \<and>
     addr_pos (al_next a) \<le> unat base + 2 ^ (32 - b)"
  unfolding ipam_ok_def by blast

lemma ipam_held_range:
  assumes "ipam_ok base b a" and "al_byKey a key = Some ip"
  shows "\<exists>x. ip = V4 x \<and> prefix_contains (Prefix (V4 base) b) ip \<and> x \<noteq> base"
proof -
  from assms(2) have "ip \<in> ran (al_byKey a)" by (rule ranI)
  then obtain x where x: "ip = V4 x" "unat base < unat x" "unat x < addr_pos (al_next a)"
    unfolding ipam_ok_ran[OF assms(1)] by blast
  with ipam_ok_bounds[OF assms(1)] show ?thesis
    by (auto simp: prefix_contains_block simp del: prefix_contains.simps(1))
qed

lemma card_ran_inj: "inj_on m (dom m) \<Longrightarrow> card (ran m) = card (dom m)"
proof -
  assume inj: "inj_on m (dom m)"
  have "ran m = (\<lambda>k. the (m k)) ` dom m" by (force simp: ran_def dom_def image_iff)
  moreover have "inj_on (\<lambda>k. the (m k)) (dom m)"
    using inj by (auto simp: inj_on_def dom_def)
  ultimately show ?thesis by (simp add: card_image)
qed

text \<open>The cursor counts the keys: no address of the range is skipped.\<close>

lemma ipam_card:
  assumes "ipam_ok base b a"
  shows "card (dom (al_byKey a)) + unat base + 1 = addr_pos (al_next a)"
proof -
  let ?p = "addr_pos (al_next a)"
  have b: "unat base < ?p" "?p \<le> 2 ^ 32"
    using ipam_ok_bounds[OF assms] v4_block_bound[of base b] by auto
  have "ran (al_byKey a) = (\<lambda>n. V4 (of_nat n)) ` {unat base <..< ?p}"
  proof (intro set_eqI iffI)
    fix ip
    assume "ip \<in> ran (al_byKey a)"
    then obtain x where x: "ip = V4 x" "unat base < unat x" "unat x < ?p"
      unfolding ipam_ok_ran[OF assms] by blast
    moreover have "of_nat (unat x) = x" by simp
    ultimately show "ip \<in> (\<lambda>n. V4 (of_nat n)) ` {unat base <..< ?p}"
      by (intro image_eqI[of _ _ "unat x"]) auto
  next
    fix ip
    assume "ip \<in> (\<lambda>n. V4 (of_nat n)) ` {unat base <..< ?p}"
    then obtain n where n: "ip = V4 (of_nat n)" "unat base < n" "n < ?p" by auto
    with b have "unat (of_nat n :: u32) = n" by (intro unat_of_nat32) simp
    with n show "ip \<in> ran (al_byKey a)" unfolding ipam_ok_ran[OF assms] by auto
  qed
  moreover have "inj_on (\<lambda>n. V4 (of_nat n)) {unat base <..< ?p}"
  proof (rule inj_onI)
    fix m n
    assume "m \<in> {unat base <..< ?p}" "n \<in> {unat base <..< ?p}" "V4 (of_nat m) = V4 (of_nat n)"
    with b show "m = n" by (metis addr.inject(1) greaterThanLessThan_iff less_le_trans unat_of_nat32)
  qed
  ultimately have "card (ran (al_byKey a)) = ?p - unat base - 1" by (simp add: card_image)
  moreover have "card (ran (al_byKey a)) = card (dom (al_byKey a))"
    by (rule card_ran_inj) (use assms in \<open>simp add: ipam_ok_def\<close>)
  ultimately show ?thesis using b by simp
qed

section \<open>The two halves of a range\<close>

lemma v4_block_refine: "v4_block base b \<Longrightarrow> b \<le> c \<Longrightarrow> c \<le> 32 \<Longrightarrow> v4_block base c"
proof -
  assume a: "v4_block base b" "b \<le> c" "c \<le> 32"
  then have "(2::nat) ^ (32 - c) dvd 2 ^ (32 - b)" by (intro le_imp_power_dvd) simp
  with a show ?thesis unfolding v4_block_def by (meson dvd_imp_mod_0 dvd_trans mod_0_imp_dvd)
qed

lemma Split_Inr:
  assumes "Split cidr = Inr (n, s)"
  obtains base b top where
    "n = newFrom (Prefix (V4 base) (b + 1))" "s = newFrom (Prefix (V4 top) (b + 1))"
    "b \<le> 28" "v4_block base b" "unat top = unat base + 2 ^ (31 - b)"
    "v4_block base (b + 1)" "v4_block top (b + 1)"
    "(case parse_prefix cidr of Some p \<Rightarrow> prefix_masked p | None \<Rightarrow> NoPrefix) = Prefix (V4 base) b"
proof -
  from assms obtain p0 base where p0: "parse_prefix cidr = Some p0"
      and pa: "prefix_addr (prefix_masked p0) = V4 base"
    by (auto simp: Split_def Let_def split: option.splits addr.splits if_splits)
  obtain a b where ab: "p0 = Prefix (V4 a) b"
    using pa by (cases p0 rule: prefix_masked.cases) auto
  have base: "base = mask4 a b" using pa ab by simp
  let ?top = "base + push_bit (32 - (b + 1)) 1 :: u32"
  have b: "b \<le> 28" using assms p0 ab by (auto simp: Split_def Let_def split: if_splits)
  have blk: "v4_block base b" unfolding base using b by (intro mask4_block) simp
  have blk1: "v4_block base (b + 1)" by (rule v4_block_refine[OF blk]) (use b in auto)
  have pow: "(2::nat) ^ (32 - b) = 2 * 2 ^ (31 - b)"
  proof -
    have "32 - b = Suc (31 - b)" using b by simp
    then show ?thesis by simp
  qed
  have le: "(2::nat) ^ (31 - b) \<le> 2 ^ 31" by (rule power_increasing) auto
  have step: "unat (push_bit (31 - b) (1 :: u32)) = 2 ^ (31 - b)"
  proof -
    have "unat (push_bit (31 - b) (1 :: u32)) = take_bit 32 (push_bit (31 - b) 1)"
      by (simp only: unsigned_push_bit_eq) simp
    then show ?thesis
      using le by (simp add: take_bit_eq_mod push_bit_eq_mult del: push_bit_of_1)
  qed
  have top: "unat ?top = unat base + 2 ^ (31 - b)"
  proof -
    have "(0::nat) < 2 ^ (31 - b)" by simp
    with v4_block_bound[OF blk] pow have "unat base + 2 ^ (31 - b) < 2 ^ 32" by linarith
    then show ?thesis using step by (simp add: unat_word_ariths)
  qed
  have blkt: "v4_block ?top (b + 1)"
    using blk1 unfolding v4_block_def top by (simp add: mod_add_eq)
  have n: "n = newFrom (Prefix (V4 base) (b + 1))" "s = newFrom (Prefix (V4 ?top) (b + 1))"
    using assms p0 ab b mask4_block_id[OF blk1] mask4_block_id[OF blkt]
    by (simp_all add: Split_def Let_def base[symmetric])
  show ?thesis
    by (rule that[OF n b blk top blk1 blkt]) (simp add: p0 ab base)
qed

lemma Split_ok: "Split cidr = Inr (n, s) \<Longrightarrow> a \<in> {n, s} \<Longrightarrow> \<exists>base b. ipam_ok base b a"
proof (elim Split_Inr)
  fix base b top
  assume "a \<in> {n, s}" and "n = newFrom (Prefix (V4 base) (b + 1))"
    and "s = newFrom (Prefix (V4 top) (b + 1))" and b: "b \<le> 28"
    and "v4_block base (b + 1)" and "v4_block top (b + 1)"
  then have "ipam_ok base (b + 1) a \<or> ipam_ok top (b + 1) a" using newFrom_ok[of _ "b + 1"] b by auto
  then show "\<exists>base b. ipam_ok base b a" by blast
qed

text \<open>The node allocator over the lower half of \<open>base/b\<close> and the service allocator over the upper.\<close>

definition halves :: "u32 \<Rightarrow> nat \<Rightarrow> u32 \<Rightarrow> allocator \<Rightarrow> allocator \<Rightarrow> bool" where
  "halves base b mid n s \<longleftrightarrow>
     ipam_ok base (b + 1) n \<and> ipam_ok mid (b + 1) s \<and> b \<le> 28 \<and> v4_block base b \<and>
     unat mid = unat base + 2 ^ (31 - b)"

lemma halves_Split:
  assumes "Split cidr = Inr (n, s)"
  shows "\<exists>base b mid. halves base b mid n s \<and>
    (case parse_prefix cidr of Some p \<Rightarrow> prefix_masked p | None \<Rightarrow> NoPrefix) = Prefix (V4 base) b"
  using assms
proof (rule Split_Inr)
  fix base b mid
  assume *: "n = newFrom (Prefix (V4 base) (b + 1))" "s = newFrom (Prefix (V4 mid) (b + 1))"
    "b \<le> 28" "v4_block base b" "unat mid = unat base + 2 ^ (31 - b)"
    "v4_block base (b + 1)" "v4_block mid (b + 1)"
    "(case parse_prefix cidr of Some p \<Rightarrow> prefix_masked p | None \<Rightarrow> NoPrefix) = Prefix (V4 base) b"
  then have "halves base b mid n s" by (auto simp: halves_def intro!: newFrom_ok)
  with *(8) show ?thesis by blast
qed

lemma halves_nodes [inv_intros]: "halves base b mid n s \<Longrightarrow> halves base b mid (snd (Allocate n k)) s"
  by (auto simp: halves_def intro: Allocate_ok)

lemma halves_services [inv_intros]: "halves base b mid n s \<Longrightarrow> halves base b mid n (snd (Allocate s k))"
  by (auto simp: halves_def intro: Allocate_ok)

lemma halves_held:
  assumes h: "halves base b mid n s" and k: "al_byKey n k = Some ip" and k': "al_byKey s k' = Some ip'"
  shows "\<exists>x y. ip = V4 x \<and> ip' = V4 y \<and> unat base < unat x \<and> unat x < unat mid \<and> unat mid < unat y \<and>
    prefix_contains (Prefix (V4 base) b) ip \<and> prefix_contains (Prefix (V4 base) b) ip'"
proof -
  have ok: "ipam_ok base (b + 1) n" "ipam_ok mid (b + 1) s" and b: "b \<le> 28" and blk: "v4_block base b"
    and mid: "unat mid = unat base + 2 ^ (31 - b)"
    using h unfolding halves_def by blast+
  have blks: "v4_block base (b + 1)" "v4_block mid (b + 1)"
    using ok ipam_ok_bounds by blast+
  obtain x where x: "ip = V4 x" "prefix_contains (Prefix (V4 base) (b + 1)) ip" "x \<noteq> base"
    using ipam_held_range[OF ok(1) k] by blast
  obtain y where y: "ip' = V4 y" "prefix_contains (Prefix (V4 mid) (b + 1)) ip'" "y \<noteq> mid"
    using ipam_held_range[OF ok(2) k'] by blast
  have half: "32 - (b + 1) = 31 - b" "(2::nat) ^ (32 - b) = 2 * 2 ^ (31 - b)"
    using b by (simp_all add: Suc_diff_le flip: power_Suc)
  have nx: "unat base \<le> unat x" "unat x < unat base + 2 ^ (31 - b)"
    using x(2) unfolding x(1) prefix_contains_block[OF blks(1)] half by simp_all
  have ny: "unat mid \<le> unat y" "unat y < unat mid + 2 ^ (31 - b)"
    using y(2) unfolding y(1) prefix_contains_block[OF blks(2)] half by simp_all
  have "unat x \<noteq> unat base" "unat y \<noteq> unat mid" using x(3) y(3) unfolding word_unat_eq_iff by blast+
  moreover have "prefix_contains (Prefix (V4 base) b) ip" "prefix_contains (Prefix (V4 base) b) ip'"
    unfolding x(1) y(1) prefix_contains_block[OF blk] half using nx ny mid by simp_all
  ultimately show ?thesis using nx ny mid x(1) y(1) by auto
qed

definition allocate_all :: "allocator \<Rightarrow> string list \<Rightarrow> allocator" where
  "allocate_all a ks = foldl (\<lambda>a k. snd (Allocate a k)) a ks"

lemma allocate_all_eq: "ipam.alloc_all a ks = allocate_all a ks"
  by (simp add: ipam.alloc_all_def allocate_all_def)

lemma allocate_all_ok [inv_intros]: "ipam_ok base b a \<Longrightarrow> ipam_ok base b (allocate_all a ks)"
  unfolding allocate_all_eq[symmetric] by (rule ipam.alloc_all_inv)

lemma parse_16: "parse_prefix ''100.64.0.0/16'' = Some (Prefix (V4 0x64400000) 16)"
  by (simp add: parse_prefix_def parse_addr_def parse_ipv4_def parse_octet_def parse_digits_def
      of_octets_def digit_val_def is_digit_def less_eq_char_def)

lemma Split_16: "Split ''100.64.0.0/16'' =
  Inr (newFrom (Prefix (V4 0x64400000) 17), newFrom (Prefix (V4 0x64408000) 17))"
  by (simp add: Split_def parse_16 mask4_def mask_eq_exp_minus_1)

section \<open>Properties\<close>

text \<open>a device that asks again gets the address it already has, whatever was requested in
  between: the address of a key is fixed for the life of the allocator (the code's "fixed IP by
  Device UUID"). This holds for the node half and for the service half of any range the server
  accepts.\<close>

theorem Allocate_stable:
  assumes "Split cidr = Inr (n, s)" and "a \<in> {n, s}"
    and "Allocate (allocate_all a before) key = (Inr ip, a1)"
  shows "Allocate (allocate_all a1 later) key = (Inr ip, allocate_all a1 later)"
proof -
  obtain base b where ok: "ipam_ok base b a"
    using Split_ok[OF assms(1,2)] by blast
  then have ok': "ipam_ok base b (allocate_all a before)" by (rule allocate_all_ok)
  from assms(3) have "allocate (allocate_all a before) key = (Some ip, a1)"
    by (simp add: allocate_def)
  then have "al_byKey a1 key = Some ip" and "ipam_ok base b a1"
    using ok' ipam.alloc_held ipam.alloc_inv by (blast, metis snd_conv)
  then have "al_byKey (allocate_all a1 later) key = Some ip"
    unfolding allocate_all_eq[symmetric] by (intro ipam.alloc_all_keeps)
  then show ?thesis by (rule Allocate_known)
qed

theorem Allocate_stable_witness:
  "\<exists>n s a1. Split ''100.64.0.0/16'' = Inr (n, s) \<and> Allocate n ''laptop'' = (Inr (V4 0x64400001), a1) \<and>
     fst (Allocate (allocate_all a1 [''nas'', ''phone'']) ''laptop'') = Inr (V4 0x64400001)"
proof -
  let ?n = "newFrom (Prefix (V4 0x64400000) 17)"
  obtain a1 where a1: "Allocate (allocate_all ?n []) ''laptop'' = (Inr (V4 0x64400001), a1)"
    by (simp add: allocate_all_def Allocate_def newFrom_def alloc_scan.simps)
  have "Allocate (allocate_all a1 [''nas'', ''phone'']) ''laptop'' =
      (Inr (V4 0x64400001), allocate_all a1 [''nas'', ''phone''])"
    by (rule Allocate_stable[OF Split_16 _ a1]) simp
  with a1 show ?thesis by (auto simp: Split_16 allocate_all_def)
qed

text \<open>C2: no two nodes, no two services, and no node and service, ever hold the same overlay
  address, whatever sequence of requests the two allocators of a range have served; and every
  address lies inside the network's range and is not the network address.\<close>

theorem Split_addresses_disjoint:
  assumes "Split cidr = Inr (n, s)" and "parse_prefix cidr = Some p"
    and "al_byKey (allocate_all n ks) k = Some ip" and "al_byKey (allocate_all s ks') k' = Some ip'"
  shows "ip \<noteq> ip' \<and> prefix_contains (prefix_masked p) ip \<and> prefix_contains (prefix_masked p) ip' \<and>
    ip \<noteq> prefix_addr (prefix_masked p) \<and> ip' \<noteq> prefix_addr (prefix_masked p)"
proof -
  obtain base b mid where h: "halves base b mid n s" and pm: "prefix_masked p = Prefix (V4 base) b"
    using halves_Split[OF assms(1)] assms(2) by auto
  have "halves base b mid (allocate_all n ks) (allocate_all s ks')"
    using h unfolding halves_def by (auto intro: allocate_all_ok)
  from halves_held[OF this assms(3,4)] show ?thesis by (auto simp: pm)
qed

theorem Split_addresses_disjoint_witness:
  "\<exists>n s. Split ''100.64.0.0/16'' = Inr (n, s) \<and>
     al_byKey (allocate_all n [''laptop'']) ''laptop'' = Some (V4 0x64400001) \<and>
     al_byKey (allocate_all s [''minecraft'']) ''minecraft'' = Some (V4 0x64408001) \<and>
     V4 0x64400001 \<noteq> V4 0x64408001"
proof -
  let ?n = "newFrom (Prefix (V4 0x64400000) 17)" and ?s = "newFrom (Prefix (V4 0x64408000) 17)"
  have k: "al_byKey (allocate_all ?n [''laptop'']) ''laptop'' = Some (V4 0x64400001)"
    "al_byKey (allocate_all ?s [''minecraft'']) ''minecraft'' = Some (V4 0x64408001)"
    by (simp_all add: allocate_all_def Allocate_def newFrom_def alloc_scan.simps)
  from Split_addresses_disjoint[OF Split_16 parse_16 k] k Split_16 show ?thesis by blast
qed

text \<open>C30: no address of a range is wasted. A new key gets an address exactly while fewer than all
  of the range's addresses but the network address are taken; the failure is the error that names
  the range, and it changes nothing.\<close>

theorem Allocate_capacity:
  assumes "Split cidr = Inr (n, s)" and "parse_prefix cidr = Some p"
    and "a = allocate_all n ks" and "al_byKey a key = None"
  shows "if int (card (dom (al_byKey a))) < 2 ^ nat (31 - prefix_bits p) - 1
         then \<exists>ip. fst (Allocate a key) = Inr ip
         else Allocate a key = (Inl (Exhausted (al_prefix a)), a)"
  using assms(1)
proof (rule Split_Inr)
  fix base b top
  assume n: "n = newFrom (Prefix (V4 base) (b + 1))" and b: "b \<le> 28"
    and blk: "v4_block base (b + 1)"
    and p: "(case parse_prefix cidr of Some p \<Rightarrow> prefix_masked p | None \<Rightarrow> NoPrefix) = Prefix (V4 base) b"
  have ok: "ipam_ok base (b + 1) a" unfolding assms(3) n using blk b by (auto intro!: inv_intros)
  have pb: "prefix_bits p = int b"
    using p assms(2) by (cases p rule: prefix_masked.cases) auto
  have e: "32 - (b + 1) = 31 - b" "nat (31 - int b) = 31 - b" using b by simp_all
  have pos: "addr_pos (al_next a) = card (dom (al_byKey a)) + unat base + 1"
    using ipam_card[OF ok] by simp
  have cap: "addr_pos (al_next a) < unat base + 2 ^ (31 - b) \<longleftrightarrow>
      int (card (dom (al_byKey a))) < 2 ^ (31 - b) - 1"
    unfolding pos by (simp flip: of_nat_less_iff[where ?'a = int]) linarith
  show ?thesis
    unfolding Allocate_new[OF ok assms(4)] e pb cap by simp
qed

theorem Allocate_capacity_witness:
  "\<exists>ip. fst (Allocate (newFrom (Prefix (V4 0x64400000) 17)) ''laptop'') = Inr ip"
proof -
  let ?n = "newFrom (Prefix (V4 0x64400000) 17)"
  have "al_byKey ?n ''laptop'' = None" "?n = allocate_all ?n []"
    by (simp_all add: newFrom_def allocate_all_def)
  from Allocate_capacity[OF Split_16 parse_16 this(2) this(1)] show ?thesis
    by (simp add: newFrom_def split: if_splits)
qed

end
