(* ===== verification/Acl.thy ===== *)
theory Acl
  imports GoStrings
begin

text \<open>
  \<open>shared/acl/acl.go\<close>: groups, rules between groups, and the join tokens that admit to groups.
  A policy is passed as a pointer in the code, so it is an option here; nil and the empty policy
  both allow everything. Decoding a JSON policy document is an argument of \<open>Parse\<close>.
\<close>

definition Wildcard :: string where "Wildcard = ''*''"
definition DefaultGroup :: string where "DefaultGroup = ''default''"

record rule =
  r_src :: "string list"
  r_dst :: "string list"

record policy =
  p_rules :: "rule list"

datatype acl_error =
    BadPolicyJSON
  | RuleIncomplete nat
  | RuleNoArrow string
  | RuleEmptySide string
  | BadJoinToken string
  | SharedJoinToken string string

definition normalize :: "string \<Rightarrow> string" where
  "normalize g = to_lower (trim_space g)"

definition matches :: "string list \<Rightarrow> string \<Rightarrow> bool" where
  "matches list grp = list_ex (\<lambda>g. g = Wildcard \<or> normalize g = grp) list"

definition Empty :: "policy option \<Rightarrow> bool" where
  "Empty p = (case p of None \<Rightarrow> True | Some q \<Rightarrow> p_rules q = [])"

definition Allows :: "policy option \<Rightarrow> string \<Rightarrow> string \<Rightarrow> bool" where
  "Allows p src dst =
     (if Empty p then True
      else let src = normalize src; dst = normalize dst in
           list_ex (\<lambda>r. matches (r_src r) src \<and> matches (r_dst r) dst) (p_rules (the p)))"

definition Connected :: "policy option \<Rightarrow> string \<Rightarrow> string \<Rightarrow> bool" where
  "Connected p a b = (Allows p a b \<or> Allows p b a)"

definition AllowsGroup :: "string list \<Rightarrow> string \<Rightarrow> bool" where
  "AllowsGroup list grp = (if list = [] then True else matches list (normalize grp))"

fun check_rules :: "nat \<Rightarrow> rule list \<Rightarrow> acl_error option" where
  "check_rules i [] = None"
| "check_rules i (r # rs) =
     (if r_src r = [] \<or> r_dst r = [] then Some (RuleIncomplete (i + 1)) else check_rules (i + 1) rs)"

definition Parse :: "(string \<Rightarrow> policy option) \<Rightarrow> string \<Rightarrow> acl_error + policy" where
  "Parse unmarshal data =
     (case unmarshal data of
        None \<Rightarrow> Inl BadPolicyJSON
      | Some p \<Rightarrow> (case check_rules 0 (p_rules p) of Some e \<Rightarrow> Inl e | None \<Rightarrow> Inr p))"

definition splitGroups :: "string \<Rightarrow> string list" where
  "splitGroups s = filter (\<lambda>g. g \<noteq> []) (map normalize (split_on CHR '','' s))"

definition ParseRule :: "string \<Rightarrow> acl_error + rule" where
  "ParseRule s =
     (case cut s ''->'' of
        None \<Rightarrow> Inl (RuleNoArrow s)
      | Some (src, dst) \<Rightarrow>
          (let r = \<lparr>r_src = splitGroups src, r_dst = splitGroups dst\<rparr> in
           if r_src r = [] \<or> r_dst r = [] then Inl (RuleEmptySide s) else Inr r))"

definition rule_string :: "rule \<Rightarrow> string" where
  "rule_string r = join_with '','' (r_src r) @ ''->'' @ join_with '','' (r_dst r)"

section \<open>Join tokens\<close>

type_synonym join_tokens = "(string, string) gomap"

definition Group :: "join_tokens \<Rightarrow> string \<Rightarrow> string option" where
  "Group t token =
     (if token = [] then None
      else case map_of t token of
             None \<Rightarrow> None
           | Some g \<Rightarrow> Some (normalize (if g = [] then DefaultGroup else g)))"

definition Add :: "join_tokens \<Rightarrow> string \<Rightarrow> string \<Rightarrow> join_tokens" where
  "Add t grp token =
     (if token = [] then t
      else let grp = (if normalize grp = [] then DefaultGroup else grp) in
           AList.update token (normalize grp) t)"

definition Groups :: "((string \<times> string) list \<Rightarrow> (string \<times> string) list) \<Rightarrow> join_tokens \<Rightarrow> string list" where
  "Groups iter t = sort (fold (\<lambda>(_, g) out. if g \<in> set out then out else out @ [g]) (iter t) [])"

definition ParseJoinToken :: "string \<Rightarrow> acl_error + (string \<times> string)" where
  "ParseJoinToken s =
     (case cut s ''='' of
        None \<Rightarrow> Inl (BadJoinToken s)
      | Some (grp, token) \<Rightarrow>
          if normalize grp = [] \<or> trim_space token = [] then Inl (BadJoinToken s)
          else Inr (normalize grp, trim_space token))"

text \<open>
  The closure \<open>add\<close> of \<open>BuildJoinTokens\<close>: its state is the table under construction and the owner of
  each token seen so far.
\<close>

definition build_add ::
  "join_tokens \<times> (string \<rightharpoonup> string) \<Rightarrow> string \<Rightarrow> string \<Rightarrow> acl_error + (join_tokens \<times> (string \<rightharpoonup> string))" where
  "build_add st grp token0 =
     (let (out, owner) = st; token = trim_space token0 in
      if token = [] then Inr st
      else let grp = (if normalize grp = [] then DefaultGroup else grp) in
           case owner token of
             Some prev \<Rightarrow>
               if prev \<noteq> normalize grp then Inl (SharedJoinToken prev (normalize grp))
               else Inr (Add out grp token, owner(token \<mapsto> normalize grp))
           | None \<Rightarrow> Inr (Add out grp token, owner(token \<mapsto> normalize grp)))"

fun build_all ::
  "join_tokens \<times> (string \<rightharpoonup> string) \<Rightarrow> (string \<times> string) list \<Rightarrow> acl_error + (join_tokens \<times> (string \<rightharpoonup> string))" where
  "build_all st [] = Inr st"
| "build_all st ((g, t) # gts) =
     (case build_add st g t of Inl e \<Rightarrow> Inl e | Inr st' \<Rightarrow> build_all st' gts)"

definition BuildJoinTokens ::
  "((string \<times> string) list \<Rightarrow> (string \<times> string) list) \<Rightarrow> string \<Rightarrow> (string, string) gomap \<Rightarrow> acl_error + join_tokens" where
  "BuildJoinTokens iter defaultToken groupTokens =
     (case build_add ([], Map.empty) DefaultGroup defaultToken of
        Inl e \<Rightarrow> Inl e
      | Inr st \<Rightarrow>
          (let groups = sort (map fst (iter groupTokens)) in
           map_sum (\<lambda>e. e) fst (build_all st (map (\<lambda>g. (g, the (map_of groupTokens g))) groups))))"

section \<open>Group names\<close>

lemma normalize_idem [simp]: "normalize (normalize g) = normalize g"
  by (simp add: normalize_def trim_space_lower)

lemma normalize_Nil [simp]: "normalize [] = []"
  by (simp add: normalize_def)

lemma normalize_DefaultGroup [simp]: "normalize DefaultGroup = DefaultGroup"
  by code_simp

lemma DefaultGroup_nonempty [simp]: "DefaultGroup \<noteq> []"
  by (simp add: DefaultGroup_def)

lemma matches_iff: "matches list grp \<longleftrightarrow> Wildcard \<in> set list \<or> (\<exists>g \<in> set list. normalize g = grp)"
  by (auto simp: matches_def list_ex_iff)

lemma Allows_iff:
  "Allows p src dst \<longleftrightarrow> Empty p \<or>
     (\<exists>r \<in> set (p_rules (the p)). matches (r_src r) (normalize src) \<and> matches (r_dst r) (normalize dst))"
  by (auto simp: Allows_def Let_def list_ex_iff)

lemma Connected_sym: "Connected p a b = Connected p b a"
  by (auto simp: Connected_def)

lemma Allows_normalize: "Allows p (normalize a) (normalize b) = Allows p a b"
  by (simp add: Allows_iff)

section \<open>Building the token table\<close>

text \<open>The group a configured entry stands for.\<close>

definition group_name :: "string \<Rightarrow> string" where
  "group_name g = (if normalize g = [] then DefaultGroup else normalize g)"

lemma group_name_simps:
  "normalize (if normalize g = [] then DefaultGroup else g) = group_name g"
  "normalize (group_name g) = group_name g" "group_name g \<noteq> []" "group_name DefaultGroup = DefaultGroup"
  by (auto simp: group_name_def)

text \<open>
  The state the fold keeps: the table and the owner map agree, and hold exactly the entries seen.
\<close>

definition build_ok :: "(string \<times> string) list \<Rightarrow> join_tokens \<times> (string \<rightharpoonup> string) \<Rightarrow> bool" where
  "build_ok seen st \<longleftrightarrow>
     gomap_ok (fst st) \<and> map_of (fst st) = snd st \<and>
     (\<forall>tok g. snd st tok = Some g \<longleftrightarrow> tok \<noteq> [] \<and> (\<exists>(k, v) \<in> set seen. trim_space v = tok \<and> group_name k = g))"

definition token_clash :: "(string \<times> string) list \<Rightarrow> bool" where
  "token_clash es \<longleftrightarrow>
     (\<exists>k v k' v'. (k, v) \<in> set es \<and> (k', v') \<in> set es \<and>
        trim_space v \<noteq> [] \<and> trim_space v = trim_space v' \<and> group_name k \<noteq> group_name k')"

lemma token_clash_mono: "token_clash es \<Longrightarrow> set es \<subseteq> set es' \<Longrightarrow> token_clash es'"
  unfolding token_clash_def by blast

lemma build_add_step:
  assumes "build_ok seen st"
  shows "case build_add st g t of
           Inl e \<Rightarrow> token_clash (seen @ [(g, t)])
         | Inr st' \<Rightarrow> build_ok (seen @ [(g, t)]) st'"
proof (cases "trim_space t = []")
  case True
  with assms have "build_add st g t = Inr st" by (cases st) (simp add: build_add_def Let_def)
  moreover have "build_ok (seen @ [(g, t)]) st" using assms True by (auto simp: build_ok_def)
  ultimately show ?thesis by simp
next
  case False
  obtain out owner where st: "st = (out, owner)" by fastforce
  note ok = assms[unfolded build_ok_def st, simplified]
  show ?thesis
  proof (cases "owner (trim_space t)")
    case None
    have none: "\<not> (\<exists>(k, v) \<in> set seen. trim_space v = trim_space t)"
    proof
      assume "\<exists>(k, v) \<in> set seen. trim_space v = trim_space t"
      then obtain k v where "(k, v) \<in> set seen" "trim_space v = trim_space t" by blast
      then have "owner (trim_space t) = Some (group_name k)" using ok False by fastforce
      with None show False by simp
    qed
    have "build_add st g t = Inr (AList.update (trim_space t) (group_name g) out, owner(trim_space t \<mapsto> group_name g))"
      using False None by (simp add: st build_add_def Let_def Add_def group_name_simps)
    moreover have "build_ok (seen @ [(g, t)]) (AList.update (trim_space t) (group_name g) out, owner(trim_space t \<mapsto> group_name g))"
      using ok none False by (auto simp: build_ok_def fun_eq_iff split: if_splits)
    ultimately show ?thesis by simp
  next
    case (Some prev)
    then obtain k v where kv: "(k, v) \<in> set seen" "trim_space v = trim_space t" "group_name k = prev"
      using ok by blast
    show ?thesis
    proof (cases "prev = group_name g")
      case True
      have "build_add st g t = Inr (AList.update (trim_space t) (group_name g) out, owner(trim_space t \<mapsto> group_name g))"
        using False Some True by (simp add: st build_add_def Let_def Add_def group_name_simps)
      moreover have "owner(trim_space t \<mapsto> group_name g) = owner" using Some True by auto
      moreover have "map_of (AList.update (trim_space t) (group_name g) out) = owner"
      proof -
        have "map_of out = owner" using ok by (auto simp: fun_eq_iff)
        moreover have "owner (trim_space t) = Some (group_name g)" using Some True by simp
        ultimately show ?thesis by (simp add: update_conv' fun_upd_idem)
      qed
      moreover have "owner tok = Some h \<longleftrightarrow> tok \<noteq> [] \<and>
          (\<exists>(k, v) \<in> set (seen @ [(g, t)]). trim_space v = tok \<and> group_name k = h)" for tok h
        using ok kv True by auto
      ultimately show ?thesis using ok by (simp add: build_ok_def)
    next
      case neq: False
      have "build_add st g t = Inl (SharedJoinToken prev (group_name g))"
        using False Some neq by (simp add: st build_add_def Let_def group_name_simps)
      moreover have "token_clash (seen @ [(g, t)])"
        unfolding token_clash_def using kv neq False
        by (intro exI[of _ k] exI[of _ v] exI[of _ g] exI[of _ t]) simp
      ultimately show ?thesis by simp
    qed
  qed
qed

lemma build_all_step:
  assumes "build_ok seen st"
  shows "case build_all st es of
           Inl e \<Rightarrow> token_clash (seen @ es)
         | Inr st' \<Rightarrow> build_ok (seen @ es) st'"
  using assms
proof (induction es arbitrary: seen st)
  case Nil
  then show ?case by simp
next
  case (Cons e es)
  obtain g t where e: "e = (g, t)" by fastforce
  show ?case
  proof (cases "build_add st g t")
    case (Inl er)
    then have "token_clash (seen @ [(g, t)])" using build_add_step[OF Cons.prems, of g t] by simp
    then have "token_clash (seen @ e # es)" by (rule token_clash_mono) (auto simp: e)
    with Inl show ?thesis by (simp add: e)
  next
    case (Inr st')
    then have "build_ok (seen @ [e]) st'" using build_add_step[OF Cons.prems, of g t] by (simp add: e)
    from Cons.IH[OF this] Inr show ?thesis by (cases "build_all st' es") (auto simp: e)
  qed
qed

text \<open>All configured entries, the plain join token first.\<close>

definition token_entries :: "string \<Rightarrow> (string, string) gomap \<Rightarrow> (string \<times> string) list" where
  "token_entries d m = (DefaultGroup, d) # m"

lemma map_the_map_of: "gomap_ok m \<Longrightarrow> set ks = fst ` set m \<Longrightarrow> set (map (\<lambda>g. (g, the (map_of m g))) ks) = set m"
  by (force simp: gomap_in_iff[symmetric] gomap_ok_def image_iff)

lemma BuildJoinTokens_result:
  assumes "reorders iter" and "gomap_ok m"
  shows "case BuildJoinTokens iter d m of
           Inl e \<Rightarrow> token_clash (token_entries d m)
         | Inr t \<Rightarrow> gomap_ok t \<and> (\<forall>tok g. map_of t tok = Some g \<longleftrightarrow>
             tok \<noteq> [] \<and> (\<exists>(k, v) \<in> set (token_entries d m). trim_space v = tok \<and> group_name k = g))"
proof -
  let ?es = "map (\<lambda>g. (g, the (map_of m g))) (sort (map fst (iter m)))"
  have "set (sort (map fst (iter m))) = fst ` set m" using assms(1) by (simp add: reorders_set)
  with assms(2) have set_es: "set ?es = set m" by (rule map_the_map_of)
  have start: "build_ok [] ([], Map.empty)" by (simp add: build_ok_def)
  note first = build_add_step[OF start, of DefaultGroup d]
  show ?thesis
  proof (cases "build_add ([], Map.empty) DefaultGroup d")
    case (Inl e)
    with first have "token_clash [(DefaultGroup, d)]" by simp
    then have "token_clash (token_entries d m)" by (rule token_clash_mono) (simp add: token_entries_def)
    with Inl show ?thesis by (simp add: BuildJoinTokens_def)
  next
    case (Inr st)
    with first have "build_ok [(DefaultGroup, d)] st" by simp
    from build_all_step[OF this, of ?es] Inr show ?thesis
      by (cases "build_all st ?es")
        (auto simp: BuildJoinTokens_def Let_def token_entries_def build_ok_def token_clash_def set_es
          simp del: set_map)
  qed
qed

section \<open>Printing and reading a rule\<close>

text \<open>A group name as the parser leaves it: normalised, not blank, with no separator in it.\<close>

definition clean_name :: "string \<Rightarrow> bool" where
  "clean_name g \<longleftrightarrow> g \<noteq> [] \<and> normalize g = g \<and> CHR '','' \<notin> set g \<and> CHR ''>'' \<notin> set g"

lemma cut_arrow: "CHR ''>'' \<notin> set a \<Longrightarrow> cut (a @ ''->'' @ b) ''->'' = Some (a, b)"
proof (induction a)
  case Nil
  then show ?case by (simp add: has_prefix_def)
next
  case (Cons c a)
  then have "\<not> has_prefix (c # a @ ''->'' @ b) ''->''"
    by (cases a) (auto simp: has_prefix_def)
  with Cons show ?case by simp
qed

lemma join_no_char: "x \<notin> set sep \<Longrightarrow> (\<And>p. p \<in> set ps \<Longrightarrow> x \<notin> set p) \<Longrightarrow> x \<notin> set (join_with sep ps)"
  by (induction sep ps rule: join_with.induct) auto

lemma splitGroups_join:
  assumes "gs \<noteq> []" and "\<And>g. g \<in> set gs \<Longrightarrow> clean_name g"
  shows "splitGroups (join_with '','' gs) = gs"
proof -
  have "split_on CHR '','' (join_with '','' gs) = gs"
    using assms by (intro split_join) (auto simp: clean_name_def)
  moreover have "map normalize gs = gs" using assms(2) by (simp add: clean_name_def map_idI)
  moreover have "filter (\<lambda>g. g \<noteq> []) gs = gs" using assms(2) by (auto simp: clean_name_def)
  ultimately show ?thesis by (simp add: splitGroups_def)
qed

section \<open>Properties\<close>

text \<open>with at least one rule the policy is default-deny: a member of one group reaches a member
  of another exactly when some rule names both, each by its normalised name or by the wildcard;
  with no rule everything is allowed. Visibility of peers is symmetric whatever the rules are.\<close>

theorem policy_default_deny:
  "(Allows p src dst \<longleftrightarrow>
      (p = None \<or> p_rules (the p) = [] \<or>
       (\<exists>r \<in> set (p_rules (the p)).
          (Wildcard \<in> set (r_src r) \<or> normalize src \<in> normalize ` set (r_src r)) \<and>
          (Wildcard \<in> set (r_dst r) \<or> normalize dst \<in> normalize ` set (r_dst r))))) \<and>
   Connected p src dst = Connected p dst src"
proof -
  have "Empty p \<longleftrightarrow> p = None \<or> p_rules (the p) = []"
    by (cases p) (simp_all add: Empty_def)
  moreover have "(\<exists>g \<in> set gs. normalize g = x) \<longleftrightarrow> x \<in> normalize ` set gs" for gs x by auto
  ultimately show ?thesis
    by (simp only: Allows_iff Connected_sym[of p src dst] matches_iff disj_assoc simp_thms)
qed

text \<open>adding a rule never widens access beyond what that rule names: whatever a policy allows
  after a rule is put in front or behind, it allowed before or the new rule names it. In
  particular the first rule takes an open network to default-deny.\<close>

theorem adding_a_rule_never_widens:
  assumes "Allows (Some (p\<lparr>p_rules := rs @ r # rs'\<rparr>)) src dst"
  shows "Allows (Some (p\<lparr>p_rules := rs @ rs'\<rparr>)) src dst \<or>
    (matches (r_src r) (normalize src) \<and> matches (r_dst r) (normalize dst))"
  using assms by (auto simp: Allows_iff Empty_def)

theorem adding_a_rule_never_widens_witness:
  "Allows (Some \<lparr>p_rules = [\<lparr>r_src = [''dev''], r_dst = [''*'']\<rparr>]\<rparr>) ''Dev'' ''nas'' \<and>
   \<not> Allows (Some \<lparr>p_rules = [\<lparr>r_src = [''dev''], r_dst = [''*'']\<rparr>]\<rparr>) ''guest'' ''nas''"
proof -
  let ?r = "\<lparr>r_src = [''dev''], r_dst = [''*'']\<rparr>"
  have a: "Allows (Some (\<lparr>p_rules = []\<rparr>\<lparr>p_rules := [] @ ?r # []\<rparr>)) ''Dev'' ''nas''" by code_simp
  have "\<not> Allows (Some \<lparr>p_rules = [?r]\<rparr>) ''guest'' ''nas''" by code_simp
  with a adding_a_rule_never_widens[OF a] show ?thesis by simp
qed

text \<open>the shorthand of a rule reads back as the rule it was printed from, for every rule whose
  group names are in the form the parser itself produces.\<close>

theorem ParseRule_roundtrip:
  assumes "r_src r \<noteq> []" and "r_dst r \<noteq> []"
    and "\<And>g. g \<in> set (r_src r) \<union> set (r_dst r) \<Longrightarrow> clean_name g"
  shows "ParseRule (rule_string r) = Inr r"
proof -
  have "CHR ''>'' \<notin> set (join_with '','' (r_src r))"
    by (rule join_no_char) (use assms(3) in \<open>auto simp: clean_name_def\<close>)
  then have "cut (rule_string r) ''->'' = Some (join_with '','' (r_src r), join_with '','' (r_dst r))"
    unfolding rule_string_def by (rule cut_arrow)
  moreover have "splitGroups (join_with '','' (r_src r)) = r_src r"
    using assms by (intro splitGroups_join) auto
  moreover have "splitGroups (join_with '','' (r_dst r)) = r_dst r"
    using assms by (intro splitGroups_join) auto
  ultimately show ?thesis using assms(1,2) by (simp add: ParseRule_def Let_def)
qed

theorem ParseRule_roundtrip_witness:
  "ParseRule (rule_string \<lparr>r_src = [''guest'', ''friends''], r_dst = [''nas'']\<rparr>) =
     Inr \<lparr>r_src = [''guest'', ''friends''], r_dst = [''nas'']\<rparr>"
proof (rule ParseRule_roundtrip)
  have "clean_name ''guest''" "clean_name ''friends''" "clean_name ''nas''" by code_simp+
  then show "\<And>g. g \<in> set (r_src \<lparr>r_src = [''guest'', ''friends''], r_dst = [''nas'']\<rparr>) \<union>
      set (r_dst \<lparr>r_src = [''guest'', ''friends''], r_dst = [''nas'']\<rparr>) \<Longrightarrow> clean_name g" by auto
qed simp_all

text \<open>the token table is unambiguous. Building it fails exactly when two configured groups share
  a token, and otherwise each token admits to precisely the group it was configured for: the plain
  join token to the default group, a group's token to that group. The result does not depend on
  the order the configuration map is walked in.\<close>

theorem BuildJoinTokens_unambiguous:
  assumes "reorders iter" and "gomap_ok m"
  shows "case BuildJoinTokens iter d m of
      Inl e \<Rightarrow> token_clash (token_entries d m)
    | Inr t \<Rightarrow> \<not> token_clash (token_entries d m) \<and>
        (\<forall>tok g. Group t tok = Some g \<longleftrightarrow>
           tok \<noteq> [] \<and> (\<exists>(k, v) \<in> set (token_entries d m). trim_space v = tok \<and> group_name k = g))"
proof (cases "BuildJoinTokens iter d m")
  case (Inl e)
  with BuildJoinTokens_result[OF assms, of d] show ?thesis by simp
next
  case (Inr t)
  let ?conf = "\<lambda>tok g. tok \<noteq> [] \<and> (\<exists>(k, v) \<in> set (token_entries d m). trim_space v = tok \<and> group_name k = g)"
  from Inr BuildJoinTokens_result[OF assms, of d]
  have res: "map_of t tok = Some g \<longleftrightarrow> ?conf tok g" for tok g by simp
  have "Group t tok = map_of t tok" for tok
  proof (cases "map_of t tok")
    case None
    then show ?thesis by (simp add: Group_def)
  next
    case (Some g)
    with res[of tok g] have "tok \<noteq> []" "g \<noteq> []" "normalize g = g" by (auto simp: group_name_simps)
    with Some show ?thesis by (simp add: Group_def)
  qed
  moreover have "\<not> token_clash (token_entries d m)"
  proof
    assume "token_clash (token_entries d m)"
    then obtain k v k' v' where c: "(k, v) \<in> set (token_entries d m)" "(k', v') \<in> set (token_entries d m)"
        "trim_space v \<noteq> []" "trim_space v = trim_space v'" "group_name k \<noteq> group_name k'"
      unfolding token_clash_def by blast
    then have "map_of t (trim_space v) = Some (group_name k)" "map_of t (trim_space v) = Some (group_name k')"
      unfolding res by force+
    with c(5) show False by simp
  qed
  ultimately show ?thesis using Inr res by simp
qed

theorem BuildJoinTokens_unambiguous_witness:
  "reorders rev \<and> gomap_ok [(''dev'', ''d-tok''), (''guest'', ''g-tok'')] \<and>
   (\<exists>t. BuildJoinTokens rev ''secret'' [(''dev'', ''d-tok''), (''guest'', ''g-tok'')] = Inr t \<and>
        Group t ''g-tok'' = Some ''guest'')"
proof -
  let ?m = "[(''dev'', ''d-tok''), (''guest'', ''g-tok'')]"
  have ok: "gomap_ok ?m" by (simp add: gomap_ok_def)
  have "BuildJoinTokens rev ''secret'' ?m =
      Inr [(''secret'', ''default''), (''d-tok'', ''dev''), (''g-tok'', ''guest'')]"
    by code_simp
  moreover from this BuildJoinTokens_unambiguous[OF reorders_rev ok, of "''secret''"]
  have "Group [(''secret'', ''default''), (''d-tok'', ''dev''), (''g-tok'', ''guest'')] tok = Some g \<longleftrightarrow>
      tok \<noteq> [] \<and> (\<exists>(k, v) \<in> set (token_entries ''secret'' ?m). trim_space v = tok \<and> group_name k = g)" for tok g
    by simp
  moreover have "trim_space ''g-tok'' = ''g-tok''" "group_name ''guest'' = ''guest''" by code_simp+
  ultimately show ?thesis using ok by (simp add: token_entries_def)
qed

text \<open>the wildcard is recognised by its exact spelling, so a policy file and the command line
  disagree about a stray space: the shorthand \<open>" * -> nas"\<close> covers every group, while the same
  group list taken from a JSON policy names only the group called \<open>*\<close>.\<close>

theorem wildcard_spacing:
  "(\<exists>r. ParseRule '' * -> nas'' = Inr r \<and> Allows (Some \<lparr>p_rules = [r]\<rparr>) ''guest'' ''nas'') \<and>
   Parse (\<lambda>_. Some \<lparr>p_rules = [\<lparr>r_src = ['' *''], r_dst = [''nas'']\<rparr>]\<rparr>) data =
     Inr \<lparr>p_rules = [\<lparr>r_src = ['' *''], r_dst = [''nas'']\<rparr>]\<rparr> \<and>
   \<not> Allows (Some \<lparr>p_rules = [\<lparr>r_src = ['' *''], r_dst = [''nas'']\<rparr>]\<rparr>) ''guest'' ''nas''"
proof -
  have "ParseRule '' * -> nas'' = Inr \<lparr>r_src = [''*''], r_dst = [''nas'']\<rparr>"
    "Allows (Some \<lparr>p_rules = [\<lparr>r_src = [''*''], r_dst = [''nas'']\<rparr>]\<rparr>) ''guest'' ''nas''"
    "\<not> Allows (Some \<lparr>p_rules = [\<lparr>r_src = ['' *''], r_dst = [''nas'']\<rparr>]\<rparr>) ''guest'' ''nas''"
    by code_simp+
  then show ?thesis by (auto simp: Parse_def)
qed

end
