(* ===== verification/Store.thy ===== *)
theory Store
  imports Prelude
begin

text \<open>
  \<open>server/store/store.go\<close>: the control server's members, their node tokens, and the published
  services. The two listings and the lookup by address range over a Go map, so they take its
  iteration order as an argument. A stored member is never changed in place (a re-registration
  stores a fresh one), so the pointers of the code are values here.
\<close>

record member =
  m_uuid :: string
  m_hostname :: string
  m_key :: string
  m_ip :: string
  m_endpoint :: string
  m_joined :: int
  m_token :: string
  m_group :: string

record store_service =
  ss_name :: string
  ss_proto :: string
  ss_port :: int
  ss_backend :: int
  ss_node :: string
  ss_vip :: string
  ss_allow :: "string list"

record network =
  nw_ID :: string
  nw_suffix :: string
  nw_cidr :: string
  nw_members :: "(string, member) gomap"
  nw_byToken :: "string \<rightharpoonup> member"
  nw_services :: "(string, store_service) gomap"

definition NewNetwork :: "string \<Rightarrow> string \<Rightarrow> string \<Rightarrow> network" where
  "NewNetwork ident dnsSuffix overlayCIDR =
     \<lparr>nw_ID = ident, nw_suffix = dnsSuffix, nw_cidr = overlayCIDR,
      nw_members = [], nw_byToken = Map.empty, nw_services = []\<rparr>"

definition Upsert :: "network \<Rightarrow> member \<Rightarrow> network" where
  "Upsert n m =
     (let tokens = (case map_of (nw_members n) (m_uuid m) of
                      Some prev \<Rightarrow> (if m_token prev \<noteq> [] then (nw_byToken n)(m_token prev := None) else nw_byToken n)
                    | None \<Rightarrow> nw_byToken n);
          n = n\<lparr>nw_byToken := tokens, nw_members := AList.update (m_uuid m) m (nw_members n)\<rparr>
      in if m_token m \<noteq> [] then n\<lparr>nw_byToken := (nw_byToken n)(m_token m \<mapsto> m)\<rparr> else n)"

definition MemberByToken :: "network \<Rightarrow> string \<Rightarrow> member option" where
  "MemberByToken n token = (if token = [] then None else nw_byToken n token)"

type_synonym 'v order = "(string \<times> 'v) list \<Rightarrow> (string \<times> 'v) list"

definition MemberByIP :: "member order \<Rightarrow> network \<Rightarrow> string \<Rightarrow> member option" where
  "MemberByIP iter n ip =
     (if ip = [] then None else List.find (\<lambda>m. m_ip m = ip) (map snd (iter (nw_members n))))"

definition Members :: "member order \<Rightarrow> network \<Rightarrow> member list" where
  "Members iter n = map snd (iter (nw_members n))"

definition UpsertService :: "network \<Rightarrow> store_service \<Rightarrow> network" where
  "UpsertService n s = n\<lparr>nw_services := AList.update (ss_name s) s (nw_services n)\<rparr>"

definition Services :: "store_service order \<Rightarrow> network \<Rightarrow> store_service list" where
  "Services iter n = map snd (iter (nw_services n))"

section \<open>The interface the control API relies on\<close>

text \<open>
  A table of records by identity with an index by token: the index is exact, so replacing a record
  retires the token it had and touches no other.
\<close>

locale token_table =
  fixes upsert :: "'s \<Rightarrow> 'm \<Rightarrow> 's"
    and by_ident :: "'s \<Rightarrow> string \<Rightarrow> 'm option"
    and by_token :: "'s \<Rightarrow> string \<Rightarrow> 'm option"
    and ident :: "'m \<Rightarrow> string"
    and token :: "'m \<Rightarrow> string"
    and inv :: "'s \<Rightarrow> bool"
  assumes upsert_inv: "inv s \<Longrightarrow> token m \<noteq> [] \<Longrightarrow> by_token s (token m) = None \<Longrightarrow> inv (upsert s m)"
    and by_token_iff: "inv s \<Longrightarrow> by_token s t = Some m \<longleftrightarrow> t \<noteq> [] \<and> token m = t \<and> by_ident s (ident m) = Some m"
    and by_ident_upsert: "by_ident (upsert s m) u = (if u = ident m then Some m else by_ident s u)"
begin

lemma upsert_by_token:
  assumes "inv s" "token m \<noteq> []" "by_token s (token m) = None"
  shows "by_token (upsert s m) t = Some m' \<longleftrightarrow>
    t \<noteq> [] \<and> token m' = t \<and> (if ident m' = ident m then m' = m else by_ident s (ident m') = Some m')"
  using by_token_iff[OF upsert_inv[OF assms]] by (auto simp: by_ident_upsert)

lemma upsert_new_token:
  "inv s \<Longrightarrow> token m \<noteq> [] \<Longrightarrow> by_token s (token m) = None \<Longrightarrow> by_token (upsert s m) (token m) = Some m"
  by (simp add: upsert_by_token)

lemma upsert_retires:
  assumes "inv s" "token m \<noteq> []" "by_token s (token m) = None"
    and "by_token s t = Some old" and "ident old = ident m"
  shows "by_token (upsert s m) t = None"
proof (rule ccontr)
  assume "by_token (upsert s m) t \<noteq> None"
  then obtain m' where m': "token m' = t" "t \<noteq> []"
      "if ident m' = ident m then m' = m else by_ident s (ident m') = Some m'"
    unfolding not_None_eq using upsert_by_token[OF assms(1-3)] by blast
  show False
  proof (cases "ident m' = ident m")
    case True
    with m' assms(3,4) show False by simp
  next
    case False
    with m' have "by_token s t = Some m'" using by_token_iff[OF assms(1)] by simp
    with assms(4,5) False show False by simp
  qed
qed

lemma upsert_keeps:
  assumes "inv s" "token m \<noteq> []" "by_token s (token m) = None"
    and "by_token s t = Some m'" and "ident m' \<noteq> ident m"
  shows "by_token (upsert s m) t = Some m'"
  using assms by (simp add: upsert_by_token by_token_iff)

end

section \<open>The store provides it\<close>

definition store_ok :: "network \<Rightarrow> bool" where
  "store_ok n \<longleftrightarrow>
     gomap_ok (nw_members n) \<and> gomap_ok (nw_services n) \<and>
     (\<forall>u m. map_of (nw_members n) u = Some m \<longrightarrow> m_uuid m = u \<and> m_token m \<noteq> []) \<and>
     (\<forall>t m. nw_byToken n t = Some m \<longleftrightarrow> t \<noteq> [] \<and> m_token m = t \<and> map_of (nw_members n) (m_uuid m) = Some m) \<and>
     (\<forall>u s. map_of (nw_services n) u = Some s \<longrightarrow> ss_name s = u)"

definition member_of :: "network \<Rightarrow> string \<Rightarrow> member option" where
  "member_of n = map_of (nw_members n)"

lemma store_okD:
  assumes "store_ok n"
  shows "gomap_ok (nw_members n)" "gomap_ok (nw_services n)"
    "map_of (nw_members n) u = Some m \<Longrightarrow> m_uuid m = u \<and> m_token m \<noteq> []"
    "nw_byToken n t = Some m \<longleftrightarrow> t \<noteq> [] \<and> m_token m = t \<and> map_of (nw_members n) (m_uuid m) = Some m"
    "map_of (nw_services n) u = Some s \<Longrightarrow> ss_name s = u"
  using assms unfolding store_ok_def by blast+

lemma NewNetwork_ok [inv_intros]: "store_ok (NewNetwork i d c)"
  by (simp add: store_ok_def NewNetwork_def)

lemma Upsert_fields [simp]:
  "nw_members (Upsert n m) = AList.update (m_uuid m) m (nw_members n)"
  "nw_services (Upsert n m) = nw_services n" "nw_ID (Upsert n m) = nw_ID n"
  "nw_suffix (Upsert n m) = nw_suffix n" "nw_cidr (Upsert n m) = nw_cidr n"
  by (simp_all add: Upsert_def Let_def)

lemma UpsertService_fields [simp]:
  "nw_members (UpsertService n s) = nw_members n" "nw_byToken (UpsertService n s) = nw_byToken n"
  "nw_services (UpsertService n s) = AList.update (ss_name s) s (nw_services n)"
  "nw_ID (UpsertService n s) = nw_ID n" "nw_suffix (UpsertService n s) = nw_suffix n"
  "nw_cidr (UpsertService n s) = nw_cidr n"
  by (simp_all add: UpsertService_def)

lemma Upsert_byToken:
  assumes "store_ok n" "m_token m \<noteq> []"
  shows "nw_byToken (Upsert n m) t =
    (if t = m_token m then Some m
     else case nw_byToken n t of
            Some m' \<Rightarrow> (if m_uuid m' = m_uuid m then None else Some m') | None \<Rightarrow> None)"
proof (cases "map_of (nw_members n) (m_uuid m)")
  case None
  then have "nw_byToken n t = Some m' \<Longrightarrow> m_uuid m' \<noteq> m_uuid m" for m'
    using store_okD(4)[OF assms(1)] by force
  with None assms(2) show ?thesis by (auto simp: Upsert_def Let_def split: option.splits)
next
  case (Some prev)
  then have p: "m_uuid prev = m_uuid m" "m_token prev \<noteq> []" using store_okD(3)[OF assms(1)] by simp_all
  with Some have "nw_byToken n (m_token prev) = Some prev" using store_okD(4)[OF assms(1)] by simp
  then have prev: "nw_byToken n t = Some prev \<longleftrightarrow> t = m_token prev" for t
    using store_okD(4)[OF assms(1), of t prev] by auto
  have one: "m' = prev" if "nw_byToken n t = Some m'" "m_uuid m' = m_uuid m" for m' t
    using that store_okD(4)[OF assms(1), of t m'] Some by simp
  have tok: "nw_byToken (Upsert n m) = (nw_byToken n)(m_token prev := None, m_token m \<mapsto> m)"
    using Some p(2) assms(2) by (simp add: Upsert_def Let_def)
  show ?thesis
  proof (cases "nw_byToken n t")
    case None
    then show ?thesis by (simp add: tok)
  next
    case (Some m')
    show ?thesis
    proof (cases "m_uuid m' = m_uuid m")
      case True
      with one[OF Some] prev[of t] Some have "t = m_token prev" by simp
      with True Some show ?thesis by (simp add: tok)
    next
      case False
      with prev[of t] p(1) Some have "t \<noteq> m_token prev" by auto
      with False Some show ?thesis by (simp add: tok)
    qed
  qed
qed

lemma Upsert_ok [inv_intros]:
  assumes "store_ok n" "m_token m \<noteq> []" "nw_byToken n (m_token m) = None"
  shows "store_ok (Upsert n m)"
proof -
  have "nw_byToken (Upsert n m) t = Some x \<longleftrightarrow>
      t \<noteq> [] \<and> m_token x = t \<and> map_of (nw_members (Upsert n m)) (m_uuid x) = Some x" for t x
    using assms store_okD(4)[OF assms(1), of t x] store_okD(4)[OF assms(1), of "m_token m" x]
    by (auto simp: Upsert_byToken split: option.splits if_splits)
  with assms show ?thesis
    unfolding store_ok_def by (auto simp: split: if_splits)
qed

lemma UpsertService_ok [inv_intros]: "store_ok n \<Longrightarrow> store_ok (UpsertService n s)"
  unfolding store_ok_def by (auto split: if_splits)

interpretation store: token_table Upsert member_of MemberByToken m_uuid m_token store_ok
proof
  fix n m t u
  show "store_ok (Upsert n m)" if "store_ok n" "m_token m \<noteq> []" "MemberByToken n (m_token m) = None"
    using that by (intro Upsert_ok) (auto simp: MemberByToken_def)
  show "(MemberByToken n t = Some m) = (t \<noteq> [] \<and> m_token m = t \<and> member_of n (m_uuid m) = Some m)"
    if "store_ok n"
    using store_okD(4)[OF that] by (auto simp: MemberByToken_def member_of_def)
  show "member_of (Upsert n m) u = (if u = m_uuid m then Some m else member_of n u)"
    by (simp add: member_of_def)
qed

lemma Members_set: "store_ok n \<Longrightarrow> reorders iter \<Longrightarrow> m \<in> set (Members iter n) \<longleftrightarrow> member_of n (m_uuid m) = Some m"
  by (auto simp: Members_def member_of_def reorders_set gomap_values_iff[OF store_okD(1)] dest: store_okD(3))

lemma Services_set:
  "store_ok n \<Longrightarrow> reorders iter \<Longrightarrow> s \<in> set (Services iter n) \<longleftrightarrow> map_of (nw_services n) (ss_name s) = Some s"
  by (auto simp: Services_def reorders_set gomap_values_iff[OF store_okD(2)] dest: store_okD(5))

end
