(* ===== verification/Json.thy ===== *)
theory Json
  imports GoStrings
begin

text \<open>
  What the program uses of \<open>encoding/json\<close>: documents, and the way \<open>Unmarshal\<close> fills the fields of
  a struct from an object. A key selects a field whatever its case, a later occurrence of a key
  overwrites an earlier one, an unknown key is skipped, \<open>null\<close> leaves a string, a number or a struct
  as it is and clears a slice, and a value of the wrong type is an error. The text level (bytes to
  document) is left to the callers as "the body is a document or it is not JSON".
\<close>

datatype json =
    JNull
  | JBool bool
  | JInt int
  | JFrac string
  | JStr string
  | JArr "json list"
  | JObj "(string \<times> json) list"

definition rd_string :: "string \<Rightarrow> json \<Rightarrow> string option" where
  "rd_string old v = (case v of JNull \<Rightarrow> Some old | JStr s \<Rightarrow> Some s | _ \<Rightarrow> None)"

definition int64 :: "int \<Rightarrow> bool" where
  "int64 n \<longleftrightarrow> - (2 ^ 63) \<le> n \<and> n < 2 ^ 63"

definition rd_int :: "int \<Rightarrow> json \<Rightarrow> int option" where
  "rd_int old v = (case v of JNull \<Rightarrow> Some old | JInt n \<Rightarrow> (if int64 n then Some n else None) | _ \<Rightarrow> None)"

definition rd_bool :: "bool \<Rightarrow> json \<Rightarrow> bool option" where
  "rd_bool old v = (case v of JNull \<Rightarrow> Some old | JBool b \<Rightarrow> Some b | _ \<Rightarrow> None)"

definition rd_list :: "(json \<Rightarrow> 'a option) \<Rightarrow> 'a list \<Rightarrow> json \<Rightarrow> 'a list option" where
  "rd_list rd old v = (case v of JNull \<Rightarrow> Some [] | JArr js \<Rightarrow> those (map rd js) | _ \<Rightarrow> None)"

text \<open>One field of a struct: all occurrences of its key, in document order.\<close>

fun field_in :: "string \<Rightarrow> ('a \<Rightarrow> json \<Rightarrow> 'a option) \<Rightarrow> 'a \<Rightarrow> (string \<times> json) list \<Rightarrow> 'a option" where
  "field_in name rd z [] = Some z"
| "field_in name rd z ((k, v) # kvs) =
     (if equal_fold k name
      then (case rd z v of None \<Rightarrow> None | Some z' \<Rightarrow> field_in name rd z' kvs)
      else field_in name rd z kvs)"

definition field :: "string \<Rightarrow> ('a \<Rightarrow> json \<Rightarrow> 'a option) \<Rightarrow> 'a \<Rightarrow> json \<Rightarrow> 'a option" where
  "field name rd z j = (case j of JObj kvs \<Rightarrow> field_in name rd z kvs | JNull \<Rightarrow> Some z | _ \<Rightarrow> None)"

text \<open>Encoding a struct: fields in declaration order, those tagged \<open>omitempty\<close> only when set.\<close>

definition always :: "string \<Rightarrow> json \<Rightarrow> (string \<times> json) list" where
  "always k v = [(k, v)]"

definition omit_empty :: "string \<Rightarrow> json \<Rightarrow> (string \<times> json) list" where
  "omit_empty k v = (if v = JStr [] \<or> v = JInt 0 \<or> v = JBool False \<or> v = JArr [] then [] else [(k, v)])"

definition to_strings :: "string list \<Rightarrow> json" where
  "to_strings xs = JArr (map JStr xs)"

definition rd_strings :: "string list \<Rightarrow> json \<Rightarrow> string list option" where
  "rd_strings = rd_list (rd_string [])"

lemma rd_string_JStr [simp]: "rd_string z (JStr s) = Some s"
  by (simp add: rd_string_def)

lemma rd_int_JInt [simp]: "int64 n \<Longrightarrow> rd_int z (JInt n) = Some n"
  by (simp add: rd_int_def)

lemma rd_bool_JBool [simp]: "rd_bool z (JBool b) = Some b"
  by (simp add: rd_bool_def)

lemma those_map_Some: "(\<And>x. x \<in> set xs \<Longrightarrow> f (g x) = Some x) \<Longrightarrow> those (map (f \<circ> g) xs) = Some xs"
  by (induction xs) auto

lemma rd_list_JArr: "(\<And>x. x \<in> set xs \<Longrightarrow> rd (enc x) = Some x) \<Longrightarrow> rd_list rd z (JArr (map enc xs)) = Some xs"
  by (simp add: rd_list_def those_map_Some)

lemma rd_strings_to [simp]: "rd_strings z (to_strings xs) = Some xs"
  by (simp add: rd_strings_def to_strings_def rd_list_JArr)

lemma to_strings_eq_Nil [simp]: "to_strings xs = JArr [] \<longleftrightarrow> xs = []" "to_strings xs \<noteq> JStr s"
    "to_strings xs \<noteq> JInt n" "to_strings xs \<noteq> JBool b"
  by (auto simp: to_strings_def)

text \<open>
  Reading back what a struct encodes to. A field written is read, every other field is passed over
  because no two keys of a struct are alike, and a field left out is the zero value it had.
\<close>

lemma field_in_append:
  "field_in n rd z (xs @ ys) = (case field_in n rd z xs of None \<Rightarrow> None | Some z' \<Rightarrow> field_in n rd z' ys)"
  by (induction n rd z xs rule: field_in.induct) (auto split: option.splits)

lemma field_in_always [simp]:
  "field_in n rd z (always k v) = (if equal_fold k n then rd z v else Some z)"
  by (auto simp: always_def split: option.splits)

lemma field_in_omit [simp]:
  "field_in n rd z (omit_empty k v) =
     (if equal_fold k n \<and> \<not> (v = JStr [] \<or> v = JInt 0 \<or> v = JBool False \<or> v = JArr []) then rd z v else Some z)"
  by (auto simp: omit_empty_def split: option.splits)

lemma equal_fold_refl [simp]: "equal_fold s s"
  by (simp add: equal_fold_def)

lemma equal_fold_lower: "to_lower k = k \<Longrightarrow> to_lower n = n \<Longrightarrow> equal_fold k n \<longleftrightarrow> k = n"
  by (simp add: equal_fold_def)

end
