(* ===== verification/Proto.thy ===== *)
theory Proto
  imports Json
begin

text \<open>
  \<open>shared/proto/proto.go\<close>: the wire types of the control channel, each with the document it encodes
  to and the decoding of a document into it.
\<close>

record register_request =
  rq_token :: string
  rq_uuid :: string
  rq_hostname :: string
  rq_key :: string
  rq_endpoint :: string

record register_response =
  rs_network :: string
  rs_suffix :: string
  rs_cidr :: string
  rs_ip :: string
  rs_relay :: string
  rs_node_token :: string

record peer =
  pe_hostname :: string
  pe_key :: string
  pe_ip :: string
  pe_endpoint :: string
  pe_group :: string

record service =
  sv_name :: string
  sv_proto :: string
  sv_port :: int
  sv_backend :: int
  sv_node :: string
  sv_vip :: string
  sv_allow :: "string list"

section \<open>Encoding\<close>

definition enc_register_request :: "register_request \<Rightarrow> json" where
  "enc_register_request r = JObj
     (always ''token'' (JStr (rq_token r)) @ always ''device_uuid'' (JStr (rq_uuid r)) @
      always ''hostname'' (JStr (rq_hostname r)) @ always ''public_key'' (JStr (rq_key r)) @
      omit_empty ''endpoint'' (JStr (rq_endpoint r)))"

definition enc_register_response :: "register_response \<Rightarrow> json" where
  "enc_register_response r = JObj
     (always ''network_id'' (JStr (rs_network r)) @ always ''dns_suffix'' (JStr (rs_suffix r)) @
      always ''overlay_cidr'' (JStr (rs_cidr r)) @ always ''assigned_ip'' (JStr (rs_ip r)) @
      omit_empty ''relay_addr'' (JStr (rs_relay r)) @ always ''node_token'' (JStr (rs_node_token r)))"

definition enc_peer :: "peer \<Rightarrow> json" where
  "enc_peer p = JObj
     (always ''hostname'' (JStr (pe_hostname p)) @ always ''public_key'' (JStr (pe_key p)) @
      always ''assigned_ip'' (JStr (pe_ip p)) @ omit_empty ''endpoint'' (JStr (pe_endpoint p)) @
      omit_empty ''group'' (JStr (pe_group p)))"

definition enc_peers :: "peer list \<Rightarrow> json" where
  "enc_peers ps = JObj (always ''peers'' (JArr (map enc_peer ps)))"

definition enc_service :: "service \<Rightarrow> json" where
  "enc_service s = JObj
     (always ''name'' (JStr (sv_name s)) @ always ''proto'' (JStr (sv_proto s)) @
      always ''port'' (JInt (sv_port s)) @ omit_empty ''backend_port'' (JInt (sv_backend s)) @
      always ''node_ip'' (JStr (sv_node s)) @ omit_empty ''vip'' (JStr (sv_vip s)) @
      omit_empty ''allow_groups'' (to_strings (sv_allow s)))"

definition enc_services :: "service list \<Rightarrow> json" where
  "enc_services ss = JObj (always ''services'' (JArr (map enc_service ss)))"

definition enc_error :: "string \<Rightarrow> json" where
  "enc_error e = JObj (always ''error'' (JStr e))"

section \<open>Decoding\<close>

definition dec_register_request :: "json \<Rightarrow> register_request option" where
  "dec_register_request j =
     (case (field ''token'' rd_string [] j, field ''device_uuid'' rd_string [] j, field ''hostname'' rd_string [] j,
            field ''public_key'' rd_string [] j, field ''endpoint'' rd_string [] j) of
        (Some t, Some u, Some h, Some k, Some e) \<Rightarrow>
          Some \<lparr>rq_token = t, rq_uuid = u, rq_hostname = h, rq_key = k, rq_endpoint = e\<rparr>
      | _ \<Rightarrow> None)"

definition dec_register_response :: "json \<Rightarrow> register_response option" where
  "dec_register_response j =
     (case (field ''network_id'' rd_string [] j, field ''dns_suffix'' rd_string [] j,
            field ''overlay_cidr'' rd_string [] j, field ''assigned_ip'' rd_string [] j,
            field ''relay_addr'' rd_string [] j, field ''node_token'' rd_string [] j) of
        (Some n, Some d, Some c, Some i, Some r, Some t) \<Rightarrow>
          Some \<lparr>rs_network = n, rs_suffix = d, rs_cidr = c, rs_ip = i, rs_relay = r, rs_node_token = t\<rparr>
      | _ \<Rightarrow> None)"

definition dec_peer :: "json \<Rightarrow> peer option" where
  "dec_peer j =
     (case (field ''hostname'' rd_string [] j, field ''public_key'' rd_string [] j,
            field ''assigned_ip'' rd_string [] j, field ''endpoint'' rd_string [] j, field ''group'' rd_string [] j) of
        (Some h, Some k, Some i, Some e, Some g) \<Rightarrow>
          Some \<lparr>pe_hostname = h, pe_key = k, pe_ip = i, pe_endpoint = e, pe_group = g\<rparr>
      | _ \<Rightarrow> None)"

definition dec_peers :: "json \<Rightarrow> peer list option" where
  "dec_peers j = field ''peers'' (rd_list dec_peer) [] j"

definition dec_service :: "json \<Rightarrow> service option" where
  "dec_service j =
     (case (field ''name'' rd_string [] j, field ''proto'' rd_string [] j, field ''port'' rd_int 0 j,
            field ''backend_port'' rd_int 0 j, field ''node_ip'' rd_string [] j, field ''vip'' rd_string [] j,
            field ''allow_groups'' rd_strings [] j) of
        (Some n, Some p, Some po, Some bp, Some ni, Some v, Some a) \<Rightarrow>
          Some \<lparr>sv_name = n, sv_proto = p, sv_port = po, sv_backend = bp, sv_node = ni, sv_vip = v, sv_allow = a\<rparr>
      | _ \<Rightarrow> None)"

definition dec_services :: "json \<Rightarrow> service list option" where
  "dec_services j = field ''services'' (rd_list dec_service) [] j"

definition dec_error :: "json \<Rightarrow> string option" where
  "dec_error j = field ''error'' rd_string [] j"

section \<open>What is sent is what is received\<close>

lemmas wire_defs = field_def equal_fold_def to_lower_def lower_char_def field_in_append less_eq_char_def

lemma dec_enc_register_request [simp]: "dec_register_request (enc_register_request r) = Some r"
  by (simp add: dec_register_request_def enc_register_request_def wire_defs)

lemma dec_enc_register_response [simp]: "dec_register_response (enc_register_response r) = Some r"
  by (simp add: dec_register_response_def enc_register_response_def wire_defs)

lemma dec_enc_peer [simp]: "dec_peer (enc_peer p) = Some p"
  by (simp add: dec_peer_def enc_peer_def wire_defs)

lemma dec_enc_peers [simp]: "dec_peers (enc_peers ps) = Some ps"
  by (simp add: dec_peers_def enc_peers_def wire_defs rd_list_JArr)

definition service_ints :: "service \<Rightarrow> bool" where
  "service_ints s \<longleftrightarrow> int64 (sv_port s) \<and> int64 (sv_backend s)"

lemma dec_enc_service [simp]: "service_ints s \<Longrightarrow> dec_service (enc_service s) = Some s"
  by (simp add: dec_service_def enc_service_def wire_defs service_ints_def)

lemma dec_enc_services: "list_all service_ints ss \<Longrightarrow> dec_services (enc_services ss) = Some ss"
  by (simp add: dec_services_def enc_services_def wire_defs rd_list_JArr list_all_iff)

lemma dec_enc_error [simp]: "dec_error (enc_error e) = Some e"
  by (simp add: dec_error_def enc_error_def wire_defs)

lemma dec_service_ints:
  assumes "dec_service j = Some s"
  shows "service_ints s"
proof -
  have zero: "int64 0" by (simp add: int64_def)
  have rd: "rd_int z v = Some n \<Longrightarrow> int64 z \<Longrightarrow> int64 n" for z n v
    by (auto simp: rd_int_def split: json.splits if_splits)
  have "int64 z \<Longrightarrow> field_in k rd_int z kvs = Some n \<Longrightarrow> int64 n" for z n k kvs
    by (induction kvs arbitrary: z) (auto split: if_splits option.splits, metis rd)
  then have "field k rd_int 0 j = Some n \<Longrightarrow> int64 n" for k n
    using zero by (auto simp: field_def split: json.splits)
  with assms show ?thesis
    by (auto simp: dec_service_def service_ints_def split: option.splits)
qed

end
