(* ===== verification/Api.thy ===== *)
theory Api
  imports Ipam Acl Store Proto
begin

text \<open>
  \<open>server/api/api.go\<close>: the control-plane endpoints. A request carries its method, its
  \<open>Authorization\<close> header and its body (a document, or none when the body is not JSON); a response is
  a status and a document. What a handler draws from outside is its environment: the random bytes of
  the token, the clock, and the orders in which the two maps are walked.

  Each of the two state-changing handlers takes two locks one after the other, the allocator's and
  then the store's. They are therefore split at that point: \<open>register_begin\<close> and \<open>publish_begin\<close> run
  up to and including the allocation and hand over what is still to be stored, and the whole handler
  is the composition. The interleavings of concurrent handlers are sequences of these halves.
\<close>

record server =
  srv_net :: network
  srv_nodeIPs :: allocator
  srv_serviceIPs :: allocator
  srv_tokens :: join_tokens
  srv_policy :: "policy option"
  srv_relayAddr :: string

record options =
  op_Network :: network
  op_Nodes :: allocator
  op_Services :: allocator
  op_Tokens :: "join_tokens option"
  op_Policy :: "policy option"
  op_RelayAddr :: string

record request =
  req_method :: string
  req_auth :: string
  req_body :: "json option"

type_synonym response = "nat \<times> json"

record env =
  e_rand :: "byte list option"
  e_now :: int
  e_members :: "member order"
  e_services :: "store_service order"

definition api_New :: "options \<Rightarrow> server" where
  "api_New opts =
     \<lparr>srv_net = op_Network opts, srv_nodeIPs = op_Nodes opts, srv_serviceIPs = op_Services opts,
      srv_tokens = (case op_Tokens opts of None \<Rightarrow> [] | Some t \<Rightarrow> t),
      srv_policy = op_Policy opts, srv_relayAddr = op_RelayAddr opts\<rparr>"

definition writeErr :: "nat \<Rightarrow> string \<Rightarrow> response" where
  "writeErr code msg = (code, enc_error msg)"

definition health :: "string \<Rightarrow> string \<Rightarrow> response" where
  "health productName version =
     (200, JObj [(''component'', JStr ''zwan-server''), (''product'', JStr productName),
                 (''status'', JStr ''ok''), (''version'', JStr version)])"

fun allocate_message :: "ipam_error \<Rightarrow> string" where
  "allocate_message (Exhausted p) = ''ipam: address space '' @ prefix_string p @ '' exhausted''"
| "allocate_message _ = ''''"

text \<open>The hexadecimal text of the 32 random bytes.\<close>

definition hex_byte :: "byte \<Rightarrow> string" where
  "hex_byte b = [''0123456789abcdef'' ! (unat b div 16), ''0123456789abcdef'' ! (unat b mod 16)]"

definition newNodeToken :: "byte list option \<Rightarrow> string option" where
  "newNodeToken rnd = map_option (\<lambda>bs. concat (map hex_byte bs)) rnd"

definition bearer :: "string \<Rightarrow> string" where
  "bearer h =
     (let prefix = ''Bearer '' in
      if length h \<le> length prefix \<or> \<not> equal_fold (take (length prefix) h) prefix then []
      else trim_space (drop (length prefix) h))"

definition cleanGroups :: "string list \<Rightarrow> string list" where
  "cleanGroups gs = filter (\<lambda>g. g \<noteq> []) (map trim_space gs)"

text \<open>The member behind a request, or the 401 that is answered for it.\<close>

definition caller :: "server \<Rightarrow> request \<Rightarrow> response + member" where
  "caller s r =
     (case MemberByToken (srv_net s) (bearer (req_auth r)) of
        None \<Rightarrow> Inl (writeErr 401 ''a node token is required; register first'')
      | Some m \<Rightarrow> Inr m)"

section \<open>Registration\<close>

definition register_begin :: "env \<Rightarrow> server \<Rightarrow> request \<Rightarrow> server \<times> (response + member)" where
  "register_begin e s r =
     (if req_method r \<noteq> ''POST'' then (s, Inl (writeErr 405 ''POST only''))
      else case (case req_body r of None \<Rightarrow> None | Some j \<Rightarrow> dec_register_request j) of
        None \<Rightarrow> (s, Inl (writeErr 400 ''invalid JSON body''))
      | Some req \<Rightarrow>
        (case Group (srv_tokens s) (rq_token req) of
           None \<Rightarrow> (s, Inl (writeErr 401 ''invalid token''))
         | Some grp \<Rightarrow>
             if rq_uuid req = [] \<or> rq_key req = [] then
               (s, Inl (writeErr 400 ''device_uuid and public_key are required''))
             else (case Allocate (srv_nodeIPs s) (rq_uuid req) of
               (Inl err, a) \<Rightarrow> (s\<lparr>srv_nodeIPs := a\<rparr>, Inl (writeErr 503 (allocate_message err)))
             | (Inr ip, a) \<Rightarrow>
                 (case newNodeToken (e_rand e) of
                    None \<Rightarrow> (s\<lparr>srv_nodeIPs := a\<rparr>, Inl (writeErr 500 ''could not issue a node token''))
                  | Some tok \<Rightarrow>
                      (s\<lparr>srv_nodeIPs := a\<rparr>,
                       Inr \<lparr>m_uuid = rq_uuid req, m_hostname = rq_hostname req, m_key = rq_key req,
                            m_ip = addr_string ip, m_endpoint = rq_endpoint req, m_joined = e_now e,
                            m_token = tok, m_group = grp\<rparr>)))))"

definition register_commit :: "server \<Rightarrow> member \<Rightarrow> server \<times> response" where
  "register_commit s m =
     (s\<lparr>srv_net := Upsert (srv_net s) m\<rparr>,
      (200, enc_register_response
         \<lparr>rs_network = nw_ID (srv_net s), rs_suffix = nw_suffix (srv_net s), rs_cidr = nw_cidr (srv_net s),
          rs_ip = m_ip m, rs_relay = srv_relayAddr s, rs_node_token = m_token m\<rparr>))"

definition register :: "env \<Rightarrow> server \<Rightarrow> request \<Rightarrow> server \<times> response" where
  "register e s r =
     (case register_begin e s r of
        (s', Inl resp) \<Rightarrow> (s', resp)
      | (s', Inr m) \<Rightarrow> register_commit s' m)"

section \<open>Peers\<close>

definition peer_of :: "member \<Rightarrow> peer" where
  "peer_of m = \<lparr>pe_hostname = m_hostname m, pe_key = m_key m, pe_ip = m_ip m,
     pe_endpoint = m_endpoint m, pe_group = m_group m\<rparr>"

definition visiblePeers :: "env \<Rightarrow> server \<Rightarrow> member \<Rightarrow> peer list" where
  "visiblePeers e s c =
     map peer_of (filter (\<lambda>m. \<not> (m_uuid m \<noteq> m_uuid c \<and> \<not> Connected (srv_policy s) (m_group c) (m_group m)))
       (sort_key m_ip (Members (e_members e) (srv_net s))))"

definition peers :: "env \<Rightarrow> server \<Rightarrow> request \<Rightarrow> response" where
  "peers e s r =
     (case caller s r of Inl resp \<Rightarrow> resp | Inr c \<Rightarrow> (200, enc_peers (visiblePeers e s c)))"

section \<open>Services\<close>

definition visibleService :: "env \<Rightarrow> server \<Rightarrow> member \<Rightarrow> store_service \<Rightarrow> bool" where
  "visibleService e s c sv =
     (if ss_node sv = m_ip c then True
      else case MemberByIP (e_members e) (srv_net s) (ss_node sv) of
             None \<Rightarrow> False
           | Some hostMember \<Rightarrow>
               if \<not> Connected (srv_policy s) (m_group c) (m_group hostMember) then False
               else AllowsGroup (ss_allow sv) (m_group c))"

definition service_of :: "store_service \<Rightarrow> service" where
  "service_of sv = \<lparr>sv_name = ss_name sv, sv_proto = ss_proto sv, sv_port = ss_port sv,
     sv_backend = ss_backend sv, sv_node = ss_node sv, sv_vip = ss_vip sv, sv_allow = ss_allow sv\<rparr>"

definition visibleServices :: "env \<Rightarrow> server \<Rightarrow> member \<Rightarrow> service list" where
  "visibleServices e s c =
     sort_key sv_name (map service_of (filter (visibleService e s c) (Services (e_services e) (srv_net s))))"

definition list_services :: "env \<Rightarrow> server \<Rightarrow> request \<Rightarrow> response" where
  "list_services e s r =
     (case caller s r of Inl resp \<Rightarrow> resp | Inr c \<Rightarrow> (200, enc_services (visibleServices e s c)))"

definition publish_begin :: "server \<Rightarrow> request \<Rightarrow> server \<times> (response + store_service)" where
  "publish_begin s r =
     (case caller s r of
        Inl resp \<Rightarrow> (s, Inl resp)
      | Inr c \<Rightarrow>
        (case (case req_body r of None \<Rightarrow> None | Some j \<Rightarrow> dec_service j) of
           None \<Rightarrow> (s, Inl (writeErr 400 ''invalid JSON body''))
         | Some req \<Rightarrow>
             if sv_name req = [] \<or> sv_port req = 0 then (s, Inl (writeErr 400 ''name and port are required''))
             else if sv_node req \<noteq> [] \<and> sv_node req \<noteq> m_ip c then
               (s, Inl (writeErr 403 ''a service must be published on the calling node''))
             else (case Allocate (srv_serviceIPs s) (sv_name req) of
               (Inl err, a) \<Rightarrow> (s\<lparr>srv_serviceIPs := a\<rparr>, Inl (writeErr 503 (allocate_message err)))
             | (Inr vip, a) \<Rightarrow>
                 (s\<lparr>srv_serviceIPs := a\<rparr>,
                  Inr \<lparr>ss_name = sv_name req, ss_proto = (if sv_proto req = [] then ''tcp'' else sv_proto req),
                       ss_port = sv_port req, ss_backend = sv_backend req, ss_node = (if sv_node req = [] then m_ip c else sv_node req),
                       ss_vip = addr_string vip, ss_allow = cleanGroups (sv_allow req)\<rparr>))))"

definition publish_commit :: "server \<Rightarrow> store_service \<Rightarrow> server \<times> response" where
  "publish_commit s sv =
     (s\<lparr>srv_net := UpsertService (srv_net s) sv\<rparr>, (200, enc_service (service_of sv)))"

definition publish_service :: "server \<Rightarrow> request \<Rightarrow> server \<times> response" where
  "publish_service s r =
     (case publish_begin s r of
        (s', Inl resp) \<Rightarrow> (s', resp)
      | (s', Inr sv) \<Rightarrow> publish_commit s' sv)"

definition services :: "env \<Rightarrow> server \<Rightarrow> request \<Rightarrow> server \<times> response" where
  "services e s r =
     (if req_method r = ''GET'' then (s, list_services e s r)
      else if req_method r = ''POST'' then publish_service s r
      else (s, writeErr 405 ''GET or POST only''))"

datatype route = Healthz | Register | Peers | ServicesPath | NoRoute

definition Routes :: "string \<Rightarrow> route" where
  "Routes path =
     (if path = ''/healthz'' then Healthz else if path = ''/v1/register'' then Register
      else if path = ''/v1/peers'' then Peers else if path = ''/v1/services'' then ServicesPath
      else NoRoute)"

definition serve :: "string \<Rightarrow> string \<Rightarrow> env \<Rightarrow> server \<Rightarrow> string \<Rightarrow> request \<Rightarrow> server \<times> response" where
  "serve productName version e s path r =
     (case Routes path of
        Healthz \<Rightarrow> (s, health productName version)
      | Register \<Rightarrow> register e s r
      | Peers \<Rightarrow> (s, peers e s r)
      | ServicesPath \<Rightarrow> services e s r
      | NoRoute \<Rightarrow> (s, (404, JNull)))"

section \<open>Concurrent handlers\<close>

text \<open>What a handler has allocated and not stored yet.\<close>

datatype job = StoreMember member | StoreService store_service

fun job_token :: "job \<Rightarrow> string option" where
  "job_token (StoreMember m) = Some (m_token m)"
| "job_token (StoreService sv) = None"

text \<open>A minted token is 256 random bits: it is not blank and nobody holds it.\<close>

definition fresh_token :: "server \<Rightarrow> job list \<Rightarrow> string \<Rightarrow> bool" where
  "fresh_token s js t \<longleftrightarrow> t \<noteq> [] \<and> nw_byToken (srv_net s) t = None \<and> Some t \<notin> job_token ` set js"

inductive api_step :: "server \<times> job list \<Rightarrow> server \<times> job list \<Rightarrow> bool" where
  begin_register: "register_begin e s r = (s', Inr m) \<Longrightarrow> fresh_token s js (m_token m) \<Longrightarrow>
     api_step (s, js) (s', StoreMember m # js)"
| refuse_register: "register_begin e s r = (s', Inl resp) \<Longrightarrow> api_step (s, js) (s', js)"
| commit_register: "api_step (s, xs @ StoreMember m # ys) (fst (register_commit s m), xs @ ys)"
| begin_publish: "publish_begin s r = (s', Inr sv) \<Longrightarrow> api_step (s, js) (s', StoreService sv # js)"
| refuse_publish: "publish_begin s r = (s', Inl resp) \<Longrightarrow> api_step (s, js) (s', js)"
| commit_publish: "api_step (s, xs @ StoreService sv # ys) (fst (publish_commit s sv), xs @ ys)"

inductive_cases api_stepE: "api_step x y"

definition held_node :: "server \<Rightarrow> member \<Rightarrow> bool" where
  "held_node s m \<longleftrightarrow> (\<exists>ip. al_byKey (srv_nodeIPs s) (m_uuid m) = Some ip \<and> m_ip m = addr_string ip)"

definition held_service :: "server \<Rightarrow> store_service \<Rightarrow> bool" where
  "held_service s sv \<longleftrightarrow> (\<exists>ip. al_byKey (srv_serviceIPs s) (ss_name sv) = Some ip \<and> ss_vip sv = addr_string ip)"

definition jobs_ok :: "server \<Rightarrow> job list \<Rightarrow> bool" where
  "jobs_ok s js \<longleftrightarrow>
     (\<forall>m. StoreMember m \<in> set js \<longrightarrow> held_node s m \<and> m_token m \<noteq> [] \<and> nw_byToken (srv_net s) (m_token m) = None) \<and>
     (\<forall>sv. StoreService sv \<in> set js \<longrightarrow> held_service s sv) \<and>
     distinct (filter (\<lambda>t. t \<noteq> None) (map job_token js))"

definition api_ok :: "u32 \<Rightarrow> nat \<Rightarrow> u32 \<Rightarrow> server \<times> job list \<Rightarrow> bool" where
  "api_ok base b mid x \<longleftrightarrow>
     store_ok (srv_net (fst x)) \<and>
     halves base b mid (srv_nodeIPs (fst x)) (srv_serviceIPs (fst x)) \<and>
     (\<forall>u m. member_of (srv_net (fst x)) u = Some m \<longrightarrow> held_node (fst x) m) \<and>
     (\<forall>n sv. map_of (nw_services (srv_net (fst x))) n = Some sv \<longrightarrow> held_service (fst x) sv) \<and>
     jobs_ok (fst x) (snd x)"

lemma api_okD:
  assumes "api_ok base b mid (s, js)"
  shows "store_ok (srv_net s)" "halves base b mid (srv_nodeIPs s) (srv_serviceIPs s)"
    "member_of (srv_net s) u = Some m \<Longrightarrow> held_node s m"
    "map_of (nw_services (srv_net s)) n = Some sv \<Longrightarrow> held_service s sv"
    "jobs_ok s js"
  using assms unfolding api_ok_def by auto

text \<open>An allocation only adds to what is held.\<close>

lemma held_node_keeps:
  assumes "halves base b mid (srv_nodeIPs s) t" and "held_node s m"
  shows "held_node (s\<lparr>srv_nodeIPs := snd (Allocate (srv_nodeIPs s) k)\<rparr>) m"
proof -
  have ok: "ipam_ok base (b + 1) (srv_nodeIPs s)" using assms(1) by (simp add: halves_def)
  show ?thesis using assms(2) ipam.alloc_keeps[OF ok, of "m_uuid m" _ k] by (auto simp: held_node_def)
qed

lemma held_service_keeps:
  assumes "halves base b mid t (srv_serviceIPs s)" and "held_service s m"
  shows "held_service (s\<lparr>srv_serviceIPs := snd (Allocate (srv_serviceIPs s) k)\<rparr>) m"
proof -
  have ok: "ipam_ok mid (b + 1) (srv_serviceIPs s)" using assms(1) by (simp add: halves_def)
  show ?thesis using assms(2) ipam.alloc_keeps[OF ok, of "ss_name m" _ k] by (auto simp: held_service_def)
qed

lemma api_ok_allocate_node:
  assumes "api_ok base b mid (s, js)"
  shows "api_ok base b mid (s\<lparr>srv_nodeIPs := snd (Allocate (srv_nodeIPs s) k)\<rparr>, js)"
proof -
  note D = api_okD[OF assms]
  have keep: "held_node s m \<Longrightarrow> held_node (s\<lparr>srv_nodeIPs := snd (Allocate (srv_nodeIPs s) k)\<rparr>) m" for m
    using held_node_keeps[OF D(2)] .
  have "held_service (s\<lparr>srv_nodeIPs := a\<rparr>) sv = held_service s sv" for a sv by (simp add: held_service_def)
  with D keep show ?thesis unfolding api_ok_def jobs_ok_def by (simp add: halves_nodes)
qed

lemma api_ok_allocate_service:
  assumes "api_ok base b mid (s, js)"
  shows "api_ok base b mid (s\<lparr>srv_serviceIPs := snd (Allocate (srv_serviceIPs s) k)\<rparr>, js)"
proof -
  note D = api_okD[OF assms]
  have keep: "held_service s m \<Longrightarrow> held_service (s\<lparr>srv_serviceIPs := snd (Allocate (srv_serviceIPs s) k)\<rparr>) m" for m
    using held_service_keeps[OF D(2)] .
  have "held_node (s\<lparr>srv_serviceIPs := a\<rparr>) sv = held_node s sv" for a sv by (simp add: held_node_def)
  with D keep show ?thesis unfolding api_ok_def jobs_ok_def by (simp add: halves_services)
qed

text \<open>What the first halves of the handlers do to the state, and what they hand over.\<close>

lemma Allocate_held: "ipam_ok base b a \<Longrightarrow> Allocate a k = (Inr ip, a') \<Longrightarrow> al_byKey a' k = Some ip"
  using ipam.alloc_held[of base b a k ip a'] by (simp add: allocate_def)

lemma register_begin_state:
  assumes "register_begin e s r = (s', out)"
  shows "s' = s \<or> (\<exists>k. s' = s\<lparr>srv_nodeIPs := snd (Allocate (srv_nodeIPs s) k)\<rparr>)"
  using assms
  by (auto simp: register_begin_def split: if_splits option.splits prod.splits sum.splits)
    (metis snd_conv)+

lemma register_begin_member:
  assumes "register_begin e s r = (s', Inr m)"
  obtains j req ip where "req_body r = Some j" "dec_register_request j = Some req"
    "Group (srv_tokens s) (rq_token req) = Some (m_group m)" "rq_uuid req = m_uuid m" "m_uuid m \<noteq> []"
    "rq_key req = m_key m" "m_key m \<noteq> []" "req_method r = ''POST''"
    "Allocate (srv_nodeIPs s) (m_uuid m) = (Inr ip, srv_nodeIPs s')" "m_ip m = addr_string ip"
    "s' = s\<lparr>srv_nodeIPs := snd (Allocate (srv_nodeIPs s) (m_uuid m))\<rparr>"
    "newNodeToken (e_rand e) = Some (m_token m)" "m_hostname m = rq_hostname req" "m_endpoint m = rq_endpoint req"
  using assms by (auto simp: register_begin_def split: if_splits option.splits prod.splits sum.splits)

lemma publish_begin_state:
  assumes "publish_begin s r = (s', out)"
  shows "s' = s \<or> (\<exists>k. s' = s\<lparr>srv_serviceIPs := snd (Allocate (srv_serviceIPs s) k)\<rparr>)"
  using assms
  by (auto simp: publish_begin_def split: if_splits option.splits prod.splits sum.splits)
    (metis snd_conv)+

lemma publish_begin_service:
  assumes "publish_begin s r = (s', Inr sv)"
  obtains c j req ip where "caller s r = Inr c" "req_body r = Some j" "dec_service j = Some req"
    "ss_name sv = sv_name req" "sv_name req \<noteq> []" "sv_port req \<noteq> 0" "ss_node sv = m_ip c"
    "Allocate (srv_serviceIPs s) (ss_name sv) = (Inr ip, srv_serviceIPs s')" "ss_vip sv = addr_string ip"
    "s' = s\<lparr>srv_serviceIPs := snd (Allocate (srv_serviceIPs s) (ss_name sv))\<rparr>"
    "ss_allow sv = cleanGroups (sv_allow req)" "ss_port sv = sv_port req"
  using assms by (auto simp: publish_begin_def split: if_splits option.splits prod.splits sum.splits)

text \<open>The second halves.\<close>

lemma jobs_ok_drop:
  "jobs_ok s (xs @ j # ys) \<Longrightarrow> distinct (filter (\<lambda>t. t \<noteq> None) (map job_token (xs @ ys)))"
  by (auto simp: jobs_ok_def split: if_splits)

lemma api_ok_commit_member:
  assumes "api_ok base b mid (s, xs @ StoreMember m # ys)"
  shows "api_ok base b mid (fst (register_commit s m), xs @ ys)"
proof -
  note D = api_okD[OF assms]
  from D(5) have m: "held_node s m" "m_token m \<noteq> []" "nw_byToken (srv_net s) (m_token m) = None"
    by (auto simp: jobs_ok_def)
  let ?s = "fst (register_commit s m)"
  have s': "srv_net ?s = Upsert (srv_net s) m" "srv_nodeIPs ?s = srv_nodeIPs s" "srv_serviceIPs ?s = srv_serviceIPs s"
    by (simp_all add: register_commit_def)
  have h: "held_node ?s x = held_node s x" "held_service ?s y = held_service s y" for x y
    by (simp_all add: held_node_def held_service_def s')
  have ok: "store_ok (srv_net ?s)" unfolding s' by (rule Upsert_ok[OF D(1) m(2,3)])
  have others: "nw_byToken (srv_net ?s) (m_token x) = None"
    if "StoreMember x \<in> set (xs @ ys)" for x
  proof -
    have "m_token x \<noteq> m_token m" using D(5) that
      by (auto simp: jobs_ok_def image_iff split: if_splits)
    moreover have "nw_byToken (srv_net s) (m_token x) = None" using D(5) that by (auto simp: jobs_ok_def)
    ultimately show ?thesis unfolding s' using Upsert_byToken[OF D(1) m(2)] by simp
  qed
  have jobs: "jobs_ok ?s (xs @ ys)"
  proof -
    have "distinct (filter (\<lambda>t. t \<noteq> None) (map job_token (xs @ ys)))"
      using D(5) by (rule jobs_ok_drop)
    with D(5) others show ?thesis unfolding jobs_ok_def h by auto
  qed
  show ?thesis
    unfolding api_ok_def fst_conv snd_conv h using ok D(2) jobs D(3,4) m(1)
    by (auto simp: s' member_of_def split: if_splits)
qed

lemma api_ok_commit_service:
  assumes "api_ok base b mid (s, xs @ StoreService sv # ys)"
  shows "api_ok base b mid (fst (publish_commit s sv), xs @ ys)"
proof -
  note D = api_okD[OF assms]
  let ?s = "fst (publish_commit s sv)"
  have s': "srv_net ?s = UpsertService (srv_net s) sv" "srv_nodeIPs ?s = srv_nodeIPs s"
      "srv_serviceIPs ?s = srv_serviceIPs s"
    by (simp_all add: publish_commit_def)
  have h: "held_node ?s x = held_node s x" "held_service ?s y = held_service s y" for x y
    by (simp_all add: held_node_def held_service_def s')
  have jobs: "jobs_ok ?s (xs @ ys)"
  proof -
    have "distinct (filter (\<lambda>t. t \<noteq> None) (map job_token (xs @ ys)))"
      using D(5) by (rule jobs_ok_drop)
    with D(5) show ?thesis unfolding jobs_ok_def h by (auto simp: s')
  qed
  have sv: "held_service s sv" using D(5) by (auto simp: jobs_ok_def)
  show ?thesis
    unfolding api_ok_def fst_conv snd_conv h using UpsertService_ok[OF D(1)] D(2) jobs D(3,4) sv
    by (auto simp: s' member_of_def split: if_splits)
qed

lemma jobs_ok_push_member:
  assumes "jobs_ok s js" and "held_node s m" and "fresh_token s js (m_token m)"
  shows "jobs_ok s (StoreMember m # js)"
  using assms unfolding jobs_ok_def fresh_token_def by auto

lemma api_ok_push:
  assumes "api_ok base b mid (s, js)" and "jobs_ok s js'"
  shows "api_ok base b mid (s, js')"
  using assms unfolding api_ok_def by simp

lemma register_begin_held:
  assumes "api_ok base b mid (s, js)" and "register_begin e s r = (s', Inr m)"
  shows "held_node s' m"
  using assms(2)
proof (rule register_begin_member)
  fix ip
  assume al: "Allocate (srv_nodeIPs s) (m_uuid m) = (Inr ip, srv_nodeIPs s')" and "m_ip m = addr_string ip"
  moreover have "ipam_ok base (b + 1) (srv_nodeIPs s)" using api_okD(2)[OF assms(1)] by (simp add: halves_def)
  from Allocate_held[OF this al] have "al_byKey (srv_nodeIPs s') (m_uuid m) = Some ip" .
  ultimately show ?thesis by (simp add: held_node_def)
qed

lemma publish_begin_held:
  assumes "api_ok base b mid (s, js)" and "publish_begin s r = (s', Inr sv)"
  shows "held_service s' sv"
  using assms(2)
proof (rule publish_begin_service)
  fix ip
  assume al: "Allocate (srv_serviceIPs s) (ss_name sv) = (Inr ip, srv_serviceIPs s')" and "ss_vip sv = addr_string ip"
  moreover have "ipam_ok mid (b + 1) (srv_serviceIPs s)" using api_okD(2)[OF assms(1)] by (simp add: halves_def)
  from Allocate_held[OF this al] have "al_byKey (srv_serviceIPs s') (ss_name sv) = Some ip" .
  ultimately show ?thesis by (simp add: held_service_def)
qed

lemma api_step_ok:
  assumes "api_ok base b mid x" and "api_step x y"
  shows "api_ok base b mid y"
  using assms(2,1)
proof (induction rule: api_step.induct)
  case (begin_register e s r s' m js)
  have ok: "api_ok base b mid (s', js)"
    using register_begin_state[OF begin_register(1)] begin_register(3) api_ok_allocate_node by auto
  have "srv_net s' = srv_net s" using register_begin_state[OF begin_register(1)] by auto
  then have "fresh_token s' js (m_token m)" using begin_register(2) by (simp add: fresh_token_def)
  with api_okD(5)[OF ok] register_begin_held[OF begin_register(3,1)]
  have "jobs_ok s' (StoreMember m # js)" by (intro jobs_ok_push_member)
  with ok show ?case by (rule api_ok_push)
next
  case (refuse_register e s r s' resp js)
  then show ?case using register_begin_state[OF refuse_register(1)] api_ok_allocate_node by auto
next
  case (commit_register s xs m ys)
  then show ?case by (rule api_ok_commit_member)
next
  case (begin_publish s r s' sv js)
  have ok: "api_ok base b mid (s', js)"
    using publish_begin_state[OF begin_publish(1)] begin_publish(2) api_ok_allocate_service by auto
  have "jobs_ok s' (StoreService sv # js)"
    using api_okD(5)[OF ok] publish_begin_held[OF begin_publish(2,1)] unfolding jobs_ok_def by auto
  with ok show ?case by (rule api_ok_push)
next
  case (refuse_publish s r s' resp js)
  then show ?case using publish_begin_state[OF refuse_publish(1)] api_ok_allocate_service by auto
next
  case (commit_publish s xs sv ys)
  then show ?case by (rule api_ok_commit_service)
qed

interpretation api: step_invariant api_step "api_ok base b mid" for base b mid
  by unfold_locales (rule api_step_ok)

text \<open>The states the server gets into: from a fresh network, by any interleaving of handlers.\<close>

definition api_start :: "string \<Rightarrow> string \<Rightarrow> string \<Rightarrow> options \<Rightarrow> bool" where
  "api_start ident suffix cidr opts \<longleftrightarrow>
     op_Network opts = NewNetwork ident suffix cidr \<and> Split cidr = Inr (op_Nodes opts, op_Services opts)"

definition api_reach :: "options \<Rightarrow> server \<times> job list \<Rightarrow> bool" where
  "api_reach opts x \<longleftrightarrow> api_step\<^sup>*\<^sup>* (api_New opts, []) x"

lemma api_reach_ok:
  assumes "api_start ident suffix cidr opts" and "api_reach opts x"
  obtains base b mid where "api_ok base b mid x"
proof -
  obtain base b mid where "halves base b mid (op_Nodes opts) (op_Services opts)"
    using halves_Split assms(1) unfolding api_start_def by blast
  then have "api_ok base b mid (api_New opts, [])"
    using assms(1) NewNetwork_ok
    by (auto simp: api_ok_def api_New_def api_start_def jobs_ok_def member_of_def NewNetwork_def)
  then have "api_ok base b mid x" using assms(2) api.steps_inv unfolding api_reach_def by blast
  then show ?thesis by (rule that)
qed

section \<open>Listings\<close>

lemma member_ip_inj:
  assumes ok: "api_ok base b mid (s, js)"
    and m: "member_of (srv_net s) u = Some m" "member_of (srv_net s) u' = Some m'" and ip: "m_ip m = m_ip m'"
  shows "u = u'"
proof -
  note D = api_okD[OF ok]
  have al: "ipam_ok base (b + 1) (srv_nodeIPs s)" using D(2) by (simp add: halves_def)
  obtain ip1 ip2 where a: "al_byKey (srv_nodeIPs s) (m_uuid m) = Some ip1" "m_ip m = addr_string ip1"
      "al_byKey (srv_nodeIPs s) (m_uuid m') = Some ip2" "m_ip m' = addr_string ip2"
    using D(3)[OF m(1)] D(3)[OF m(2)] unfolding held_node_def by blast
  obtain x y where "ip1 = V4 x" "ip2 = V4 y" using ipam_held_range[OF al] a by metis
  with a ip have "ip1 = ip2" by simp
  with a ipam_held_inj[OF al] have "m_uuid m = m_uuid m'" unfolding ipam.held_inj_def by metis
  with m store_okD(3)[OF D(1)] show ?thesis by (simp add: member_of_def)
qed

lemma member_service_apart:
  assumes ok: "api_ok base b mid (s, js)"
    and m: "member_of (srv_net s) u = Some m" and sv: "map_of (nw_services (srv_net s)) n = Some sv"
  shows "ss_vip sv \<noteq> m_ip m"
proof -
  note D = api_okD[OF ok]
  obtain ip ip' where a: "al_byKey (srv_nodeIPs s) (m_uuid m) = Some ip" "m_ip m = addr_string ip"
      "al_byKey (srv_serviceIPs s) (ss_name sv) = Some ip'" "ss_vip sv = addr_string ip'"
    using D(3)[OF m] D(4)[OF sv] unfolding held_node_def held_service_def by blast
  from halves_held[OF D(2) a(1,3)] a(2,4) show ?thesis by auto
qed

lemma distinct_map_snd:
  assumes "gomap_ok m" and "reorders iter" and "\<And>k v k' v'. (k, v) \<in> set m \<Longrightarrow> (k', v') \<in> set m \<Longrightarrow> f v = f v' \<Longrightarrow> k = k'"
  shows "distinct (map f (map snd (iter m)))"
proof -
  have d: "distinct (iter m)" using assms(1,2) by (auto simp: gomap_ok_def distinct_map intro: reorders_distinct)
  have "inj_on (\<lambda>kv. f (snd kv)) (set (iter m))"
  proof (rule inj_onI)
    fix x y
    assume xy: "x \<in> set (iter m)" "y \<in> set (iter m)" "f (snd x) = f (snd y)"
    obtain k v k' v' where e: "x = (k, v)" "y = (k', v')" by fastforce
    with xy have i: "(k, v) \<in> set m" "(k', v') \<in> set m" "f v = f v'"
      by (simp_all add: reorders_set[OF assms(2)])
    then have "k = k'" by (rule assms(3))
    with gomap_entry_get[OF assms(1) i(1)] gomap_entry_get[OF assms(1) i(2)] have "v = v'" by simp
    with e \<open>k = k'\<close> show "x = y" by simp
  qed
  with d show ?thesis by (simp add: distinct_map comp_def)
qed

lemma members_distinct_ips:
  assumes ok: "api_ok base b mid (s, js)" and it: "reorders iter"
  shows "distinct (map m_ip (Members iter (srv_net s)))"
  unfolding Members_def
proof (rule distinct_map_snd[OF _ it])
  show g: "gomap_ok (nw_members (srv_net s))" using store_okD(1)[OF api_okD(1)[OF ok]] .
  fix k v k' v'
  assume "(k, v) \<in> set (nw_members (srv_net s))" "(k', v') \<in> set (nw_members (srv_net s))" "m_ip v = m_ip v'"
  then show "k = k'" using member_ip_inj[OF ok] gomap_entry_get[OF g] by (simp add: member_of_def)
qed

lemma services_distinct_names:
  assumes ok: "store_ok n" and it: "reorders iter"
  shows "distinct (map ss_name (Services iter n))"
  unfolding Services_def
proof (rule distinct_map_snd[OF store_okD(2)[OF ok] it])
  fix k v k' v'
  assume "(k, v) \<in> set (nw_services n)" "(k', v') \<in> set (nw_services n)" "ss_name v = ss_name v'"
  then show "k = k'" using store_okD(5)[OF ok] gomap_entry_get[OF store_okD(2)[OF ok]] by metis
qed

text \<open>Looking a member up by its address finds exactly the member holding it.\<close>

lemma MemberByIP_iff:
  assumes ok: "api_ok base b mid (s, js)" and it: "reorders iter"
  shows "MemberByIP iter (srv_net s) ip = Some m \<longleftrightarrow> ip \<noteq> [] \<and> m_ip m = ip \<and> member_of (srv_net s) (m_uuid m) = Some m"
proof -
  have st: "store_ok (srv_net s)" using api_okD(1)[OF ok] .
  note mem = Members_set[OF st it, unfolded Members_def]
  let ?ms = "map snd (iter (nw_members (srv_net s)))"
  show ?thesis
  proof
    assume "MemberByIP iter (srv_net s) ip = Some m"
    then show "ip \<noteq> [] \<and> m_ip m = ip \<and> member_of (srv_net s) (m_uuid m) = Some m"
      using mem[of m] find_SomeD[of "\<lambda>m. m_ip m = ip" ?ms m] by (simp add: MemberByIP_def split: if_splits)
  next
    assume r: "ip \<noteq> [] \<and> m_ip m = ip \<and> member_of (srv_net s) (m_uuid m) = Some m"
    have "List.find (\<lambda>m. m_ip m = ip) ?ms = Some m"
    proof (rule find_unique)
      fix y
      assume "y \<in> set ?ms" "m_ip y = ip"
      then have y: "member_of (srv_net s) (m_uuid y) = Some y" "m_ip y = m_ip m" using mem[of y] r by simp_all
      from r have "member_of (srv_net s) (m_uuid m) = Some m" by blast
      with member_ip_inj[OF ok y(1) this y(2)] y(1) show "y = m" by (metis option.inject)
    qed (use mem[of m] r in simp_all)
    with r show "MemberByIP iter (srv_net s) ip = Some m" by (simp add: MemberByIP_def)
  qed
qed

lemma visiblePeers_set:
  assumes ok: "api_ok base b mid (s, js)" and it: "reorders (e_members e)"
  shows "set (visiblePeers e s c) = peer_of `
    {m. member_of (srv_net s) (m_uuid m) = Some m \<and>
        (m_uuid m = m_uuid c \<or> Connected (srv_policy s) (m_group c) (m_group m))}"
  using Members_set[OF api_okD(1)[OF ok] it] by (auto simp: visiblePeers_def)

lemma Members_mset: "reorders iter \<Longrightarrow> mset (Members iter n) = mset (map snd (nw_members n))"
  by (simp add: Members_def reorders_def)

lemma Services_mset: "reorders iter \<Longrightarrow> mset (Services iter n) = mset (map snd (nw_services n))"
  by (simp add: Services_def reorders_def)

lemma visiblePeers_order:
  assumes ok: "api_ok base b mid (s, js)" and it: "reorders (e_members e)" "reorders (e_members e')"
  shows "visiblePeers e s c = visiblePeers e' s c"
proof -
  have "sort_key m_ip (Members (e_members e) (srv_net s)) = sort_key m_ip (Members (e_members e') (srv_net s))"
    by (rule sort_key_rearranged) (simp_all add: Members_mset it members_distinct_ips[OF ok])
  then show ?thesis by (simp add: visiblePeers_def)
qed

lemma visiblePeers_sorted:
  assumes ok: "api_ok base b mid (s, js)" and it: "reorders (e_members e)"
  shows "sorted (map pe_ip (visiblePeers e s c)) \<and> distinct (map pe_ip (visiblePeers e s c))"
proof -
  have p: "map pe_ip (map peer_of ms) = map m_ip ms" for ms by (simp add: peer_of_def)
  have "distinct (map m_ip (sort_key m_ip (Members (e_members e) (srv_net s))))"
    using members_distinct_ips[OF ok it] by (simp add: distinct_map)
  then show ?thesis
    unfolding visiblePeers_def p by (simp add: sorted_filter distinct_map_filter)
qed

lemma visibleService_iff:
  assumes ok: "api_ok base b mid (s, js)" and it: "reorders (e_members e)"
  shows "visibleService e s c sv \<longleftrightarrow> ss_node sv = m_ip c \<or>
    (\<exists>h. member_of (srv_net s) (m_uuid h) = Some h \<and> m_ip h = ss_node sv \<and> ss_node sv \<noteq> [] \<and>
       Connected (srv_policy s) (m_group c) (m_group h) \<and> AllowsGroup (ss_allow sv) (m_group c))"
proof (cases "MemberByIP (e_members e) (srv_net s) (ss_node sv)")
  case None
  have "\<not> (member_of (srv_net s) (m_uuid h) = Some h \<and> m_ip h = ss_node sv \<and> ss_node sv \<noteq> [])" for h
    using None MemberByIP_iff[OF ok it, of "ss_node sv" h] by auto
  with None show ?thesis by (simp add: visibleService_def)
next
  case (Some h)
  have "h' = h" if "member_of (srv_net s) (m_uuid h') = Some h'" "m_ip h' = ss_node sv" "ss_node sv \<noteq> []" for h'
    using that MemberByIP_iff[OF ok it, of "ss_node sv" h'] Some by simp
  with Some MemberByIP_iff[OF ok it, of "ss_node sv" h] show ?thesis
    by (auto simp: visibleService_def)
qed

lemma caller_member:
  assumes "store_ok (srv_net s)" and "caller s r = Inr c"
  shows "member_of (srv_net s) (m_uuid c) = Some c"
  using assms store.by_token_iff[OF assms(1)] by (auto simp: caller_def split: option.splits)

lemma caller_iff: "caller s r = Inr c \<longleftrightarrow> MemberByToken (srv_net s) (bearer (req_auth r)) = Some c"
  by (auto simp: caller_def split: option.splits)

lemma register_reach:
  assumes "api_reach opts (s, js)" and "register_begin e s r = (s1, Inr m)" and "fresh_token s js (m_token m)"
  shows "api_reach opts (fst (register_commit s1 m), js)"
proof -
  have "api_step (s, js) (s1, StoreMember m # js)" using assms(2,3) by (rule begin_register)
  moreover have "api_step (s1, [] @ StoreMember m # js) (fst (register_commit s1 m), [] @ js)"
    by (rule commit_register)
  ultimately show ?thesis using assms(1) unfolding api_reach_def by (auto intro: rtranclp.rtrancl_into_rtrancl)
qed

lemma publish_reach:
  assumes "api_reach opts (s, js)" and "publish_begin s r = (s1, Inr sv)"
  shows "api_reach opts (fst (publish_commit s1 sv), js)"
proof -
  have "api_step (s, js) (s1, StoreService sv # js)" using assms(2) by (rule begin_publish)
  moreover have "api_step (s1, [] @ StoreService sv # js) (fst (publish_commit s1 sv), [] @ js)"
    by (rule commit_publish)
  ultimately show ?thesis using assms(1) unfolding api_reach_def by (auto intro: rtranclp.rtrancl_into_rtrancl)
qed

section \<open>A sample network\<close>

text \<open>One network, two groups, and the registrations of two devices: what the witnesses below run.\<close>

definition demo_options :: options where
  "demo_options = \<lparr>op_Network = NewNetwork ''home'' ''zwan'' ''100.64.0.0/16'',
     op_Nodes = newFrom (Prefix (V4 0x64400000) 17), op_Services = newFrom (Prefix (V4 0x64408000) 17),
     op_Tokens = Some [(''secret'', ''default''), (''g-tok'', ''guest'')],
     op_Policy = Some \<lparr>p_rules = [\<lparr>r_src = [''default''], r_dst = [''default'']\<rparr>]\<rparr>, op_RelayAddr = []\<rparr>"

definition demo_env :: "byte \<Rightarrow> env" where
  "demo_env b = \<lparr>e_rand = Some [b], e_now = 0, e_members = rev, e_services = rev\<rparr>"

definition demo_request :: "string \<Rightarrow> string \<Rightarrow> string \<Rightarrow> request" where
  "demo_request tok uuid key = \<lparr>req_method = ''POST'', req_auth = [],
     req_body = Some (enc_register_request \<lparr>rq_token = tok, rq_uuid = uuid, rq_hostname = uuid,
       rq_key = key, rq_endpoint = []\<rparr>)\<rparr>"

definition demo_member :: "string \<Rightarrow> string \<Rightarrow> u32 \<Rightarrow> string \<Rightarrow> string \<Rightarrow> member" where
  "demo_member uuid key ip tok grp = \<lparr>m_uuid = uuid, m_hostname = uuid, m_key = key, m_ip = addr_string (V4 ip),
     m_endpoint = [], m_joined = 0, m_token = tok, m_group = grp\<rparr>"

definition demo_nodes1 :: allocator where
  "demo_nodes1 = allocate_all (newFrom (Prefix (V4 0x64400000) 17)) [''laptop'']"

definition demo_nodes2 :: allocator where
  "demo_nodes2 = allocate_all (newFrom (Prefix (V4 0x64400000) 17)) [''laptop'', ''phone'']"

lemma demo_start: "api_start ''home'' ''zwan'' ''100.64.0.0/16'' demo_options"
  by (simp add: api_start_def demo_options_def Split_16)

lemma demo_groups:
  "Group [(''secret'', ''default''), (''g-tok'', ''guest'')] ''secret'' = Some ''default''"
  "Group [(''secret'', ''default''), (''g-tok'', ''guest'')] ''g-tok'' = Some ''guest''"
  by code_simp+

definition demo_server :: "(string, member) gomap \<Rightarrow> (string \<rightharpoonup> member) \<Rightarrow> allocator \<Rightarrow> server" where
  "demo_server ms toks nodes = (api_New demo_options)\<lparr>srv_nodeIPs := nodes,
     srv_net := (NewNetwork ''home'' ''zwan'' ''100.64.0.0/16'')\<lparr>nw_members := ms, nw_byToken := toks\<rparr>\<rparr>"

lemma demo_hex: "newNodeToken (Some [1]) = Some ''01''" "newNodeToken (Some [2]) = Some ''02''"
    "newNodeToken (Some [3]) = Some ''03''"
  by (simp_all add: newNodeToken_def hex_byte_def)

lemma demo_alloc:
  "Allocate (newFrom (Prefix (V4 0x64400000) 17)) ''laptop'' = (Inr (V4 0x64400001), demo_nodes1)"
  "Allocate (demo_nodes1) ''phone'' = (Inr (V4 0x64400002), demo_nodes2)"
  "Allocate (demo_nodes2) ''laptop'' = (Inr (V4 0x64400001), demo_nodes2)"
  by (simp_all add: demo_nodes1_def demo_nodes2_def allocate_all_def Allocate_def newFrom_def alloc_scan.simps)

abbreviation "demo_laptop \<equiv> demo_member ''laptop'' ''K1'' 0x64400001 ''01'' ''default''"
abbreviation "demo_phone \<equiv> demo_member ''phone'' ''K2'' 0x64400002 ''02'' ''guest''"

definition demo1 :: server where
  "demo1 = demo_server [(''laptop'', demo_laptop)] [''01'' \<mapsto> demo_laptop] (demo_nodes1)"

definition demo2 :: server where
  "demo2 = demo_server [(''laptop'', demo_laptop), (''phone'', demo_phone)]
     [''01'' \<mapsto> demo_laptop, ''02'' \<mapsto> demo_phone] (demo_nodes2)"

lemma demo_first:
  "register_begin (demo_env 1) (api_New demo_options) (demo_request ''secret'' ''laptop'' ''K1'') =
     ((api_New demo_options)\<lparr>srv_nodeIPs := demo_nodes1\<rparr>, Inr demo_laptop)"
  by (simp add: register_begin_def demo_request_def demo_env_def demo_hex demo_member_def api_New_def
      demo_options_def demo_groups demo_alloc)

lemma demo_first_commit:
  "fst (register_commit ((api_New demo_options)\<lparr>srv_nodeIPs := demo_nodes1\<rparr>) demo_laptop) = demo1"
  by (simp add: register_commit_def demo1_def demo_server_def Upsert_def api_New_def demo_options_def
      NewNetwork_def demo_member_def)

lemma demo_second:
  "register_begin (demo_env 2) demo1 (demo_request ''g-tok'' ''phone'' ''K2'') =
     (demo1\<lparr>srv_nodeIPs := demo_nodes2\<rparr>, Inr demo_phone)"
  by (simp add: register_begin_def demo_request_def demo_env_def demo_hex demo_member_def api_New_def
      demo_options_def demo_groups demo_alloc demo1_def demo_server_def)

lemma demo_second_commit:
  "fst (register_commit (demo1\<lparr>srv_nodeIPs := demo_nodes2\<rparr>) demo_phone) = demo2"
  by (simp add: register_commit_def demo1_def demo2_def demo_server_def Upsert_def api_New_def demo_options_def
      NewNetwork_def demo_member_def)

lemma demo1_reach: "api_reach demo_options (demo1, [])"
proof -
  have "api_reach demo_options (api_New demo_options, [])" by (simp add: api_reach_def)
  from register_reach[OF this demo_first] show ?thesis
    unfolding demo_first_commit
    by (simp add: fresh_token_def demo_member_def api_New_def demo_options_def NewNetwork_def)
qed

lemma demo2_reach: "api_reach demo_options (demo2, [])"
proof -
  from register_reach[OF demo1_reach demo_second] show ?thesis
    unfolding demo_second_commit
    by (simp add: fresh_token_def demo_member_def demo1_def demo_server_def)
qed

section \<open>Properties\<close>

text \<open>C3: whatever handlers run and however they interleave, two registered devices never have the
  same overlay address, and no device has the address of a published service.\<close>

theorem registered_addresses_apart:
  assumes "api_start ident suffix cidr opts" and "api_reach opts (s, js)"
    and "member_of (srv_net s) u = Some m"
  shows "(\<forall>u' m'. member_of (srv_net s) u' = Some m' \<and> m_ip m' = m_ip m \<longrightarrow> u' = u) \<and>
    (\<forall>n sv. map_of (nw_services (srv_net s)) n = Some sv \<longrightarrow> ss_vip sv \<noteq> m_ip m)"
proof -
  obtain base b mid where ok: "api_ok base b mid (s, js)" using assms(1,2) by (rule api_reach_ok)
  show ?thesis using member_ip_inj[OF ok _ assms(3)] member_service_apart[OF ok assms(3)] by blast
qed

theorem registered_addresses_apart_witness:
  "api_reach demo_options (demo2, []) \<and> m_ip demo_laptop \<noteq> m_ip demo_phone"
proof -
  have m: "member_of (srv_net demo2) ''laptop'' = Some demo_laptop" "member_of (srv_net demo2) ''phone'' = Some demo_phone"
    by (simp_all add: demo2_def demo_server_def member_of_def)
  from registered_addresses_apart[OF demo_start demo2_reach m(1)] m(2) demo2_reach show ?thesis by fastforce
qed

text \<open>C9: the peer list a member gets holds exactly the member itself and the members its group is
  connected to, each once, in order of address; it is the same whatever order the server's map is
  walked in. A member that is not connected does not appear with any of its data.\<close>

theorem peers_lists_exactly_the_connected:
  assumes "api_start ident suffix cidr opts" and "api_reach opts (s, js)"
    and "reorders (e_members e)" and "caller s r = Inr c"
  shows "\<exists>ps. peers e s r = (200, enc_peers ps) \<and> sorted (map pe_ip ps) \<and> distinct (map pe_ip ps) \<and>
    set ps = peer_of ` {m. member_of (srv_net s) (m_uuid m) = Some m \<and>
      (m_uuid m = m_uuid c \<or> Connected (srv_policy s) (m_group c) (m_group m))} \<and>
    (\<forall>e'. reorders (e_members e') \<longrightarrow> peers e' s r = peers e s r)"
proof -
  obtain base b mid where ok: "api_ok base b mid (s, js)" using assms(1,2) by (rule api_reach_ok)
  show ?thesis
    using visiblePeers_sorted[OF ok assms(3), of c] visiblePeers_set[OF ok assms(3), of c]
      visiblePeers_order[OF ok _ assms(3), of _ c] assms(4)
    by (intro exI[of _ "visiblePeers e s c"]) (auto simp: peers_def)
qed

definition demo_get :: "string \<Rightarrow> request" where
  "demo_get tok = \<lparr>req_method = ''GET'', req_auth = ''Bearer '' @ tok, req_body = None\<rparr>"

lemma demo_caller: "caller demo2 (demo_get ''01'') = Inr demo_laptop" "caller demo2 (demo_get ''02'') = Inr demo_phone"
proof -
  have "bearer (req_auth (demo_get ''01'')) = ''01''" "bearer (req_auth (demo_get ''02'')) = ''02''"
    by code_simp+
  then show "caller demo2 (demo_get ''01'') = Inr demo_laptop" "caller demo2 (demo_get ''02'') = Inr demo_phone"
    by (simp_all add: caller_iff MemberByToken_def demo2_def demo_server_def)
qed

theorem peers_lists_exactly_the_connected_witness:
  "\<exists>ps. peers (demo_env 1) demo2 (demo_get ''02'') = (200, enc_peers ps) \<and>
     peer_of demo_laptop \<notin> set ps \<and> peer_of demo_phone \<in> set ps"
proof -
  have pol: "srv_policy demo2 = op_Policy demo_options" by (simp add: demo2_def demo_server_def api_New_def)
  have nc: "\<not> Connected (op_Policy demo_options) ''guest'' ''default''" by code_simp
  have m: "member_of (srv_net demo2) x = [''laptop'' \<mapsto> demo_laptop, ''phone'' \<mapsto> demo_phone] x" for x
    by (simp add: demo2_def demo_server_def member_of_def)
  have it: "reorders (e_members (demo_env 1))" by (simp add: demo_env_def)
  obtain ps where ps: "peers (demo_env 1) demo2 (demo_get ''02'') = (200, enc_peers ps)"
      "set ps = peer_of ` {m. member_of (srv_net demo2) (m_uuid m) = Some m \<and>
        (m_uuid m = m_uuid demo_phone \<or> Connected (srv_policy demo2) (m_group demo_phone) (m_group m))}"
    using peers_lists_exactly_the_connected[OF demo_start demo2_reach it demo_caller(2)] by blast
  have "m_uuid demo_phone = ''phone''" "m_group demo_phone = ''guest''" by (simp_all add: demo_member_def)
  then have "peer_of demo_phone \<in> set ps" unfolding ps(2) using m by (intro imageI) simp
  moreover have "peer_of demo_laptop \<notin> set ps"
  proof
    assume "peer_of demo_laptop \<in> set ps"
    then obtain x where x: "peer_of demo_laptop = peer_of x" "m_uuid x = ''phone'' \<or> Connected (srv_policy demo2) ''guest'' (m_group x)"
        "member_of (srv_net demo2) (m_uuid x) = Some x"
      unfolding ps(2) by (auto simp: demo_member_def)
    have "m_group x = ''default''" "m_key x = ''K1''" using x(1) by (simp_all add: peer_of_def demo_member_def)
    with x(2,3) nc pol m show False by (auto simp: demo_member_def)
  qed
  ultimately show ?thesis using ps(1) by blast
qed

text \<open>two members see each other or neither sees the other, whichever way the rules between
  their groups point.\<close>

theorem peer_visibility_symmetric:
  assumes "api_start ident suffix cidr opts" and "api_reach opts (s, js)"
    and "reorders (e_members e)" and "caller s r = Inr c" and "caller s r' = Inr c'"
  shows "(\<exists>p \<in> set (visiblePeers e s c). pe_ip p = m_ip c') \<longleftrightarrow> (\<exists>p \<in> set (visiblePeers e s c'). pe_ip p = m_ip c)"
proof -
  obtain base b mid where ok: "api_ok base b mid (s, js)" using assms(1,2) by (rule api_reach_ok)
  note mem = caller_member[OF api_okD(1)[OF ok]]
  have sees: "(\<exists>p \<in> set (visiblePeers e s x). pe_ip p = m_ip y) \<longleftrightarrow>
      m_uuid y = m_uuid x \<or> Connected (srv_policy s) (m_group x) (m_group y)"
    if y: "member_of (srv_net s) (m_uuid y) = Some y" for x y
  proof -
    have one: "m = y" if m: "member_of (srv_net s) (m_uuid m) = Some m" "m_ip m = m_ip y" for m
    proof -
      have "m_uuid m = m_uuid y" using ok m(1) y m(2) by (rule member_ip_inj)
      with m(1) y show ?thesis by (metis option.inject)
    qed
    have ip: "pe_ip (peer_of m) = m_ip m" for m by (simp add: peer_of_def)
    show ?thesis unfolding visiblePeers_set[OF ok assms(3)] using y one by (auto simp: ip)
  qed
  show ?thesis
    unfolding sees[OF mem[OF assms(4)]] sees[OF mem[OF assms(5)]]
    using Connected_sym[of "srv_policy s"] by auto
qed

theorem peer_visibility_symmetric_witness:
  "(\<exists>p \<in> set (visiblePeers (demo_env 1) demo2 demo_laptop). pe_ip p = m_ip demo_phone) \<longleftrightarrow>
   (\<exists>p \<in> set (visiblePeers (demo_env 1) demo2 demo_phone). pe_ip p = m_ip demo_laptop)"
  by (rule peer_visibility_symmetric[OF demo_start demo2_reach _ demo_caller]) (simp add: demo_env_def)

text \<open>without a node token the listings and the publishing of services answer 401 and change
  nothing, whatever the request holds otherwise; a registration whose join token is not configured
  answers 401 and changes nothing. A join token is not a node token: presenting it is of no use
  after registration.\<close>

theorem requests_need_their_token:
  assumes "MemberByToken (srv_net s) (bearer (req_auth r)) = None"
  shows "((path = ''/v1/peers'' \<or> path = ''/v1/services'' \<and> req_method r \<in> {''GET'', ''POST''}) \<longrightarrow>
      serve productName version e s path r = (s, writeErr 401 ''a node token is required; register first'')) \<and>
    (req_method r = ''POST'' \<and> req_body r = Some j \<and> dec_register_request j = Some req \<and>
      Group (srv_tokens s) (rq_token req) = None \<longrightarrow>
      serve productName version e s ''/v1/register'' r = (s, writeErr 401 ''invalid token''))"
proof -
  have c: "caller s r = Inl (writeErr 401 ''a node token is required; register first'')"
    using assms by (simp add: caller_def)
  show ?thesis
    by (auto simp: serve_def Routes_def peers_def services_def list_services_def publish_service_def
        publish_begin_def register_def register_begin_def c)
qed

theorem requests_need_their_token_witness:
  "serve ''MyWAN'' ''1'' (demo_env 1) demo2 ''/v1/peers'' (demo_get ''secret'') =
     (demo2, writeErr 401 ''a node token is required; register first'')"
proof -
  have "bearer (req_auth (demo_get ''secret'')) = ''secret''" by code_simp
  then have "MemberByToken (srv_net demo2) (bearer (req_auth (demo_get ''secret''))) = None"
    by (simp add: MemberByToken_def demo2_def demo_server_def)
  from requests_need_their_token[OF this, of "''/v1/peers''"] show ?thesis by blast
qed

text \<open>C20: a device that registers again keeps its overlay address and trades its node token: the
  new one identifies it from then on, the old one is refused, and every other device's token goes
  on working as before.\<close>

theorem reregistration_trades_the_token:
  assumes "api_start ident suffix cidr opts" and "api_reach opts (s, js)"
    and "member_of (srv_net s) u = Some old"
    and "register_begin e s r = (s1, Inr m)" and "m_uuid m = u" and "fresh_token s js (m_token m)"
  shows "m_ip m = m_ip old \<and>
    (\<exists>s'. register e s r = (s', snd (register_commit s1 m)) \<and>
      MemberByToken (srv_net s') (m_token m) = Some m \<and> MemberByToken (srv_net s') (m_token old) = None \<and>
      (\<forall>t x. MemberByToken (srv_net s) t = Some x \<and> m_uuid x \<noteq> u \<longrightarrow> MemberByToken (srv_net s') t = Some x))"
proof -
  obtain base b mid where ok: "api_ok base b mid (s, js)" using assms(1,2) by (rule api_reach_ok)
  note D = api_okD[OF ok]
  have al: "ipam_ok base (b + 1) (srv_nodeIPs s)" using D(2) by (simp add: halves_def)
  have uo: "m_uuid old = u" "m_token old \<noteq> []" using store_okD(3)[OF D(1)] assms(3) by (auto simp: member_of_def)
  obtain ip where ip: "al_byKey (srv_nodeIPs s) u = Some ip" "m_ip old = addr_string ip"
    using D(3)[OF assms(3)] uo by (auto simp: held_node_def)
  have same: "m_ip m = m_ip old"
    using assms(4) by (rule register_begin_member) (use ip assms(5) in \<open>auto simp: Allocate_known\<close>)
  have net: "srv_net s1 = srv_net s" using register_begin_state[OF assms(4)] by auto
  let ?s' = "fst (register_commit s1 m)"
  have s': "srv_net ?s' = Upsert (srv_net s) m" by (simp add: register_commit_def net)
  have f: "m_token m \<noteq> []" "MemberByToken (srv_net s) (m_token m) = None"
    using assms(6) by (simp_all add: fresh_token_def MemberByToken_def)
  have oldtok: "MemberByToken (srv_net s) (m_token old) = Some old"
    using store.by_token_iff[OF D(1)] uo assms(3) by simp
  have "register e s r = (?s', snd (register_commit s1 m))" using assms(4) by (simp add: register_def)
  moreover have "MemberByToken (srv_net ?s') (m_token m) = Some m"
    unfolding s' by (rule store.upsert_new_token[OF D(1) f])
  moreover have "MemberByToken (srv_net ?s') (m_token old) = None"
    unfolding s' using store.upsert_retires[OF D(1) f oldtok] uo(1) assms(5) by simp
  moreover have "MemberByToken (srv_net ?s') t = Some x" if "MemberByToken (srv_net s) t = Some x" "m_uuid x \<noteq> u" for t x
    unfolding s' using store.upsert_keeps[OF D(1) f that(1)] that(2) assms(5) by simp
  ultimately show ?thesis using same by blast
qed

lemma demo_third:
  "register_begin (demo_env 3) demo2 (demo_request ''secret'' ''laptop'' ''K3'') =
     (demo2, Inr (demo_member ''laptop'' ''K3'' 0x64400001 ''03'' ''default''))"
  by (simp add: register_begin_def demo_request_def demo_env_def demo_hex demo_member_def api_New_def
      demo_options_def demo_groups demo_alloc demo2_def demo_server_def)

theorem reregistration_trades_the_token_witness:
  "\<exists>s'. fst (register (demo_env 3) demo2 (demo_request ''secret'' ''laptop'' ''K3'')) = s' \<and>
     MemberByToken (srv_net s') ''01'' = None \<and> MemberByToken (srv_net s') ''02'' = Some demo_phone"
proof -
  let ?m = "demo_member ''laptop'' ''K3'' 0x64400001 ''03'' ''default''"
  have old: "member_of (srv_net demo2) ''laptop'' = Some demo_laptop"
    by (simp add: demo2_def demo_server_def member_of_def)
  have fr: "fresh_token demo2 [] (m_token ?m)" by (simp add: fresh_token_def demo2_def demo_server_def demo_member_def)
  have u: "m_uuid ?m = ''laptop''" "m_token demo_laptop = ''01''" "m_uuid demo_phone = ''phone''"
    by (simp_all add: demo_member_def)
  have ph: "MemberByToken (srv_net demo2) ''02'' = Some demo_phone"
    by (simp add: MemberByToken_def demo2_def demo_server_def)
  obtain s' where s': "register (demo_env 3) demo2 (demo_request ''secret'' ''laptop'' ''K3'') = (s', snd (register_commit demo2 ?m))"
      "MemberByToken (srv_net s') (m_token demo_laptop) = None"
      "\<forall>t x. MemberByToken (srv_net demo2) t = Some x \<and> m_uuid x \<noteq> ''laptop'' \<longrightarrow> MemberByToken (srv_net s') t = Some x"
    using reregistration_trades_the_token[OF demo_start demo2_reach old demo_third u(1) fr] by blast
  have "m_uuid demo_phone \<noteq> ''laptop''" unfolding u(3) by simp
  with s'(3) ph have "MemberByToken (srv_net s') ''02'' = Some demo_phone" by blast
  with s' show ?thesis by (simp add: u(2))
qed

lemma visibleServices_facts:
  assumes ok: "api_ok base b mid (s, js)" and it: "reorders (e_members e)" "reorders (e_services e)"
  shows "set (visibleServices e s c) = service_of `
      {sv. map_of (nw_services (srv_net s)) (ss_name sv) = Some sv \<and> visibleService e s c sv}"
    and "sorted (map sv_name (visibleServices e s c))" "distinct (map sv_name (visibleServices e s c))"
proof -
  have st: "store_ok (srv_net s)" using api_okD(1)[OF ok] .
  show "set (visibleServices e s c) = service_of `
      {sv. map_of (nw_services (srv_net s)) (ss_name sv) = Some sv \<and> visibleService e s c sv}"
    using Services_set[OF st it(2)] by (auto simp: visibleServices_def)
  show "sorted (map sv_name (visibleServices e s c))" by (simp add: visibleServices_def)
  have n: "map sv_name (map service_of xs) = map ss_name xs" for xs by (simp add: service_of_def)
  have "distinct (map sv_name (map service_of (filter (visibleService e s c) (Services (e_services e) (srv_net s)))))"
    unfolding n using services_distinct_names[OF st it(2)] by (rule distinct_map_filter)
  then show "distinct (map sv_name (visibleServices e s c))"
    unfolding visibleServices_def distinct_map set_sort distinct_sort .
qed

text \<open>C10: the service list a member gets holds exactly the services of its own node and the services
  of nodes it is connected to whose allow list names its group or is empty; a service whose node is
  no longer a member is gone. Each name appears once, in order of name.\<close>

theorem services_lists_exactly_the_allowed:
  assumes "api_start ident suffix cidr opts" and "api_reach opts (s, js)"
    and "reorders (e_members e)" and "reorders (e_services e)" and "caller s r = Inr c" and "req_method r = ''GET''"
  shows "\<exists>ss. services e s r = (s, 200, enc_services ss) \<and>
    sorted (map sv_name ss) \<and> distinct (map sv_name ss) \<and>
    set ss = service_of ` {sv. map_of (nw_services (srv_net s)) (ss_name sv) = Some sv \<and>
      (ss_node sv = m_ip c \<or>
       (\<exists>h. member_of (srv_net s) (m_uuid h) = Some h \<and> m_ip h = ss_node sv \<and> ss_node sv \<noteq> [] \<and>
          Connected (srv_policy s) (m_group c) (m_group h) \<and> AllowsGroup (ss_allow sv) (m_group c)))}"
proof -
  obtain base b mid where ok: "api_ok base b mid (s, js)" using assms(1,2) by (rule api_reach_ok)
  have "services e s r = (s, 200, enc_services (visibleServices e s c))"
    using assms(5,6) by (simp add: services_def list_services_def)
  then show ?thesis
    using visibleServices_facts[OF ok assms(3,4), of c] visibleService_iff[OF ok assms(3), of c]
    by (intro exI[of _ "visibleServices e s c"]) simp
qed

definition demo_publish :: "string \<Rightarrow> string \<Rightarrow> string list \<Rightarrow> request" where
  "demo_publish tok name allow = \<lparr>req_method = ''POST'', req_auth = ''Bearer '' @ tok,
     req_body = Some (enc_service \<lparr>sv_name = name, sv_proto = [], sv_port = 25565, sv_backend = 0,
       sv_node = [], sv_vip = [], sv_allow = allow\<rparr>)\<rparr>"

definition demo_services1 :: allocator where
  "demo_services1 = allocate_all (newFrom (Prefix (V4 0x64408000) 17)) [''game'']"

definition demo_service :: "u32 \<Rightarrow> store_service" where
  "demo_service node = \<lparr>ss_name = ''game'', ss_proto = ''tcp'', ss_port = 25565, ss_backend = 0,
     ss_node = addr_string (V4 node), ss_vip = addr_string (V4 0x64408001), ss_allow = [''guest'']\<rparr>"

definition demo3 :: server where
  "demo3 = demo2\<lparr>srv_serviceIPs := demo_services1,
     srv_net := (srv_net demo2)\<lparr>nw_services := [(''game'', demo_service 0x64400001)]\<rparr>\<rparr>"

lemma demo_service_alloc:
  "Allocate (newFrom (Prefix (V4 0x64408000) 17)) ''game'' = (Inr (V4 0x64408001), demo_services1)"
  "Allocate demo_services1 ''game'' = (Inr (V4 0x64408001), demo_services1)"
  by (simp_all add: demo_services1_def allocate_all_def Allocate_def newFrom_def alloc_scan.simps)

definition demo_wire :: "string \<Rightarrow> string list \<Rightarrow> service" where
  "demo_wire name allow = \<lparr>sv_name = name, sv_proto = [], sv_port = 25565, sv_backend = 0,
     sv_node = [], sv_vip = [], sv_allow = allow\<rparr>"

lemma demo_publish_fields:
  "req_method (demo_publish tok name allow) = ''POST''" "req_auth (demo_publish tok name allow) = ''Bearer '' @ tok"
  "req_body (demo_publish tok name allow) = Some (enc_service (demo_wire name allow))"
  "dec_service (enc_service (demo_wire name allow)) = Some (demo_wire name allow)"
  by (simp_all add: demo_publish_def demo_wire_def service_ints_def int64_def)

lemma demo_caller_publish: "caller demo2 (demo_publish ''01'' name allow) = Inr demo_laptop"
    "caller demo3 (demo_publish ''02'' name allow) = Inr demo_phone"
proof -
  have "bearer (''Bearer '' @ ''01'') = ''01''" "bearer (''Bearer '' @ ''02'') = ''02''" by code_simp+
  then show "caller demo2 (demo_publish ''01'' name allow) = Inr demo_laptop"
    "caller demo3 (demo_publish ''02'' name allow) = Inr demo_phone"
    by (simp_all only: caller_iff demo_publish_fields) (simp_all add: MemberByToken_def demo3_def demo2_def demo_server_def)
qed

lemma demo_clean: "cleanGroups [''guest''] = [''guest'']"
  by code_simp

lemma demo_publish_first:
  "publish_begin demo2 (demo_publish ''01'' ''game'' [''guest'']) =
     (demo2\<lparr>srv_serviceIPs := demo_services1\<rparr>, Inr (demo_service 0x64400001))"
proof -
  have "srv_serviceIPs demo2 = newFrom (Prefix (V4 0x64408000) 17)"
    by (simp add: demo2_def demo_server_def api_New_def demo_options_def)
  then show ?thesis
    by (simp add: publish_begin_def demo_caller_publish demo_publish_fields demo_service_alloc demo_wire_def service_ints_def int64_def
        demo_clean demo_service_def demo_member_def)
qed

lemma demo_publish_second:
  "publish_begin demo3 (demo_publish ''02'' ''game'' [''guest'']) = (demo3, Inr (demo_service 0x64400002))"
proof -
  have "srv_serviceIPs demo3 = demo_services1" "demo3\<lparr>srv_serviceIPs := demo_services1\<rparr> = demo3"
    by (simp_all add: demo3_def)
  then show ?thesis
    by (simp add: publish_begin_def demo_caller_publish demo_publish_fields demo_service_alloc demo_wire_def service_ints_def int64_def
        demo_clean demo_service_def demo_member_def)
qed

lemma demo3_commit:
  "fst (publish_commit (demo2\<lparr>srv_serviceIPs := demo_services1\<rparr>) (demo_service 0x64400001)) = demo3"
  by (simp add: publish_commit_def demo3_def UpsertService_def demo2_def demo_server_def NewNetwork_def demo_service_def)

lemma demo3_reach: "api_reach demo_options (demo3, [])"
  using publish_reach[OF demo2_reach demo_publish_first] by (simp add: demo3_commit)

lemma demo_caller3: "caller demo3 (demo_get ''02'') = Inr demo_phone"
proof -
  have "MemberByToken (srv_net demo3) = MemberByToken (srv_net demo2)"
    by (simp add: demo3_def MemberByToken_def fun_eq_iff)
  with demo_caller(2) show ?thesis by (simp add: caller_iff)
qed

theorem services_lists_exactly_the_allowed_witness:
  "\<exists>ss. services (demo_env 1) demo3 (demo_get ''02'') = (demo3, 200, enc_services ss) \<and>
     service_of (demo_service 0x64400001) \<notin> set ss"
proof -
  have pol: "srv_policy demo3 = op_Policy demo_options" by (simp add: demo3_def demo2_def demo_server_def api_New_def)
  have nc: "\<not> Connected (op_Policy demo_options) ''guest'' ''default''" by code_simp
  have it: "reorders (e_members (demo_env 1))" "reorders (e_services (demo_env 1))" by (simp_all add: demo_env_def)
  have get: "req_method (demo_get ''02'') = ''GET''" by (simp add: demo_get_def)
  obtain ss where ss: "services (demo_env 1) demo3 (demo_get ''02'') = (demo3, 200, enc_services ss)"
      "set ss = service_of ` {sv. map_of (nw_services (srv_net demo3)) (ss_name sv) = Some sv \<and>
        (ss_node sv = m_ip demo_phone \<or>
         (\<exists>h. member_of (srv_net demo3) (m_uuid h) = Some h \<and> m_ip h = ss_node sv \<and> ss_node sv \<noteq> [] \<and>
            Connected (srv_policy demo3) (m_group demo_phone) (m_group h) \<and> AllowsGroup (ss_allow sv) (m_group demo_phone)))}"
    using services_lists_exactly_the_allowed[OF demo_start demo3_reach it demo_caller3 get] by blast
  have m: "member_of (srv_net demo3) x = [''laptop'' \<mapsto> demo_laptop, ''phone'' \<mapsto> demo_phone] x" for x
    by (simp add: demo3_def demo2_def demo_server_def member_of_def)
  have "service_of (demo_service 0x64400001) \<notin> set ss"
  proof
    assume "service_of (demo_service 0x64400001) \<in> set ss"
    then obtain sv where sv: "service_of (demo_service 0x64400001) = service_of sv"
      "ss_node sv = m_ip demo_phone \<or> (\<exists>h. member_of (srv_net demo3) (m_uuid h) = Some h \<and> m_ip h = ss_node sv \<and>
          Connected (srv_policy demo3) (m_group demo_phone) (m_group h))"
      unfolding ss(2) by blast
    have "ss_node sv = string4 0x64400001" using sv(1) by (simp add: service_of_def demo_service_def)
    with sv(2) obtain h where "member_of (srv_net demo3) (m_uuid h) = Some h" "m_ip h = string4 0x64400001"
        "Connected (op_Policy demo_options) ''guest'' (m_group h)"
      by (auto simp: demo_member_def pol)
    with nc show False by (auto simp: m demo_member_def split: if_splits)
  qed
  with ss(1) show ?thesis by blast
qed

text \<open>publishing is confined to the caller's own node. Whoever publishes a name, the entry
  stored under it points at the publisher's own address and at the address the name already had,
  so clients that resolved the name keep working when the service moves; and every other name is
  left as it was.\<close>

theorem publishing_moves_a_name_not_its_address:
  assumes "api_start ident suffix cidr opts" and "api_reach opts (s, js)"
    and "publish_begin s r = (s1, Inr sv)" and "map_of (nw_services (srv_net s)) (ss_name sv) = Some old"
  shows "\<exists>c s'. caller s r = Inr c \<and> publish_service s r = (s', 200, enc_service (service_of sv)) \<and>
    ss_node sv = m_ip c \<and> ss_vip sv = ss_vip old \<and>
    map_of (nw_services (srv_net s')) = (map_of (nw_services (srv_net s)))(ss_name sv \<mapsto> sv) \<and>
    nw_members (srv_net s') = nw_members (srv_net s)"
proof -
  obtain base b mid where ok: "api_ok base b mid (s, js)" using assms(1,2) by (rule api_reach_ok)
  note D = api_okD[OF ok]
  have name: "ss_name old = ss_name sv" using store_okD(5)[OF D(1) assms(4)] .
  obtain ip where ip: "al_byKey (srv_serviceIPs s) (ss_name sv) = Some ip" "ss_vip old = addr_string ip"
    using D(4)[OF assms(4)] name by (auto simp: held_service_def)
  obtain c ip' where c: "caller s r = Inr c" "ss_node sv = m_ip c" "ss_vip sv = addr_string ip'"
      "Allocate (srv_serviceIPs s) (ss_name sv) = (Inr ip', srv_serviceIPs s1)"
    using assms(3) by (elim publish_begin_service) blast
  have "ip' = ip" using Allocate_known[OF ip(1)] c(4) by simp
  moreover have "srv_net s1 = srv_net s" using publish_begin_state[OF assms(3)] by auto
  ultimately show ?thesis using c ip(2) assms(3)
    by (auto simp: publish_service_def publish_commit_def update_conv')
qed

theorem publishing_moves_a_name_not_its_address_witness:
  "\<exists>s'. publish_service demo3 (demo_publish ''02'' ''game'' [''guest'']) =
       (s', 200, enc_service (service_of (demo_service 0x64400002))) \<and>
     map_of (nw_services (srv_net s')) ''game'' = Some (demo_service 0x64400002)"
proof -
  have old: "map_of (nw_services (srv_net demo3)) (ss_name (demo_service 0x64400002)) = Some (demo_service 0x64400001)"
    by (simp add: demo3_def demo_service_def)
  have "ss_name (demo_service 0x64400002) = ''game''" by (simp add: demo_service_def)
  with publishing_moves_a_name_not_its_address[OF demo_start demo3_reach demo_publish_second old]
  show ?thesis by auto
qed

end
