(* ===== verification/ApiTypes.thy ===== *)
theory ApiTypes
  imports Api
begin

text \<open>
  The types of the control API (\<open>server/api/api.go\<close>, \<open>shared/proto/proto.go\<close>): what the handlers let into the
  store is well formed, and so everything the server answers reads back as the type its client expects.
\<close>

section \<open>What is stored is well formed\<close>

definition member_typed :: "member \<Rightarrow> bool" where
  "member_typed m \<longleftrightarrow> m_uuid m \<noteq> [] \<and> m_key m \<noteq> [] \<and> m_token m \<noteq> [] \<and>
     normalize (m_group m) = m_group m \<and> (\<exists>a. m_ip m = addr_string a)"

definition service_typed :: "store_service \<Rightarrow> bool" where
  "service_typed sv \<longleftrightarrow> service_ints (service_of sv) \<and> ss_name sv \<noteq> [] \<and> ss_port sv \<noteq> 0 \<and> ss_proto sv \<noteq> [] \<and>
     (\<exists>a. ss_vip sv = addr_string a) \<and> (\<forall>g \<in> set (ss_allow sv). g \<noteq> [] \<and> trim_space g = g)"

fun job_typed :: "job \<Rightarrow> bool" where
  "job_typed (StoreMember m) = member_typed m"
| "job_typed (StoreService sv) = service_typed sv"

definition state_typed :: "server \<times> job list \<Rightarrow> bool" where
  "state_typed x \<longleftrightarrow>
     (\<forall>m \<in> snd ` set (nw_members (srv_net (fst x))). member_typed m) \<and>
     (\<forall>sv \<in> snd ` set (nw_services (srv_net (fst x))). service_typed sv) \<and> (\<forall>j \<in> set (snd x). job_typed j)"

lemma update_values: "\<forall>x \<in> snd ` set al. P x \<Longrightarrow> P v \<Longrightarrow> \<forall>x \<in> snd ` set (AList.update k v al). P x"
  by (induction al) auto

lemma cleanGroups_clean: "g \<in> set (cleanGroups gs) \<Longrightarrow> g \<noteq> [] \<and> trim_space g = g"
  by (auto simp: cleanGroups_def)

lemma Group_normal: "Group t tok = Some g \<Longrightarrow> normalize g = g"
  by (auto simp: Group_def split: if_splits option.splits)

lemma register_begin_typed: "register_begin e s r = (s', Inr m) \<Longrightarrow> m_token m \<noteq> [] \<Longrightarrow> member_typed m \<and> srv_net s' = srv_net s"
  by (erule register_begin_member) (auto simp: member_typed_def Group_normal)

lemma publish_begin_typed: "publish_begin s r = (s', Inr sv) \<Longrightarrow> service_typed sv \<and> srv_net s' = srv_net s"
proof -
  assume p: "publish_begin s r = (s', Inr sv)"
  then obtain c j req ip where d: "dec_service j = Some req" "req_body r = Some j" and
    f: "ss_name sv = sv_name req" "sv_name req \<noteq> []" "ss_port sv = sv_port req" "sv_port req \<noteq> 0" "ss_vip sv = addr_string ip"
      "ss_allow sv = cleanGroups (sv_allow req)" "s' = s\<lparr>srv_serviceIPs := snd (Allocate (srv_serviceIPs s) (ss_name sv))\<rparr>"
    by (rule publish_begin_service) simp
  have g: "ss_backend sv = sv_backend req" "ss_proto sv \<noteq> []"
    using p d by (auto simp: publish_begin_def split: if_splits option.splits prod.splits sum.splits)
  have "service_ints req" using d(1) by (rule dec_service_ints)
  with f g show ?thesis by (auto simp: service_typed_def service_ints_def service_of_def dest: cleanGroups_clean)
qed

lemma begin_refused_net:
  "register_begin e s r = (s', out) \<Longrightarrow> srv_net s' = srv_net s" "publish_begin s r = (s', out') \<Longrightarrow> srv_net s' = srv_net s"
  using register_begin_state[of e s r s' out] publish_begin_state[of s r s' out'] by auto

lemma state_typed_push: "state_typed (s, js) \<Longrightarrow> srv_net s' = srv_net s \<Longrightarrow> job_typed j \<Longrightarrow> state_typed (s', j # js)"
  and state_typed_net: "state_typed (s, js) \<Longrightarrow> srv_net s' = srv_net s \<Longrightarrow> state_typed (s', js)"
  by (simp_all add: state_typed_def)

lemma api_step_typed: "api_step x y \<Longrightarrow> state_typed x \<Longrightarrow> state_typed y"
proof (induction rule: api_step.induct)
  case (begin_register e s r s' m js)
  have "m_token m \<noteq> []" using begin_register(2) by (simp add: fresh_token_def)
  from register_begin_typed[OF begin_register(1) this] show ?case using begin_register(3) by (auto intro: state_typed_push)
next
  case (refuse_register e s r s' resp js)
  then show ?case using begin_refused_net(1) state_typed_net by blast
next
  case (commit_register s xs m ys)
  then have "\<forall>x \<in> snd ` set (nw_members (srv_net s)). member_typed x" "member_typed m" by (simp_all add: state_typed_def)
  from update_values[of "nw_members (srv_net s)" member_typed, OF this, of "m_uuid m"]
  show ?case using commit_register by (simp add: state_typed_def register_commit_def)
next
  case (begin_publish s r s' sv js)
  from publish_begin_typed[OF begin_publish(1)] show ?case using begin_publish(2) by (auto intro: state_typed_push)
next
  case (refuse_publish s r s' resp js)
  then show ?case using begin_refused_net(2) state_typed_net by blast
next
  case (commit_publish s xs sv ys)
  then have "\<forall>x \<in> snd ` set (nw_services (srv_net s)). service_typed x" "service_typed sv" by (simp_all add: state_typed_def)
  from update_values[of "nw_services (srv_net s)" service_typed, OF this, of "ss_name sv"]
  show ?case using commit_publish by (simp add: state_typed_def publish_commit_def)
qed

interpretation typed: step_invariant api_step state_typed
  by unfold_locales (rule api_step_typed)

lemma api_reach_typed: "api_start ident suffix cidr opts \<Longrightarrow> api_reach opts x \<Longrightarrow> state_typed x"
  unfolding api_reach_def
  by (erule typed.steps_inv) (simp add: state_typed_def api_New_def api_start_def NewNetwork_def)

section \<open>What is answered is well formed\<close>

text \<open>An answer that is an error: a document with a message.\<close>

definition error_answer :: "json \<Rightarrow> bool" where
  "error_answer j \<longleftrightarrow> (\<exists>msg. dec_error j = Some msg \<and> msg \<noteq> [])"

lemma writeErr_error [simp]: "msg \<noteq> [] \<Longrightarrow> error_answer (snd (writeErr code msg))" "fst (writeErr code msg) = code"
  by (simp_all add: error_answer_def writeErr_def)

lemma Allocate_exhausted: "Allocate a k = (Inl err, a') \<Longrightarrow> allocate_message err \<noteq> []"
  by (auto simp: Allocate_def split: option.splits prod.splits)

lemma register_begin_error: "register_begin e s r = (s', Inl resp) \<Longrightarrow> fst resp \<noteq> 200 \<and> fst resp \<noteq> 404 \<and> error_answer (snd resp)"
  by (auto simp: register_begin_def dest: Allocate_exhausted split: if_splits option.splits prod.splits sum.splits)

lemma caller_error: "caller s r = Inl resp \<Longrightarrow> fst resp \<noteq> 200 \<and> fst resp \<noteq> 404 \<and> error_answer (snd resp)"
  by (auto simp: caller_def split: option.splits)

lemma publish_begin_error: "publish_begin s r = (s', Inl resp) \<Longrightarrow> fst resp \<noteq> 200 \<and> fst resp \<noteq> 404 \<and> error_answer (snd resp)"
  by (auto simp: publish_begin_def dest: Allocate_exhausted caller_error split: if_splits option.splits prod.splits sum.splits)

lemma Routes_iff:
  "Routes path = Healthz \<longleftrightarrow> path = ''/healthz''" "Routes path = Register \<longleftrightarrow> path = ''/v1/register''"
  "Routes path = Peers \<longleftrightarrow> path = ''/v1/peers''" "Routes path = ServicesPath \<longleftrightarrow> path = ''/v1/services''"
  by (simp_all add: Routes_def)

lemma visibleServices_typed:
  assumes "state_typed (s, js)" and "reorders (e_services e)" and "sv \<in> set (visibleServices e s c)"
  shows "\<exists>x. service_typed x \<and> sv = service_of x"
  using assms by (auto simp: visibleServices_def Services_def state_typed_def reorders_set)

lemma service_typed_ints: "service_typed x \<Longrightarrow> service_ints (service_of x)"
  by (simp add: service_typed_def)

text \<open>C21: Every answer has the type its client reads. In every state the server gets into, a registration that
  is answered 200 reads back as a registration, the two listings as lists of peers and services, a publication as
  the service; every other answer of a known path is an error with a message. What the store holds is well formed
  the same way: identities, keys and tokens are there, groups are in normal form, addresses are addresses, ports
  fit the client's integers and are not zero.
\<close>

theorem answers_are_well_typed:
  assumes "api_start ident suffix cidr opts" and "api_reach opts (s, js)" and "reorders (e_services e)"
    and "serve productName version e s path r = (s', (code, body))"
  shows "state_typed (s, js) \<and>
    (code = 200 \<longrightarrow>
      (path = ''/v1/register'' \<longrightarrow> (\<exists>a. dec_register_response body = Some a)) \<and>
      (path = ''/v1/peers'' \<longrightarrow> (\<exists>ps. dec_peers body = Some ps)) \<and>
      (path = ''/v1/services'' \<and> req_method r = ''GET'' \<longrightarrow>
         (\<exists>ss. dec_services body = Some ss \<and> (\<forall>sv \<in> set ss. \<exists>x. service_typed x \<and> sv = service_of x))) \<and>
      (path = ''/v1/services'' \<and> req_method r = ''POST'' \<longrightarrow>
         (\<exists>sv x. dec_service body = Some sv \<and> service_typed x \<and> sv = service_of x))) \<and>
    (code \<noteq> 200 \<longrightarrow> (code = 404 \<longleftrightarrow> Routes path = NoRoute) \<and> (code \<noteq> 404 \<longrightarrow> error_answer body))"
proof -
  have typed: "state_typed (s, js)" using assms(1,2) by (rule api_reach_typed)
  have lists: "dec_services (enc_services (visibleServices e s c)) = Some (visibleServices e s c)" for c
  proof (rule dec_enc_services)
    show "list_all service_ints (visibleServices e s c)" unfolding list_all_iff
      using visibleServices_typed[OF typed assms(3)] service_typed_ints by metis
  qed
  show ?thesis
  proof (cases "Routes path")
    case health: Healthz
    then have "path = ''/healthz''" by (simp add: Routes_iff)
    then show ?thesis using assms(4) health typed by (auto simp: serve_def health_def)
  next
    case r: Register
    then have reg: "Routes path = Register" "path = ''/v1/register''" by (simp_all add: Routes_iff)
    show ?thesis
    proof (cases "register_begin e s r")
      case (Pair s1 out)
      then show ?thesis using assms(4) reg typed register_begin_error[of e s r s1]
        by (cases out) (auto simp: serve_def register_def register_commit_def)
    qed
  next
    case r: Peers
    then have peers: "Routes path = Peers" "path = ''/v1/peers''" by (simp_all add: Routes_iff)
    then show ?thesis using assms(4) typed caller_error[of s r]
      by (cases "caller s r") (auto simp: serve_def peers_def)
  next
    case r: ServicesPath
    then have svc: "Routes path = ServicesPath" "path = ''/v1/services''" by (simp_all add: Routes_iff)
    show ?thesis
    proof (cases "req_method r = ''GET''")
      case True
      then show ?thesis using assms(4) svc typed caller_error[of s r] lists visibleServices_typed[OF typed assms(3)]
        by (cases "caller s r") (auto simp: serve_def services_def list_services_def)
    next
      case get: False
      show ?thesis
      proof (cases "req_method r = ''POST''")
        case True
        obtain s1 out where p: "publish_begin s r = (s1, out)" by (cases "publish_begin s r")
        show ?thesis
        proof (cases out)
          case (Inl resp)
          then show ?thesis using assms(4) svc typed p True publish_begin_error[of s r s1 resp]
            by (auto simp: serve_def services_def publish_service_def)
        next
          case (Inr sv)
          have t: "service_typed sv" using publish_begin_typed[of s r s1 sv] p Inr by simp
          then have "dec_service (enc_service (service_of sv)) = Some (service_of sv)" by (intro dec_enc_service service_typed_ints)
          then show ?thesis using assms(4) svc typed p True Inr t
            by (auto simp: serve_def services_def publish_service_def publish_commit_def)
        qed
      next
        case False
        then show ?thesis using assms(4) svc typed get by (auto simp: serve_def services_def writeErr_def error_answer_def)
      qed
    qed
  next
    case no: NoRoute
    then have "path \<noteq> ''/v1/register''" "path \<noteq> ''/v1/peers''" "path \<noteq> ''/v1/services''" by (auto simp: Routes_def)
    then show ?thesis using assms(4) no typed by (auto simp: serve_def)
  qed
qed

theorem answers_witness:
  "\<exists>code body ps. serve ''MyWAN'' ''1'' (demo_env 1) demo2 ''/v1/peers'' (demo_get ''01'') = (demo2, (200, body)) \<and> dec_peers body = Some ps"
proof -
  have r: "reorders (e_services (demo_env 1))" by (simp add: demo_env_def)
  have run: "serve ''MyWAN'' ''1'' (demo_env 1) demo2 ''/v1/peers'' (demo_get ''01'') =
      (demo2, (200, enc_peers (visiblePeers (demo_env 1) demo2 demo_laptop)))"
    using demo_caller(1) by (simp add: serve_def Routes_def peers_def)
  from answers_are_well_typed[OF demo_start demo2_reach r run] run show ?thesis by blast
qed

end
