(* ===== verification/Relay.thy ===== *)
theory Relay
  imports NetAddr
begin

text \<open>
  \<open>server/relay/relay.go\<close>: the packet relay. A datagram is a list of bytes, the state is where each
  overlay address was last heard from, and handling a datagram answers the datagrams it sends. The
  socket reads into a buffer of 1500 bytes, so a longer datagram arrives cut.
\<close>

type_synonym bytes = "byte list"
type_synonym addrport = "addr \<times> nat"

definition typeRegister :: byte where "typeRegister = 0x01"
definition typeData :: byte where "typeData = 0x02"

definition addr_bytes :: "u32 \<Rightarrow> bytes" where
  "addr_bytes a = map of_nat (octets a)"

definition addr_of_bytes :: "bytes \<Rightarrow> addr" where
  "addr_of_bytes bs = V4 (of_octets (map unat bs))"

record relay_client =
  rc_addr :: addrport
  rc_lastSeen :: int

record relay =
  rl_clients :: "addr \<rightharpoonup> relay_client"

definition relay_New :: relay where
  "relay_New = \<lparr>rl_clients = Map.empty\<rparr>"

text \<open>\<open>pkt[i:j]\<close>\<close>

definition slice :: "nat \<Rightarrow> nat \<Rightarrow> 'a list \<Rightarrow> 'a list" where
  "slice i j xs = take (j - i) (drop i xs)"

definition handle :: "int \<Rightarrow> relay \<Rightarrow> bytes \<Rightarrow> addrport \<Rightarrow> relay \<times> (bytes \<times> addrport) list" where
  "handle now r pkt src =
     (if length pkt < 1 then (r, [])
      else if pkt ! 0 = typeRegister then
        (if length pkt < 5 then (r, [])
         else (let ip = addr_of_bytes (slice 1 5 pkt) in
               (r\<lparr>rl_clients := (rl_clients r)(ip \<mapsto> \<lparr>rc_addr = src, rc_lastSeen = now\<rparr>)\<rparr>, [])))
      else if pkt ! 0 = typeData then
        (if length pkt < 9 then (r, [])
         else (let srcIP = addr_of_bytes (slice 1 5 pkt);
                   dstIP = addr_of_bytes (slice 5 9 pkt);
                   payload = drop 9 pkt;
                   r = r\<lparr>rl_clients := (rl_clients r)(srcIP \<mapsto> \<lparr>rc_addr = src, rc_lastSeen = now\<rparr>)\<rparr>
               in case rl_clients r dstIP of
                    None \<Rightarrow> (r, [])
                  | Some dst \<Rightarrow> (r, [(typeData # slice 1 5 pkt @ payload, rc_addr dst)])))
      else (r, []))"

text \<open>One turn of \<open>Serve\<close>: the datagram as it came in, cut to the buffer.\<close>

definition serve_one :: "int \<Rightarrow> relay \<Rightarrow> bytes \<Rightarrow> addrport \<Rightarrow> relay \<times> (bytes \<times> addrport) list" where
  "serve_one now r dgram src = handle now r (take 1500 dgram) src"

text \<open>A datagram that reached the relay: when, what, from where.\<close>

type_synonym arrival = "int \<times> bytes \<times> addrport"

definition serve_all :: "relay \<Rightarrow> arrival list \<Rightarrow> relay" where
  "serve_all r evs = foldl (\<lambda>r (now, dgram, src). fst (serve_one now r dgram src)) r evs"

section \<open>Framing\<close>

lemma addr_bytes_length [simp]: "length (addr_bytes a) = 4"
  by (simp add: addr_bytes_def)

lemma addr_of_addr_bytes [simp]: "addr_of_bytes (addr_bytes a) = V4 a"
proof -
  have "map (\<lambda>n. unat (of_nat n :: byte)) (octets a) = octets a"
    by (rule map_idI) (use octets_bound in \<open>auto simp: unat_of_nat simp del: octets.simps\<close>)
  then have "map unat (addr_bytes a) = octets a" by (simp add: addr_bytes_def comp_def del: octets.simps)
  then show ?thesis by (simp only: addr_of_bytes_def of_octets_octets)
qed

text \<open>
  A frame is a header in front of the payload. Whoever relies on a framing relies on this: the
  header and the payload that come out are the ones that went in.
\<close>

locale framing =
  fixes wrap :: "'h \<Rightarrow> bytes \<Rightarrow> bytes"
    and unwrap :: "bytes \<Rightarrow> ('h \<times> bytes) option"
    and header_size :: nat
  assumes unwrap_wrap: "unwrap (wrap h p) = Some (h, p)"
    and wrap_length: "length (wrap h p) = header_size + length p"
begin

lemma wrap_inj: "wrap h p = wrap h' p' \<longleftrightarrow> h = h' \<and> p = p'"
  by (metis option.inject prod.inject unwrap_wrap)

lemma wrap_fits: "header_size + length p \<le> n \<Longrightarrow> unwrap (take n (wrap h p)) = Some (h, p)"
  by (simp add: wrap_length unwrap_wrap)

end

text \<open>The frame to the relay, the frame from it, and the registration frame.\<close>

definition to_relay :: "u32 \<times> u32 \<Rightarrow> bytes \<Rightarrow> bytes" where
  "to_relay h p = typeData # addr_bytes (fst h) @ addr_bytes (snd h) @ p"

definition from_relay :: "u32 \<Rightarrow> bytes \<Rightarrow> bytes" where
  "from_relay a p = typeData # addr_bytes a @ p"

fun v4_of :: "addr \<Rightarrow> u32" where
  "v4_of (V4 a) = a"
| "v4_of _ = 0"

definition read_to_relay :: "bytes \<Rightarrow> ((u32 \<times> u32) \<times> bytes) option" where
  "read_to_relay f =
     (if length f < 9 \<or> f ! 0 \<noteq> typeData then None
      else Some ((v4_of (addr_of_bytes (slice 1 5 f)), v4_of (addr_of_bytes (slice 5 9 f))), drop 9 f))"

definition read_from_relay :: "bytes \<Rightarrow> (u32 \<times> bytes) option" where
  "read_from_relay f =
     (if length f < 5 \<or> f ! 0 \<noteq> typeData then None
      else Some (v4_of (addr_of_bytes (slice 1 5 f)), drop 5 f))"

lemma frame_types [simp]: "typeData \<noteq> typeRegister"
  by (simp add: typeData_def typeRegister_def)

lemma slice_header [simp]:
  "slice (Suc 0) 5 (t # addr_bytes a @ p) = addr_bytes a"
  "slice 5 9 (t # addr_bytes a @ addr_bytes b @ p) = addr_bytes b"
  "drop 9 (t # addr_bytes a @ addr_bytes b @ p) = p" "drop 5 (t # addr_bytes a @ p) = p"
  by (simp_all add: slice_def eval_nat_numeral)

interpretation to_relay: framing to_relay read_to_relay 9
  by unfold_locales (auto simp: to_relay_def read_to_relay_def)

interpretation from_relay: framing from_relay read_from_relay 5
  by unfold_locales (auto simp: from_relay_def read_from_relay_def)

lemma handle_to_relay:
  "handle now r (to_relay (a, d) p) src =
     (let r = r\<lparr>rl_clients := (rl_clients r)(V4 a \<mapsto> \<lparr>rc_addr = src, rc_lastSeen = now\<rparr>)\<rparr> in
      case rl_clients r (V4 d) of
        None \<Rightarrow> (r, [])
      | Some dst \<Rightarrow> (r, [(from_relay a p, rc_addr dst)]))"
  by (simp add: handle_def to_relay_def from_relay_def Let_def split: option.splits)

lemma handle_other:
  assumes "\<not> (5 \<le> length pkt \<and> pkt ! 0 = typeRegister)" and "\<not> (9 \<le> length pkt \<and> pkt ! 0 = typeData)"
  shows "handle now r pkt src = (r, [])"
proof (cases "pkt ! 0 = typeRegister")
  case True
  with assms(1) show ?thesis by (simp add: handle_def not_le)
next
  case False
  with assms(2) show ?thesis unfolding handle_def by (cases "pkt ! 0 = typeData") simp_all
qed

section \<open>Where an overlay address is\<close>

text \<open>The address a datagram speaks for: what a registration or a data frame names as its sender.\<close>

definition claims :: "bytes \<Rightarrow> addr option" where
  "claims dgram =
     (let pkt = take 1500 dgram in
      if length pkt \<ge> 5 \<and> pkt ! 0 = typeRegister \<or> length pkt \<ge> 9 \<and> pkt ! 0 = typeData
      then Some (addr_of_bytes (slice 1 5 pkt)) else None)"

text \<open>The specification of the table: the last datagram that spoke for an address.\<close>

fun last_claim :: "arrival list \<Rightarrow> addr \<Rightarrow> relay_client option" where
  "last_claim [] ip = None"
| "last_claim ((now, dgram, src) # evs) ip =
     (case last_claim evs ip of
        Some c \<Rightarrow> Some c
      | None \<Rightarrow> if claims dgram = Some ip then Some \<lparr>rc_addr = src, rc_lastSeen = now\<rparr> else None)"

lemma serve_one_clients:
  "rl_clients (fst (serve_one now r dgram src)) =
     (case claims dgram of
        None \<Rightarrow> rl_clients r
      | Some ip \<Rightarrow> (rl_clients r)(ip \<mapsto> \<lparr>rc_addr = src, rc_lastSeen = now\<rparr>))"
  by (auto simp: serve_one_def handle_def claims_def Let_def split: option.splits)

lemma serve_all_clients:
  "rl_clients (serve_all r evs) ip =
     (case last_claim evs ip of Some c \<Rightarrow> Some c | None \<Rightarrow> rl_clients r ip)"
proof (induction evs arbitrary: r)
  case Nil
  then show ?case by (simp add: serve_all_def)
next
  case (Cons ev evs)
  obtain now dgram src where ev: "ev = (now, dgram, src)" by (cases ev)
  have "serve_all r (ev # evs) = serve_all (fst (serve_one now r dgram src)) evs"
    by (simp add: serve_all_def ev)
  with Cons.IH[of "fst (serve_one now r dgram src)"] show ?case
    by (auto simp: ev serve_one_clients split: option.splits)
qed

section \<open>Properties\<close>

text \<open>C15: after any traffic, the relay knows an overlay address exactly where the last datagram
  speaking for it came from, and knows no other address; so a client whose NAT binding moves is
  found again with its next keepalive. A datagram the relay does not understand changes nothing.\<close>

theorem relay_tracks_the_last_claim:
  "rl_clients (serve_all relay_New evs) ip = last_claim evs ip \<and>
   (claims dgram = None \<longrightarrow> serve_one now r dgram src = (r, []))"
proof (intro conjI impI)
  show "rl_clients (serve_all relay_New evs) ip = last_claim evs ip"
    by (simp add: serve_all_clients relay_New_def split: option.splits)
  assume "claims dgram = None"
  then have "\<not> (5 \<le> length (take 1500 dgram) \<and> take 1500 dgram ! 0 = typeRegister)"
      "\<not> (9 \<le> length (take 1500 dgram) \<and> take 1500 dgram ! 0 = typeData)"
    by (simp_all add: claims_def Let_def split: if_splits)
  then show "serve_one now r dgram src = (r, [])"
    unfolding serve_one_def by (rule handle_other)
qed

theorem relay_tracks_the_last_claim_witness:
  "rl_clients (serve_all relay_New [(0, [1, 100, 64, 0, 1], (V4 7, 9)), (1, [3], (V4 8, 9))]) (V4 0x64400001) =
     Some \<lparr>rc_addr = (V4 7, 9), rc_lastSeen = 0\<rparr> \<and>
   serve_one 2 relay_New [3] (V4 8, 9) = (relay_New, [])"
proof -
  have "last_claim [(0, [1, 100, 64, 0, 1], (V4 7, 9)), (1, [3], (V4 8, 9))] (V4 0x64400001) =
      Some \<lparr>rc_addr = (V4 7, 9), rc_lastSeen = 0\<rparr>"
    by (simp add: claims_def slice_def addr_of_bytes_def of_octets_def typeRegister_def typeData_def)
  moreover have "claims [3] = None" by (simp add: claims_def)
  ultimately show ?thesis
    using relay_tracks_the_last_claim[of "[(0, [1, 100, 64, 0, 1], (V4 7, 9)), (1, [3], (V4 8, 9))]" "V4 0x64400001" "[3]" 2 relay_New "(V4 8, 9)"]
    by simp
qed

end
