(* ===== verification/Encoding.thy ===== *)
theory Encoding
  imports NetAddr
begin

text \<open>
  What the program uses of \<open>encoding/base64\<close>, \<open>encoding/hex\<close> and the percent-encoding of \<open>net/url\<close>, with
  their round trips. A byte is a character of a string; decoding fails as a value.
\<close>

section \<open>Hexadecimal\<close>

definition hex_char :: "nat \<Rightarrow> char" where
  "hex_char n = ''0123456789abcdef'' ! n"

definition hex_upper :: "nat \<Rightarrow> char" where
  "hex_upper n = ''0123456789ABCDEF'' ! n"

fun hex_encode :: "string \<Rightarrow> string" where
  "hex_encode [] = []"
| "hex_encode (c # cs) = hex_char (of_char c div 16) # hex_char (of_char c mod 16) # hex_encode cs"

definition hex_pair :: "char \<Rightarrow> char \<Rightarrow> char option" where
  "hex_pair a b = (if is_hex a \<and> is_hex b then Some (char_of (hex_digit_val a * 16 + hex_digit_val b)) else None)"

fun hex_decode :: "string \<Rightarrow> string option" where
  "hex_decode [] = Some []"
| "hex_decode [a] = None"
| "hex_decode (a # b # cs) =
     (case hex_pair a b of None \<Rightarrow> None | Some c \<Rightarrow> map_option (\<lambda>r. c # r) (hex_decode cs))"

section \<open>Base 64\<close>

definition std_alphabet :: string where
  "std_alphabet = ''ABCDEFGHIJKLMNOPQRSTUVWXYZabcdefghijklmnopqrstuvwxyz0123456789+/''"

definition url_alphabet :: string where
  "url_alphabet = ''ABCDEFGHIJKLMNOPQRSTUVWXYZabcdefghijklmnopqrstuvwxyz0123456789-_''"

fun index_of :: "char \<Rightarrow> string \<Rightarrow> nat option" where
  "index_of c [] = None"
| "index_of c (d # ds) = (if c = d then Some 0 else map_option Suc (index_of c ds))"

fun b64_encode :: "string \<Rightarrow> string" where
  "b64_encode [] = []"
| "b64_encode [a] = [std_alphabet ! (of_char a div 4), std_alphabet ! (of_char a mod 4 * 16), CHR ''='', CHR ''='']"
| "b64_encode [a, b] =
     [std_alphabet ! (of_char a div 4), std_alphabet ! (of_char a mod 4 * 16 + of_char b div 16),
      std_alphabet ! (of_char b mod 16 * 4), CHR ''='']"
| "b64_encode (a # b # c # r) =
     std_alphabet ! (of_char a div 4) # std_alphabet ! (of_char a mod 4 * 16 + of_char b div 16) #
     std_alphabet ! (of_char b mod 16 * 4 + of_char c div 64) # std_alphabet ! (of_char c mod 64) # b64_encode r"

text \<open>The bytes of two, three and four digits. The unused low bits of a short group are dropped.\<close>

definition b64_two :: "(char \<Rightarrow> nat option) \<Rightarrow> char \<Rightarrow> char \<Rightarrow> string option" where
  "b64_two val a b = (case (val a, val b) of
     (Some x, Some y) \<Rightarrow> Some [char_of (x * 4 + y div 16)] | _ \<Rightarrow> None)"

definition b64_three :: "(char \<Rightarrow> nat option) \<Rightarrow> char \<Rightarrow> char \<Rightarrow> char \<Rightarrow> string option" where
  "b64_three val a b c = (case (val a, val b, val c) of
     (Some x, Some y, Some z) \<Rightarrow> Some [char_of (x * 4 + y div 16), char_of (y mod 16 * 16 + z div 4)] | _ \<Rightarrow> None)"

definition b64_four :: "(char \<Rightarrow> nat option) \<Rightarrow> char \<Rightarrow> char \<Rightarrow> char \<Rightarrow> char \<Rightarrow> string option" where
  "b64_four val a b c d = (case (val a, val b, val c, val d) of
     (Some x, Some y, Some z, Some w) \<Rightarrow>
       Some [char_of (x * 4 + y div 16), char_of (y mod 16 * 16 + z div 4), char_of (z mod 4 * 64 + w)] | _ \<Rightarrow> None)"

text \<open>With padding a short last group is filled up with \<open>=\<close>; without, it is just short.\<close>

fun b64_groups :: "bool \<Rightarrow> (char \<Rightarrow> nat option) \<Rightarrow> string \<Rightarrow> string option" where
  "b64_groups pad val [] = Some []"
| "b64_groups pad val [a] = None"
| "b64_groups pad val [a, b] = (if pad then None else b64_two val a b)"
| "b64_groups pad val [a, b, c] = (if pad then None else b64_three val a b c)"
| "b64_groups pad val (a # b # c # d # r) =
     (if pad \<and> d = CHR ''='' \<and> r = [] then
        (if c = CHR ''='' then b64_two val a b else b64_three val a b c)
      else case b64_four val a b c d of None \<Rightarrow> None | Some bs \<Rightarrow> map_option (\<lambda>t. bs @ t) (b64_groups pad val r))"

definition no_newlines :: "string \<Rightarrow> string" where
  "no_newlines s = filter (\<lambda>c. c \<noteq> CHR 0x0A \<and> c \<noteq> CHR 0x0D) s"

definition b64_decode_std :: "string \<Rightarrow> string option" where
  "b64_decode_std s = b64_groups True (\<lambda>c. index_of c std_alphabet) (no_newlines s)"

definition b64_decode_rawurl :: "string \<Rightarrow> string option" where
  "b64_decode_rawurl s = b64_groups False (\<lambda>c. index_of c url_alphabet) (no_newlines s)"

section \<open>Percent encoding\<close>

definition unreserved :: "char \<Rightarrow> bool" where
  "unreserved c = (is_lower_alnum (lower_char c) \<or> c \<in> set ''-_.~'')"

text \<open>Which bytes \<open>url.PathEscape\<close> escapes (a single path segment).\<close>

definition segment_ok :: "char \<Rightarrow> bool" where
  "segment_ok c = (unreserved c \<or> c \<in> set ''$&+:=@'')"

fun path_escape :: "string \<Rightarrow> string" where
  "path_escape [] = []"
| "path_escape (c # cs) =
     (if segment_ok c then c # path_escape cs
      else CHR ''%'' # hex_upper (of_char c div 16) # hex_upper (of_char c mod 16) # path_escape cs)"

fun path_unescape :: "string \<Rightarrow> string option" where
  "path_unescape [] = Some []"
| "path_unescape (c # cs) =
     (if c = CHR ''%'' then
        (case cs of
           a # b # r \<Rightarrow> (case hex_pair a b of None \<Rightarrow> None | Some d \<Rightarrow> map_option (\<lambda>t. d # t) (path_unescape r))
         | _ \<Rightarrow> None)
      else map_option (\<lambda>t. c # t) (path_unescape cs))"

section \<open>Round trips\<close>

lemma of_char_lt [simp]: "(of_char c :: nat) < 256"
  by (rule of_char_bound)

lemma less_16_cases: "n < 16 \<Longrightarrow> n \<in> {0, 1, 2, 3, 4, 5, 6, 7, 8, 9, 10, 11, 12, 13, 14, 15 :: nat}"
  by simp presburger

lemma hex_char_val: "n < 16 \<Longrightarrow> is_hex (hex_char n) \<and> hex_digit_val (hex_char n) = n"
  by (drule less_16_cases) (elim insertE emptyE; simp; code_simp)

lemma hex_upper_val: "n < 16 \<Longrightarrow> is_hex (hex_upper n) \<and> hex_digit_val (hex_upper n) = n"
  by (drule less_16_cases) (elim insertE emptyE; simp; code_simp)

lemma div_16_lt [simp]: "(of_char c :: nat) div 16 < 16"
  by (rule less_mult_imp_div_less) simp

lemma hex_pair_char [simp]: "hex_pair (hex_char (of_char c div 16)) (hex_char (of_char c mod 16)) = Some c"
  by (simp add: hex_pair_def hex_char_val)

lemma hex_pair_upper [simp]: "hex_pair (hex_upper (of_char c div 16)) (hex_upper (of_char c mod 16)) = Some c"
  by (simp add: hex_pair_def hex_upper_val)

lemma hex_decode_encode [simp]: "hex_decode (hex_encode s) = Some s"
  by (induction s) simp_all

lemma length_hex_encode [simp]: "length (hex_encode s) = 2 * length s"
  by (induction s) simp_all

lemma path_unescape_escape [simp]: "path_unescape (path_escape s) = Some s"
proof (induction s)
  case (Cons c cs)
  have "\<not> segment_ok (CHR ''%'')" by code_simp
  with Cons show ?case by auto
qed simp

lemma index_of_nth: "distinct xs \<Longrightarrow> n < length xs \<Longrightarrow> index_of (xs ! n) xs = Some n"
proof (induction xs arbitrary: n)
  case (Cons x xs)
  then show ?case by (cases n) auto
qed simp

lemma std_facts: "distinct std_alphabet" "length std_alphabet = 64" "CHR ''='' \<notin> set std_alphabet"
    "CHR 0x0A \<notin> set std_alphabet" "CHR 0x0D \<notin> set std_alphabet"
  by code_simp+

lemma std_index [simp]: "n < 64 \<Longrightarrow> index_of (std_alphabet ! n) std_alphabet = Some n"
  by (rule index_of_nth) (simp_all add: std_facts)

lemma std_not_pad [simp]:
  assumes "n < 64"
  shows "std_alphabet ! n \<noteq> CHR ''=''" "std_alphabet ! n \<noteq> CHR 0x0A" "std_alphabet ! n \<noteq> CHR 0x0D"
proof -
  have m: "std_alphabet ! n \<in> set std_alphabet" using assms by (simp add: std_facts)
  show "std_alphabet ! n \<noteq> CHR ''=''" "std_alphabet ! n \<noteq> CHR 0x0A" "std_alphabet ! n \<noteq> CHR 0x0D"
    by (rule notI, use m std_facts in simp)+
qed

lemma pack_div: "y < m \<Longrightarrow> (x * m + y) div m = (x :: nat)" and pack_mod: "y < m \<Longrightarrow> (x * m + y) mod m = (y :: nat)"
  by simp_all

lemma byte_divs [simp]: "(of_char c :: nat) div 4 < 64" "(of_char c :: nat) div 64 < 4"
  by (rule less_mult_imp_div_less, simp)+

lemma digit_bounds [simp]: "of_char a mod 4 * 16 + (of_char b :: nat) div 16 < 64"
    "of_char a mod 4 * 16 < (64 :: nat)" "of_char b mod 16 * 4 + (of_char c :: nat) div 64 < 64"
    "of_char b mod 16 * 4 < (64 :: nat)" "(of_char c :: nat) mod 64 < 64"
proof -
  have a: "of_char a mod 4 < (4 :: nat)" "of_char b mod 16 < (16 :: nat)" by simp_all
  then show "of_char a mod 4 * 16 < (64 :: nat)" "of_char b mod 16 * 4 < (64 :: nat)" by linarith+
  show "of_char a mod 4 * 16 + (of_char b :: nat) div 16 < 64" using a(1) div_16_lt[of b] by linarith
  show "of_char b mod 16 * 4 + (of_char c :: nat) div 64 < 64" using a(2) byte_divs(2)[of c] by linarith
qed simp

lemma byte_parts [simp]:
  "of_char a div 4 * 4 + (of_char a mod 4 * 16) div 16 = (of_char a :: nat)"
  "of_char a div 4 * 4 + (of_char a mod 4 * 16 + of_char b div 16) div 16 = (of_char a :: nat)"
  "(of_char a mod 4 * 16 + of_char b div 16) mod 16 * 16 + (of_char b mod 16 * 4) div 4 = (of_char b :: nat)"
  "(of_char a mod 4 * 16 + of_char b div 16) mod 16 * 16 + (of_char b mod 16 * 4 + of_char c div 64) div 4 = (of_char b :: nat)"
  "(of_char b mod 16 * 4 + of_char c div 64) mod 4 * 64 + of_char c mod 64 = (of_char c :: nat)"
  by (simp_all only: pack_div pack_mod div_16_lt byte_divs) simp_all

lemma b64_groups_encode: "b64_groups True (\<lambda>c. index_of c std_alphabet) (b64_encode s) = Some s"
  by (induction s rule: b64_encode.induct) (simp_all add: b64_two_def b64_three_def b64_four_def del: of_char_of)

lemma no_newlines_encode: "no_newlines (b64_encode s) = b64_encode s"
  by (induction s rule: b64_encode.induct) (simp_all add: no_newlines_def)

lemma b64_decode_encode [simp]: "b64_decode_std (b64_encode s) = Some s"
  by (simp add: b64_decode_std_def no_newlines_encode b64_groups_encode)

end
