(* ===== verification/Certpin.thy ===== *)
theory Certpin
  imports Encoding
begin

text \<open>
  \<open>shared/certpin\<close>: the fingerprint of a server's public key, the forms it may be written in, and the
  check a pinned client makes instead of verifying a chain; and the node keys of \<open>shared/keys\<close> as
  they are written down. The hash and the reading of a certificate are arguments: \<open>sha\<close> maps bytes to
  bytes and \<open>parse\<close> a DER certificate to its public key information.
\<close>

datatype pin_error =
    PinEmpty | PinAlgorithm string | PinNotHex | PinNotEncoded | PinLength nat
  | NoPins | NoCertificate | BadCertificate | KeyMismatch string

definition pin_Prefix :: string where
  "pin_Prefix = ''sha256:''"

definition OfSPKI :: "(string \<Rightarrow> string) \<Rightarrow> string \<Rightarrow> string" where
  "OfSPKI sha spki = pin_Prefix @ b64_encode (sha spki)"

text \<open>The digits of a pin, without its algorithm.\<close>

definition pin_digits :: "string \<Rightarrow> pin_error + string" where
  "pin_digits s = (case cut s '':'' of
      None \<Rightarrow> Inr s
    | Some (algo, r) \<Rightarrow> if to_lower algo \<noteq> ''sha256'' then Inl (PinAlgorithm algo) else Inr r)"

definition pin_raw :: "string \<Rightarrow> pin_error + string" where
  "pin_raw s =
     (if length s = 64 then (case hex_decode s of None \<Rightarrow> Inl PinNotHex | Some b \<Rightarrow> Inr b)
      else case b64_decode_std s of
          Some b \<Rightarrow> Inr b
        | None \<Rightarrow> (case b64_decode_rawurl (trim_right_by (\<lambda>c. c = CHR ''='') s) of
                     Some b \<Rightarrow> Inr b | None \<Rightarrow> Inl PinNotEncoded))"

definition pin_Normalize :: "string \<Rightarrow> pin_error + string" where
  "pin_Normalize pin =
     (let s = trim_space pin in
      if s = [] then Inl PinEmpty
      else case pin_digits s of
          Inl e \<Rightarrow> Inl e
        | Inr d \<Rightarrow> (case pin_raw d of
            Inl e \<Rightarrow> Inl e
          | Inr raw \<Rightarrow> if length raw \<noteq> 32 then Inl (PinLength (length raw)) else Inr (pin_Prefix @ b64_encode raw)))"

fun normalize_pins :: "string list \<Rightarrow> pin_error + string list" where
  "normalize_pins [] = Inr []"
| "normalize_pins (p # ps) =
     (case pin_Normalize p of
        Inl e \<Rightarrow> Inl e
      | Inr c \<Rightarrow> (case normalize_pins ps of Inl e \<Rightarrow> Inl e | Inr cs \<Rightarrow> Inr (c # cs)))"

text \<open>The check of the certificates a server presents: none is success.\<close>

definition verify_peer :: "(string \<Rightarrow> string) \<Rightarrow> (string \<Rightarrow> string option) \<Rightarrow> string list \<Rightarrow> string list \<Rightarrow> pin_error option" where
  "verify_peer sha parse want raws =
     (case raws of
        [] \<Rightarrow> Some NoCertificate
      | leaf # _ \<Rightarrow> (case parse leaf of
          None \<Rightarrow> Some BadCertificate
        | Some spki \<Rightarrow>
            (let got = OfSPKI sha spki in
             if list_ex (\<lambda>w. got = w) want then None else Some (KeyMismatch got))))"

definition Verifier :: "(string \<Rightarrow> string) \<Rightarrow> (string \<Rightarrow> string option) \<Rightarrow> string list \<Rightarrow> pin_error + (string list \<Rightarrow> pin_error option)" where
  "Verifier sha parse pins =
     (case normalize_pins pins of
        Inl e \<Rightarrow> Inl e
      | Inr want \<Rightarrow> if length want = 0 then Inl NoPins else Inr (verify_peer sha parse want))"

text \<open>How a client decides whom to trust: the system's store, or one key.\<close>

datatype trust = SystemTrust | PinTrust "string list \<Rightarrow> pin_error option"

definition TLSConfig :: "(string \<Rightarrow> string) \<Rightarrow> (string \<Rightarrow> string option) \<Rightarrow> string \<Rightarrow> pin_error + trust" where
  "TLSConfig sha parse pin = (case Verifier sha parse [pin] of Inl e \<Rightarrow> Inl e | Inr v \<Rightarrow> Inr (PinTrust v))"

definition HTTPClient :: "(string \<Rightarrow> string) \<Rightarrow> (string \<Rightarrow> string option) \<Rightarrow> string \<Rightarrow> pin_error + trust" where
  "HTTPClient sha parse pin = (if trim_space pin = [] then Inr SystemTrust else TLSConfig sha parse pin)"

section \<open>Node keys\<close>

text \<open>A public key is its 32 bytes; base64 text of any other length is refused.\<close>

definition ParsePublic :: "string \<Rightarrow> string option" where
  "ParsePublic s = (case b64_decode_std s of None \<Rightarrow> None | Some b \<Rightarrow> if length b = 32 then Some b else None)"

definition public_String :: "string \<Rightarrow> string" where
  "public_String k = b64_encode k"

definition public_Hex :: "string \<Rightarrow> string" where
  "public_Hex k = hex_encode k"

definition PublicHexFromBase64 :: "string \<Rightarrow> string option" where
  "PublicHexFromBase64 s = map_option public_Hex (ParsePublic s)"

lemma public_key_text: "length k = 32 \<Longrightarrow> PublicHexFromBase64 (public_String k) = Some (hex_encode k)"
  by (simp add: PublicHexFromBase64_def ParsePublic_def public_String_def public_Hex_def)

text \<open>
  A private key, too, is any 32 bytes; the bytes of a new one come from the system, and the curve, an argument, gives its public key.
\<close>

definition key_Generate :: "string option \<Rightarrow> string option" where
  "key_Generate random32 = random32"

definition ParsePrivate :: "string \<Rightarrow> string option" where
  "ParsePrivate s = (case b64_decode_std s of None \<Rightarrow> None | Some b \<Rightarrow> if length b = 32 then Some b else None)"

definition private_String :: "string \<Rightarrow> string" where
  "private_String k = b64_encode k"

definition private_Hex :: "string \<Rightarrow> string" where
  "private_Hex k = hex_encode k"

definition private_Public :: "(string \<Rightarrow> string) \<Rightarrow> string \<Rightarrow> string" where
  "private_Public curve k = curve k"

text \<open>A key pair survives its texts: the private key read back has the public key its peers were told, in both forms.\<close>

lemma key_pair_text:
  assumes "key_Generate r = Some k" and "length k = 32" and "length (curve k) = 32"
  shows "map_option (private_Public curve) (ParsePrivate (private_String k)) = ParsePublic (public_String (private_Public curve k)) \<and>
    PublicHexFromBase64 (public_String (private_Public curve k)) = Some (public_Hex (curve k))"
  using assms public_key_text[of "curve k"]
  by (simp add: ParsePrivate_def private_String_def ParsePublic_def public_String_def private_Public_def public_Hex_def)

lemma hex_encode_inj: "hex_encode a = hex_encode b \<longleftrightarrow> a = b"
  by (metis hex_decode_encode option.inject)

lemma b64_encode_inj: "b64_encode a = b64_encode b \<longleftrightarrow> a = b"
  by (metis b64_decode_encode option.inject)

section \<open>The forms of a pin\<close>

definition pin_forms :: "string \<Rightarrow> string list" where
  "pin_forms raw = [hex_encode raw, b64_encode raw, pin_Prefix @ hex_encode raw, pin_Prefix @ b64_encode raw]"

definition text_char :: "char \<Rightarrow> bool" where
  "text_char c \<longleftrightarrow> \<not> is_space c \<and> c \<noteq> CHR '':''"

lemma std_text: "\<forall>c \<in> set std_alphabet. text_char c"
  by code_simp

lemma std_text_nth [simp]: "n < 64 \<Longrightarrow> text_char (std_alphabet ! n)"
  using std_text std_facts(2) by (metis nth_mem)

lemma b64_text: "\<forall>c \<in> set (b64_encode s). text_char c"
proof -
  have "text_char (CHR ''='')" by code_simp
  then show ?thesis by (induction s rule: b64_encode.induct) simp_all
qed

lemma hex_char_text [simp]: "n < 16 \<Longrightarrow> text_char (hex_char n)"
  by (drule less_16_cases) (elim insertE emptyE; simp; code_simp)

lemma hex_text: "\<forall>c \<in> set (hex_encode s). text_char c"
  by (induction s) simp_all

lemma length_b64_encode: "length (b64_encode s) = 4 * ((length s + 2) div 3)"
proof (induction s rule: b64_encode.induct)
  case (4 a b c r)
  have "(n + 5) div 3 = Suc ((n + 2) div 3)" for n :: nat by presburger
  from this[of "length r"] 4 show ?case by (simp add: add.commute)
qed simp_all

lemma text_trim: "\<forall>c \<in> set s. text_char c \<Longrightarrow> trim_space s = s"
  unfolding trim_space_def by (rule trim_by_none) (simp add: text_char_def)

lemma pin_digits_plain: "\<forall>c \<in> set s. text_char c \<Longrightarrow> pin_digits s = Inr s"
proof -
  assume "\<forall>c \<in> set s. text_char c"
  then have "cut s '':'' = None" unfolding cut_None_char text_char_def by blast
  then show ?thesis by (simp add: pin_digits_def)
qed

lemma pin_digits_prefixed: "pin_digits (pin_Prefix @ s) = Inr s"
proof -
  have "cut (''sha256'' @ CHR '':'' # s) '':'' = Some (''sha256'', s)" by (rule cut_first) simp
  moreover have "to_lower ''sha256'' = ''sha256''" by code_simp
  ultimately show ?thesis by (simp add: pin_digits_def pin_Prefix_def)
qed

lemma pin_raw_forms: "length raw = 32 \<Longrightarrow> pin_raw (hex_encode raw) = Inr raw \<and> pin_raw (b64_encode raw) = Inr raw"
  by (simp add: pin_raw_def length_b64_encode)

lemma prefix_trim: "\<forall>c \<in> set s. text_char c \<Longrightarrow> s \<noteq> [] \<Longrightarrow> trim_space (pin_Prefix @ s) = pin_Prefix @ s"
  unfolding trim_space_def by (rule trim_by_fixed) (simp add: pin_Prefix_def text_char_def is_space_def)

lemma Normalize_forms:
  assumes "length raw = 32" and "pin \<in> set (pin_forms raw)"
  shows "pin_Normalize pin = Inr (pin_Prefix @ b64_encode raw)"
proof -
  have ne: "hex_encode raw \<noteq> []" "b64_encode raw \<noteq> []"
    by (metis assms(1) length_hex_encode list.size(3) mult_is_0 zero_neq_numeral)
      (use assms(1) length_b64_encode[of raw] in auto)
  have pne: "pin_Prefix \<noteq> []" by (simp add: pin_Prefix_def)
  note facts = text_trim[OF hex_text] text_trim[OF b64_text] prefix_trim[OF hex_text] prefix_trim[OF b64_text]
    pin_digits_plain[OF hex_text] pin_digits_plain[OF b64_text] pin_digits_prefixed pin_raw_forms[OF assms(1)]
  from assms(2) consider "pin = hex_encode raw" | "pin = b64_encode raw" | "pin = pin_Prefix @ hex_encode raw"
    | "pin = pin_Prefix @ b64_encode raw" by (auto simp: pin_forms_def)
  then show ?thesis by cases (simp_all add: pin_Normalize_def facts ne pne assms(1))
qed

lemma HTTPClient_forms:
  assumes "length raw = 32" and "pin \<in> set (pin_forms raw)"
  shows "HTTPClient sha parse pin = Inr (PinTrust (verify_peer sha parse [pin_Prefix @ b64_encode raw]))"
proof -
  have n: "pin_Normalize pin = Inr (pin_Prefix @ b64_encode raw)" using assms by (rule Normalize_forms)
  then have "trim_space pin \<noteq> []" by (auto simp: pin_Normalize_def)
  then show ?thesis using n by (simp add: HTTPClient_def TLSConfig_def Verifier_def)
qed

lemma verify_peer_iff: "verify_peer sha parse [pin_Prefix @ b64_encode raw] raws = None \<longleftrightarrow>
    (\<exists>leaf rest spki. raws = leaf # rest \<and> parse leaf = Some spki \<and> sha spki = raw)"
  by (auto simp: verify_peer_def OfSPKI_def b64_encode_inj Let_def split: list.splits option.splits)

lemma OfSPKI_client:
  assumes "length (sha spki) = 32"
  shows "pin_Normalize (OfSPKI sha spki) = Inr (OfSPKI sha spki)"
    "HTTPClient sha parse (OfSPKI sha spki) = Inr (PinTrust (verify_peer sha parse [OfSPKI sha spki]))"
  unfolding OfSPKI_def using assms Normalize_forms HTTPClient_forms by (auto simp: pin_forms_def)

section \<open>Properties\<close>



end
