(* ===== verification/TlsConf.thy ===== *)
theory TlsConf
  imports Certpin NetAddr Prelude
begin

text \<open>
  \<open>server/tlsconf\<close>: how the control plane presents itself. The state is the state directory, one file
  for the key and one for the certificate. The cryptographic library is an argument (\<open>crypto\<close>), and so
  is what a call meets on the machine (\<open>tls_env\<close>): which files cannot be read, how a write fails, the
  freshly drawn key, the clock, the network interfaces.
\<close>

type_synonym mode = string

definition ModeAuto :: mode where "ModeAuto = ''auto''"
definition ModeOff :: mode where "ModeOff = ''off''"
definition ModeSelf :: mode where "ModeSelf = ''self''"
definition ModeACME :: mode where "ModeACME = ''acme''"

lemmas mode_defs = ModeAuto_def ModeOff_def ModeSelf_def ModeACME_def

datatype tls_file = KeyFile | CertFile

datatype tls_error =
    UnknownMode string | NoStateDir | NoDomain | NoCacheDir
  | DirRefused | KeyNotUsable | KeyNotDrawn | KeyNotEncoded | WriteFailed tls_file
  | NoSerial | NotIssued | NotReadBack

record cert =
  ct_serial :: nat
  ct_cn :: string
  ct_notBefore :: int
  ct_notAfter :: int
  ct_dns :: "string list"
  ct_ips :: "addr list"

text \<open>
  \<open>crypto/ecdsa\<close>, \<open>crypto/x509\<close> and \<open>encoding/pem\<close>: a private key is a string, its public half is seen as
  the subject public key information. A parsed certificate comes with the public key it certifies and
  whether that is an ECDSA key.
\<close>

record crypto =
  cr_sha :: "string \<Rightarrow> string"
  cr_spki :: "string \<Rightarrow> string option"
  cr_marshal :: "string \<Rightarrow> string option"
  cr_key :: "string \<Rightarrow> string option"
  cr_cert :: "string \<Rightarrow> (cert \<times> string \<times> bool) option"
  cr_pem :: "string \<Rightarrow> string \<Rightarrow> string"
  cr_unpem :: "string \<Rightarrow> (string \<times> string) option"

record tls_env =
  te_mkdir :: bool
  te_unreadable :: "tls_file \<Rightarrow> bool"
  te_write :: "tls_file \<Rightarrow> string option option"
  te_newkey :: "string option"
  te_serial :: "nat option"
  te_create :: "cert \<Rightarrow> string \<Rightarrow> string option"
  te_now :: int
  te_interfaces :: "addr option list option"

type_synonym files = "string \<times> tls_file \<Rightarrow> string option"

section \<open>The self-signed certificate\<close>

text \<open>Times are nanoseconds.\<close>

definition hour :: int where "hour = 3600 * 10 ^ 9"
definition certLife :: int where "certLife = 10 * 365 * 24 * hour"
definition renewBefore :: int where "renewBefore = 30 * 24 * hour"

definition read_file :: "tls_env \<Rightarrow> files \<Rightarrow> string \<times> tls_file \<Rightarrow> string option" where
  "read_file e fs p = (if te_unreadable e (snd p) then None else fs p)"

text \<open>A write that fails may leave anything behind: \<open>te_write\<close> is then the new content.\<close>

definition writePEM :: "crypto \<Rightarrow> tls_env \<Rightarrow> string \<times> tls_file \<Rightarrow> string \<Rightarrow> string \<Rightarrow> files \<Rightarrow> bool \<times> files" where
  "writePEM cr e p block der fs =
     (case te_write e (snd p) of
        None \<Rightarrow> (True, fs(p := Some (cr_pem cr block der)))
      | Some left \<Rightarrow> (False, fs(p := left)))"

definition loadOrCreateKey :: "crypto \<Rightarrow> tls_env \<Rightarrow> string \<times> tls_file \<Rightarrow> files \<Rightarrow> (tls_error + string) \<times> files" where
  "loadOrCreateKey cr e p fs =
     (case read_file e fs p of
        Some b \<Rightarrow>
          ((case cr_unpem cr b of
              None \<Rightarrow> Inl KeyNotUsable
            | Some (block, der) \<Rightarrow> (case cr_key cr der of None \<Rightarrow> Inl KeyNotUsable | Some k \<Rightarrow> Inr k)), fs)
      | None \<Rightarrow>
          (case te_newkey e of
             None \<Rightarrow> (Inl KeyNotDrawn, fs)
           | Some key \<Rightarrow>
               (case cr_marshal cr key of
                  None \<Rightarrow> (Inl KeyNotEncoded, fs)
                | Some der \<Rightarrow>
                    (case writePEM cr e p ''PRIVATE KEY'' der fs of
                       (False, fs') \<Rightarrow> (Inl (WriteFailed (snd p)), fs')
                     | (True, fs') \<Rightarrow> (Inr key, fs')))))"

definition issue :: "tls_env \<Rightarrow> string \<Rightarrow> string list \<Rightarrow> addr list \<Rightarrow> tls_error + string" where
  "issue e key dnsNames ips =
     (case te_serial e of
        None \<Rightarrow> Inl NoSerial
      | Some serial \<Rightarrow>
          (let cn = (case dnsNames of [] \<Rightarrow> ''zwan control plane'' | d # _ \<Rightarrow> d);
               tmpl = \<lparr>ct_serial = serial, ct_cn = cn, ct_notBefore = te_now e - hour, ct_notAfter = te_now e + certLife,
                       ct_dns = dnsNames, ct_ips = ips\<rparr> in
           (case te_create e tmpl key of None \<Rightarrow> Inl NotIssued | Some der \<Rightarrow> Inr der)))"

definition containsString :: "string list \<Rightarrow> string \<Rightarrow> bool" where
  "containsString xs want = list_ex (\<lambda>s. s = want) xs"

definition containsIP :: "addr list \<Rightarrow> addr \<Rightarrow> bool" where
  "containsIP xs want = list_ex (\<lambda>ip. ip = want) xs"

definition certUsable :: "crypto \<Rightarrow> tls_env \<Rightarrow> cert \<times> string \<times> bool \<Rightarrow> string \<Rightarrow> string list \<Rightarrow> addr list \<Rightarrow> bool" where
  "certUsable cr e c key dnsNames ips =
     (case c of (ct, spki, ecdsa) \<Rightarrow>
        if \<not> ecdsa \<or> Some spki \<noteq> cr_spki cr key then False
        else if te_now e + renewBefore > ct_notAfter ct then False
        else list_all (containsString (ct_dns ct)) dnsNames \<and> list_all (containsIP (ct_ips ct)) ips)"

fun splitSANs_loop :: "string list \<Rightarrow> string list \<Rightarrow> addr list \<Rightarrow> string list \<times> addr list" where
  "splitSANs_loop [] dnsNames ips = (dnsNames, ips)"
| "splitSANs_loop (s # ss) dnsNames ips =
     (if s = [] then splitSANs_loop ss dnsNames ips
      else case net_parse_ip s of
          Some ip \<Rightarrow> splitSANs_loop ss dnsNames (if \<not> containsIP ips ip then ips @ [ip] else ips)
        | None \<Rightarrow> splitSANs_loop ss (if \<not> containsString dnsNames s then dnsNames @ [s] else dnsNames) ips)"

definition splitSANs :: "string list \<Rightarrow> string list \<times> addr list" where
  "splitSANs sans = splitSANs_loop sans [] []"

definition readCertDER :: "crypto \<Rightarrow> tls_env \<Rightarrow> files \<Rightarrow> string \<times> tls_file \<Rightarrow> string option" where
  "readCertDER cr e fs p =
     (case read_file e fs p of
        None \<Rightarrow> None
      | Some b \<Rightarrow> (case cr_unpem cr b of
          None \<Rightarrow> None
        | Some (block, der) \<Rightarrow> if block \<noteq> ''CERTIFICATE'' then None else Some der))"

text \<open>The certificate that can be kept, if there is one.\<close>

definition kept_cert :: "crypto \<Rightarrow> tls_env \<Rightarrow> string \<Rightarrow> string \<Rightarrow> string list \<Rightarrow> addr list \<Rightarrow> files \<Rightarrow> string option" where
  "kept_cert cr e dir key dnsNames ips fs =
     (case readCertDER cr e fs (dir, CertFile) of
        None \<Rightarrow> None
      | Some der \<Rightarrow> (case cr_cert cr der of
          None \<Rightarrow> None
        | Some c \<Rightarrow> if certUsable cr e c key dnsNames ips then Some der else None))"

text \<open>The certificate, its private key and the pin.\<close>

definition selfSigned :: "crypto \<Rightarrow> tls_env \<Rightarrow> string \<Rightarrow> string list \<Rightarrow> files \<Rightarrow> (tls_error + string \<times> string \<times> string) \<times> files" where
  "selfSigned cr e dir sans fs =
     (if \<not> te_mkdir e then (Inl DirRefused, fs)
      else case loadOrCreateKey cr e (dir, KeyFile) fs of
        (Inl err, fs1) \<Rightarrow> (Inl err, fs1)
      | (Inr key, fs1) \<Rightarrow>
          (case cr_spki cr key of
             None \<Rightarrow> (Inl KeyNotEncoded, fs1)
           | Some spki \<Rightarrow>
               (let pin = OfSPKI (cr_sha cr) spki in
                case splitSANs sans of (dnsNames, ips) \<Rightarrow>
                  (case kept_cert cr e dir key dnsNames ips fs1 of
                     Some der \<Rightarrow> (Inr (der, key, pin), fs1)
                   | None \<Rightarrow>
                       (case issue e key dnsNames ips of
                          Inl err \<Rightarrow> (Inl err, fs1)
                        | Inr der \<Rightarrow>
                            (case writePEM cr e (dir, CertFile) ''CERTIFICATE'' der fs1 of
                               (False, fs2) \<Rightarrow> (Inl (WriteFailed CertFile), fs2)
                             | (True, fs2) \<Rightarrow>
                                 (if cr_cert cr der = None then Inl NotReadBack else Inr (der, key, pin), fs2)))))))"

section \<open>The configuration\<close>

definition ParseMode :: "string \<Rightarrow> tls_error + mode" where
  "ParseMode s =
     (let m = to_lower (trim_space s) in
      if m = [] \<or> m = ModeAuto then Inr ModeAuto
      else if m = ModeOff then Inr ModeOff
      else if m = ModeSelf \<or> m = ''self-signed'' \<or> m = ''selfsigned'' then Inr ModeSelf
      else if m = ModeACME then Inr ModeACME
      else Inl (UnknownMode s))"

record tls_config =
  tc_Mode :: mode
  tc_Domains :: "string list"
  tc_ExtraSANs :: "string list"
  tc_Dir :: string
  tc_Email :: string
  tc_Directory :: string
  tc_ListenAddr :: string

text \<open>What is served: one certificate with its key, or whatever the ACME manager obtains for the
  domains it is limited to.\<close>

datatype serving = SelfCert string string | Autocert "string list" string string string

record tls_result =
  tr_Mode :: mode
  tr_TLS :: "serving option"
  tr_Pin :: string
  tr_Domains :: "string list"
  tr_HTTPChallenge :: bool

definition result_Scheme :: "tls_result \<Rightarrow> string" where
  "result_Scheme r = (if tr_Mode r = ModeOff then ''http'' else ''https'')"

definition cleanHosts :: "string list \<Rightarrow> string list" where
  "cleanHosts inp = filter (\<lambda>p. p \<noteq> []) (map trim_space (concat (map (split_on CHR '','') inp)))"

definition isPort :: "string \<Rightarrow> string \<Rightarrow> bool" where
  "isPort addr port = (case split_host_port addr of None \<Rightarrow> False | Some (_, p) \<Rightarrow> p = port)"

fun is_loopback :: "addr \<Rightarrow> bool" where
  "is_loopback (V4 a) = (drop_bit 24 a = 127)"
| "is_loopback (V6 a z) = (a = 1)"
| "is_loopback AddrZero = False"

fun is_link_local_unicast :: "addr \<Rightarrow> bool" where
  "is_link_local_unicast (V4 a) = (drop_bit 16 a = 0xA9FE)"
| "is_link_local_unicast (V6 a z) = (drop_bit 118 a = 0x3FA)"
| "is_link_local_unicast AddrZero = False"

fun is_link_local_multicast :: "addr \<Rightarrow> bool" where
  "is_link_local_multicast (V4 a) = (drop_bit 8 a = 0xE00000)"
| "is_link_local_multicast (V6 a z) = (drop_bit 120 a = 0xFF \<and> drop_bit 112 a AND 0xF = 2)"
| "is_link_local_multicast AddrZero = False"

fun local_addr :: "addr option \<Rightarrow> string option" where
  "local_addr None = None"
| "local_addr (Some a) =
     (if is_loopback a \<or> is_link_local_unicast a \<or> is_link_local_multicast a then None else Some (addr_string a))"

definition localAddrs :: "tls_env \<Rightarrow> string list" where
  "localAddrs e = (case te_interfaces e of None \<Rightarrow> [] | Some as \<Rightarrow> List.map_filter local_addr as)"

definition selfSANs :: "tls_env \<Rightarrow> string list \<Rightarrow> string list \<Rightarrow> string list" where
  "selfSANs e domains extra = [''localhost'', ''127.0.0.1'', ''::1''] @ domains @ cleanHosts extra @ localAddrs e"

definition resolve_mode :: "tls_config \<Rightarrow> mode" where
  "resolve_mode cfg =
     (let m = (if tc_Mode cfg = [] then ModeAuto else tc_Mode cfg) in
      if m = ModeAuto then (if cleanHosts (tc_Domains cfg) \<noteq> [] then ModeACME else ModeSelf) else m)"

definition Build :: "crypto \<Rightarrow> tls_env \<Rightarrow> tls_config \<Rightarrow> files \<Rightarrow> (tls_error + tls_result) \<times> files" where
  "Build cr e cfg fs =
     (let domains = cleanHosts (tc_Domains cfg); m = resolve_mode cfg in
      if m = ModeOff then
        (Inr \<lparr>tr_Mode = ModeOff, tr_TLS = None, tr_Pin = [], tr_Domains = [], tr_HTTPChallenge = False\<rparr>, fs)
      else if m = ModeSelf then
        (if tc_Dir cfg = [] then (Inl NoStateDir, fs)
         else (case selfSigned cr e (tc_Dir cfg) (selfSANs e domains (tc_ExtraSANs cfg)) fs of
             (Inl err, fs') \<Rightarrow> (Inl err, fs')
           | (Inr (der, key, pin), fs') \<Rightarrow>
               (Inr \<lparr>tr_Mode = ModeSelf, tr_TLS = Some (SelfCert der key), tr_Pin = pin, tr_Domains = domains,
                     tr_HTTPChallenge = False\<rparr>, fs')))
      else if m = ModeACME then
        (if domains = [] then (Inl NoDomain, fs)
         else if tc_Dir cfg = [] then (Inl NoCacheDir, fs)
         else (Inr \<lparr>tr_Mode = ModeACME, tr_TLS = Some (Autocert domains (tc_Dir cfg) (tc_Email cfg) (tc_Directory cfg)),
                    tr_Pin = [], tr_Domains = domains, tr_HTTPChallenge = \<not> isPort (tc_ListenAddr cfg) ''443''\<rparr>, fs))
      else (Inl (UnknownMode m), fs))"

section \<open>What is relied on\<close>

text \<open>
  The library's promises: what was written in PEM and what was encoded reads back, a digest has 32
  bytes, and an issued certificate certifies the key it was issued for.
\<close>

definition crypto_ok :: "crypto \<Rightarrow> bool" where
  "crypto_ok cr \<longleftrightarrow> (\<forall>b d. b \<in> {''PRIVATE KEY'', ''CERTIFICATE''} \<longrightarrow> cr_unpem cr (cr_pem cr b d) = Some (b, d)) \<and>
     (\<forall>k d. cr_marshal cr k = Some d \<longrightarrow> cr_key cr d = Some k) \<and> (\<forall>x. length (cr_sha cr x) = 32)"

definition env_ok :: "crypto \<Rightarrow> tls_env \<Rightarrow> bool" where
  "env_ok cr e \<longleftrightarrow> \<not> te_unreadable e KeyFile \<and>
     (\<forall>t k d c spki ec. te_create e t k = Some d \<longrightarrow> cr_cert cr d = Some (c, spki, ec) \<longrightarrow> cr_spki cr k = Some spki)"

text \<open>A start of the server on this machine, whatever its configuration, and the key file that goes
  with a pin.\<close>

definition starts :: "crypto \<Rightarrow> files \<Rightarrow> files \<Rightarrow> bool" where
  "starts cr fs fs' \<longleftrightarrow> (\<exists>e cfg. env_ok cr e \<and> fs' = snd (Build cr e cfg fs))"

definition key_on_disk :: "crypto \<Rightarrow> string \<Rightarrow> string \<Rightarrow> files \<Rightarrow> bool" where
  "key_on_disk cr dir k fs \<longleftrightarrow> (\<exists>pem b d. fs (dir, KeyFile) = Some pem \<and> cr_unpem cr pem = Some (b, d) \<and> cr_key cr d = Some k)"

definition x509_key :: "crypto \<Rightarrow> string \<Rightarrow> string option" where
  "x509_key cr der = map_option (\<lambda>(c, spki, ec). spki) (cr_cert cr der)"

lemma writePEM_other: "q \<noteq> p \<Longrightarrow> snd (writePEM cr e p b d fs) q = fs q"
  by (simp add: writePEM_def split: option.splits)

lemma writePEM_done: "writePEM cr e p b d fs = (True, fs') \<Longrightarrow> fs' p = Some (cr_pem cr b d)"
  by (auto simp: writePEM_def split: option.splits)

lemma key_on_disk_eq: "fs' (dir, KeyFile) = fs (dir, KeyFile) \<Longrightarrow> key_on_disk cr dir k fs' = key_on_disk cr dir k fs"
  by (simp add: key_on_disk_def)

lemma loadOrCreateKey_known:
  assumes "key_on_disk cr dir k fs" and "\<not> te_unreadable e KeyFile"
  shows "loadOrCreateKey cr e (dir, KeyFile) fs = (Inr k, fs)"
  using assms by (auto simp: key_on_disk_def loadOrCreateKey_def read_file_def)

lemma loadOrCreateKey_made:
  assumes "crypto_ok cr" and "loadOrCreateKey cr e (dir, KeyFile) fs = (Inr k, fs')"
  shows "key_on_disk cr dir k fs'"
  using assms
  by (fastforce simp: loadOrCreateKey_def read_file_def key_on_disk_def crypto_ok_def dest: writePEM_done
      split: option.splits prod.splits bool.splits if_splits)

lemma loadOrCreateKey_other: "dir' \<noteq> dir \<Longrightarrow> snd (loadOrCreateKey cr e (dir, KeyFile) fs) (dir', f) = fs (dir', f)"
  by (auto simp: loadOrCreateKey_def writePEM_def split: option.splits)

text \<open>What selfSigned does after the key is there touches no key file.\<close>

lemma selfSigned_keys:
  "snd (selfSigned cr e dir sans fs) (d, KeyFile) =
     (if te_mkdir e then snd (loadOrCreateKey cr e (dir, KeyFile) fs) (d, KeyFile) else fs (d, KeyFile))"
  by (auto simp: selfSigned_def Let_def writePEM_def split: sum.splits prod.splits option.splits bool.splits)

lemma selfSigned_keeps_key:
  assumes "key_on_disk cr d k fs" and "\<not> te_unreadable e KeyFile"
  shows "key_on_disk cr d k (snd (selfSigned cr e dir sans fs))"
proof (cases "d = dir")
  case True
  then show ?thesis
    using assms loadOrCreateKey_known[OF assms(1,2)] key_on_disk_eq[of "snd (selfSigned cr e dir sans fs)" d fs]
    by (simp add: selfSigned_keys)
next
  case False
  then show ?thesis
    using assms(1) loadOrCreateKey_other[OF False] key_on_disk_eq[of "snd (selfSigned cr e dir sans fs)" d fs]
    by (simp add: selfSigned_keys)
qed

lemma Build_keeps_key:
  assumes "key_on_disk cr d k fs" and "\<not> te_unreadable e KeyFile"
  shows "key_on_disk cr d k (snd (Build cr e cfg fs))"
proof -
  have "snd (Build cr e cfg fs) = fs \<or>
      (\<exists>sans. snd (Build cr e cfg fs) = snd (selfSigned cr e (tc_Dir cfg) sans fs))"
    by (auto simp: Build_def Let_def split: sum.splits prod.splits intro!: exI[of _ "selfSANs e (cleanHosts (tc_Domains cfg)) (tc_ExtraSANs cfg)"])
  then show ?thesis using assms selfSigned_keeps_key by metis
qed

interpretation tls: step_invariant "starts cr" "key_on_disk cr dir k" for cr dir k
  by unfold_locales (auto simp: starts_def env_ok_def intro: Build_keeps_key)

lemma selfSigned_result:
  assumes "crypto_ok cr" and "env_ok cr e" and "selfSigned cr e dir sans fs = (Inr (der, key, pin), fs')"
  shows "key_on_disk cr dir key fs' \<and> (\<exists>spki. cr_spki cr key = Some spki \<and> pin = OfSPKI (cr_sha cr) spki \<and> x509_key cr der = Some spki)"
proof -
  obtain fs1 where load: "te_mkdir e" "loadOrCreateKey cr e (dir, KeyFile) fs = (Inr key, fs1)"
    using assms(3) by (auto simp: selfSigned_def Let_def split: if_splits prod.splits sum.splits option.splits bool.splits)
  have "key_on_disk cr dir key fs'"
    using loadOrCreateKey_made[OF assms(1) load(2)] selfSigned_keys[of cr e dir sans fs dir] load assms(3)
      key_on_disk_eq[of fs' dir fs1] by simp
  moreover obtain spki where s: "cr_spki cr key = Some spki" "pin = OfSPKI (cr_sha cr) spki"
    using assms(3) load by (auto simp: selfSigned_def Let_def split: prod.splits sum.splits option.splits bool.splits if_splits)
  moreover have "x509_key cr der = Some spki"
    using assms(2,3) load s(1)
    by (auto simp: selfSigned_def kept_cert_def certUsable_def issue_def env_ok_def x509_key_def Let_def
        split: prod.splits sum.splits option.splits bool.splits if_splits)
  ultimately show ?thesis by blast
qed

lemma Build_self:
  assumes "Build cr e cfg fs = (Inr r, fs')" and "tr_Mode r = ModeSelf"
  obtains der key where "selfSigned cr e (tc_Dir cfg) (selfSANs e (cleanHosts (tc_Domains cfg)) (tc_ExtraSANs cfg)) fs = (Inr (der, key, tr_Pin r), fs')"
    "tr_TLS r = Some (SelfCert der key)"
  using assms by (auto simp: Build_def mode_defs Let_def split: if_splits prod.splits sum.splits)

section \<open>Properties\<close>

text \<open>C12: the pin is for the life of the installation. Once a server with a self-signed certificate has come
  up on a state directory, every later one on that directory has the same pin, whatever was started in
  between, with whatever names, at whatever time; and the certificate it presents, kept or issued anew,
  is accepted by a client that was given the pin of the first. What is relied on is that the key file
  can be read.\<close>

theorem pin_is_for_life:
  assumes "crypto_ok cr" and "env_ok cr e" and "Build cr e cfg fs = (Inr r, fs1)" and "tr_Mode r = ModeSelf"
    and "(starts cr)\<^sup>*\<^sup>* fs1 fs2"
    and "env_ok cr e2" and "Build cr e2 cfg2 fs2 = (Inr r2, fs3)" and "tr_Mode r2 = ModeSelf" and "tc_Dir cfg2 = tc_Dir cfg"
  shows "tr_Pin r2 = tr_Pin r \<and>
    (\<exists>der key verify. tr_TLS r2 = Some (SelfCert der key) \<and>
       HTTPClient (cr_sha cr) (x509_key cr) (tr_Pin r) = Inr (PinTrust verify) \<and> verify [der] = None)"
proof -
  obtain der key where b: "selfSigned cr e (tc_Dir cfg) (selfSANs e (cleanHosts (tc_Domains cfg)) (tc_ExtraSANs cfg)) fs = (Inr (der, key, tr_Pin r), fs1)"
    using assms(3,4) by (rule Build_self)
  obtain spki where k: "key_on_disk cr (tc_Dir cfg) key fs1" "cr_spki cr key = Some spki" "tr_Pin r = OfSPKI (cr_sha cr) spki"
    using selfSigned_result[OF assms(1,2) b] by blast
  have k2: "key_on_disk cr (tc_Dir cfg) key fs2" using assms(5) k(1) by (rule tls.steps_inv)
  obtain der2 key2 where b2: "selfSigned cr e2 (tc_Dir cfg) (selfSANs e2 (cleanHosts (tc_Domains cfg2)) (tc_ExtraSANs cfg2)) fs2 = (Inr (der2, key2, tr_Pin r2), fs3)"
    "tr_TLS r2 = Some (SelfCert der2 key2)" using assms(7,8) unfolding assms(9)[symmetric] by (rule Build_self)
  have "\<not> te_unreadable e2 KeyFile" using assms(6) by (simp add: env_ok_def)
  then have "loadOrCreateKey cr e2 (tc_Dir cfg, KeyFile) fs2 = (Inr key, fs2)" using k2 by (intro loadOrCreateKey_known)
  then have same: "key2 = key" using b2(1)
    by (auto simp: selfSigned_def Let_def split: prod.splits sum.splits option.splits bool.splits if_splits)
  obtain spki2 where r2: "cr_spki cr key2 = Some spki2" "tr_Pin r2 = OfSPKI (cr_sha cr) spki2" "x509_key cr der2 = Some spki2"
    using selfSigned_result[OF assms(1,6) b2(1)] by blast
  have eq: "spki2 = spki" using r2(1) k(2) same by simp
  have "length (cr_sha cr spki) = 32" using assms(1) by (simp add: crypto_ok_def)
  then have c: "HTTPClient (cr_sha cr) (x509_key cr) (OfSPKI (cr_sha cr) spki) =
      Inr (PinTrust (verify_peer (cr_sha cr) (x509_key cr) [OfSPKI (cr_sha cr) spki]))" by (rule OfSPKI_client(2))
  have "verify_peer (cr_sha cr) (x509_key cr) [OfSPKI (cr_sha cr) spki] [der2] = None"
    using r2(3) eq by (simp add: verify_peer_def)
  then show ?thesis using c b2(2) r2(2) eq k(3) by auto
qed

section \<open>Witness\<close>

text \<open>A library whose keys are their own encodings, and two starts with different names.\<close>

definition demo_crypto :: crypto where
  "demo_crypto = \<lparr>cr_sha = (\<lambda>x. take 32 (x @ replicate 32 CHR ''h'')), cr_spki = Some, cr_marshal = Some, cr_key = Some,
     cr_cert = (\<lambda>d. Some (\<lparr>ct_serial = 1, ct_cn = ''zwan'', ct_notBefore = 0, ct_notAfter = 0, ct_dns = [], ct_ips = []\<rparr>, d, True)),
     cr_pem = (\<lambda>b d. b @ CHR 0x0A # d), cr_unpem = (\<lambda>s. cut s [CHR 0x0A])\<rparr>"

definition demo_tls_env :: "string \<Rightarrow> tls_env" where
  "demo_tls_env k = \<lparr>te_mkdir = True, te_unreadable = (\<lambda>f. False), te_write = (\<lambda>f. None), te_newkey = Some k, te_serial = Some 7,
     te_create = (\<lambda>t k. Some k), te_now = 0, te_interfaces = None\<rparr>"

definition demo_tls_config :: "string list \<Rightarrow> tls_config" where
  "demo_tls_config extra = \<lparr>tc_Mode = ModeSelf, tc_Domains = [], tc_ExtraSANs = extra, tc_Dir = ''/var/lib/zwan/tls'', tc_Email = [],
     tc_Directory = [], tc_ListenAddr = '':8787''\<rparr>"

lemma demo_crypto_ok: "crypto_ok demo_crypto"
proof -
  have "CHR 0x0A \<notin> set b" if "b \<in> {''PRIVATE KEY'', ''CERTIFICATE''}" for b using that by auto
  then have "cut (b @ CHR 0x0A # d) [CHR 0x0A] = Some (b, d)" if "b \<in> {''PRIVATE KEY'', ''CERTIFICATE''}" for b d
    using that by (intro cut_first)
  moreover have "length (take 32 (x @ replicate 32 CHR ''h'')) = 32" for x
    unfolding length_take length_append length_replicate by simp
  ultimately show ?thesis unfolding crypto_ok_def demo_crypto_def crypto.select_convs by blast
qed

lemma demo_env_ok: "env_ok demo_crypto (demo_tls_env k)"
  by (simp add: env_ok_def demo_crypto_def demo_tls_env_def)

lemma demo_fields:
  "cr_spki demo_crypto k = Some k" "cr_marshal demo_crypto k = Some k" "cr_key demo_crypto k = Some k"
  "\<exists>c. cr_cert demo_crypto k = Some (c, k, True)"
  "te_mkdir (demo_tls_env k)" "te_unreadable (demo_tls_env k) f = False" "te_write (demo_tls_env k) f = None"
  "te_newkey (demo_tls_env k) = Some k" "te_serial (demo_tls_env k) = Some 7" "te_create (demo_tls_env k) = (\<lambda>t. Some)"
  by (simp_all add: demo_crypto_def demo_tls_env_def)

lemma demo_selfSigned:
  assumes "loadOrCreateKey demo_crypto (demo_tls_env k') (dir, KeyFile) fs = (Inr k, fs1)"
  shows "\<exists>der fs'. selfSigned demo_crypto (demo_tls_env k') dir sans fs = (Inr (der, k, OfSPKI (cr_sha demo_crypto) k), fs')"
proof (cases "splitSANs sans")
  case (Pair dnsNames ips)
  show ?thesis
  proof (cases "kept_cert demo_crypto (demo_tls_env k') dir k dnsNames ips fs1")
    case None
    obtain c where "cr_cert demo_crypto k = Some (c, k, True)" using demo_fields(4) by blast
    with None assms Pair show ?thesis
      by (auto simp: selfSigned_def issue_def writePEM_def demo_fields Let_def)
  next
    case (Some der)
    with assms Pair show ?thesis by (auto simp: selfSigned_def demo_fields Let_def)
  qed
qed

lemma demo_Build:
  assumes "loadOrCreateKey demo_crypto (demo_tls_env k') (''/var/lib/zwan/tls'', KeyFile) fs = (Inr k, fs1)"
  obtains r fs' where "Build demo_crypto (demo_tls_env k') (demo_tls_config extra) fs = (Inr r, fs')" "tr_Mode r = ModeSelf"
    "tr_Pin r = OfSPKI (cr_sha demo_crypto) k"
proof -
  obtain der fs' where "selfSigned demo_crypto (demo_tls_env k') ''/var/lib/zwan/tls''
      (selfSANs (demo_tls_env k') [] extra) fs = (Inr (der, k, OfSPKI (cr_sha demo_crypto) k), fs')"
    using demo_selfSigned[OF assms] by blast
  then have "Build demo_crypto (demo_tls_env k') (demo_tls_config extra) fs =
      (Inr \<lparr>tr_Mode = ModeSelf, tr_TLS = Some (SelfCert der k), tr_Pin = OfSPKI (cr_sha demo_crypto) k, tr_Domains = [],
            tr_HTTPChallenge = False\<rparr>, fs')"
    by (simp add: Build_def resolve_mode_def demo_tls_config_def mode_defs cleanHosts_def)
  then show ?thesis using that by simp
qed

theorem pin_is_for_life_witness:
  "\<exists>r fs1 r2 fs3. Build demo_crypto (demo_tls_env ''K1'') (demo_tls_config []) (\<lambda>p. None) = (Inr r, fs1) \<and>
     Build demo_crypto (demo_tls_env ''K2'') (demo_tls_config [''vpn.example.org'']) fs1 = (Inr r2, fs3) \<and> tr_Pin r2 = tr_Pin r"
proof -
  have l: "loadOrCreateKey demo_crypto (demo_tls_env ''K1'') (''/var/lib/zwan/tls'', KeyFile) (\<lambda>p. None) =
      (Inr ''K1'', (\<lambda>p. None)((''/var/lib/zwan/tls'', KeyFile) := Some (cr_pem demo_crypto ''PRIVATE KEY'' ''K1'')))"
    by (simp add: loadOrCreateKey_def read_file_def writePEM_def demo_fields)
  obtain r fs1 where r: "Build demo_crypto (demo_tls_env ''K1'') (demo_tls_config []) (\<lambda>p. None) = (Inr r, fs1)" "tr_Mode r = ModeSelf"
    using demo_Build[OF l] by metis
  obtain der key where b: "selfSigned demo_crypto (demo_tls_env ''K1'') (tc_Dir (demo_tls_config [])) (selfSANs (demo_tls_env ''K1'')
      (cleanHosts (tc_Domains (demo_tls_config []))) (tc_ExtraSANs (demo_tls_config []))) (\<lambda>p. None) = (Inr (der, key, tr_Pin r), fs1)"
    using r by (rule Build_self)
  have "key_on_disk demo_crypto ''/var/lib/zwan/tls'' key fs1"
    using selfSigned_result[OF demo_crypto_ok demo_env_ok b] by (simp add: demo_tls_config_def)
  then have "loadOrCreateKey demo_crypto (demo_tls_env ''K2'') (''/var/lib/zwan/tls'', KeyFile) fs1 = (Inr key, fs1)"
    by (rule loadOrCreateKey_known) (simp add: demo_fields)
  then obtain r2 fs3 where r2: "Build demo_crypto (demo_tls_env ''K2'') (demo_tls_config [''vpn.example.org'']) fs1 = (Inr r2, fs3)"
      "tr_Mode r2 = ModeSelf" using demo_Build by metis
  have "tc_Dir (demo_tls_config [''vpn.example.org'']) = tc_Dir (demo_tls_config [])" by (simp add: demo_tls_config_def)
  with pin_is_for_life[OF demo_crypto_ok demo_env_ok r rtranclp.rtrancl_refl demo_env_ok r2] have "tr_Pin r2 = tr_Pin r" by blast
  with r(1) r2(1) show ?thesis by blast
qed

end
