(* ===== verification/GoUrl.thy ===== *)
theory GoUrl
  imports Encoding
begin

text \<open>
  What the program uses of \<open>net/url\<close>: the scheme and the host of a parsed address. The parts that
  only decide whether parsing fails (user information, path) are checked and then dropped. A
  fragment is not expected: the callers split it off first.
\<close>

definition is_alpha :: "char \<Rightarrow> bool" where
  "is_alpha c = (CHR ''a'' \<le> lower_char c \<and> lower_char c \<le> CHR ''z'')"

text \<open>\<open>getScheme\<close>: the scheme in front of the first colon. No scheme is the empty one.\<close>

fun scheme_loop :: "string \<Rightarrow> string \<Rightarrow> string \<Rightarrow> (string \<times> string) option" where
  "scheme_loop raw acc [] = Some ([], raw)"
| "scheme_loop raw acc (c # cs) =
     (if is_alpha c then scheme_loop raw (acc @ [c]) cs
      else if is_digit c \<or> c \<in> set ''+-.'' then
        (if acc = [] then Some ([], raw) else scheme_loop raw (acc @ [c]) cs)
      else if c = CHR '':'' then (if acc = [] then None else Some (acc, cs))
      else Some ([], raw))"

definition host_ok :: "char \<Rightarrow> bool" where
  "host_ok c = (unreserved c \<or> c \<in> set ''!$&()*+,;=:[]<>'' \<or> c = CHR 0x22 \<or> c = CHR 0x27 \<or> 128 \<le> (of_char c :: nat))"

text \<open>
  Percent decoding of a host (only bytes above 127 and the percent sign itself may be escaped) and of
  a zone (only what would not be allowed plainly, or a space).
\<close>

fun host_unescape :: "bool \<Rightarrow> string \<Rightarrow> string option" where
  "host_unescape zone [] = Some []"
| "host_unescape zone (c # cs) =
     (if c = CHR ''%'' then
        (case cs of
           a # b # r \<Rightarrow> (case hex_pair a b of
               None \<Rightarrow> None
             | Some d \<Rightarrow>
                 if (if zone then d \<noteq> CHR ''%'' \<and> d \<noteq> CHR '' '' \<and> \<not> host_ok d
                     else (of_char d :: nat) < 128 \<and> d \<noteq> CHR ''%'') then None
                 else map_option (\<lambda>t. d # t) (host_unescape zone r))
         | _ \<Rightarrow> None)
      else if \<not> host_ok c then None
      else map_option (\<lambda>t. c # t) (host_unescape zone cs))"

definition valid_optional_port :: "string \<Rightarrow> bool" where
  "valid_optional_port s = (case s of [] \<Rightarrow> True | c # ds \<Rightarrow> c = CHR '':'' \<and> list_all is_digit ds)"

definition parse_host :: "string \<Rightarrow> string option" where
  "parse_host h =
     (if has_prefix h ''['' then
        (case cut_last h CHR '']'' of
           None \<Rightarrow> None
         | Some (pre, rest) \<Rightarrow>
             if \<not> valid_optional_port rest then None
             else (case cut pre ''%25'' of
                 None \<Rightarrow> host_unescape False h
               | Some (h1, z) \<Rightarrow>
                   (case (host_unescape False h1, host_unescape True (''%25'' @ z), host_unescape False (CHR '']'' # rest)) of
                      (Some a, Some b, Some c) \<Rightarrow> Some (a @ b @ c) | _ \<Rightarrow> None)))
      else (case cut_last h CHR '':'' of
              Some (_, port) \<Rightarrow> if list_all is_digit port then host_unescape False h else None
            | None \<Rightarrow> host_unescape False h))"

definition userinfo_ok :: "string \<Rightarrow> bool" where
  "userinfo_ok u = (list_all (\<lambda>c. is_lower_alnum (lower_char c) \<or> c \<in> set ''-._:~!$&()*+,;=%@'' \<or> c = CHR 0x27) u \<and>
     (case cut u '':'' of
        None \<Rightarrow> path_unescape u \<noteq> None
      | Some (n, p) \<Rightarrow> path_unescape n \<noteq> None \<and> path_unescape p \<noteq> None))"

definition parse_authority :: "string \<Rightarrow> string option" where
  "parse_authority a = (case cut_last a CHR ''@'' of
      None \<Rightarrow> parse_host a
    | Some (u, h) \<Rightarrow> (case parse_host h of None \<Rightarrow> None | Some host \<Rightarrow> if userinfo_ok u then Some host else None))"

definition before :: "char \<Rightarrow> string \<Rightarrow> string" where
  "before c s = takeWhile (\<lambda>d. d \<noteq> c) s"

text \<open>The scheme and host of an address, or none when parsing fails.\<close>

definition url_parse :: "string \<Rightarrow> (string \<times> string) option" where
  "url_parse s =
     (if list_ex (\<lambda>c. (of_char c :: nat) < 32 \<or> c = CHR 0x7F) s then None
      else if s = ''*'' then Some ([], [])
      else case scheme_loop s [] s of
          None \<Rightarrow> None
        | Some (scheme0, rest0) \<Rightarrow>
            (let scheme = to_lower scheme0; rest = before CHR ''?'' rest0 in
             if \<not> has_prefix rest ''/'' then
               (if scheme \<noteq> [] then Some (scheme, [])
                else if CHR '':'' \<in> set (before CHR ''/'' rest) then None
                else if path_unescape rest = None then None else Some (scheme, []))
             else if has_prefix rest ''//'' \<and> (scheme \<noteq> [] \<or> \<not> has_prefix rest ''///'') then
               (let auth = before CHR ''/'' (drop 2 rest); path = dropWhile (\<lambda>d. d \<noteq> CHR ''/'') (drop 2 rest) in
                case parse_authority auth of
                  None \<Rightarrow> None
                | Some host \<Rightarrow> if path_unescape path = None then None else Some (scheme, host))
             else if path_unescape rest = None then None else Some (scheme, [])))"

section \<open>Plain addresses\<close>

definition host_char :: "char \<Rightarrow> bool" where
  "host_char c \<longleftrightarrow> is_lower_alnum (lower_char c) \<or> c = CHR ''-'' \<or> c = CHR ''.''"

definition plain_hostport :: "string \<Rightarrow> bool" where
  "plain_hostport s \<longleftrightarrow> (\<exists>h p. s = h @ '':'' @ p \<and> h \<noteq> [] \<and> list_all host_char h \<and> list_all is_digit p)
     \<or> (s \<noteq> [] \<and> list_all host_char s)"

definition hp_char :: "char \<Rightarrow> bool" where
  "hp_char c \<longleftrightarrow> host_char c \<or> is_digit c \<or> c = CHR '':''"

lemma hp_char_nat: "hp_char c \<Longrightarrow> (of_char c :: nat) \<in> {45, 46, 58} \<or> 48 \<le> (of_char c :: nat) \<and> (of_char c :: nat) \<le> 57 \<or>
    65 \<le> (of_char c :: nat) \<and> (of_char c :: nat) \<le> 90 \<or> 97 \<le> (of_char c :: nat) \<and> (of_char c :: nat) \<le> 122"
  by (auto simp: hp_char_def host_char_def is_lower_alnum_nat lower_char_nat is_digit_nat char_eq_nat[of c] split: if_splits)

lemma hp_char_facts:
  assumes "hp_char c"
  shows "\<not> (of_char c :: nat) < 32" "c \<noteq> CHR 0x7F" "c \<noteq> CHR ''?''" "c \<noteq> CHR ''/''" "c \<noteq> CHR ''@''" "c \<noteq> CHR ''%''" "c \<noteq> CHR ''[''"
    "c \<noteq> CHR ''#''" "\<not> is_space c" "host_ok c"
proof -
  note n = hp_char_nat[OF assms]
  show "\<not> (of_char c :: nat) < 32" "c \<noteq> CHR 0x7F" "c \<noteq> CHR ''?''" "c \<noteq> CHR ''/''" "c \<noteq> CHR ''@''" "c \<noteq> CHR ''%''" "c \<noteq> CHR ''[''"
    "c \<noteq> CHR ''#''" "\<not> is_space c"
    using n by (auto simp: is_space_nat)
  show "host_ok c" using assms
    by (auto simp: hp_char_def host_char_def host_ok_def unreserved_def is_digit_nat is_lower_alnum_nat lower_char_nat)
qed

lemma plain_hostport_chars: "plain_hostport s \<Longrightarrow> \<forall>c \<in> set s. hp_char c"
  by (auto simp: plain_hostport_def list_all_iff hp_char_def)

lemma host_unescape_plain: "\<forall>c \<in> set s. hp_char c \<Longrightarrow> host_unescape False s = Some s"
  by (induction s) (simp_all add: hp_char_facts)

lemma parse_authority_plain:
  assumes "plain_hostport s"
  shows "parse_authority s = Some s"
proof -
  note chars = plain_hostport_chars[OF assms]
  have "CHR ''@'' \<notin> set s" "CHR ''['' \<notin> set s" using chars hp_char_facts(5,7) by blast+
  then have a: "cut_last s CHR ''@'' = None" and b: "\<not> has_prefix s ''[''"
    by (simp_all add: cut_last_None) (auto simp: has_prefix_iff)
  have colon: "\<not> host_char CHR '':''" "\<not> is_digit CHR '':''" by code_simp+
  have "case cut_last s CHR '':'' of None \<Rightarrow> True | Some (_, p) \<Rightarrow> list_all is_digit p"
  proof -
    from assms consider h p where "s = h @ '':'' @ p" "list_all is_digit p" | "list_all host_char s" by (auto simp: plain_hostport_def)
    then show ?thesis
    proof cases
      case 1
      then have "CHR '':'' \<notin> set p" using colon(2) by (auto simp: list_all_iff)
      then have "cut_last s CHR '':'' = Some (h, p)" using cut_last_append[of "CHR '':''" p h] 1(1) by simp
      then show ?thesis using 1(2) by simp
    next
      case 2
      then have "CHR '':'' \<notin> set s" using colon(1) by (auto simp: list_all_iff)
      then have "cut_last s CHR '':'' = None" by (simp add: cut_last_None)
      then show ?thesis by simp
    qed
  qed
  then show ?thesis using a b host_unescape_plain[OF chars]
    by (auto simp: parse_authority_def parse_host_def split: option.splits prod.splits)
qed

lemma scheme_https: "scheme_loop raw [] (''https:'' @ r) = Some (''https'', r)"
  and scheme_http: "scheme_loop raw [] (''http:'' @ r) = Some (''http'', r)"
proof -
  have "is_alpha CHR ''h'' \<and> is_alpha CHR ''t'' \<and> is_alpha CHR ''p'' \<and> is_alpha CHR ''s''" by code_simp
  moreover have "\<not> is_alpha CHR '':'' \<and> \<not> is_digit CHR '':''" by code_simp
  ultimately show "scheme_loop raw [] (''https:'' @ r) = Some (''https'', r)" "scheme_loop raw [] (''http:'' @ r) = Some (''http'', r)"
    by simp_all
qed

lemma url_parse_plain:
  assumes "plain_hostport hp" and "scheme = ''http'' \<or> scheme = ''https''"
  shows "url_parse (scheme @ ''://'' @ hp) = Some (scheme, hp)"
proof -
  note chars = plain_hostport_chars[OF assms(1)]
  have ctl: "\<not> list_ex (\<lambda>c. (of_char c :: nat) < 32 \<or> c = CHR 0x7F) (scheme @ ''://'' @ hp)"
    using assms(2) chars hp_char_facts(1,2) by (auto simp: list_ex_iff)
  have star: "scheme @ ''://'' @ hp \<noteq> ''*''" using assms(2) by auto
  have q: "before CHR ''?'' (''//'' @ hp) = ''//'' @ hp" "before CHR ''/'' hp = hp" "dropWhile (\<lambda>d. d \<noteq> CHR ''/'') hp = []"
    using chars hp_char_facts(3,4) by (auto simp: before_def takeWhile_eq_all_conv dropWhile_eq_Nil_conv)
  have sch: "scheme_loop (scheme @ ''://'' @ hp) [] (scheme @ ''://'' @ hp) = Some (scheme, ''//'' @ hp)"
    using assms(2) scheme_https[of _ "''//'' @ hp"] scheme_http[of _ "''//'' @ hp"] by auto
  have "to_lower ''http'' = ''http''" "to_lower ''https'' = ''https''" by code_simp+
  then have low: "to_lower scheme = scheme" "scheme \<noteq> []" using assms(2) by auto
  have pre: "has_prefix (''//'' @ hp) ''/''" "has_prefix (''//'' @ hp) ''//''" by (simp_all add: has_prefix_def)
  show ?thesis
    using ctl star pre low q parse_authority_plain[OF assms(1)] unfolding url_parse_def sch by (simp del: dropWhile_eq_Nil_conv)
qed

end
