(* ===== verification/JoinClient.thy ===== *)
theory JoinClient
  imports Api Certpin GoUrl
begin

text \<open>
  \<open>client/join/join.go\<close>: the client's side of the control channel. A call takes the client and the world
  its requests go out to and gives both back; \<open>http base path request world\<close> is one exchange: no answer,
  or a status code, its text and a body (none when it is not JSON).
\<close>

record identity =
  id_token :: string
  id_uuid :: string
  id_hostname :: string
  id_endpoint :: string
  id_priv :: string
  id_pub :: string
  id_ip :: string

record client =
  cl_base :: string
  cl_pin :: string
  cl_trust :: trust
  cl_nodeToken :: string
  cl_id :: "identity option"

datatype join_error =
    UrlEmpty | UrlUnparsable string | UrlScheme string string | UrlNoHost string
  | PinRefused pin_error | NoTrust pin_error
  | Unauthenticated string | ServerError nat string | NoReply | BadReply
  | NoNodeToken | NoKey | Reassigned string string | InRegister join_error | InReregister join_error | InPeers join_error

text \<open>\<open>errors.Is(err, errUnauthenticated)\<close>, seen through the wrapping.\<close>

fun is_unauthenticated :: "join_error \<Rightarrow> bool" where
  "is_unauthenticated (Unauthenticated m) = True"
| "is_unauthenticated (InRegister e) = is_unauthenticated e"
| "is_unauthenticated (InReregister e) = is_unauthenticated e"
| "is_unauthenticated (InPeers e) = is_unauthenticated e"
| "is_unauthenticated _ = False"

record result =
  jr_register :: register_response
  jr_peers :: "peer list"
  jr_private :: string
  jr_public :: string

type_synonym 'w exchange = "string \<Rightarrow> string \<Rightarrow> request \<Rightarrow> 'w \<Rightarrow> (nat \<times> string \<times> json option) option \<times> 'w"

section \<open>Addresses\<close>

definition SplitPin :: "string \<Rightarrow> string \<times> string" where
  "SplitPin s0 =
     (let s = trim_space s0 in
      case cut_last s CHR ''#'' of
        None \<Rightarrow> (s, [])
      | Some (a, pin) \<Rightarrow>
          (trim_space a, trim_space (case path_unescape pin of Some un \<Rightarrow> un | None \<Rightarrow> pin)))"

definition NormalizeURL :: "string \<Rightarrow> join_error + string" where
  "NormalizeURL s0 =
     (let s1 = trim_space s0 in
      if s1 = [] then Inl UrlEmpty
      else let s = (if \<not> str_contains s1 ''://'' then ''https://'' @ s1 else s1) in
        case url_parse s of
          None \<Rightarrow> Inl (UrlUnparsable s)
        | Some (scheme, host) \<Rightarrow>
            if scheme \<noteq> ''http'' \<and> scheme \<noteq> ''https'' then Inl (UrlScheme s scheme)
            else if host = [] then Inl (UrlNoHost s)
            else Inr (scheme @ ''://'' @ host))"

definition NewClient :: "(string \<Rightarrow> string) \<Rightarrow> (string \<Rightarrow> string option) \<Rightarrow> string \<Rightarrow> string \<Rightarrow> join_error + client" where
  "NewClient sha parse serverURL pin0 =
     (case SplitPin serverURL of (base0, embedded) \<Rightarrow>
        let pin1 = (if pin0 = [] then embedded else pin0) in
        (case NormalizeURL base0 of
           Inl e \<Rightarrow> Inl e
         | Inr base \<Rightarrow>
             (case (if pin1 \<noteq> [] then pin_Normalize pin1 else Inr pin1) of
                Inl e \<Rightarrow> Inl (PinRefused e)
              | Inr pin \<Rightarrow>
                  (case HTTPClient sha parse pin of
                     Inl e \<Rightarrow> Inl (NoTrust e)
                   | Inr t \<Rightarrow> Inr \<lparr>cl_base = base, cl_pin = pin, cl_trust = t, cl_nodeToken = [], cl_id = None\<rparr>))))"

section \<open>Exchanges\<close>

definition auth_header :: "string \<Rightarrow> string" where
  "auth_header tok = (if tok \<noteq> [] then ''Bearer '' @ tok else [])"

definition decode :: "(json \<Rightarrow> 'a option) \<Rightarrow> nat \<times> string \<times> json option \<Rightarrow> join_error + 'a" where
  "decode dec resp =
     (case resp of (code, status, body) \<Rightarrow>
        if code \<noteq> 200 then
          (let e = (case body of None \<Rightarrow> [] | Some j \<Rightarrow> (case dec_error j of None \<Rightarrow> [] | Some e \<Rightarrow> e));
               msg = (if e = [] then status else e) in
           if code = 401 then Inl (Unauthenticated msg) else Inl (ServerError code msg))
        else (case body of
            None \<Rightarrow> Inl BadReply
          | Some j \<Rightarrow> (case dec j of None \<Rightarrow> Inl BadReply | Some x \<Rightarrow> Inr x)))"

definition roundTrip :: "'w exchange \<Rightarrow> client \<Rightarrow> 'w \<Rightarrow> string \<Rightarrow> string \<Rightarrow> json option \<Rightarrow> (json \<Rightarrow> 'a option) \<Rightarrow> (join_error + 'a) \<times> 'w" where
  "roundTrip http c w meth path body dec =
     (case http (cl_base c) path \<lparr>req_method = meth, req_auth = auth_header (cl_nodeToken c), req_body = body\<rparr> w of
        (None, w') \<Rightarrow> (Inl NoReply, w')
      | (Some resp, w') \<Rightarrow> (decode dec resp, w'))"

definition client_register :: "'w exchange \<Rightarrow> identity \<Rightarrow> client \<times> 'w \<Rightarrow> (join_error + register_response) \<times> client \<times> 'w" where
  "client_register http i cw =
     (case cw of (c, w) \<Rightarrow>
        (case roundTrip http c w ''POST'' ''/v1/register''
             (Some (enc_register_request \<lparr>rq_token = id_token i, rq_uuid = id_uuid i, rq_hostname = id_hostname i,
                      rq_key = id_pub i, rq_endpoint = id_endpoint i\<rparr>)) dec_register_response of
           (Inl e, w') \<Rightarrow> (Inl e, c, w')
         | (Inr reg, w') \<Rightarrow>
             if rs_node_token reg = [] then (Inl NoNodeToken, c, w')
             else (Inr reg, c\<lparr>cl_nodeToken := rs_node_token reg\<rparr>, w')))"

definition reauthenticate :: "'w exchange \<Rightarrow> client \<times> 'w \<Rightarrow> (join_error + unit) \<times> client \<times> 'w" where
  "reauthenticate http cw =
     (case cl_id (fst cw) of
        None \<Rightarrow> (Inl (Unauthenticated []), cw)
      | Some i \<Rightarrow>
          (case client_register http i cw of
             (Inl e, cw') \<Rightarrow> (Inl (InReregister e), cw')
           | (Inr reg, cw') \<Rightarrow>
               if rs_ip reg \<noteq> id_ip i then (Inl (Reassigned (id_ip i) (rs_ip reg)), cw') else (Inr (), cw')))"

definition client_do :: "'w exchange \<Rightarrow> string \<Rightarrow> string \<Rightarrow> json option \<Rightarrow> (json \<Rightarrow> 'a option) \<Rightarrow> client \<times> 'w \<Rightarrow> (join_error + 'a) \<times> client \<times> 'w" where
  "client_do http meth path body dec cw =
     (case cw of (c, w) \<Rightarrow>
        (case roundTrip http c w meth path body dec of
           (Inr x, w') \<Rightarrow> (Inr x, c, w')
         | (Inl e, w') \<Rightarrow>
             if \<not> is_unauthenticated e then (Inl e, c, w')
             else (case reauthenticate http (c, w') of
                     (Inl e', cw') \<Rightarrow> (Inl e', cw')
                   | (Inr _, (c', w'')) \<Rightarrow>
                       (case roundTrip http c' w'' meth path body dec of (r, w3) \<Rightarrow> (r, c', w3)))))"

definition client_Peers :: "'w exchange \<Rightarrow> client \<times> 'w \<Rightarrow> (join_error + peer list) \<times> client \<times> 'w" where
  "client_Peers http cw = client_do http ''GET'' ''/v1/peers'' None dec_peers cw"

definition client_Services :: "'w exchange \<Rightarrow> client \<times> 'w \<Rightarrow> (join_error + service list) \<times> client \<times> 'w" where
  "client_Services http cw = client_do http ''GET'' ''/v1/services'' None dec_services cw"

definition PublishService :: "'w exchange \<Rightarrow> service \<Rightarrow> client \<times> 'w \<Rightarrow> (join_error + service) \<times> client \<times> 'w" where
  "PublishService http sv cw = client_do http ''POST'' ''/v1/services'' (Some (enc_service sv)) dec_service cw"

text \<open>Joining. The key pair comes from outside: none when it cannot be generated.\<close>

definition Join :: "'w exchange \<Rightarrow> (string \<times> string) option \<Rightarrow> string \<Rightarrow> string \<Rightarrow> string \<Rightarrow> string \<Rightarrow> client \<times> 'w \<Rightarrow>
    (join_error + result) \<times> client \<times> 'w" where
  "Join http keypair token deviceUUID hostname endpoint cw =
     (case keypair of
        None \<Rightarrow> (Inl NoKey, cw)
      | Some (priv, pub) \<Rightarrow>
          (let i = \<lparr>id_token = token, id_uuid = deviceUUID, id_hostname = hostname, id_endpoint = endpoint,
                    id_priv = priv, id_pub = pub, id_ip = []\<rparr> in
           (case client_register http i cw of
              (Inl e, cw') \<Rightarrow> (Inl (InRegister e), cw')
            | (Inr reg, (c, w)) \<Rightarrow>
                (case client_Peers http (c\<lparr>cl_id := Some (i\<lparr>id_ip := rs_ip reg\<rparr>)\<rparr>, w) of
                   (Inl e, cw') \<Rightarrow> (Inl (InPeers e), cw')
                 | (Inr ps, cw') \<Rightarrow>
                     (Inr \<lparr>jr_register = reg, jr_peers = ps, jr_private = priv, jr_public = pub\<rparr>, cw')))))"

section \<open>What the client relies on\<close>

text \<open>
  A control plane, as the client sees it: \<open>knows w tok\<close> is the device a node token stands for. A request
  with a token nobody holds is refused and changes nothing; a registration that is answered with a
  success hands out a token that stands for the device; and a known device is told its peers.
\<close>

locale control_plane =
  fixes http :: "'w exchange"
    and knows :: "'w \<Rightarrow> string \<Rightarrow> string option"
    and good :: "'w \<Rightarrow> bool"
  assumes unknown_refused: "good w \<Longrightarrow> knows w tok = None \<Longrightarrow>
      \<exists>status body w'. http base ''/v1/peers'' \<lparr>req_method = ''GET'', req_auth = auth_header tok, req_body = None\<rparr> w =
        (Some (401, status, body), w') \<and> good w' \<and> knows w' = knows w"
    and register_knows: "good w \<Longrightarrow>
      http base ''/v1/register'' \<lparr>req_method = ''POST'', req_auth = h, req_body = Some (enc_register_request rq)\<rparr> w =
        (Some (200, status, body), w') \<Longrightarrow>
      \<exists>rs. body = Some (enc_register_response rs) \<and> rs_node_token rs \<noteq> [] \<and> good w' \<and>
        knows w' (rs_node_token rs) = Some (rq_uuid rq)"
    and known_served: "good w \<Longrightarrow> knows w tok = Some u \<Longrightarrow>
      \<exists>status ps w'. http base ''/v1/peers'' \<lparr>req_method = ''GET'', req_auth = auth_header tok, req_body = None\<rparr> w =
        (Some (200, status, Some (enc_peers ps)), w') \<and> good w' \<and> knows w' = knows w"
begin

lemma Peers_known:
  assumes "good w" "knows w (cl_nodeToken c) = Some u"
  shows "\<exists>ps w'. client_Peers http (c, w) = (Inr ps, c, w') \<and> good w' \<and> knows w' = knows w"
  using known_served[OF assms, of "cl_base c"]
  by (auto simp: client_Peers_def client_do_def roundTrip_def decode_def)

lemma Peers_unknown:
  assumes "good w" "knows w (cl_nodeToken c) = None" "cl_id c = Some i"
    and reply: "\<And>status body w'. http (cl_base c) ''/v1/peers'' \<lparr>req_method = ''GET'', req_auth = auth_header (cl_nodeToken c), req_body = None\<rparr> w =
        (Some (401, status, body), w') \<Longrightarrow>
      \<exists>status w2. http (cl_base c) ''/v1/register'' \<lparr>req_method = ''POST'', req_auth = auth_header (cl_nodeToken c),
        req_body = Some (enc_register_request \<lparr>rq_token = id_token i, rq_uuid = id_uuid i, rq_hostname = id_hostname i,
                      rq_key = id_pub i, rq_endpoint = id_endpoint i\<rparr>)\<rparr> w' = (Some (200, status, Some (enc_register_response rs)), w2)"
  shows "\<exists>r c' w'. client_Peers http (c, w) = (r, c', w') \<and> good w' \<and> knows w' (cl_nodeToken c') = Some (id_uuid i) \<and>
    cl_id c' = cl_id c \<and> (if rs_ip rs = id_ip i then \<exists>ps. r = Inr ps else r = Inl (Reassigned (id_ip i) (rs_ip rs)))"
proof -
  obtain status body w1 where w1: "http (cl_base c) ''/v1/peers'' \<lparr>req_method = ''GET'', req_auth = auth_header (cl_nodeToken c), req_body = None\<rparr> w =
        (Some (401, status, body), w1)" "good w1"
    using unknown_refused[OF assms(1,2)] by blast
  obtain status2 w2 where w2: "http (cl_base c) ''/v1/register'' \<lparr>req_method = ''POST'', req_auth = auth_header (cl_nodeToken c),
        req_body = Some (enc_register_request \<lparr>rq_token = id_token i, rq_uuid = id_uuid i, rq_hostname = id_hostname i,
                      rq_key = id_pub i, rq_endpoint = id_endpoint i\<rparr>)\<rparr> w1 = (Some (200, status2, Some (enc_register_response rs)), w2)"
    using reply[OF w1(1)] by blast
  have "\<exists>rs'. Some (enc_register_response rs) = Some (enc_register_response rs') \<and> rs_node_token rs' \<noteq> [] \<and> good w2 \<and>
      knows w2 (rs_node_token rs') = Some (id_uuid i)"
    using register_knows[OF w1(2) w2] by simp
  then have rs: "rs_node_token rs \<noteq> []" "good w2" "knows w2 (rs_node_token rs) = Some (id_uuid i)"
    by (metis dec_enc_register_response option.inject)+
  let ?c = "c\<lparr>cl_nodeToken := rs_node_token rs\<rparr>"
  obtain status3 ps w3 where w3: "http (cl_base c) ''/v1/peers'' \<lparr>req_method = ''GET'', req_auth = auth_header (rs_node_token rs), req_body = None\<rparr> w2 =
        (Some (200, status3, Some (enc_peers ps)), w3)" "good w3" "knows w3 = knows w2"
    using known_served[OF rs(2,3)] by blast
  have rt1: "\<exists>m. roundTrip http c w ''GET'' ''/v1/peers'' None dec_peers = (Inl (Unauthenticated m), w1)"
    using w1(1) by (simp add: roundTrip_def decode_def Let_def)
  have reg: "client_register http i (c, w1) = (Inr rs, ?c, w2)"
    using w2 rs(1) by (simp add: client_register_def roundTrip_def decode_def)
  have rt3: "roundTrip http ?c w2 ''GET'' ''/v1/peers'' None dec_peers = (Inr ps, w3)"
    using w3(1) by (simp add: roundTrip_def decode_def)
  show ?thesis
  proof (cases "rs_ip rs = id_ip i")
    case True
    then have "client_Peers http (c, w) = (Inr ps, ?c, w3)"
      using rt1 reg rt3 assms(3) by (elim exE) (simp add: client_Peers_def client_do_def reauthenticate_def)
    then show ?thesis using w3(2,3) rs(3) True by auto
  next
    case False
    then have "client_Peers http (c, w) = (Inl (Reassigned (id_ip i) (rs_ip rs)), ?c, w2)"
      using rt1 reg assms(3) by (elim exE) (simp add: client_Peers_def client_do_def reauthenticate_def)
    then show ?thesis using False rs(2,3) by auto
  qed
qed

end

section \<open>The control API is such a control plane\<close>

text \<open>
  The server with the environment of each request it will handle. A request is handled from start to
  end; concurrent requests are the control API's own matter.
\<close>

record api_world =
  aw_server :: server
  aw_envs :: "nat \<Rightarrow> env"
  aw_next :: nat

definition api_http :: "string \<Rightarrow> string \<Rightarrow> (nat \<Rightarrow> string) \<Rightarrow> api_world exchange" where
  "api_http productName version statusText base path r w =
     (case serve productName version (aw_envs w (aw_next w)) (aw_server w) path r of
        (s', (code, body)) \<Rightarrow> (Some (code, statusText code, Some body), w\<lparr>aw_server := s', aw_next := Suc (aw_next w)\<rparr>))"

definition api_knows :: "api_world \<Rightarrow> string \<Rightarrow> string option" where
  "api_knows w tok = map_option m_uuid (MemberByToken (srv_net (aw_server w)) (bearer (auth_header tok)))"

definition api_good :: "api_world \<Rightarrow> bool" where
  "api_good w \<longleftrightarrow> (\<forall>n bs. e_rand (aw_envs w n) = Some bs \<longrightarrow> bs \<noteq> [])"

lemma hex_byte_text: "\<forall>c \<in> set (hex_byte b). \<not> is_space c"
proof -
  have "unat b < 256" using unsigned_less[of b, where 'a = nat] by simp
  then have k: "unat b div 16 < 16" "unat b mod 16 < 16" by (simp_all add: less_mult_imp_div_less)
  have "hex_byte b = [hex_char (unat b div 16), hex_char (unat b mod 16)]" by (simp only: hex_byte_def hex_char_def)
  with hex_char_text[OF k(1)] hex_char_text[OF k(2)] show ?thesis by (simp add: text_char_def)
qed

lemma node_token_bearer:
  assumes "newNodeToken (Some bs) = Some tok" and "bs \<noteq> []"
  shows "tok \<noteq> [] \<and> bearer (auth_header tok) = tok"
proof -
  have tok: "tok = concat (map hex_byte bs)" using assms(1) by (simp add: newNodeToken_def)
  then have "\<forall>c \<in> set tok. \<not> is_space c" using hex_byte_text by auto
  then have tr: "trim_space tok = tok" unfolding trim_space_def by (intro trim_by_none) blast
  have ne: "tok \<noteq> []" using assms(2) tok by (cases bs) (simp_all add: hex_byte_def)
  moreover have "to_lower ''Bearer '' = to_lower ''Bearer ''" by simp
  moreover have "bearer (''Bearer '' @ tok) = trim_space tok" using ne by (simp add: bearer_def equal_fold_def)
  ultimately show ?thesis using tr by (simp add: auth_header_def)
qed

lemma register_reply_200:
  assumes "register e s r = (s', (200, body))"
  obtains m s1 where "register_begin e s r = (s1, Inr m)" "s' = s1\<lparr>srv_net := Upsert (srv_net s1) m\<rparr>"
    "body = snd (snd (register_commit s1 m))"
proof (cases "register_begin e s r")
  case (Pair s1 res)
  show ?thesis
  proof (cases res)
    case (Inl resp)
    with Pair assms have "register_begin e s r = (s1, Inl (200, body))" by (simp add: register_def)
    then have False
      by (auto simp: register_begin_def writeErr_def split: if_splits option.splits sum.splits prod.splits)
    then show ?thesis ..
  next
    case (Inr m)
    with Pair assms that[of s1 m] show ?thesis by (simp add: register_def register_commit_def)
  qed
qed

lemma register_begin_token:
  assumes "register_begin e s r = (s1, Inr m)" and "req_body r = Some (enc_register_request rq)"
  shows "m_uuid m = rq_uuid rq \<and> newNodeToken (e_rand e) = Some (m_token m)"
  using assms by (auto simp: register_begin_def split: if_splits option.splits sum.splits prod.splits)

lemma Upsert_token: "m_token m \<noteq> [] \<Longrightarrow> MemberByToken (Upsert n m) (m_token m) = Some m"
  by (simp add: MemberByToken_def Upsert_def Let_def)

interpretation plane: control_plane "api_http productName version statusText" api_knows api_good
  for productName version statusText
proof
  fix w tok base
  assume good: "api_good w"
  show "\<exists>status body w'. api_http productName version statusText base ''/v1/peers''
          \<lparr>req_method = ''GET'', req_auth = auth_header tok, req_body = None\<rparr> w = (Some (401, status, body), w') \<and>
        api_good w' \<and> api_knows w' = api_knows w" if "api_knows w tok = None"
    using that good
    by (auto simp: api_http_def serve_def Routes_def peers_def caller_def api_knows_def api_good_def writeErr_def fun_eq_iff)
  show "\<exists>status ps w'. api_http productName version statusText base ''/v1/peers''
          \<lparr>req_method = ''GET'', req_auth = auth_header tok, req_body = None\<rparr> w = (Some (200, status, Some (enc_peers ps)), w') \<and>
        api_good w' \<and> api_knows w' = api_knows w" if "api_knows w tok = Some u" for u
    using that good
    by (auto simp: api_http_def serve_def Routes_def peers_def caller_def api_knows_def api_good_def fun_eq_iff)
next
  fix w base h rq status body w'
  assume good: "api_good w"
    and reply: "api_http productName version statusText base ''/v1/register''
      \<lparr>req_method = ''POST'', req_auth = h, req_body = Some (enc_register_request rq)\<rparr> w = (Some (200, status, body), w')"
  let ?r = "\<lparr>req_method = ''POST'', req_auth = h, req_body = Some (enc_register_request rq)\<rparr>"
  let ?e = "aw_envs w (aw_next w)"
  obtain s' b where reg: "register ?e (aw_server w) ?r = (s', (200, b))" and body: "body = Some b"
    and w': "w' = w\<lparr>aw_server := s', aw_next := Suc (aw_next w)\<rparr>"
    using reply by (auto simp: api_http_def serve_def Routes_def split: prod.splits)
  obtain m s1 where m: "register_begin ?e (aw_server w) ?r = (s1, Inr m)" "s' = s1\<lparr>srv_net := Upsert (srv_net s1) m\<rparr>"
    "b = snd (snd (register_commit s1 m))" using reg by (rule register_reply_200)
  have tok: "m_uuid m = rq_uuid rq" "newNodeToken (e_rand ?e) = Some (m_token m)"
    using register_begin_token[OF m(1)] by auto
  then obtain bs where "e_rand ?e = Some bs" by (auto simp: newNodeToken_def)
  with tok good node_token_bearer[of bs "m_token m"] have ok: "m_token m \<noteq> []" "bearer (auth_header (m_token m)) = m_token m"
    by (auto simp: api_good_def)
  have "api_knows w' (m_token m) = Some (rq_uuid rq)"
    using ok tok(1) m(2) by (simp add: api_knows_def w' Upsert_token)
  then show "\<exists>rs. body = Some (enc_register_response rs) \<and> rs_node_token rs \<noteq> [] \<and> api_good w' \<and>
      api_knows w' (rs_node_token rs) = Some (rq_uuid rq)"
    using ok(1) good by (intro exI[of _ "\<lparr>rs_network = nw_ID (srv_net s1), rs_suffix = nw_suffix (srv_net s1),
          rs_cidr = nw_cidr (srv_net s1), rs_ip = m_ip m, rs_relay = srv_relayAddr s1, rs_node_token = m_token m\<rparr>"])
      (simp add: body m(3) register_commit_def api_good_def w')
qed

lemma api_recovers:
  assumes "api_good w" and "api_knows w (cl_nodeToken c) = None" and "cl_id c = Some i"
    and "register_begin (aw_envs w (Suc (aw_next w))) (aw_server w) \<lparr>req_method = ''POST'', req_auth = auth_header (cl_nodeToken c),
        req_body = Some (enc_register_request \<lparr>rq_token = id_token i, rq_uuid = id_uuid i, rq_hostname = id_hostname i,
                      rq_key = id_pub i, rq_endpoint = id_endpoint i\<rparr>)\<rparr> = (s1, Inr m)"
  shows "\<exists>r c' w'. client_Peers (api_http pn v st) (c, w) = (r, c', w') \<and> api_good w' \<and>
    api_knows w' (cl_nodeToken c') = Some (id_uuid i) \<and> cl_id c' = cl_id c \<and>
    (if m_ip m = id_ip i then \<exists>ps. r = Inr ps else r = Inl (Reassigned (id_ip i) (m_ip m)))"
proof -
  let ?rs = "\<lparr>rs_network = nw_ID (srv_net s1), rs_suffix = nw_suffix (srv_net s1), rs_cidr = nw_cidr (srv_net s1),
      rs_ip = m_ip m, rs_relay = srv_relayAddr s1, rs_node_token = m_token m\<rparr>"
  have reply: "\<exists>status w2. api_http pn v st (cl_base c) ''/v1/register'' \<lparr>req_method = ''POST'', req_auth = auth_header (cl_nodeToken c),
        req_body = Some (enc_register_request \<lparr>rq_token = id_token i, rq_uuid = id_uuid i, rq_hostname = id_hostname i,
                      rq_key = id_pub i, rq_endpoint = id_endpoint i\<rparr>)\<rparr> w' = (Some (200, status, Some (enc_register_response ?rs)), w2)"
    if "api_http pn v st (cl_base c) ''/v1/peers'' \<lparr>req_method = ''GET'', req_auth = auth_header (cl_nodeToken c), req_body = None\<rparr> w =
        (Some (401, status, body), w')" for status body w'
  proof -
    have "w' = w\<lparr>aw_next := Suc (aw_next w)\<rparr>"
      using that by (auto simp: api_http_def serve_def Routes_def split: prod.splits)
    then show ?thesis using assms(4) by (simp add: api_http_def serve_def Routes_def register_def register_commit_def)
  qed
  have "\<exists>r c' w'. client_Peers (api_http pn v st) (c, w) = (r, c', w') \<and> api_good w' \<and>
    api_knows w' (cl_nodeToken c') = Some (id_uuid i) \<and> cl_id c' = cl_id c \<and>
    (if rs_ip ?rs = id_ip i then \<exists>ps. r = Inr ps else r = Inl (Reassigned (id_ip i) (rs_ip ?rs)))"
    using assms(1-3) by (rule plane.Peers_unknown) (rule reply)
  then show ?thesis unfolding register_response.select_convs .
qed

section \<open>Properties\<close>


text \<open>a device that gets another address when it registers again is told so only once. The first call
  reports it, but by then the client has taken over the new token, so that every later call succeeds
  while the identity still holds the old address, the one the tunnel goes on using.\<close>

theorem reassignment_is_reported_only_once:
  assumes "api_good w" and "api_knows w (cl_nodeToken c) = None" and "cl_id c = Some i"
    and "register_begin (aw_envs w (Suc (aw_next w))) (aw_server w) \<lparr>req_method = ''POST'', req_auth = auth_header (cl_nodeToken c),
        req_body = Some (enc_register_request \<lparr>rq_token = id_token i, rq_uuid = id_uuid i, rq_hostname = id_hostname i,
                      rq_key = id_pub i, rq_endpoint = id_endpoint i\<rparr>)\<rparr> = (s1, Inr m)"
    and "m_ip m \<noteq> id_ip i"
  shows "\<exists>c' w' ps w''. client_Peers (api_http pn v st) (c, w) = (Inl (Reassigned (id_ip i) (m_ip m)), c', w') \<and>
    client_Peers (api_http pn v st) (c', w') = (Inr ps, c', w'') \<and> cl_id c' = Some i"
proof -
  obtain r c' w' where 1: "client_Peers (api_http pn v st) (c, w) = (r, c', w')" "api_good w'"
      "api_knows w' (cl_nodeToken c') = Some (id_uuid i)" "cl_id c' = Some i" "r = Inl (Reassigned (id_ip i) (m_ip m))"
    using api_recovers[OF assms(1-4), of pn v st] assms(3,5) by auto
  obtain ps w'' where "client_Peers (api_http pn v st) (c', w') = (Inr ps, c', w'')"
    using plane.Peers_known[OF 1(2,3), of pn v st] by blast
  with 1 show ?thesis by blast
qed

section \<open>Witnesses\<close>

text \<open>A server that has forgotten everybody, and a client that had joined before.\<close>

definition demo_world :: api_world where
  "demo_world = \<lparr>aw_server = api_New demo_options, aw_envs = (\<lambda>n. demo_env 1), aw_next = 0\<rparr>"

definition demo_identity :: "u32 \<Rightarrow> identity" where
  "demo_identity ip = \<lparr>id_token = ''secret'', id_uuid = ''laptop'', id_hostname = ''laptop'', id_endpoint = [],
     id_priv = ''p'', id_pub = ''K1'', id_ip = addr_string (V4 ip)\<rparr>"

definition demo_client :: "u32 \<Rightarrow> client" where
  "demo_client ip = \<lparr>cl_base = ''https://h'', cl_pin = [], cl_trust = SystemTrust, cl_nodeToken = ''ff'', cl_id = Some (demo_identity ip)\<rparr>"

lemma demo_world_facts:
  "api_good demo_world" "api_knows demo_world ''ff'' = None"
  "register_begin (aw_envs demo_world (Suc (aw_next demo_world))) (aw_server demo_world)
     \<lparr>req_method = ''POST'', req_auth = auth_header ''ff'', req_body = Some (enc_register_request
        \<lparr>rq_token = ''secret'', rq_uuid = ''laptop'', rq_hostname = ''laptop'', rq_key = ''K1'', rq_endpoint = []\<rparr>)\<rparr> =
     ((api_New demo_options)\<lparr>srv_nodeIPs := demo_nodes1\<rparr>, Inr demo_laptop)"
proof -
  show "api_good demo_world" by (simp add: api_good_def demo_world_def demo_env_def)
  show "api_knows demo_world ''ff'' = None"
    by (simp add: api_knows_def demo_world_def api_New_def demo_options_def NewNetwork_def MemberByToken_def)
  have "register_begin e s (r\<lparr>req_auth := h\<rparr>) = register_begin e s r" for e s r h by (simp add: register_begin_def)
  from this[where r = "demo_request ''secret'' ''laptop'' ''K1''" and h = "auth_header ''ff''" and e = "demo_env 1" and s = "api_New demo_options"]
  show "register_begin (aw_envs demo_world (Suc (aw_next demo_world))) (aw_server demo_world)
     \<lparr>req_method = ''POST'', req_auth = auth_header ''ff'', req_body = Some (enc_register_request
        \<lparr>rq_token = ''secret'', rq_uuid = ''laptop'', rq_hostname = ''laptop'', rq_key = ''K1'', rq_endpoint = []\<rparr>)\<rparr> =
     ((api_New demo_options)\<lparr>srv_nodeIPs := demo_nodes1\<rparr>, Inr demo_laptop)"
    by (simp only: demo_world_def api_world.select_convs demo_first) (simp add: demo_request_def)
qed

lemma demo_client_facts:
  "cl_id (demo_client ip) = Some (demo_identity ip)" "api_knows demo_world (cl_nodeToken (demo_client ip)) = None"
  "register_begin (aw_envs demo_world (Suc (aw_next demo_world))) (aw_server demo_world)
     \<lparr>req_method = ''POST'', req_auth = auth_header (cl_nodeToken (demo_client ip)), req_body = Some (enc_register_request
        \<lparr>rq_token = id_token (demo_identity ip), rq_uuid = id_uuid (demo_identity ip), rq_hostname = id_hostname (demo_identity ip),
         rq_key = id_pub (demo_identity ip), rq_endpoint = id_endpoint (demo_identity ip)\<rparr>)\<rparr> =
     ((api_New demo_options)\<lparr>srv_nodeIPs := demo_nodes1\<rparr>, Inr demo_laptop)"
proof -
  have tok: "cl_nodeToken (demo_client ip) = ''ff''" by (simp only: demo_client_def client.select_convs)
  show "cl_id (demo_client ip) = Some (demo_identity ip)" by (simp only: demo_client_def client.select_convs)
  show "api_knows demo_world (cl_nodeToken (demo_client ip)) = None" unfolding tok by (rule demo_world_facts(2))
  show "register_begin (aw_envs demo_world (Suc (aw_next demo_world))) (aw_server demo_world)
     \<lparr>req_method = ''POST'', req_auth = auth_header (cl_nodeToken (demo_client ip)), req_body = Some (enc_register_request
        \<lparr>rq_token = id_token (demo_identity ip), rq_uuid = id_uuid (demo_identity ip), rq_hostname = id_hostname (demo_identity ip),
         rq_key = id_pub (demo_identity ip), rq_endpoint = id_endpoint (demo_identity ip)\<rparr>)\<rparr> =
     ((api_New demo_options)\<lparr>srv_nodeIPs := demo_nodes1\<rparr>, Inr demo_laptop)"
    unfolding tok unfolding demo_identity_def identity.select_convs by (rule demo_world_facts(3))
qed


theorem reassignment_witness:
  "\<exists>c' w' ps w''. client_Peers (api_http ''MyWAN'' ''1'' (\<lambda>n. ''status'')) (demo_client 0x64400009, demo_world) =
      (Inl (Reassigned (addr_string (V4 0x64400009)) (addr_string (V4 0x64400001))), c', w') \<and>
    client_Peers (api_http ''MyWAN'' ''1'' (\<lambda>n. ''status'')) (c', w') = (Inr ps, c', w'')"
proof -
  have ip: "m_ip demo_laptop = addr_string (V4 0x64400001)" "id_ip (demo_identity 0x64400009) = addr_string (V4 0x64400009)"
    by (simp_all only: demo_member_def demo_identity_def member.select_convs identity.select_convs)
  have "(0x64400001 :: u32) \<noteq> 0x64400009" by simp
  then have ne: "m_ip demo_laptop \<noteq> id_ip (demo_identity 0x64400009)" unfolding ip by simp
  show ?thesis
    using reassignment_is_reported_only_once[OF demo_world_facts(1) demo_client_facts(2,1,3) ne, of "''MyWAN''" "''1''" "\<lambda>n. ''status''"]
    unfolding ip by blast
qed

end
