(* ===== verification/Wgbind.thy ===== *)
theory Wgbind
  imports Relay
begin

text \<open>
  \<open>client/wgbind/bind.go\<close>: the datagram transport under WireGuard, straight to the peer or through
  the relay. The sockets are arguments: what listening on a port gives, whether a write succeeds,
  and the sequence of results of the reads. Channels are named by numbers, so that the keepalive
  goroutine, which looks the stop channel up again on every turn, can be modelled step by step.
\<close>

record bind =
  bd_uc :: "nat option"
  bd_relay :: bool
  bd_relayAP :: addrport
  bd_selfIP :: addr
  bd_stop :: "nat option"

datatype endpoint = RelayEp addr | StdEp addrport

datatype bind_error =
    BadRelayAddr string
  | SelfNotIPv4 string
  | AlreadyOpen
  | ListenFailed
  | NetClosed
  | ReadFailed
  | WriteFailed
  | WrongEndpoint
  | BadEndpoint string
  | As4Panic

definition bind_New :: bind where
  "bind_New = \<lparr>bd_uc = None, bd_relay = False, bd_relayAP = (AddrZero, 0), bd_selfIP = AddrZero, bd_stop = None\<rparr>"

definition NewRelay :: "string \<Rightarrow> addr \<Rightarrow> bind_error + bind" where
  "NewRelay relayAddr selfIP =
     (case parse_addrport relayAddr of
        None \<Rightarrow> Inl (BadRelayAddr relayAddr)
      | Some ap \<Rightarrow>
          if \<not> addr_is4 selfIP then Inl (SelfNotIPv4 (addr_string selfIP))
          else Inr \<lparr>bd_uc = None, bd_relay = True, bd_relayAP = ap, bd_selfIP = selfIP, bd_stop = None\<rparr>)"

text \<open>The frame of \<open>sendRegister\<close>, with where it goes.\<close>

definition sendRegister :: "bind \<Rightarrow> (bytes \<times> addrport) list" where
  "sendRegister b =
     (case addr_as4 (bd_selfIP b) of
        None \<Rightarrow> []
      | Some a \<Rightarrow> [(typeRegister # addr_bytes a, bd_relayAP b)])"

datatype receiver = RelayReceive | DirectReceive

text \<open>\<open>Open\<close>: the bind afterwards, the receiver and the port or the error, and what was sent.\<close>

definition bind_Open ::
  "(nat \<Rightarrow> nat option) \<Rightarrow> nat \<Rightarrow> bind \<Rightarrow> nat \<Rightarrow>
    bind \<times> (bind_error + receiver \<times> nat) \<times> (bytes \<times> addrport) list" where
  "bind_Open listen ch b port =
     (if bd_uc b \<noteq> None then (b, Inl AlreadyOpen, [])
      else case listen (if bd_relay b then 0 else port) of
             None \<Rightarrow> (b, Inl ListenFailed, [])
           | Some actual \<Rightarrow>
               (let b = b\<lparr>bd_uc := Some actual\<rparr> in
                if bd_relay b
                then (b\<lparr>bd_stop := Some ch\<rparr>, Inr (RelayReceive, actual), sendRegister b)
                else (b, Inr (DirectReceive, actual), [])))"

text \<open>The results of reading the socket, one per call.\<close>

datatype read = ReadOk bytes addrport | ReadClosed | ReadReset | ReadErr

fun direct_receive :: "nat \<Rightarrow> read list \<Rightarrow> ((bind_error + bytes \<times> endpoint) \<times> read list) option" where
  "direct_receive cap [] = None"
| "direct_receive cap (ReadOk d src # rs) = Some (Inr (take cap d, StdEp src), rs)"
| "direct_receive cap (ReadClosed # rs) = Some (Inl NetClosed, rs)"
| "direct_receive cap (ReadReset # rs) = direct_receive cap rs"
| "direct_receive cap (ReadErr # rs) = Some (Inl ReadFailed, rs)"

fun relay_receive :: "nat \<Rightarrow> read list \<Rightarrow> ((bind_error + bytes \<times> endpoint) \<times> read list) option" where
  "relay_receive cap [] = None"
| "relay_receive cap (ReadOk dgram src # rs) =
     (let d = take cap dgram in
      if length d < 5 \<or> d ! 0 \<noteq> typeData then relay_receive cap rs
      else Some (Inr (drop 5 d, RelayEp (addr_of_bytes (slice 1 5 d))), rs))"
| "relay_receive cap (ReadClosed # rs) = Some (Inl NetClosed, rs)"
| "relay_receive cap (ReadReset # rs) = relay_receive cap rs"
| "relay_receive cap (ReadErr # rs) = Some (Inl ReadFailed, rs)"

text \<open>Writing one datagram after the other until one fails.\<close>

fun write_all :: "(bytes \<Rightarrow> addrport \<Rightarrow> bool) \<Rightarrow> addrport \<Rightarrow> bytes list \<Rightarrow> (bytes \<times> addrport) list \<times> bind_error option" where
  "write_all sock dst [] = ([], None)"
| "write_all sock dst (f # fs) =
     (if sock f dst then (case write_all sock dst fs of (sent, err) \<Rightarrow> ((f, dst) # sent, err))
      else ([], Some WriteFailed))"

definition Send :: "(bytes \<Rightarrow> addrport \<Rightarrow> bool) \<Rightarrow> bind \<Rightarrow> bytes list \<Rightarrow> endpoint \<Rightarrow>
    (bytes \<times> addrport) list \<times> bind_error option" where
  "Send sock b bufs ep =
     (if bd_uc b = None then ([], Some NetClosed)
      else if bd_relay b then
        (case ep of
           StdEp _ \<Rightarrow> ([], Some WrongEndpoint)
         | RelayEp ip \<Rightarrow>
             (case (addr_as4 (bd_selfIP b), addr_as4 ip) of
                (Some s4, Some d4) \<Rightarrow>
                  write_all sock (bd_relayAP b)
                    (map (\<lambda>buf. typeData # addr_bytes s4 @ addr_bytes d4 @ buf) bufs)
              | _ \<Rightarrow> ([], Some As4Panic)))
      else (case ep of
              RelayEp _ \<Rightarrow> ([], Some WrongEndpoint)
            | StdEp ap \<Rightarrow> write_all sock ap bufs))"

definition ParseEndpoint :: "bind \<Rightarrow> string \<Rightarrow> bind_error + endpoint" where
  "ParseEndpoint b s =
     (if bd_relay b then
        (case parse_addrport s of
           Some ap \<Rightarrow> Inr (RelayEp (fst ap))
         | None \<Rightarrow> (case parse_addr s of None \<Rightarrow> Inl (BadEndpoint s) | Some ip \<Rightarrow> Inr (RelayEp ip)))
      else (case parse_addrport s of None \<Rightarrow> Inl (BadEndpoint s) | Some ap \<Rightarrow> Inr (StdEp ap)))"

definition DstToString :: "endpoint \<Rightarrow> string" where
  "DstToString ep = (case ep of RelayEp ip \<Rightarrow> addr_string ip | StdEp ap \<Rightarrow> addrport_string ap)"

definition DstToBytes :: "addr \<Rightarrow> bytes option" where
  "DstToBytes ip = map_option addr_bytes (addr_as4 ip)"

text \<open>\<open>Close\<close>: the bind afterwards and the channel it closed.\<close>

definition bind_Close :: "bind \<Rightarrow> bind \<times> nat option" where
  "bind_Close b =
     (let ch = bd_stop b; b = b\<lparr>bd_stop := None\<rparr> in
      (if bd_uc b = None then b else b\<lparr>bd_uc := None\<rparr>, ch))"

section \<open>The keepalive goroutine\<close>

text \<open>
  The goroutine is waiting in its \<open>select\<close>, on the channel \<open>b.stop\<close> was when the \<open>select\<close> began, or
  it is sending a registration, or it has returned. Receiving from a nil channel never succeeds.
\<close>

datatype keeper = Waiting "nat option" | Sending | Returned

record keep_state =
  ks_bind :: bind
  ks_closed :: "nat set"
  ks_keeper :: keeper

inductive keep_step :: "keep_state \<Rightarrow> keep_state \<Rightarrow> bool" where
  tick: "ks_keeper s = Waiting ch \<Longrightarrow> keep_step s (s\<lparr>ks_keeper := Sending\<rparr>)"
| sent: "ks_keeper s = Sending \<Longrightarrow> keep_step s (s\<lparr>ks_keeper := Waiting (bd_stop (ks_bind s))\<rparr>)"
| stopped: "ks_keeper s = Waiting (Some ch) \<Longrightarrow> ch \<in> ks_closed s \<Longrightarrow> keep_step s (s\<lparr>ks_keeper := Returned\<rparr>)"

text \<open>\<open>Close\<close> as the goroutine's surroundings see it.\<close>

definition keep_close :: "keep_state \<Rightarrow> keep_state" where
  "keep_close s =
     (case bind_Close (ks_bind s) of
        (b, ch) \<Rightarrow> s\<lparr>ks_bind := b, ks_closed := ks_closed s \<union> set_option ch\<rparr>)"

section \<open>Lemmas\<close>

lemma parse_addrport_v4: "parse_addrport (string4 a) = None"
proof -
  have "CHR '':'' \<notin> set (string4 a)" by (rule string4_no_char) (auto simp: is_digit_def less_eq_char_def)
  then have "cut_last (string4 a) CHR '':'' = None" by (simp add: cut_last_None)
  then show ?thesis by (simp add: parse_addrport_def)
qed

lemma write_all_ok: "(\<And>f. f \<in> set fs \<Longrightarrow> sock f dst) \<Longrightarrow> write_all sock dst fs = (map (\<lambda>f. (f, dst)) fs, None)"
  by (induction fs) auto

lemma Send_relay:
  assumes "bd_uc b \<noteq> None" "bd_relay b" "bd_selfIP b = V4 a" "\<And>f. sock f (bd_relayAP b)"
  shows "Send sock b bufs (RelayEp (V4 d)) = (map (\<lambda>p. (to_relay (a, d) p, bd_relayAP b)) bufs, None)"
  using assms by (simp add: Send_def write_all_ok to_relay_def comp_def)

lemma relay_receive_frame:
  assumes "5 \<le> cap"
  shows "relay_receive cap (ReadOk (from_relay a p) src # rs) = Some (Inr (take (cap - 5) p, RelayEp (V4 a)), rs)"
proof -
  have "take cap (from_relay a p) = from_relay a (take (cap - 5) p)"
    using assms by (simp add: from_relay_def take_Cons' diff_diff_eq)
  then show ?thesis by (simp add: from_relay_def)
qed

section \<open>Properties\<close>

text \<open>C27: a packet sent through the relay arrives, at the client that last spoke for the destination
  and nowhere else, named as coming from the sender's overlay address. It arrives whole when it is
  at most 1491 bytes (a full tunnel packet of 1420 bytes with WireGuard's framing is 1452); of a
  longer one the relay's buffer cuts the end.\<close>

theorem relay_delivers:
  assumes "bd_relay A" and "bd_uc A \<noteq> None" and "bd_selfIP A = V4 a" and "a \<noteq> d"
    and "last_claim evs (V4 d) = Some c" and "1500 \<le> cap"
  shows "\<exists>frame out. Send (\<lambda>_ _. True) A [p] (RelayEp (V4 d)) = ([(frame, bd_relayAP A)], None) \<and>
    snd (serve_one now (serve_all relay_New evs) frame src) = [(out, rc_addr c)] \<and>
    relay_receive cap (ReadOk out relaySrc # rs) = Some (Inr (take 1491 p, RelayEp (V4 a)), rs)"
proof -
  let ?f = "to_relay (a, d) p"
  have cut: "take 1500 ?f = to_relay (a, d) (take 1491 p)"
    by (simp add: to_relay_def take_Cons')
  have "rl_clients (serve_all relay_New evs) (V4 d) = Some c"
    using assms(5) by (simp add: serve_all_clients)
  then have "snd (serve_one now (serve_all relay_New evs) ?f src) = [(from_relay a (take 1491 p), rc_addr c)]"
    using assms(4) unfolding serve_one_def cut handle_to_relay by simp
  moreover have "Send (\<lambda>_ _. True) A [p] (RelayEp (V4 d)) = ([(?f, bd_relayAP A)], None)"
    using assms(1-3) by (subst Send_relay) auto
  moreover have "relay_receive cap (ReadOk (from_relay a (take 1491 p)) relaySrc # rs) =
      Some (Inr (take 1491 p, RelayEp (V4 a)), rs)"
    using assms(6) by (subst relay_receive_frame) simp_all
  ultimately show ?thesis by blast
qed

theorem relay_delivers_witness:
  "\<exists>frame out.
     Send (\<lambda>_ _. True) \<lparr>bd_uc = Some 9, bd_relay = True, bd_relayAP = (V4 3, 3478), bd_selfIP = V4 1, bd_stop = None\<rparr>
       [[7, 8]] (RelayEp (V4 2)) = ([(frame, (V4 3, 3478))], None) \<and>
     snd (serve_one 1 (serve_all relay_New [(0, typeRegister # addr_bytes 2, (V4 5, 50))]) frame (V4 6, 60)) =
       [(out, (V4 5, 50))] \<and>
     relay_receive 65535 [ReadOk out (V4 3, 3478)] = Some (Inr ([7, 8], RelayEp (V4 1)), [])"
proof -
  let ?A = "\<lparr>bd_uc = Some 9, bd_relay = True, bd_relayAP = (V4 3, 3478), bd_selfIP = V4 1, bd_stop = None\<rparr>"
  have "take 1500 (typeRegister # addr_bytes 2) = typeRegister # addr_bytes 2" by simp
  moreover have "slice 1 5 (typeRegister # addr_bytes 2) = addr_bytes 2" by (simp add: slice_def)
  ultimately have "last_claim [(0, typeRegister # addr_bytes 2, (V4 5, 50))] (V4 2) =
      Some \<lparr>rc_addr = (V4 5, 50), rc_lastSeen = 0\<rparr>"
    by (simp add: claims_def)
  from relay_delivers[OF _ _ _ _ this, of ?A 1 65535 "[7, 8]" 1 "(V4 6, 60)" "(V4 3, 3478)" "[]"]
  show ?thesis by simp
qed

text \<open>an endpoint of the relay transport prints as the overlay address it stands for and reads
  back from it, with a port or without one; so the peers written into the WireGuard configuration
  are the peers packets are sent to.\<close>

theorem relay_endpoint_roundtrip:
  assumes "bd_relay b" and "port < 65536"
  shows "ParseEndpoint b (DstToString (RelayEp (V4 a))) = Inr (RelayEp (V4 a)) \<and>
    ParseEndpoint b (addrport_string (V4 a, port)) = Inr (RelayEp (V4 a))"
  using assms by (simp add: ParseEndpoint_def DstToString_def parse_addrport_v4 parse_addrport_string)

theorem relay_endpoint_roundtrip_witness:
  "ParseEndpoint \<lparr>bd_uc = None, bd_relay = True, bd_relayAP = (V4 3, 3478), bd_selfIP = V4 1, bd_stop = None\<rparr>
     (addrport_string (V4 0x64400002, 51820)) = Inr (RelayEp (V4 0x64400002))"
  by (rule relay_endpoint_roundtrip[THEN conjunct2]) simp_all

lemma keep_step_unclosed:
  assumes "keep_step\<^sup>*\<^sup>* s t" and "bd_stop (ks_bind s) = None" and "ks_keeper s = Sending \<or> ks_keeper s = Waiting None"
  shows "bd_stop (ks_bind t) = None \<and> (ks_keeper t = Sending \<or> ks_keeper t = Waiting None)"
  using assms by (induction rule: rtranclp_induct) (auto elim!: keep_step.cases)

text \<open>closing the transport stops the keepalive goroutine only if it is waiting at that moment.
  If it is sending, its next \<open>select\<close> looks the stop channel up after \<open>Close\<close> has cleared it, and
  from then on it ticks forever: no later step of it returns.\<close>

theorem keepalive_may_outlive_close:
  assumes "bd_stop (ks_bind s) = Some ch" and "ks_keeper s = Waiting (Some ch)"
  shows "keep_step (keep_close s) ((keep_close s)\<lparr>ks_keeper := Returned\<rparr>) \<and>
    (\<exists>s'. keep_step s s' \<and> (\<forall>t. keep_step\<^sup>*\<^sup>* (keep_close s') t \<longrightarrow> ks_keeper t \<noteq> Returned))"
proof (intro conjI exI[of _ "s\<lparr>ks_keeper := Sending\<rparr>"] allI impI)
  show "keep_step (keep_close s) ((keep_close s)\<lparr>ks_keeper := Returned\<rparr>)"
    by (rule stopped[of _ ch]) (use assms in \<open>simp_all add: keep_close_def bind_Close_def Let_def\<close>)
  show "keep_step s (s\<lparr>ks_keeper := Sending\<rparr>)" using assms(2) by (rule tick)
  fix t
  assume "keep_step\<^sup>*\<^sup>* (keep_close (s\<lparr>ks_keeper := Sending\<rparr>)) t"
  then have "ks_keeper t = Sending \<or> ks_keeper t = Waiting None"
    by (rule keep_step_unclosed[THEN conjunct2]) (simp_all add: keep_close_def bind_Close_def Let_def)
  then show "ks_keeper t \<noteq> Returned" by auto
qed

theorem keepalive_may_outlive_close_witness:
  "\<exists>s'. keep_step \<lparr>ks_bind = bind_New\<lparr>bd_stop := Some 1\<rparr>, ks_closed = {}, ks_keeper = Waiting (Some 1)\<rparr> s' \<and>
     (\<forall>t. keep_step\<^sup>*\<^sup>* (keep_close s') t \<longrightarrow> ks_keeper t \<noteq> Returned)"
  by (rule keepalive_may_outlive_close[THEN conjunct2]) simp_all

end
