(* ===== verification/Host.thy ===== *)
theory Host
  imports TlsConf JoinClient Wgbind
begin

text \<open>
  \<open>server/host/host.go\<close>: the control API, the address allocators, the store and the relay as one unit
  that is started and stopped, with \<open>shared/paths.go\<close>. A start reads and writes the state directory
  (\<open>files\<close>) and opens sockets; the sockets that are open on the machine are part of the state, so that
  a start that fails half way can be seen to close what it opened. What the machine answers to the
  listen calls is an argument (\<open>host_env\<close>).
\<close>

section \<open>State directory\<close>

text \<open>\<open>os.Getenv\<close>, \<open>filepath.Join\<close>, \<open>os.MkdirAll\<close> and \<open>os.UserConfigDir\<close> are arguments.\<close>

definition stateDirCandidates :: "bool \<Rightarrow> (string \<Rightarrow> string) \<Rightarrow> string \<Rightarrow> string list" where
  "stateDirCandidates windows getenv cfg =
     (if windows then
        (let pd = getenv ''ProgramData''; pd = (if pd = [] then ''C:'' @ [CHR 0x5C] @ ''ProgramData'' else pd) in [pd, cfg])
      else [''/var/lib'', cfg])"

fun first_dir :: "(string list \<Rightarrow> string) \<Rightarrow> (string \<Rightarrow> bool) \<Rightarrow> string list \<Rightarrow> string list \<Rightarrow> string option" where
  "first_dir join mkdir elem [] = None"
| "first_dir join mkdir elem (base # bs) =
     (if base = [] then first_dir join mkdir elem bs
      else (let dir = join ([base, ''zwan''] @ elem) in
            if mkdir dir then Some dir else first_dir join mkdir elem bs))"

definition StateDir :: "bool \<Rightarrow> (string \<Rightarrow> string) \<Rightarrow> string \<Rightarrow> (string list \<Rightarrow> string) \<Rightarrow> (string \<Rightarrow> bool) \<Rightarrow> string list \<Rightarrow> string option" where
  "StateDir windows getenv cfg join mkdir elem =
     (let base = getenv ''ZWAN_STATE_DIR'' in
      if base \<noteq> [] then (let dir = join (base # elem) in if mkdir dir then Some dir else None)
      else case first_dir join mkdir elem (stateDirCandidates windows getenv cfg) of
          Some dir \<Rightarrow> Some dir
        | None \<Rightarrow> (let dir = join (''.zwan'' # elem) in if mkdir dir then Some dir else None))"

section \<open>Addresses\<close>

record host_config =
  hc_NetworkID :: string
  hc_DNSSuffix :: string
  hc_CIDR :: string
  hc_Token :: string
  hc_ControlAddr :: string
  hc_RelayAddr :: string
  hc_RelayPublic :: string
  hc_PublicHost :: string
  hc_TLSMode :: string
  hc_TLSDomains :: "string list"
  hc_TLSExtraSANs :: "string list"
  hc_TLSDir :: string
  hc_ACMEEmail :: string
  hc_ACMEDirectory :: string
  hc_ACMEHTTPAddr :: string
  hc_GroupTokens :: "(string, string) gomap"
  hc_ACL :: "rule list"

definition localAddr :: "string \<Rightarrow> string" where
  "localAddr a =
     (case split_host_port a of
        None \<Rightarrow> a
      | Some (h, port) \<Rightarrow>
          join_host_port (if h = [] \<or> h = ''0.0.0.0'' \<or> h = ''::'' then ''127.0.0.1'' else h) port)"

definition withPort :: "string \<Rightarrow> string \<Rightarrow> string" where
  "withPort hostname listenAddr =
     (case split_host_port listenAddr of
        None \<Rightarrow> hostname
      | Some (_, p) \<Rightarrow> if p \<noteq> [] \<and> p \<noteq> ''443'' then join_host_port hostname p else hostname)"

definition ensurePort :: "string \<Rightarrow> string \<Rightarrow> string" where
  "ensurePort hostport listenAddr =
     (case split_host_port hostport of Some _ \<Rightarrow> hostport | None \<Rightarrow> withPort hostport listenAddr)"

definition hostOf :: "string \<Rightarrow> string" where
  "hostOf hostport =
     (if hostport = [] then []
      else case split_host_port hostport of Some (h, _) \<Rightarrow> h | None \<Rightarrow> hostport)"

definition relayPublic :: "host_config \<Rightarrow> string \<Rightarrow> string" where
  "relayPublic cfg bound =
     (if hc_RelayPublic cfg \<noteq> [] then ensurePort (hc_RelayPublic cfg) bound
      else let h = hostOf (hc_PublicHost cfg) in
        (case (if h \<noteq> [] then split_host_port bound else None) of
           Some (_, port) \<Rightarrow> if port \<noteq> [] then join_host_port h port else localAddr bound
         | None \<Rightarrow> localAddr bound))"

section \<open>The host\<close>

text \<open>
  The network the host keeps is the one its API server works on, so it is read out of that server. The server
  that answers ACME challenges is kept with whether it is listening: when its port is taken that is
  logged and the start goes on without it.
\<close>

record host =
  h_cfg :: "host_config option"
  h_ctrlAddr :: string
  h_relayPub :: string
  h_httpSrv :: "server option"
  h_acmeSrv :: "(string \<times> bool) option"
  h_rly :: "addrport option"
  h_tlsRes :: "tls_result option"

datatype socket = RelaySocket addrport | ControlSocket string | ChallengeSocket string

datatype host_error =
    AlreadyRunning | InTls tls_error | NoDirectory | InIpam ipam_error | InAcl acl_error
  | RelayNotBound | ControlNotBound

record host_env =
  he_stateDir :: "string option"
  he_crypto :: crypto
  he_tls :: tls_env
  he_groups :: "(string \<times> string) list \<Rightarrow> (string \<times> string) list"
  he_udp :: "string \<Rightarrow> addrport option"
  he_tcp :: "string \<Rightarrow> string option"
  he_http :: "string \<Rightarrow> bool"

type_synonym machine = "host \<times> files \<times> socket set"

definition challenge_sockets :: "(string \<times> bool) option \<Rightarrow> socket set" where
  "challenge_sockets acme = {ChallengeSocket a |a. acme = Some (a, True)}"

lemma challenge_sockets_None [simp]: "challenge_sockets None = {}"
  by (simp add: challenge_sockets_def)

definition host_New :: host where
  "host_New = \<lparr>h_cfg = None, h_ctrlAddr = [], h_relayPub = [], h_httpSrv = None, h_acmeSrv = None, h_rly = None, h_tlsRes = None\<rparr>"

text \<open>The TLS part of a start: the mode, the directory, the certificate.\<close>

definition start_tls :: "host_env \<Rightarrow> host_config \<Rightarrow> files \<Rightarrow> (host_error + tls_result) \<times> files" where
  "start_tls e cfg fs =
     (case ParseMode (hc_TLSMode cfg) of
        Inl err \<Rightarrow> (Inl (InTls err), fs)
      | Inr m \<Rightarrow>
          (case (if hc_TLSDir cfg = [] \<and> m \<noteq> ModeOff then he_stateDir e else Some (hc_TLSDir cfg)) of
             None \<Rightarrow> (Inl NoDirectory, fs)
           | Some dir \<Rightarrow>
               (case Build (he_crypto e) (he_tls e)
                    \<lparr>tc_Mode = m, tc_Domains = hc_TLSDomains cfg, tc_ExtraSANs = hc_TLSExtraSANs cfg, tc_Dir = dir,
                     tc_Email = hc_ACMEEmail cfg, tc_Directory = hc_ACMEDirectory cfg, tc_ListenAddr = hc_ControlAddr cfg\<rparr> fs of
                  (Inl err, fs') \<Rightarrow> (Inl (InTls err), fs')
                | (Inr r, fs') \<Rightarrow> (Inr r, fs'))))"

definition Start :: "host_env \<Rightarrow> host_config \<Rightarrow> machine \<Rightarrow> (host_error + unit) \<times> machine" where
  "Start e cfg mac =
     (case mac of (h, fs, socks) \<Rightarrow>
      if h_httpSrv h \<noteq> None then (Inl AlreadyRunning, mac)
      else (case start_tls e cfg fs of
        (Inl err, fs') \<Rightarrow> (Inl err, (h, fs', socks))
      | (Inr tlsRes, fs') \<Rightarrow>
          (case Split (hc_CIDR cfg) of
             Inl err \<Rightarrow> (Inl (InIpam err), (h, fs', socks))
           | Inr (nodeIPs, serviceIPs) \<Rightarrow>
               (case BuildJoinTokens (he_groups e) (hc_Token cfg) (hc_GroupTokens cfg) of
                  Inl err \<Rightarrow> (Inl (InAcl err), (h, fs', socks))
                | Inr tokens \<Rightarrow>
                    (case he_udp e (hc_RelayAddr cfg) of
                       None \<Rightarrow> (Inl RelayNotBound, (h, fs', socks))
                     | Some bound \<Rightarrow>
                         (let socks1 = insert (RelaySocket bound) socks;
                              relayPub = relayPublic cfg (addrport_string bound);
                              srv = api_New \<lparr>op_Network = NewNetwork (hc_NetworkID cfg) (hc_DNSSuffix cfg) (hc_CIDR cfg),
                                             op_Nodes = nodeIPs, op_Services = serviceIPs, op_Tokens = Some tokens,
                                             op_Policy = Some \<lparr>p_rules = hc_ACL cfg\<rparr>, op_RelayAddr = relayPub\<rparr> in
                          (case he_tcp e (hc_ControlAddr cfg) of
                             None \<Rightarrow> (Inl ControlNotBound, (h, fs', socks1 - {RelaySocket bound}))
                           | Some ctrl \<Rightarrow>
                               (let addr = (if hc_ACMEHTTPAddr cfg = [] then '':80'' else hc_ACMEHTTPAddr cfg);
                                    acme = (if tr_HTTPChallenge tlsRes then Some (addr, he_http e addr) else None) in
                                (Inr (),
                                 (\<lparr>h_cfg = Some cfg, h_ctrlAddr = ctrl, h_relayPub = relayPub, h_httpSrv = Some srv, h_acmeSrv = acme,
                                   h_rly = Some bound, h_tlsRes = Some tlsRes\<rparr>, fs',
                                  insert (ControlSocket ctrl) socks1 \<union> challenge_sockets acme)))))))))) "

definition Stop :: "machine \<Rightarrow> machine" where
  "Stop mac =
     (case mac of (h, fs, socks) \<Rightarrow>
       (let socks1 = (if h_httpSrv h \<noteq> None then socks - {ControlSocket (h_ctrlAddr h)} else socks);
            socks2 = socks1 - challenge_sockets (h_acmeSrv h);
            socks3 = socks2 - RelaySocket ` set_option (h_rly h) in
        (h\<lparr>h_httpSrv := None, h_acmeSrv := None, h_rly := None, h_tlsRes := None, h_ctrlAddr := []\<rparr>, fs, socks3)))"

definition Running :: "host \<Rightarrow> bool" where
  "Running h = (h_httpSrv h \<noteq> None)"

text \<open>The two listings. The devices' groups and the services' addresses are left out of them.\<close>

definition host_Members :: "member order \<Rightarrow> host \<Rightarrow> peer list" where
  "host_Members iter h =
     (case h_httpSrv h of
        None \<Rightarrow> []
      | Some s \<Rightarrow> map (\<lambda>m. \<lparr>pe_hostname = m_hostname m, pe_key = m_key m, pe_ip = m_ip m, pe_endpoint = m_endpoint m, pe_group = []\<rparr>)
          (sort_key m_ip (Members iter (srv_net s))))"

definition host_Services :: "store_service order \<Rightarrow> host \<Rightarrow> service list" where
  "host_Services iter h =
     (case h_httpSrv h of
        None \<Rightarrow> []
      | Some s \<Rightarrow> sort_key sv_name (map (\<lambda>x. \<lparr>sv_name = ss_name x, sv_proto = ss_proto x, sv_port = ss_port x,
          sv_backend = ss_backend x, sv_node = ss_node x, sv_vip = [], sv_allow = []\<rparr>) (Services iter (srv_net s))))"

definition host_TLSMode :: "host \<Rightarrow> string" where
  "host_TLSMode h = (case h_tlsRes h of None \<Rightarrow> [] | Some r \<Rightarrow> tr_Mode r)"

definition host_Pin :: "host \<Rightarrow> string" where
  "host_Pin h = (case h_tlsRes h of None \<Rightarrow> [] | Some r \<Rightarrow> tr_Pin r)"

definition host_Scheme :: "host \<Rightarrow> string" where
  "host_Scheme h = (case h_tlsRes h of None \<Rightarrow> ''http'' | Some r \<Rightarrow> result_Scheme r)"

definition LocalURL :: "host \<Rightarrow> string" where
  "LocalURL h = (if \<not> Running h then [] else host_Scheme h @ ''://'' @ localAddr (h_ctrlAddr h))"

definition join_hostport :: "host \<Rightarrow> tls_result \<Rightarrow> string \<Rightarrow> string" where
  "join_hostport h r publicHost =
     (if publicHost = [] then
        (case tr_Domains r of d # _ \<Rightarrow> withPort d (h_ctrlAddr h) | [] \<Rightarrow> localAddr (h_ctrlAddr h))
      else ensurePort publicHost (h_ctrlAddr h))"

definition JoinURL :: "host \<Rightarrow> string \<Rightarrow> string" where
  "JoinURL h publicHost =
     (case h_tlsRes h of
        None \<Rightarrow> []
      | Some r \<Rightarrow>
          (let u = host_Scheme h @ ''://'' @ join_hostport h r publicHost in
           if tr_Pin r \<noteq> [] then u @ ''#'' @ path_escape (tr_Pin r) else u))"

section \<open>Sockets\<close>

definition held_sockets :: "host \<Rightarrow> socket set" where
  "held_sockets h = (if Running h then {ControlSocket (h_ctrlAddr h)} else {}) \<union>
     challenge_sockets (h_acmeSrv h) \<union> RelaySocket ` set_option (h_rly h)"

definition machine_ok :: "machine \<Rightarrow> bool" where
  "machine_ok mac \<longleftrightarrow> (case mac of (h, fs, socks) \<Rightarrow> socks = held_sockets h \<and>
     (\<not> Running h \<longrightarrow> h_acmeSrv h = None \<and> h_rly h = None \<and> h_tlsRes h = None))"

definition machine_step :: "machine \<Rightarrow> machine \<Rightarrow> bool" where
  "machine_step mac mac' \<longleftrightarrow> (\<exists>e cfg. mac' = snd (Start e cfg mac)) \<or> mac' = Stop mac"

lemma Start_error:
  assumes "Start e cfg (h, fs, socks) = (Inl err, (h', fs', socks'))" and "machine_ok (h, fs, socks)"
  shows "h' = h \<and> socks' = socks"
proof (cases "Running h")
  case True
  then show ?thesis using assms(1) by (simp add: Start_def Running_def)
next
  case False
  then have "socks = {}" using assms(2) by (simp add: machine_ok_def held_sockets_def)
  then show ?thesis using assms(1) False
    by (auto simp: Start_def Running_def Let_def split: sum.splits prod.splits option.splits)
qed

lemma Start_success:
  assumes "Start e cfg (h, fs, socks) = (Inr u, (h', fs', socks'))"
  obtains r bound ctrl srv acme where "\<not> Running h" "start_tls e cfg fs = (Inr r, fs')"
    "h' = \<lparr>h_cfg = Some cfg, h_ctrlAddr = ctrl, h_relayPub = relayPublic cfg (addrport_string bound), h_httpSrv = Some srv,
           h_acmeSrv = acme, h_rly = Some bound, h_tlsRes = Some r\<rparr>"
    "socks' = insert (ControlSocket ctrl) (insert (RelaySocket bound) socks) \<union> challenge_sockets acme"
    "he_tcp e (hc_ControlAddr cfg) = Some ctrl"
  using assms by (auto simp: Start_def Running_def Let_def split: sum.splits prod.splits option.splits if_splits)

lemma Start_ok: "machine_ok mac \<Longrightarrow> machine_ok (snd (Start e cfg mac))"
proof -
  assume ok: "machine_ok mac"
  obtain h fs socks where mac: "mac = (h, fs, socks)" by (cases mac)
  obtain res h' fs' socks' where st: "Start e cfg (h, fs, socks) = (res, (h', fs', socks'))" by (metis prod_cases4)
  show ?thesis
  proof (cases res)
    case (Inl err)
    then show ?thesis using Start_error[of e cfg h fs socks err h' fs' socks'] ok st mac by (simp add: machine_ok_def)
  next
    case (Inr u)
    with st have "Start e cfg (h, fs, socks) = (Inr u, (h', fs', socks'))" by simp
    then obtain r bound ctrl srv acme where
      "h' = \<lparr>h_cfg = Some cfg, h_ctrlAddr = ctrl, h_relayPub = relayPublic cfg (addrport_string bound), h_httpSrv = Some srv,
           h_acmeSrv = acme, h_rly = Some bound, h_tlsRes = Some r\<rparr>"
      "socks' = insert (ControlSocket ctrl) (insert (RelaySocket bound) socks) \<union> challenge_sockets acme" "\<not> Running h"
      by (rule Start_success)
    then show ?thesis using ok mac st by (auto simp: machine_ok_def held_sockets_def Running_def)
  qed
qed

lemma Stop_ok: "machine_ok mac \<Longrightarrow> machine_ok (Stop mac) \<and> snd (snd (Stop mac)) = {} \<and> \<not> Running (fst (Stop mac))"
  by (cases mac) (auto simp: machine_ok_def Stop_def held_sockets_def Running_def Let_def)

interpretation machine: step_invariant machine_step machine_ok
  by unfold_locales (auto simp: machine_step_def intro: Start_ok Stop_ok[THEN conjunct1])

lemma machine_reachable: "machine_step\<^sup>*\<^sup>* (host_New, fs, {}) mac \<Longrightarrow> machine_ok mac"
  by (erule machine.steps_inv) (simp add: machine_ok_def host_New_def held_sockets_def Running_def)

section \<open>Addresses that clients can use\<close>

lemma host_char_plain: "list_all host_char s \<Longrightarrow> c \<in> {CHR '':'', CHR ''['', CHR '']'', CHR ''#'', CHR ''%''} \<Longrightarrow> c \<notin> set s"
proof -
  have "\<not> host_char CHR '':''" "\<not> host_char CHR ''[''" "\<not> host_char CHR '']''" "\<not> host_char CHR ''#''" "\<not> host_char CHR ''%''"
    by code_simp+
  then show "list_all host_char s \<Longrightarrow> c \<in> {CHR '':'', CHR ''['', CHR '']'', CHR ''#'', CHR ''%''} \<Longrightarrow> c \<notin> set s"
    by (auto simp: list_all_iff)
qed

lemma split_bare: "CHR '':'' \<notin> set s \<Longrightarrow> split_host_port s = None"
  using cut_last_None[of s "CHR '':''"] by (simp add: split_host_port_def)

lemma ensurePort_bare:
  assumes "list_all host_char h" and "split_host_port listen = Some (l, p)" and "p \<noteq> []"
  shows "ensurePort h listen = (if p = ''443'' then h else h @ '':'' @ p)"
proof -
  have "CHR '':'' \<notin> set h" using assms(1) by (rule host_char_plain) simp
  then show ?thesis using assms(2,3) by (simp add: ensurePort_def split_bare withPort_def join_host_port_def)
qed

text \<open>
  Where \<open>net/http\<close> connects to for a base address: the host and the port in it, or the port its scheme stands for.
\<close>

definition dials :: "string \<Rightarrow> (string \<times> string) option" where
  "dials base =
     (case url_parse base of
        None \<Rightarrow> None
      | Some (scheme, hp) \<Rightarrow>
          Some (case split_host_port hp of Some (h, p) \<Rightarrow> (h, p) | None \<Rightarrow> (hp, if scheme = ''https'' then ''443'' else ''80'')))"

text \<open>An address to be reached at: a host, with a port or without one.\<close>

definition public_address :: "string \<Rightarrow> string option \<Rightarrow> string" where
  "public_address host named = (case named of None \<Rightarrow> host | Some q \<Rightarrow> host @ '':'' @ q)"

lemma digits_plain: "list_all is_digit p \<Longrightarrow> host_chars p \<and> CHR '':'' \<notin> set p"
proof -
  have "\<not> is_digit CHR '':''" "\<not> is_digit CHR ''[''" "\<not> is_digit CHR '']''" by code_simp+
  then show "list_all is_digit p \<Longrightarrow> host_chars p \<and> CHR '':'' \<notin> set p" by (auto simp: list_all_iff host_chars_def)
qed

lemma split_named:
  assumes "list_all host_char h" and "list_all is_digit p"
  shows "split_host_port (h @ '':'' @ p) = Some (h, p)"
proof -
  have h: "host_chars h" "CHR '':'' \<notin> set h" using host_char_plain[OF assms(1)] by (auto simp: host_chars_def)
  from split_join_host_port[OF h(1) digits_plain[OF assms(2), THEN conjunct1] digits_plain[OF assms(2), THEN conjunct2]] h(2)
  show ?thesis by (simp add: join_host_port_def)
qed

lemma public_address_plain: "list_all host_char h \<Longrightarrow> h \<noteq> [] \<Longrightarrow> (\<forall>q. named = Some q \<longrightarrow> list_all is_digit q) \<Longrightarrow>
    plain_hostport (public_address h named)"
  unfolding plain_hostport_def public_address_def by (auto split: option.split)

lemma public_address_dials:
  assumes "list_all host_char h" and "h \<noteq> []" and "\<forall>q. named = Some q \<longrightarrow> list_all is_digit q" and "scheme = ''http'' \<or> scheme = ''https''"
  shows "dials (scheme @ ''://'' @ public_address h named) =
    Some (h, case named of Some q \<Rightarrow> q | None \<Rightarrow> if scheme = ''https'' then ''443'' else ''80'')"
proof (cases named)
  case None
  have "CHR '':'' \<notin> set h" using host_char_plain[OF assms(1)] by simp
  then show ?thesis using url_parse_plain[OF public_address_plain[OF assms(1-3)] assms(4)] None
    by (simp add: dials_def public_address_def split_bare)
next
  case (Some q)
  then show ?thesis using url_parse_plain[OF public_address_plain[OF assms(1-3)] assms(4)] split_named[OF assms(1), of q] assms(3)
    by (simp add: dials_def public_address_def)
qed

text \<open>The address in a link: the port that is named, or the listening port unless that is 443.\<close>

lemma ensurePort_public:
  assumes "list_all host_char h" and "\<forall>q. named = Some q \<longrightarrow> list_all is_digit q" and "split_host_port listen = Some (l, p)" and "p \<noteq> []"
  shows "ensurePort (public_address h named) listen =
    public_address h (case named of Some q \<Rightarrow> Some q | None \<Rightarrow> if p = ''443'' then None else Some p)"
proof (cases named)
  case None
  then show ?thesis using ensurePort_bare[OF assms(1,3,4)] by (simp add: public_address_def)
next
  case (Some q)
  then show ?thesis using split_named[OF assms(1), of q] assms(2) by (simp add: public_address_def ensurePort_def)
qed

text \<open>A client's reading of an address with a pin behind it.\<close>

definition url_char :: "char \<Rightarrow> bool" where
  "url_char c \<longleftrightarrow> c \<noteq> CHR ''#'' \<and> \<not> is_space c"

lemma hex_upper_url: "n < 16 \<Longrightarrow> url_char (hex_upper n)"
  by (drule less_16_cases) (elim insertE emptyE; simp; code_simp)

lemma segment_url: "segment_ok c \<Longrightarrow> url_char c"
  by (auto simp: segment_ok_def unreserved_def url_char_def is_space_nat is_lower_alnum_nat lower_char_nat char_eq_nat[of c])

lemma path_escape_url: "\<forall>c \<in> set (path_escape s). url_char c"
proof (induction s)
  case (Cons c cs)
  have "url_char CHR ''%''" by code_simp
  with Cons show ?case by (auto simp: hex_upper_url segment_url)
qed simp

lemma SplitPin_url:
  assumes "\<forall>c \<in> set u. url_char c" and "trim_space pin = pin"
  shows "SplitPin (u @ ''#'' @ path_escape pin) = (u, pin)" "SplitPin u = (u, [])"
proof -
  have t: "trim_space u = u" using assms(1) unfolding trim_space_def url_char_def by (intro trim_by_none) blast
  have h: "\<not> is_space CHR ''#''" by code_simp
  have all: "\<forall>c \<in> set (u @ ''#'' @ path_escape pin). \<not> is_space c"
    using assms(1) path_escape_url[of pin] h by (auto simp: url_char_def)
  then have tt: "trim_space (u @ ''#'' @ path_escape pin) = u @ ''#'' @ path_escape pin"
    unfolding trim_space_def by (intro trim_by_none) blast
  have "CHR ''#'' \<notin> set (path_escape pin)" using path_escape_url[of pin] by (auto simp: url_char_def)
  then have "cut_last (u @ ''#'' @ path_escape pin) CHR ''#'' = Some (u, path_escape pin)" using cut_last_append by simp
  then show "SplitPin (u @ ''#'' @ path_escape pin) = (u, pin)" using tt t assms(2) by (simp add: SplitPin_def Let_def)
  have "cut_last u CHR ''#'' = None" using assms(1) by (auto simp: cut_last_None url_char_def)
  then show "SplitPin u = (u, [])" using t by (simp add: SplitPin_def Let_def)
qed

lemma NormalizeURL_plain:
  assumes "plain_hostport hp" and "scheme = ''http'' \<or> scheme = ''https''"
  shows "NormalizeURL (scheme @ ''://'' @ hp) = Inr (scheme @ ''://'' @ hp)"
proof -
  have sp: "\<forall>c \<in> set (scheme @ ''://'' @ hp). \<not> is_space c"
  proof -
    have "\<forall>c \<in> set ''http''. \<not> is_space c" "\<forall>c \<in> set ''https''. \<not> is_space c" "\<forall>c \<in> set ''://''. \<not> is_space c" by code_simp+
    then show ?thesis using plain_hostport_chars[OF assms(1)] hp_char_facts(9) assms(2) by auto
  qed
  then have "trim_space (scheme @ ''://'' @ hp) = scheme @ ''://'' @ hp" unfolding trim_space_def by (intro trim_by_none) blast
  moreover have "str_contains (scheme @ ''://'' @ hp) ''://''" by (rule str_contains_middle)
  moreover have "hp \<noteq> []" using assms(1) by (auto simp: plain_hostport_def)
  ultimately show ?thesis using url_parse_plain[OF assms] assms(2) by (auto simp: NormalizeURL_def Let_def)
qed

lemma scheme_cases: "host_Scheme h = ''http'' \<or> host_Scheme h = ''https''"
  by (simp add: host_Scheme_def result_Scheme_def split: option.split)

lemma base_url:
  assumes "plain_hostport hp" and "scheme = ''http'' \<or> scheme = ''https''"
  shows "\<forall>c \<in> set (scheme @ ''://'' @ hp). url_char c"
proof -
  have s: "\<forall>c \<in> set ''http''. url_char c" "\<forall>c \<in> set ''https''. url_char c" "\<forall>c \<in> set ''://''. url_char c" by code_simp+
  have "\<forall>c \<in> set hp. url_char c"
    using plain_hostport_chars[OF assms(1)] hp_char_facts(8,9) unfolding url_char_def by blast
  moreover have "\<forall>c \<in> set scheme. url_char c" using assms(2) s(1,2) by blast
  ultimately show ?thesis using s(3) unfolding set_append by blast
qed

lemma pin_text:
  assumes "length (sha spki) = 32"
  shows "trim_space (OfSPKI sha spki) = OfSPKI sha spki" "OfSPKI sha spki \<noteq> []"
proof -
  have ne: "b64_encode (sha spki) \<noteq> []" using assms length_b64_encode[of "sha spki"] by auto
  show "trim_space (OfSPKI sha spki) = OfSPKI sha spki" unfolding OfSPKI_def by (rule prefix_trim[OF b64_text ne])
  show "OfSPKI sha spki \<noteq> []" using ne by (simp add: OfSPKI_def)
qed

lemma NewClient_pinned:
  assumes "plain_hostport hp" and "scheme = ''http'' \<or> scheme = ''https''" and "length (sha spki) = 32"
  shows "NewClient sha parse (scheme @ ''://'' @ hp @ ''#'' @ path_escape (OfSPKI sha spki)) [] =
      Inr \<lparr>cl_base = scheme @ ''://'' @ hp, cl_pin = OfSPKI sha spki,
           cl_trust = PinTrust (verify_peer sha parse [OfSPKI sha spki]), cl_nodeToken = [], cl_id = None\<rparr>"
proof -
  define pin where "pin = OfSPKI sha spki"
  define base where "base = scheme @ ''://'' @ hp"
  have s: "SplitPin (base @ ''#'' @ path_escape pin) = (base, pin)"
    unfolding base_def pin_def using base_url[OF assms(1,2)] pin_text(1)[where sha = sha and spki = spki, OF assms(3)] by (rule SplitPin_url(1))
  have n: "NormalizeURL base = Inr base" unfolding base_def using assms(1,2) by (rule NormalizeURL_plain)
  have p: "pin \<noteq> []" "pin_Normalize pin = Inr pin" "HTTPClient sha parse pin = Inr (PinTrust (verify_peer sha parse [pin]))"
    unfolding pin_def using pin_text(2) OfSPKI_client assms(3) by auto
  have "NewClient sha parse (base @ ''#'' @ path_escape pin) [] =
      Inr \<lparr>cl_base = base, cl_pin = pin, cl_trust = PinTrust (verify_peer sha parse [pin]), cl_nodeToken = [], cl_id = None\<rparr>"
    unfolding NewClient_def s by (simp add: n p)
  then show ?thesis unfolding base_def pin_def by (simp only: append_assoc)
qed

lemma NewClient_unpinned:
  assumes "plain_hostport hp" and "scheme = ''http'' \<or> scheme = ''https''"
  shows "NewClient sha parse (scheme @ ''://'' @ hp) [] =
      Inr \<lparr>cl_base = scheme @ ''://'' @ hp, cl_pin = [], cl_trust = SystemTrust, cl_nodeToken = [], cl_id = None\<rparr>"
proof -
  define base where "base = scheme @ ''://'' @ hp"
  have s: "SplitPin base = (base, [])"
    unfolding base_def using base_url[OF assms] trim_space_Nil by (rule SplitPin_url(2))
  have n: "NormalizeURL base = Inr base" unfolding base_def using assms by (rule NormalizeURL_plain)
  show ?thesis unfolding base_def[symmetric] NewClient_def s by (simp add: n HTTPClient_def)
qed

lemma start_tls_result:
  assumes "crypto_ok (he_crypto e)" and "env_ok (he_crypto e) (he_tls e)" and "start_tls e cfg fs = (Inr r, fs')"
  shows "(\<exists>der key spki. tr_TLS r = Some (SelfCert der key) \<and> tr_Pin r = OfSPKI (cr_sha (he_crypto e)) spki \<and>
            x509_key (he_crypto e) der = Some spki) \<or>
         tr_Pin r = [] \<and> (\<forall>der key. tr_TLS r \<noteq> Some (SelfCert der key))"
proof -
  obtain c where b: "Build (he_crypto e) (he_tls e) c fs = (Inr r, fs')"
    using assms(3) by (auto simp: start_tls_def split: sum.splits option.splits prod.splits)
  show ?thesis
  proof (cases "tr_Mode r = ModeSelf")
    case True
    with b obtain der key where "selfSigned (he_crypto e) (he_tls e) (tc_Dir c)
        (selfSANs (he_tls e) (cleanHosts (tc_Domains c)) (tc_ExtraSANs c)) fs = (Inr (der, key, tr_Pin r), fs')"
      "tr_TLS r = Some (SelfCert der key)" by (rule Build_self)
    with selfSigned_result[OF assms(1,2)] show ?thesis by blast
  next
    case False
    with b show ?thesis by (auto simp: Build_def mode_defs Let_def split: if_splits prod.splits sum.splits)
  qed
qed

section \<open>The relay address\<close>

text \<open>What a client's transport makes of the address the server advertises for a relay bound to an address.\<close>

definition relay_target :: "host_config \<Rightarrow> u32 \<Rightarrow> nat \<Rightarrow> u32 \<Rightarrow> addrport option" where
  "relay_target cfg b p self =
     (case NewRelay (relayPublic cfg (addrport_string (V4 b, p))) (V4 self) of Inl _ \<Rightarrow> None | Inr bd \<Rightarrow> Some (bd_relayAP bd))"

lemma relay_target_eq: "relay_target cfg b p self = parse_addrport (relayPublic cfg (addrport_string (V4 b, p)))"
  by (simp add: relay_target_def NewRelay_def split: option.split)

lemma string4_host: "host_chars (string4 a)" "CHR '':'' \<notin> set (string4 a)" "string4 a \<noteq> []"
  using string4_no_char[of "CHR ''[''" a] string4_no_char[of "CHR '']''" a] string4_no_char[of "CHR '':''" a] string4_has_dot[of a]
  by (auto simp: host_chars_def is_digit_nat)

lemma nat_str_host: "host_chars (nat_str p)" "CHR '':'' \<notin> set (nat_str p)"
  by (auto simp: host_chars_def is_digit_nat intro!: nat_str_no_char dest!: nat_str_no_char[THEN notE, rotated])

lemma join_string4: "join_host_port (string4 a) (nat_str p) = addrport_string (V4 a, p)"
  using string4_host(2) by (simp add: join_host_port_def addrport_string_def)

lemma split_addrport [simp]: "split_host_port (addrport_string (V4 a, p)) = Some (string4 a, nat_str p)"
  using split_join_host_port[OF string4_host(1) nat_str_host] by (simp add: join_string4)

lemma nat_str_443: "nat_str p = ''443'' \<longleftrightarrow> p = 443"
proof -
  have "nat_str 443 = ''443''" by code_simp
  then show ?thesis by (metis nat_str_inj)
qed

lemma string4_any: "string4 b = ''0.0.0.0'' \<longleftrightarrow> b = 0" "string4 b \<noteq> ''::''"
proof -
  have "string4 0 = ''0.0.0.0''" by code_simp
  then show "string4 b = ''0.0.0.0'' \<longleftrightarrow> b = 0" by (metis string4_inj)
  show "string4 b \<noteq> ''::''" using string4_host(2)[of b] by auto
qed

lemma loopback_text: "string4 0x7F000001 = ''127.0.0.1''"
proof -
  have "octets 0x7F000001 = [127, 0, 0, 1]" by simp
  moreover have "join_with ''.'' (map nat_str [127, 0, 0, 1]) = ''127.0.0.1''" by code_simp
  ultimately show ?thesis by (simp only: string4_def)
qed

lemma localAddr_string: "localAddr (addrport_string (V4 b, p)) = addrport_string (V4 (if b = 0 then 0x7F000001 else b), p)"
  using string4_host(3)[of b] by (simp add: localAddr_def string4_any join_string4 loopback_text[symmetric])

lemma withPort_string: "withPort (string4 a) (addrport_string (V4 b, p)) = (if p = 443 then string4 a else addrport_string (V4 a, p))"
  by (simp add: withPort_def nat_str_443 join_string4)

lemma addrport_string_ne [simp]: "addrport_string (V4 a, p) \<noteq> []"
  using string4_host(3) by (simp add: addrport_string_def)

section \<open>Properties\<close>


text \<open>C22: no start and no stop leaks a socket. After any sequence of starts and stops, of any configurations,
  the sockets that are open are exactly those of the running server; a start that fails, at whatever
  point, leaves the server and the sockets as they were; and a stop closes everything.\<close>

theorem no_socket_is_leaked:
  assumes "machine_step\<^sup>*\<^sup>* (host_New, fs0, {}) (h, fs, socks)"
  shows "socks = held_sockets h \<and> (\<not> Running h \<longrightarrow> socks = {}) \<and>
    (\<forall>e cfg err h' fs' socks'. Start e cfg (h, fs, socks) = (Inl err, (h', fs', socks')) \<longrightarrow> h' = h \<and> socks' = socks) \<and>
    (\<exists>h'. Stop (h, fs, socks) = (h', fs, {}) \<and> \<not> Running h')"
proof -
  have ok: "machine_ok (h, fs, socks)" using assms by (rule machine_reachable)
  moreover have "\<exists>h'. Stop (h, fs, socks) = (h', fs, {}) \<and> \<not> Running h'"
    using Stop_ok[OF ok] by (auto simp: Stop_def Let_def)
  moreover have "\<not> Running h \<longrightarrow> socks = {}" using ok by (simp add: machine_ok_def held_sockets_def)
  ultimately show ?thesis using Start_error[OF _ ok] by (auto simp: machine_ok_def)
qed

text \<open>the relay is advertised where clients can send to. A published address is passed on as it is, or
  with the relay's port when it names none; without one, the relay is advertised on the public host with
  its own port, and without that on the address it is bound to, with a wildcard replaced by loopback.
  The exception: a published host without a port, for a relay on port 443, is advertised without a
  port, and the client's transport refuses it.\<close>

theorem relay_is_advertised_where_clients_reach:
  assumes "p \<le> 65535" and "q \<le> 65535"
  shows "(hc_RelayPublic cfg = addrport_string (V4 a, q) \<longrightarrow> relay_target cfg b p self = Some (V4 a, q)) \<and>
    (hc_RelayPublic cfg = string4 a \<longrightarrow> relay_target cfg b p self = (if p = 443 then None else Some (V4 a, p))) \<and>
    (hc_RelayPublic cfg = [] \<and> hc_PublicHost cfg \<in> {string4 a, addrport_string (V4 a, q)} \<longrightarrow>
       relay_target cfg b p self = Some (V4 a, p)) \<and>
    (hc_RelayPublic cfg = [] \<and> hc_PublicHost cfg = [] \<longrightarrow>
       relay_target cfg b p self = Some (V4 (if b = 0 then 0x7F000001 else b), p))"
proof (intro conjI impI; (elim conjE)?)
  note parse = parse_addrport_string[OF assms(1)] parse_addrport_string[OF assms(2)]
  show "relay_target cfg b p self = Some (V4 a, q)" if "hc_RelayPublic cfg = addrport_string (V4 a, q)"
    using that parse(2) addrport_string_ne by (simp add: relay_target_eq relayPublic_def ensurePort_def)
  show "relay_target cfg b p self = (if p = 443 then None else Some (V4 a, p))" if "hc_RelayPublic cfg = string4 a"
  proof -
    have "parse_addrport (string4 a) = None"
      using cut_last_None[of "string4 a" "CHR '':''"] string4_host(2)[of a] by (simp add: parse_addrport_def)
    then show ?thesis using that parse(1) string4_host(3)[of a] split_bare[OF string4_host(2)]
      by (simp add: relay_target_eq relayPublic_def ensurePort_def withPort_string)
  qed
  show "relay_target cfg b p self = Some (V4 a, p)"
    if r: "hc_RelayPublic cfg = []" and h: "hc_PublicHost cfg \<in> {string4 a, addrport_string (V4 a, q)}"
  proof -
    have "hostOf (hc_PublicHost cfg) = string4 a"
      using h string4_host(3)[of a] split_bare[OF string4_host(2)[of a]] addrport_string_ne[of a q]
      by (auto simp only: hostOf_def split_addrport insert_iff empty_iff option.case prod.case if_False)
    then show ?thesis using r parse(1) string4_host(3)[of a]
      by (simp add: relay_target_eq relayPublic_def join_string4)
  qed
  show "relay_target cfg b p self = Some (V4 (if b = 0 then 0x7F000001 else b), p)"
    if "hc_RelayPublic cfg = []" "hc_PublicHost cfg = []"
    using that parse(1) by (simp add: relay_target_eq relayPublic_def hostOf_def localAddr_string)
qed

section \<open>Witnesses\<close>

definition demo_host_config :: host_config where
  "demo_host_config = \<lparr>hc_NetworkID = ''home'', hc_DNSSuffix = ''home.zwan'', hc_CIDR = ''100.64.0.0/16'', hc_Token = ''secret'',
     hc_ControlAddr = '':8787'', hc_RelayAddr = '':3478'', hc_RelayPublic = [], hc_PublicHost = [], hc_TLSMode = ''self'',
     hc_TLSDomains = [], hc_TLSExtraSANs = [], hc_TLSDir = ''/var/lib/zwan/tls'', hc_ACMEEmail = [], hc_ACMEDirectory = [],
     hc_ACMEHTTPAddr = [], hc_GroupTokens = [], hc_ACL = []\<rparr>"

definition demo_host_env :: host_env where
  "demo_host_env = \<lparr>he_stateDir = None, he_crypto = demo_crypto, he_tls = demo_tls_env ''K1'', he_groups = (\<lambda>xs. xs),
     he_udp = (\<lambda>a. Some (V4 0, 3478)), he_tcp = (\<lambda>a. Some ''[::]:8787''),
     he_http = (\<lambda>a. True)\<rparr>"

lemma demo_Start:
  obtains h' fs' socks' where "Start demo_host_env demo_host_config (host_New, (\<lambda>p. None), {}) = (Inr (), (h', fs', socks'))"
    "h_ctrlAddr h' = ''[::]:8787''"
proof -
  have "ParseMode ''self'' = Inr ModeSelf" by code_simp
  moreover have "loadOrCreateKey demo_crypto (demo_tls_env ''K1'') (''/var/lib/zwan/tls'', KeyFile) (\<lambda>p. None) =
      (Inr ''K1'', (\<lambda>p. None)((''/var/lib/zwan/tls'', KeyFile) := Some (cr_pem demo_crypto ''PRIVATE KEY'' ''K1'')))"
    by (simp add: loadOrCreateKey_def read_file_def writePEM_def demo_fields)
  ultimately obtain r fs' where tls: "start_tls demo_host_env demo_host_config (\<lambda>p. None) = (Inr r, fs')"
  proof -
    obtain r fs' where "Build demo_crypto (demo_tls_env ''K1'') \<lparr>tc_Mode = ModeSelf, tc_Domains = [], tc_ExtraSANs = [],
        tc_Dir = ''/var/lib/zwan/tls'', tc_Email = [], tc_Directory = [], tc_ListenAddr = '':8787''\<rparr> (\<lambda>p. None) = (Inr r, fs')"
      using demo_Build[OF \<open>loadOrCreateKey _ _ _ _ = _\<close>, of "[]"] unfolding demo_tls_config_def by blast
    then show ?thesis using that \<open>ParseMode ''self'' = Inr ModeSelf\<close>
      by (simp add: start_tls_def demo_host_env_def demo_host_config_def)
  qed
  have "\<exists>t. BuildJoinTokens (\<lambda>xs. xs) ''secret'' [] = Inr t"
    by (simp add: BuildJoinTokens_def build_add_def Let_def)
  with tls Split_16 have "\<exists>h' fs' socks'. Start demo_host_env demo_host_config (host_New, (\<lambda>p. None), {}) = (Inr (), (h', fs', socks')) \<and>
      h_ctrlAddr h' = ''[::]:8787''"
    by (auto simp: Start_def host_New_def demo_host_env_def demo_host_config_def Let_def)
  then show ?thesis using that by blast
qed


theorem no_socket_is_leaked_witness:
  "\<exists>h' fs' socks'. Start demo_host_env demo_host_config (host_New, (\<lambda>p. None), {}) = (Inr (), (h', fs', socks')) \<and>
     socks' = held_sockets h' \<and> (\<exists>h2. Stop (h', fs', socks') = (h2, fs', {}))"
proof -
  obtain h' fs' socks' where s: "Start demo_host_env demo_host_config (host_New, (\<lambda>p. None), {}) = (Inr (), (h', fs', socks'))"
    by (rule demo_Start)
  then have "(h', fs', socks') = snd (Start demo_host_env demo_host_config (host_New, (\<lambda>p. None), {}))" by simp
  then have step: "machine_step (host_New, (\<lambda>p. None), {}) (h', fs', socks')" unfolding machine_step_def by blast
  note all = no_socket_is_leaked[of "\<lambda>p. None" h' fs' socks', OF r_into_rtranclp[of machine_step, OF step]]
  have "\<exists>h2. Stop (h', fs', socks') = (h2, fs', {})" using all[THEN conjunct2, THEN conjunct2, THEN conjunct2] by blast
  with s all[THEN conjunct1] show ?thesis by blast
qed

definition demo_public_config :: "string \<Rightarrow> host_config" where
  "demo_public_config ph = demo_host_config\<lparr>hc_PublicHost := ph\<rparr>"

lemma demo_public: "hc_RelayPublic (demo_public_config ph) = []" "hc_PublicHost (demo_public_config ph) = ph"
  by (simp_all add: demo_public_config_def demo_host_config_def)

theorem relay_is_advertised_witness:
  "relay_target (demo_public_config (string4 0xCB007105)) 0 3478 1 = Some (V4 0xCB007105, 3478)"
proof -
  have b: "(3478 :: nat) \<le> 65535" by simp
  have h: "hc_RelayPublic (demo_public_config (string4 0xCB007105)) = [] \<and> hc_PublicHost (demo_public_config (string4 0xCB007105)) \<in>
      {string4 0xCB007105, addrport_string (V4 0xCB007105, 3478)}" unfolding demo_public by (rule conjI[OF refl insertI1])
  note all = relay_is_advertised_where_clients_reach[OF b b, of "demo_public_config (string4 0xCB007105)" "0xCB007105" 0 1]
  show ?thesis by (rule mp[OF conjunct1[OF conjunct2[OF conjunct2[OF all]]] h])
qed

end
