(* ===== verification/Update.thy ===== *)
theory Update
  imports Json
begin

text \<open>
  Updating (\<open>client/update/update.go\<close>, \<open>server.go\<close>, \<open>apply_windows.go\<close>): reading the latest release, comparing
  versions, choosing an asset and replacing the binary. The release service, the download and the replacement
  of the binary are parameters.
\<close>

section \<open>Numbers in versions\<close>

text \<open>The value \<open>strconv.Atoi\<close> gives: 0 for what is no number, the nearest number for one out of range.\<close>

definition clamp64 :: "int \<Rightarrow> int" where
  "clamp64 n = (if n < - (2 ^ 63) then - (2 ^ 63) else if n \<ge> 2 ^ 63 then 2 ^ 63 - 1 else n)"

definition atoi :: "string \<Rightarrow> int" where
  "atoi s =
     (let neg = (s \<noteq> [] \<and> hd s = CHR ''-''); digits = (if s \<noteq> [] \<and> hd s \<in> {CHR ''-'', CHR ''+''} then tl s else s) in
      case parse_digits digits of
        None \<Rightarrow> 0
      | Some n \<Rightarrow> clamp64 (if neg then - int n else int n))"

section \<open>Versions\<close>

datatype version = Version (major: int) (minor: int) (patch: int)

instantiation version :: linorder
begin

definition less_eq_version :: "version \<Rightarrow> version \<Rightarrow> bool" where
  "v \<le> w \<longleftrightarrow> major v < major w \<or> major v = major w \<and>
     (minor v < minor w \<or> minor v = minor w \<and> patch v \<le> patch w)"

definition less_version :: "version \<Rightarrow> version \<Rightarrow> bool" where
  "(v :: version) < w \<longleftrightarrow> v \<le> w \<and> \<not> w \<le> v"

instance
  by standard (auto simp: less_eq_version_def less_version_def intro: version.expand)

end

text \<open>The part before the first separator, all of it when there is none.\<close>

definition base_part :: "string \<Rightarrow> char \<Rightarrow> string" where
  "base_part s c = (case cut s [c] of None \<Rightarrow> s | Some (a, b) \<Rightarrow> a)"

definition parse_version :: "string \<Rightarrow> version" where
  "parse_version v =
     (let base = base_part (base_part v CHR ''-'') CHR ''+''; parts = split_on CHR ''.'' base;
          num = (\<lambda>i. if i < length parts then atoi (trim_space (parts ! i)) else 0)
      in Version (num 0) (num 1) (num 2))"

text \<open>The loop over the three components.\<close>

fun newer_loop :: "int list \<Rightarrow> int list \<Rightarrow> bool" where
  "newer_loop (l # ls) (c # cs) = (if l \<noteq> c then l > c else newer_loop ls cs)"
| "newer_loop _ _ = False"

definition components :: "version \<Rightarrow> int list" where
  "components v = [major v, minor v, patch v]"

definition IsNewer :: "string \<Rightarrow> string \<Rightarrow> bool" where
  "IsNewer current0 latest0 =
     (let current = trim_prefix current0 ''v''; latest = trim_prefix latest0 ''v'' in
      if latest = [] then False
      else if current = [] \<or> str_contains current ''dev'' then True
      else newer_loop (components (parse_version latest)) (components (parse_version current)))"

section \<open>Releases\<close>

record asset =
  as_name :: string
  as_url :: string

record gh_release =
  gh_tag :: string
  gh_body :: string
  gh_assets :: "asset list"

record release =
  rl_tag :: string
  rl_version :: string
  rl_installer :: string
  rl_notes :: string

definition dec_asset :: "json \<Rightarrow> asset option" where
  "dec_asset j = (case (field ''name'' rd_string [] j, field ''browser_download_url'' rd_string [] j) of
     (Some n, Some u) \<Rightarrow> Some \<lparr>as_name = n, as_url = u\<rparr> | _ \<Rightarrow> None)"

definition dec_release :: "json \<Rightarrow> gh_release option" where
  "dec_release j = (case (field ''tag_name'' rd_string [] j, field ''body'' rd_string [] j, field ''assets'' (rd_list dec_asset) [] j) of
     (Some t, Some b, Some a) \<Rightarrow> Some \<lparr>gh_tag = t, gh_body = b, gh_assets = a\<rparr> | _ \<Rightarrow> None)"

datatype update_error =
    NoAnswer | ReleaseStatus string | BadRelease | NoServerAsset string
  | NoDownload | DownloadStatus string string | ApplyFailed | NoInstallerAsset | NoTempFile | LaunchFailed

text \<open>\<open>get url\<close>: no answer, or the code, its text and the body (none when it is not JSON).\<close>

definition fetchLatest :: "(string \<Rightarrow> (nat \<times> string \<times> json option) option) \<Rightarrow> string \<Rightarrow> string \<Rightarrow> update_error + gh_release" where
  "fetchLatest get owner repo =
     (case get (''https://api.github.com/repos/'' @ owner @ ''/'' @ repo @ ''/releases/latest'') of
        None \<Rightarrow> Inl NoAnswer
      | Some (code, status, body) \<Rightarrow>
          if code \<noteq> 200 then Inl (ReleaseStatus status)
          else (case body of None \<Rightarrow> Inl BadRelease
              | Some j \<Rightarrow> (case dec_release j of None \<Rightarrow> Inl BadRelease | Some r \<Rightarrow> Inr r)))"

definition is_installer :: "asset \<Rightarrow> bool" where
  "is_installer a = (let n = to_lower (as_name a) in
     has_suffix n ''.exe'' \<and> (str_contains n ''setup'' \<or> str_contains n ''installer''))"

definition Latest :: "(string \<Rightarrow> (nat \<times> string \<times> json option) option) \<Rightarrow> string \<Rightarrow> string \<Rightarrow> update_error + release" where
  "Latest get owner repo =
     (case fetchLatest get owner repo of
        Inl e \<Rightarrow> Inl e
      | Inr gr \<Rightarrow> Inr \<lparr>rl_tag = gh_tag gr, rl_version = trim_prefix (gh_tag gr) ''v'',
          rl_installer = (case List.find is_installer (gh_assets gr) of None \<Rightarrow> [] | Some a \<Rightarrow> as_url a), rl_notes = gh_body gr\<rparr>)"

definition ServerAssetName :: "string \<Rightarrow> string \<Rightarrow> string" where
  "ServerAssetName goos goarch =
     (let n = ''zwan-server-'' @ goos @ ''-'' @ goarch in if goos = ''windows'' then n @ ''.exe'' else n)"

definition latestServerAsset :: "(string \<Rightarrow> (nat \<times> string \<times> json option) option) \<Rightarrow> string \<Rightarrow> string \<Rightarrow> string \<Rightarrow>
    update_error + string \<times> string" where
  "latestServerAsset get owner repo name =
     (case fetchLatest get owner repo of
        Inl e \<Rightarrow> Inl e
      | Inr gr \<Rightarrow> (case List.find (\<lambda>a. as_name a = name) (gh_assets gr) of
            Some a \<Rightarrow> Inr (trim_prefix (gh_tag gr) ''v'', as_url a)
          | None \<Rightarrow> Inl (NoServerAsset name)))"

text \<open>
  The download of the new binary gives a code, its text and the bytes; \<open>replace\<close> is the replacement of the
  running binary. The result is the version, whether it was installed and the error, and the binary that is there.
\<close>

definition SelfUpdateServer :: "(string \<Rightarrow> (nat \<times> string \<times> json option) option) \<Rightarrow> (string \<Rightarrow> (nat \<times> string \<times> 'b) option) \<Rightarrow>
    ('b \<Rightarrow> bool) \<Rightarrow> string \<times> string \<times> string \<Rightarrow> string \<Rightarrow> 'b \<Rightarrow> (string \<times> bool \<times> update_error option) \<times> 'b" where
  "SelfUpdateServer get download replace place current old =
     (case place of (owner, repo, name) \<Rightarrow>
      (case latestServerAsset get owner repo name of
        Inl e \<Rightarrow> (([], False, Some e), old)
      | Inr (ver, url) \<Rightarrow>
          if \<not> IsNewer current ver then ((ver, False, None), old)
          else (case download url of
              None \<Rightarrow> ((ver, False, Some NoDownload), old)
            | Some (code, status, body) \<Rightarrow>
                if code \<noteq> 200 then ((ver, False, Some (DownloadStatus url status)), old)
                else if \<not> replace body then ((ver, False, Some ApplyFailed), old)
                else ((ver, True, None), body))))"

text \<open>The desktop's update: the installer is fetched to a file and launched; only the launch changes anything.\<close>

definition installer_download :: "(string \<Rightarrow> (nat \<times> string \<times> 'b) option) \<Rightarrow> ('b \<Rightarrow> bool) \<Rightarrow> string \<Rightarrow> update_error option" where
  "installer_download download write url =
     (case download url of
        None \<Rightarrow> Some NoDownload
      | Some (code, status, body) \<Rightarrow>
          if code \<noteq> 200 then Some (DownloadStatus url status) else if \<not> write body then Some NoTempFile else None)"

definition update_Apply :: "(string \<Rightarrow> (nat \<times> string \<times> 'b) option) \<Rightarrow> ('b \<Rightarrow> bool) \<Rightarrow> bool \<Rightarrow> string \<Rightarrow> update_error option" where
  "update_Apply download write launched url =
     (if url = [] then Some NoInstallerAsset
      else (case installer_download download write url of
          Some e \<Rightarrow> Some e
        | None \<Rightarrow> if launched then None else Some LaunchFailed))"

section \<open>Comparing\<close>

lemma newer_components: "newer_loop (components l) (components c) \<longleftrightarrow> c < l"
  by (auto simp: components_def less_version_def less_eq_version_def)

lemma IsNewer_order:
  assumes "\<not> str_contains (trim_prefix current ''v'') ''dev''" and "trim_prefix current ''v'' \<noteq> []"
  shows "IsNewer current latest \<longleftrightarrow> trim_prefix latest ''v'' \<noteq> [] \<and>
    parse_version (trim_prefix current ''v'') < parse_version (trim_prefix latest ''v'')"
  using assms by (simp add: IsNewer_def newer_components Let_def)

lemma clamp64_bounds: "- (2 ^ 63) \<le> clamp64 n \<and> clamp64 n < 2 ^ 63"
  by (simp add: clamp64_def)

lemma atoi_bounds: "- (2 ^ 63) \<le> atoi s \<and> atoi s < 2 ^ 63"
  using clamp64_bounds by (auto simp: atoi_def Let_def split: option.split)

definition bounded :: "version \<Rightarrow> bool" where
  "bounded v \<longleftrightarrow> (\<forall>n \<in> set (components v). - (2 ^ 63) \<le> n \<and> n < 2 ^ 63)"

lemma parse_version_bounded: "bounded (parse_version v)"
  using atoi_bounds by (simp add: bounded_def components_def parse_version_def Let_def)

text \<open>Among the versions that can be read there is no infinite ascent.\<close>

lemma version_ascent_wf: "wf {(l, c). c < l \<and> bounded l}"
proof (rule wf_subset)
  show "wf (measures [\<lambda>v. nat (2 ^ 63 - major v), \<lambda>v. nat (2 ^ 63 - minor v), \<lambda>v. nat (2 ^ 63 - patch v)])" by simp
  show "{(l, c). c < l \<and> bounded l} \<subseteq> measures [\<lambda>v. nat (2 ^ 63 - major v), \<lambda>v. nat (2 ^ 63 - minor v), \<lambda>v. nat (2 ^ 63 - patch v)]"
    by (auto simp: less_version_def less_eq_version_def bounded_def components_def)
qed


text \<open>The server's binary is replaced only by a newer one, completely downloaded, and otherwise stays as it
  is; an update that was installed is not installed again, the next run finds nothing to do.
\<close>

theorem self_update_installs_once:
  assumes "SelfUpdateServer get download replace place current old = ((ver, installed, err), new)"
  shows "(installed \<longrightarrow> err = None \<and> IsNewer current ver \<and> replace new \<and> (\<exists>url status. download url = Some (200, status, new))) \<and>
    (\<not> installed \<longrightarrow> new = old) \<and> (err = None \<and> \<not> installed \<longrightarrow> \<not> IsNewer current ver) \<and>
    (err = None \<and> \<not> str_contains (trim_prefix ver ''v'') ''dev'' \<longrightarrow>
       (\<forall>b. SelfUpdateServer get download replace place ver b = ((ver, False, None), b)))"
proof -
  obtain owner repo name where p: "place = (owner, repo, name)" by (cases place)
  show ?thesis
  proof (cases "latestServerAsset get owner repo name")
    case (Inl e)
    then show ?thesis using assms by (auto simp: SelfUpdateServer_def p)
  next
    case (Inr r)
    obtain v url where r: "r = (v, url)" by (cases r)
    have ver: "ver = v" using assms Inr r p by (auto simp: SelfUpdateServer_def split: option.splits if_splits prod.splits)
    have once: "\<not> IsNewer v v" if "\<not> str_contains (trim_prefix v ''v'') ''dev''"
    proof (cases "trim_prefix v ''v'' = []")
      case True
      then show ?thesis by (simp add: IsNewer_def Let_def)
    next
      case False
      then show ?thesis using that IsNewer_order[of v v] by simp
    qed
    have "SelfUpdateServer get download replace place v b = ((v, False, None), b)" if "\<not> str_contains (trim_prefix v ''v'') ''dev''" for b
      using once[OF that] Inr r p by (simp add: SelfUpdateServer_def)
    moreover have "(installed \<longrightarrow> err = None \<and> IsNewer current ver \<and> replace new \<and> (\<exists>url status. download url = Some (200, status, new))) \<and>
      (\<not> installed \<longrightarrow> new = old) \<and> (err = None \<and> \<not> installed \<longrightarrow> \<not> IsNewer current ver)"
      using assms Inr r p by (auto simp: SelfUpdateServer_def split: option.splits if_splits prod.splits)
    ultimately show ?thesis using ver by blast
  qed
qed

section \<open>Witnesses\<close>


definition demo_release :: json where
  "demo_release = JObj [(''tag_name'', JStr ''v1.10.0''), (''body'', JStr []),
     (''assets'', JArr [JObj [(''name'', JStr ''zwan-server-linux-amd64''), (''browser_download_url'', JStr ''u'')]])]"

definition demo_get :: "string \<Rightarrow> (nat \<times> string \<times> json option) option" where
  "demo_get url = Some (200, [], Some demo_release)"

definition demo_download :: "string \<Rightarrow> (nat \<times> string \<times> nat) option" where
  "demo_download url = Some (200, [], 2)"

theorem self_update_witness:
  "SelfUpdateServer demo_get demo_download (\<lambda>b. True) (''Zeliper'', ''zwan'', ServerAssetName ''linux'' ''amd64'') ''v1.9.2'' 1 = ((''1.10.0'', True, None), 2) \<and>
   SelfUpdateServer demo_get demo_download (\<lambda>b. True) (''Zeliper'', ''zwan'', ServerAssetName ''linux'' ''amd64'') ''1.10.0'' 2 = ((''1.10.0'', False, None), 2)"
proof -
  have run: "SelfUpdateServer demo_get demo_download (\<lambda>b. True) (''Zeliper'', ''zwan'', ServerAssetName ''linux'' ''amd64'') ''v1.9.2'' 1 = ((''1.10.0'', True, None), 2)"
    by code_simp
  have nodev: "\<not> str_contains (trim_prefix ''1.10.0'' ''v'') ''dev''" by code_simp
  show ?thesis using run self_update_installs_once[OF run] nodev by simp
qed

end
