(* ===== verification/Headless.thy ===== *)
theory Headless
  imports Host Update
begin

text \<open>
  The headless server, \<open>cmd/zwan-server/main.go\<close>: its flags, what they make of the join tokens and the policy,
  the host it starts, what it tells the operator, and the loop that updates it. Parsing the command line into
  \<open>flags\<close> is the library's; reading a file, starting the host and restarting the process are arguments.
\<close>

section \<open>Flags\<close>

record flags =
  fl_addr :: string
  fl_network :: string
  fl_dns_suffix :: string
  fl_cidr :: string
  fl_token :: string
  fl_relay_addr :: string
  fl_relay_public :: string
  fl_tls :: string
  fl_domain :: string
  fl_tls_san :: string
  fl_tls_dir :: string
  fl_acme_email :: string
  fl_acme_directory :: string
  fl_acme_http_addr :: string
  fl_public_host :: string
  fl_join_token :: "string list"
  fl_acl :: "string list"
  fl_acl_file :: string
  fl_auto_update :: bool

text \<open>A flag that may be given more than once (\<open>repeatable\<close>).\<close>

definition repeatable_Set :: "string list \<Rightarrow> string \<Rightarrow> string list" where
  "repeatable_Set r v = r @ [v]"

definition repeatable_String :: "string list \<Rightarrow> string" where
  "repeatable_String r = join_with '', '' r"

definition default_flags :: flags where
  "default_flags = \<lparr>fl_addr = ''127.0.0.1:8787'', fl_network = ''demo'', fl_dns_suffix = ''demo.zwan'', fl_cidr = ''100.64.0.0/16'',
     fl_token = [], fl_relay_addr = ''127.0.0.1:3478'', fl_relay_public = [], fl_tls = ''auto'', fl_domain = [], fl_tls_san = [],
     fl_tls_dir = [], fl_acme_email = [], fl_acme_directory = [], fl_acme_http_addr = '':80'', fl_public_host = [],
     fl_join_token = [], fl_acl = [], fl_acl_file = [], fl_auto_update = False\<rparr>"

fun split_list :: "string list \<Rightarrow> string list" where
  "split_list [] = []"
| "split_list (p # ps) = (let q = trim_space p in if q \<noteq> [] then q # split_list ps else split_list ps)"

definition flag_list :: "string \<Rightarrow> string list" where
  "flag_list s = split_list (split_on CHR '','' s)"

datatype flag_error = InAclFlag acl_error | TwoTokens string | PolicyUnreadable

text \<open>\<open>parseJoinTokens\<close>: the loop over the flags, with the map built so far.\<close>

fun token_loop :: "(string, string) gomap \<Rightarrow> string list \<Rightarrow> flag_error + (string, string) gomap" where
  "token_loop out [] = Inr out"
| "token_loop out (v # vs) =
     (case ParseJoinToken v of
        Inl e \<Rightarrow> Inl (InAclFlag e)
      | Inr (g, token) \<Rightarrow>
          (case map_of out g of
             Some prev \<Rightarrow> if prev \<noteq> token then Inl (TwoTokens g) else token_loop (AList.update g token out) vs
           | None \<Rightarrow> token_loop (AList.update g token out) vs))"

definition parseJoinTokens :: "string list \<Rightarrow> flag_error + (string, string) gomap" where
  "parseJoinTokens values = (if values = [] then Inr [] else token_loop [] values)"

fun rule_loop :: "rule list \<Rightarrow> string list \<Rightarrow> flag_error + rule list" where
  "rule_loop rules [] = Inr rules"
| "rule_loop rules (v # vs) = (case ParseRule v of Inl e \<Rightarrow> Inl (InAclFlag e) | Inr r \<Rightarrow> rule_loop (rules @ [r]) vs)"

definition parsePolicy :: "(string \<Rightarrow> string option) \<Rightarrow> (string \<Rightarrow> policy option) \<Rightarrow> string list \<Rightarrow> string \<Rightarrow> flag_error + rule list" where
  "parsePolicy read unmarshal values file =
     (case rule_loop [] values of
        Inl e \<Rightarrow> Inl e
      | Inr rules \<Rightarrow>
          if file = [] then Inr rules
          else (case read file of
              None \<Rightarrow> Inl PolicyUnreadable
            | Some data \<Rightarrow> (case Parse unmarshal data of
                  Inl e \<Rightarrow> Inl (InAclFlag e)
                | Inr p \<Rightarrow> Inr (rules @ p_rules p))))"

section \<open>Running\<close>

text \<open>The configuration of the host: the public host is not a part of it.\<close>

definition headless_config :: "flags \<Rightarrow> (string, string) gomap \<Rightarrow> rule list \<Rightarrow> host_config" where
  "headless_config fl groupTokens rules =
     \<lparr>hc_NetworkID = fl_network fl, hc_DNSSuffix = fl_dns_suffix fl, hc_CIDR = fl_cidr fl, hc_Token = fl_token fl,
      hc_ControlAddr = fl_addr fl, hc_RelayAddr = fl_relay_addr fl, hc_RelayPublic = fl_relay_public fl, hc_PublicHost = [],
      hc_TLSMode = fl_tls fl, hc_TLSDomains = flag_list (fl_domain fl), hc_TLSExtraSANs = flag_list (fl_tls_san fl),
      hc_TLSDir = fl_tls_dir fl, hc_ACMEEmail = fl_acme_email fl, hc_ACMEDirectory = fl_acme_directory fl,
      hc_ACMEHTTPAddr = fl_acme_http_addr fl, hc_GroupTokens = groupTokens, hc_ACL = rules\<rparr>"

definition server_trustLabel :: "host \<Rightarrow> string" where
  "server_trustLabel h =
     (let m = host_TLSMode h in
      if m = ''off'' then ''plaintext HTTP''
      else if m = ''self'' then ''TLS, self-signed - clients must pin '' @ host_Pin h
      else if m = ''acme'' then ''TLS, ACME certificate''
      else m)"

definition logPolicy :: "((string \<times> string) list \<Rightarrow> (string \<times> string) list) \<Rightarrow> (string, string) gomap \<Rightarrow> rule list \<Rightarrow> string" where
  "logPolicy iter groupTokens rules =
     (let groups = sort (DefaultGroup # map fst (iter groupTokens)); shown = join_with '', '' groups in
      if rules = [] then ''access: no rules - every member reaches every other (groups: '' @ shown @ '')''
      else ''access: default-deny with '' @ nat_str (length rules) @ '' rule(s): '' @ join_with ''; '' (map rule_string rules) @
             '' (groups: '' @ shown @ '')'')"

datatype headless_error = TokenRequired | InFlag flag_error | NotHosted host_error

text \<open>What a server that started tells the operator: the trust, the join address, the policy, and whether it warns of plain text.\<close>

record headless_report =
  hr_trust :: string
  hr_join :: string
  hr_policy :: string
  hr_plaintext :: bool

definition runHeadless :: "host_env \<Rightarrow> (string \<Rightarrow> string option) \<Rightarrow> (string \<Rightarrow> policy option) \<Rightarrow> flags \<Rightarrow> files \<Rightarrow>
    (headless_error + headless_report) \<times> machine" where
  "runHeadless e read unmarshal fl fs =
     (let idle = (host_New, fs, {}) in
      if fl_token fl = [] then (Inl TokenRequired, idle)
      else (case parseJoinTokens (fl_join_token fl) of
        Inl err \<Rightarrow> (Inl (InFlag err), idle)
      | Inr groupTokens \<Rightarrow>
          (case parsePolicy read unmarshal (fl_acl fl) (fl_acl_file fl) of
             Inl err \<Rightarrow> (Inl (InFlag err), idle)
           | Inr rules \<Rightarrow>
               (case Start e (headless_config fl groupTokens rules) idle of
                  (Inl err, mac) \<Rightarrow> (Inl (NotHosted err), mac)
                | (Inr _, mac) \<Rightarrow>
                    (Inr \<lparr>hr_trust = server_trustLabel (fst mac), hr_join = JoinURL (fst mac) (fl_public_host fl),
                          hr_policy = logPolicy (he_groups e) groupTokens rules, hr_plaintext = (host_TLSMode (fst mac) = ''off'')\<rparr>, mac)))))"

section \<open>Updating itself\<close>

text \<open>
  One check: what the services answer, and whether the process can be started anew. The loop runs once per
  tick; a restart ends the process. The version the binary was built as does not change while it runs.
\<close>

record 'b update_tick =
  ut_get :: "string \<Rightarrow> (nat \<times> string \<times> json option) option"
  ut_download :: "string \<Rightarrow> (nat \<times> string \<times> 'b) option"
  ut_replace :: "'b \<Rightarrow> bool"
  ut_executable :: bool
  ut_started :: bool

definition restartSelf :: "'b update_tick \<Rightarrow> bool" where
  "restartSelf t \<longleftrightarrow> ut_executable t \<and> ut_started t"

fun autoUpdateLoop :: "string \<times> string \<times> string \<Rightarrow> string \<Rightarrow> 'b \<Rightarrow> 'b update_tick list \<Rightarrow> 'b \<times> bool" where
  "autoUpdateLoop place current b [] = (b, False)"
| "autoUpdateLoop place current b (t # ts) =
     (case SelfUpdateServer (ut_get t) (ut_download t) (ut_replace t) place current b of
        ((_, updated, err), b') \<Rightarrow>
          if err = None \<and> updated \<and> restartSelf t then (b', True) else autoUpdateLoop place current b' ts)"

datatype update_report = UpdateFailed update_error | UpToDate string | UpdatedTo string

definition runUpdate :: "'b update_tick \<Rightarrow> string \<times> string \<times> string \<Rightarrow> string \<Rightarrow> 'b \<Rightarrow> update_report \<times> 'b" where
  "runUpdate t place current b =
     (case SelfUpdateServer (ut_get t) (ut_download t) (ut_replace t) place current b of
        ((_, _, Some err), b') \<Rightarrow> (UpdateFailed err, b')
      | ((ver, False, None), b') \<Rightarrow> (UpToDate ver, b')
      | ((ver, True, None), b') \<Rightarrow> (UpdatedTo ver, b'))"

section \<open>What the flags come to\<close>

text \<open>The group and the token of a flag that is one.\<close>

definition admits :: "string list \<Rightarrow> string \<Rightarrow> string \<Rightarrow> bool" where
  "admits vs g t \<longleftrightarrow> (\<exists>v \<in> set vs. ParseJoinToken v = Inr (g, t))"

lemma admits_simps [simp]: "\<not> admits [] g t"
    "admits (v # vs) g t \<longleftrightarrow> ParseJoinToken v = Inr (g, t) \<or> admits vs g t"
  by (auto simp: admits_def)

lemma ParseJoinToken_clean: "ParseJoinToken v = Inr (g, t) \<Longrightarrow> normalize g = g \<and> g \<noteq> [] \<and> trim_space t = t \<and> t \<noteq> []"
  by (cases "cut v ''=''") (auto simp: ParseJoinToken_def simp del: split_paired_All split: if_splits)

lemma token_loop_ok:
  "token_loop out vs = Inr m \<Longrightarrow> gomap_ok out \<Longrightarrow>
     gomap_ok m \<and> (\<forall>v \<in> set vs. \<exists>g t. ParseJoinToken v = Inr (g, t)) \<and>
     (\<forall>g t. map_of m g = Some t \<longleftrightarrow> map_of out g = Some t \<or> admits vs g t)"
proof (induction vs arbitrary: out)
  case (Cons v vs)
  then obtain g t where p: "ParseJoinToken v = Inr (g, t)" by (auto split: sum.splits)
  with Cons.prems have run: "token_loop (AList.update g t out) vs = Inr m" and prev: "map_of out g \<in> {None, Some t}"
    by (auto split: option.splits if_splits)
  have "map_of (AList.update g t out) h = Some u \<longleftrightarrow> map_of out h = Some u \<or> (h = g \<and> u = t)" for h u
    using prev by (auto simp: update_conv')
  then show ?case using Cons.IH[OF run] Cons.prems(2) p by auto
qed auto

lemma token_loop_error:
  "token_loop out vs = Inl e \<Longrightarrow> (\<exists>v \<in> set vs. \<exists>x. ParseJoinToken v = Inl x) \<or>
     (\<exists>g t t'. t \<noteq> t' \<and> admits vs g t \<and> (map_of out g = Some t' \<or> admits vs g t'))"
proof (induction vs arbitrary: out)
  case (Cons v vs)
  show ?case
  proof (cases "ParseJoinToken v")
    case (Inr gt)
    obtain g t where gt: "gt = (g, t)" by (cases gt)
    show ?thesis
    proof (cases "\<exists>prev. map_of out g = Some prev \<and> prev \<noteq> t")
      case True
      then obtain prev where prev: "map_of out g = Some prev" "t \<noteq> prev" by auto
      show ?thesis by (intro disjI2 exI[of _ g] exI[of _ t] exI[of _ prev]) (use Inr gt prev in simp)
    next
      case False
      then have "token_loop (AList.update g t out) vs = Inl e" using Cons.prems Inr gt by (auto split: option.splits if_splits)
      from Cons.IH[OF this] show ?thesis
      proof (elim disjE exE conjE)
        fix h u u' assume "u \<noteq> u'" "admits vs h u" "map_of (AList.update g t out) h = Some u'"
        then show ?thesis by (intro disjI2 exI[of _ h] exI[of _ u] exI[of _ u'])
          (use Inr gt in \<open>auto simp: update_conv' split: if_splits\<close>)
      next
        fix h u u' assume "u \<noteq> u'" "admits vs h u" "admits vs h u'"
        then show ?thesis by (intro disjI2 exI[of _ h] exI[of _ u] exI[of _ u']) simp
      qed auto
    qed
  qed auto
qed auto

lemma parseJoinTokens_ok: "parseJoinTokens vs = Inr m \<Longrightarrow> gomap_ok m \<and> (\<forall>g t. map_of m g = Some t \<longleftrightarrow> admits vs g t)"
  using token_loop_ok[of "[]" vs m] by (auto simp: parseJoinTokens_def split: if_splits)

lemma parseJoinTokens_error:
  "(\<exists>e. parseJoinTokens vs = Inl e) \<longleftrightarrow>
     (\<exists>v \<in> set vs. \<exists>x. ParseJoinToken v = Inl x) \<or> (\<exists>g t t'. t \<noteq> t' \<and> admits vs g t \<and> admits vs g t')"
proof
  assume "\<exists>e. parseJoinTokens vs = Inl e"
  then obtain e where "token_loop [] vs = Inl e" by (auto simp: parseJoinTokens_def split: if_splits)
  from token_loop_error[OF this]
  show "(\<exists>v \<in> set vs. \<exists>x. ParseJoinToken v = Inl x) \<or> (\<exists>g t t'. t \<noteq> t' \<and> admits vs g t \<and> admits vs g t')" by auto
next
  assume bad: "(\<exists>v \<in> set vs. \<exists>x. ParseJoinToken v = Inl x) \<or> (\<exists>g t t'. t \<noteq> t' \<and> admits vs g t \<and> admits vs g t')"
  show "\<exists>e. parseJoinTokens vs = Inl e"
  proof (cases "parseJoinTokens vs")
    case (Inr m)
    have "vs \<noteq> []" using bad by auto
    then have m: "token_loop [] vs = Inr m" using Inr by (simp add: parseJoinTokens_def)
    show ?thesis using token_loop_ok[OF m] bad by (auto, (metis option.inject sum.distinct(1))+)
  qed simp
qed

lemma rule_loop_ok: "rule_loop rs vs = Inr out \<longleftrightarrow> (\<exists>new. out = rs @ new \<and> map ParseRule vs = map Inr new)"
proof (induction vs arbitrary: rs)
  case (Cons v vs)
  show ?case
  proof (cases "ParseRule v")
    case (Inr r)
    then show ?thesis using Cons.IH[of "rs @ [r]"] by (auto simp: Cons_eq_map_conv)
  qed auto
qed auto

lemma parsePolicy_ok:
  "parsePolicy read unmarshal vs file = Inr out \<longleftrightarrow>
     (\<exists>rs more. out = rs @ more \<and> map ParseRule vs = map Inr rs \<and>
        (if file = [] then more = [] else \<exists>data p. read file = Some data \<and> Parse unmarshal data = Inr p \<and> more = p_rules p))"
proof (cases "rule_loop [] vs")
  case (Inl e)
  then have "\<not> (\<exists>new. map ParseRule vs = map Inr new)" using rule_loop_ok[of "[]" vs] by auto
  then show ?thesis using Inl by (auto simp: parsePolicy_def)
next
  case (Inr rules)
  then have r: "map ParseRule vs = map Inr rules" using rule_loop_ok[of "[]" vs rules] by simp
  have "map ParseRule vs = map Inr rs \<longleftrightarrow> rs = rules" for rs using r by (auto simp: inj_map_eq_map)
  then show ?thesis using Inr by (auto simp: parsePolicy_def split: option.splits sum.splits)
qed

lemma Start_serves:
  assumes "Start e cfg (host_New, fs, {}) = (Inr u, (h, fs', socks))"
  obtains nodes svcs tokens bound where "BuildJoinTokens (he_groups e) (hc_Token cfg) (hc_GroupTokens cfg) = Inr tokens"
    "he_udp e (hc_RelayAddr cfg) = Some bound"
    "h_httpSrv h = Some (api_New \<lparr>op_Network = NewNetwork (hc_NetworkID cfg) (hc_DNSSuffix cfg) (hc_CIDR cfg),
       op_Nodes = nodes, op_Services = svcs, op_Tokens = Some tokens,
       op_Policy = Some \<lparr>p_rules = hc_ACL cfg\<rparr>, op_RelayAddr = relayPublic cfg (addrport_string bound)\<rparr>)"
  using assms by (auto simp: Start_def host_New_def Let_def split: sum.splits prod.splits option.splits if_splits)

lemma Start_server:
  assumes "Start e cfg (host_New, fs, {}) = (Inr u, (h, fs', socks))"
  obtains srv bound where "h_httpSrv h = Some srv" "BuildJoinTokens (he_groups e) (hc_Token cfg) (hc_GroupTokens cfg) = Inr (srv_tokens srv)"
    "srv_policy srv = Some \<lparr>p_rules = hc_ACL cfg\<rparr>" "he_udp e (hc_RelayAddr cfg) = Some bound"
    "srv_relayAddr srv = relayPublic cfg (addrport_string bound)"
  using assms by (rule Start_serves) (rule that, assumption, simp_all add: api_New_def)

lemma runHeadless_ok:
  assumes "runHeadless e read unmarshal fl fs = (Inr rep, (h, fs', socks))"
  obtains groupTokens rules where "parseJoinTokens (fl_join_token fl) = Inr groupTokens"
    "parsePolicy read unmarshal (fl_acl fl) (fl_acl_file fl) = Inr rules"
    "Start e (headless_config fl groupTokens rules) (host_New, fs, {}) = (Inr (), (h, fs', socks))"
    "hr_join rep = JoinURL h (fl_public_host fl)" "fl_token fl \<noteq> []"
  using assms by (auto simp: runHeadless_def Let_def split: sum.splits prod.splits option.splits if_splits)

text \<open>C23: The flags are the network's access control. A headless server that starts admits with a token exactly to the
  group it was given for: the plain token to the default group, a \<open>group=token\<close> flag to its group; its policy is
  the rules of the flags in their order and then those of the policy file; and it does not start when a flag
  cannot be read, when one group is given two tokens, or when one token is given for two groups.
\<close>

theorem flags_are_the_access_control:
  assumes "reorders (he_groups e)" and "runHeadless e read unmarshal fl fs = (Inr rep, (h, fs', socks))"
  shows "\<exists>srv rs more. h_httpSrv h = Some srv \<and>
    (\<forall>tok g. Group (srv_tokens srv) tok = Some g \<longleftrightarrow>
       tok \<noteq> [] \<and> (tok = trim_space (fl_token fl) \<and> g = DefaultGroup \<or> (\<exists>v \<in> set (fl_join_token fl). ParseJoinToken v = Inr (g, tok)))) \<and>
    map ParseRule (fl_acl fl) = map Inr rs \<and> srv_policy srv = Some \<lparr>p_rules = rs @ more\<rparr> \<and>
    (if fl_acl_file fl = [] then more = []
     else \<exists>data p. read (fl_acl_file fl) = Some data \<and> Parse unmarshal data = Inr p \<and> more = p_rules p) \<and>
    (\<forall>v \<in> set (fl_join_token fl). \<exists>g t. ParseJoinToken v = Inr (g, t)) \<and>
    (\<forall>v \<in> set (fl_join_token fl). \<forall>w \<in> set (fl_join_token fl). \<forall>g t g' t'.
       ParseJoinToken v = Inr (g, t) \<and> ParseJoinToken w = Inr (g', t') \<longrightarrow> (g = g' \<longleftrightarrow> t = t'))"
proof -
  obtain gts rules where run: "parseJoinTokens (fl_join_token fl) = Inr gts"
    "parsePolicy read unmarshal (fl_acl fl) (fl_acl_file fl) = Inr rules"
    "Start e (headless_config fl gts rules) (host_New, fs, {}) = (Inr (), (h, fs', socks))"
    using assms(2) by (rule runHeadless_ok)
  obtain srv where srv: "h_httpSrv h = Some srv" "BuildJoinTokens (he_groups e) (fl_token fl) gts = Inr (srv_tokens srv)"
    "srv_policy srv = Some \<lparr>p_rules = rules\<rparr>"
    using run(3) by (rule Start_server) (simp add: headless_config_def)
  note tokens = parseJoinTokens_ok[OF run(1)]
  have gts: "(k, v) \<in> set gts \<longleftrightarrow> admits (fl_join_token fl) k v" for k v
    using tokens by (simp add: gomap_in_iff)
  have clean: "group_name g = g \<and> trim_space t = t \<and> t \<noteq> []" if "admits vs g t" for vs g t
    using that ParseJoinToken_clean by (auto simp: admits_def group_name_def)
  have unamb: "\<not> token_clash (token_entries (fl_token fl) gts)"
    "Group (srv_tokens srv) tok = Some g \<longleftrightarrow> tok \<noteq> [] \<and>
       (\<exists>(k, v) \<in> set (token_entries (fl_token fl) gts). trim_space v = tok \<and> group_name k = g)" for tok g
    using BuildJoinTokens_unambiguous[OF assms(1), of gts "fl_token fl"] tokens srv(2) by auto
  have entries: "(\<exists>(k, v) \<in> set (token_entries (fl_token fl) gts). trim_space v = tok \<and> group_name k = g) \<longleftrightarrow>
      (tok = trim_space (fl_token fl) \<and> g = DefaultGroup) \<or> admits (fl_join_token fl) g tok" for tok g
  proof -
    have "(\<exists>(k, v) \<in> set (token_entries (fl_token fl) gts). trim_space v = tok \<and> group_name k = g) \<longleftrightarrow>
        (trim_space (fl_token fl) = tok \<and> group_name DefaultGroup = g) \<or>
        (\<exists>k v. admits (fl_join_token fl) k v \<and> trim_space v = tok \<and> group_name k = g)"
      unfolding token_entries_def Bex_def by (simp add: gts) blast
    moreover have "(\<exists>k v. admits (fl_join_token fl) k v \<and> trim_space v = tok \<and> group_name k = g) \<longleftrightarrow> admits (fl_join_token fl) g tok"
      using clean by metis
    ultimately show ?thesis by (auto simp: group_name_simps)
  qed
  have one: "g = g' \<longleftrightarrow> t = t'" if a: "admits (fl_join_token fl) g t" "admits (fl_join_token fl) g' t'" for g t g' t'
  proof
    assume "g = g'"
    then show "t = t'" using tokens a by (metis option.inject)
  next
    assume "t = t'"
    show "g = g'"
    proof (rule ccontr)
      assume "g \<noteq> g'"
      then have "token_clash (token_entries (fl_token fl) gts)"
        unfolding token_clash_def using a clean[OF a(1)] clean[OF a(2)] \<open>t = t'\<close>
        by (intro exI[of _ g] exI[of _ t] exI[of _ g'] exI[of _ t']) (simp add: token_entries_def gts)
      with unamb(1) show False by blast
    qed
  qed
  have parsed: "\<forall>v \<in> set (fl_join_token fl). \<exists>g t. ParseJoinToken v = Inr (g, t)"
  proof
    fix v assume v: "v \<in> set (fl_join_token fl)"
    then show "\<exists>g t. ParseJoinToken v = Inr (g, t)" using parseJoinTokens_error[of "fl_join_token fl"] run(1)
      by (cases "ParseJoinToken v") auto
  qed
  obtain rs more where policy: "rules = rs @ more" "map ParseRule (fl_acl fl) = map Inr rs"
    "if fl_acl_file fl = [] then more = [] else \<exists>data p. read (fl_acl_file fl) = Some data \<and> Parse unmarshal data = Inr p \<and> more = p_rules p"
    using run(2) unfolding parsePolicy_ok by blast
  have admitted: "Group (srv_tokens srv) tok = Some g \<longleftrightarrow> tok \<noteq> [] \<and>
      (tok = trim_space (fl_token fl) \<and> g = DefaultGroup \<or> (\<exists>v \<in> set (fl_join_token fl). ParseJoinToken v = Inr (g, tok)))" for tok g
    using unamb(2) entries by (simp add: admits_def)
  have apart: "\<forall>v \<in> set (fl_join_token fl). \<forall>w \<in> set (fl_join_token fl). \<forall>g t g' t'.
      ParseJoinToken v = Inr (g, t) \<and> ParseJoinToken w = Inr (g', t') \<longrightarrow> (g = g' \<longleftrightarrow> t = t')"
    using one unfolding admits_def by blast
  show ?thesis using srv(1,3) policy parsed admitted apart by blast
qed

text \<open>The public host is for the printed address only. A headless server without \<open>--relay-public\<close> tells its
  clients the address its relay is bound to, a wildcard replaced by loopback, whatever \<open>--public-host\<close> says; the same
  host with that name in its configuration would tell them the name with the relay's port.
\<close>

theorem public_host_is_not_told_to_the_relay:
  assumes "runHeadless e read unmarshal fl fs = (Inr rep, (h, fs', socks))" and "fl_relay_public fl = []"
    and "list_all host_char name" and "name \<noteq> []"
  shows "\<exists>srv bound cfg. h_httpSrv h = Some srv \<and> he_udp e (fl_relay_addr fl) = Some bound \<and>
    srv_relayAddr srv = localAddr (addrport_string bound) \<and> hr_join rep = JoinURL h (fl_public_host fl) \<and>
    h_cfg h = Some cfg \<and>
    (\<forall>p. bound = (V4 0, p) \<longrightarrow> srv_relayAddr srv = ''127.0.0.1:'' @ nat_str p \<and>
       relayPublic (cfg\<lparr>hc_PublicHost := name\<rparr>) (addrport_string bound) = name @ '':'' @ nat_str p)"
proof -
  obtain gts rules where run: "Start e (headless_config fl gts rules) (host_New, fs, {}) = (Inr (), (h, fs', socks))"
    and join: "hr_join rep = JoinURL h (fl_public_host fl)"
    using assms(1) by (rule runHeadless_ok)
  let ?cfg = "headless_config fl gts rules"
  obtain srv bound where srv: "h_httpSrv h = Some srv" "he_udp e (fl_relay_addr fl) = Some bound"
    "srv_relayAddr srv = relayPublic ?cfg (addrport_string bound)"
    using run by (rule Start_server) (simp add: headless_config_def)
  have h: "h_cfg h = Some ?cfg" using run by (rule Start_success) simp
  have fields: "hc_RelayPublic ?cfg = []" "hc_PublicHost ?cfg = []" using assms(2) by (simp_all add: headless_config_def)
  have relay: "srv_relayAddr srv = localAddr (addrport_string bound)" using srv(3) fields by (simp add: relayPublic_def hostOf_def)
  have colon: "CHR '':'' \<notin> set name" using assms(3) by (rule host_char_plain) simp
  have bare: "hostOf name = name" "join_host_port name (nat_str p) = name @ '':'' @ nat_str p" for p
    using assms(4) colon by (simp_all add: hostOf_def split_bare join_host_port_def)
  have zero: "localAddr (addrport_string (V4 0, p)) = ''127.0.0.1:'' @ nat_str p" for p
    unfolding localAddr_string if_P[OF refl] unfolding join_string4[symmetric] loopback_text by (simp add: join_host_port_def)
  have named: "relayPublic (?cfg\<lparr>hc_PublicHost := name\<rparr>) (addrport_string (V4 0, p)) = name @ '':'' @ nat_str p" for p
    using fields(1) assms(4) bare by (simp add: relayPublic_def)
  show ?thesis using srv(1,2) relay join h zero named by (intro exI[of _ srv] exI[of _ bound] exI[of _ ?cfg]) auto
qed

text \<open>A server restarts only into a newer version. If the update loop ends the process, then the binary that is
  there was completely downloaded at one of its ticks, as the newest release of that tick, and is newer than
  the version that was running, and the process was started anew; as long as it does not, it goes on for all
  its ticks, and without a newer release the binary is the one there was.
\<close>

theorem restarts_only_into_a_newer_version:
  assumes "autoUpdateLoop place current b ts = (b', restarted)"
  shows "(restarted \<longrightarrow> (\<exists>t \<in> set ts. \<exists>ver url status. latestServerAsset (ut_get t) (fst place) (fst (snd place)) (snd (snd place)) = Inr (ver, url) \<and>
            IsNewer current ver \<and> ut_download t url = Some (200, status, b') \<and> ut_replace t b' \<and> restartSelf t)) \<and>
    (b' \<noteq> b \<longrightarrow> (\<exists>t \<in> set ts. \<exists>ver url. latestServerAsset (ut_get t) (fst place) (fst (snd place)) (snd (snd place)) = Inr (ver, url) \<and>
            IsNewer current ver \<and> (\<exists>status. ut_download t url = Some (200, status, b'))))"
  using assms
proof (induction ts arbitrary: b)
  case (Cons t ts)
  obtain ver updated err b1 where u: "SelfUpdateServer (ut_get t) (ut_download t) (ut_replace t) place current b = ((ver, updated, err), b1)"
    by (metis prod.collapse)
  have step: "b1 = b \<or> (\<exists>ver url status. latestServerAsset (ut_get t) (fst place) (fst (snd place)) (snd (snd place)) = Inr (ver, url) \<and>
      IsNewer current ver \<and> ut_download t url = Some (200, status, b1) \<and> ut_replace t b1)" and
    took: "updated \<Longrightarrow> \<exists>ver url status. latestServerAsset (ut_get t) (fst place) (fst (snd place)) (snd (snd place)) = Inr (ver, url) \<and>
      IsNewer current ver \<and> ut_download t url = Some (200, status, b1) \<and> ut_replace t b1"
    using u by (auto simp: SelfUpdateServer_def split: prod.splits sum.splits if_splits option.splits)
  show ?case
  proof (cases "err = None \<and> updated \<and> restartSelf t")
    case True
    then have "b' = b1" "restarted" using Cons.prems u by auto
    then show ?thesis using took True by fastforce
  next
    case False
    then have run: "autoUpdateLoop place current b1 ts = (b', restarted)" using Cons.prems u by auto
    show ?thesis using Cons.IH[OF run] step by fastforce
  qed
qed simp

section \<open>Witnesses\<close>

definition demo_flags :: flags where
  "demo_flags = default_flags\<lparr>fl_addr := '':8787'', fl_token := ''secret'', fl_relay_addr := '':3478'', fl_tls := ''self'',
     fl_tls_dir := ''/var/lib/zwan/tls'', fl_public_host := ''vpn.example'', fl_join_token := [''dev=t1''], fl_acl := [''dev->*'']\<rparr>"

lemma demo_headless:
  obtains rep h fs' socks where "runHeadless demo_host_env (\<lambda>f. None) (\<lambda>d. None) demo_flags (\<lambda>p. None) = (Inr rep, (h, fs', socks))"
proof -
  obtain h' fs' socks' where "Start demo_host_env demo_host_config (host_New, (\<lambda>p. None), {}) = (Inr (), (h', fs', socks'))"
    by (rule demo_Start)
  then obtain r where "start_tls demo_host_env demo_host_config (\<lambda>p. None) = (Inr r, fs')" by (rule Start_success)
  moreover have "flag_list [] = []" "ParseMode ''self'' = Inr ModeSelf" by code_simp+
  ultimately have tls: "start_tls demo_host_env (headless_config demo_flags gts rules) (\<lambda>p. None) = (Inr r, fs')" for gts rules
    by (simp add: start_tls_def demo_host_config_def headless_config_def demo_flags_def default_flags_def)
  have flags: "parseJoinTokens [''dev=t1''] = Inr [(''dev'', ''t1'')]"
    "parsePolicy (\<lambda>f. None) (\<lambda>d. None) [''dev->*''] [] = Inr [\<lparr>r_src = [''dev''], r_dst = [''*'']\<rparr>]" by code_simp+
  have t: "BuildJoinTokens (\<lambda>xs. xs) ''secret'' [(''dev'', ''t1'')] = Inr [(''secret'', ''default''), (''t1'', ''dev'')]" by code_simp
  have "\<exists>mac. Start demo_host_env (headless_config demo_flags [(''dev'', ''t1'')] [\<lparr>r_src = [''dev''], r_dst = [''*'']\<rparr>]) (host_New, (\<lambda>p. None), {}) = (Inr (), mac)"
    using tls t Split_16 by (simp add: Start_def host_New_def demo_host_env_def headless_config_def demo_flags_def default_flags_def Let_def)
  then have "\<exists>rep mac. runHeadless demo_host_env (\<lambda>f. None) (\<lambda>d. None) demo_flags (\<lambda>p. None) = (Inr rep, mac)"
    using flags by (auto simp: runHeadless_def demo_flags_def default_flags_def Let_def)
  then show ?thesis using that by (metis prod_cases3)
qed

theorem flags_witness:
  "\<exists>rep h fs socks srv. runHeadless demo_host_env (\<lambda>f. None) (\<lambda>d. None) demo_flags (\<lambda>p. None) = (Inr rep, (h, fs, socks)) \<and>
     h_httpSrv h = Some srv \<and> Group (srv_tokens srv) ''t1'' = Some ''dev''"
proof -
  obtain rep h fs' socks where run: "runHeadless demo_host_env (\<lambda>f. None) (\<lambda>d. None) demo_flags (\<lambda>p. None) = (Inr rep, (h, fs', socks))"
    by (rule demo_headless)
  have f: "fl_join_token demo_flags = [''dev=t1'']" by (simp add: demo_flags_def)
  have p: "ParseJoinToken ''dev=t1'' = Inr (''dev'', ''t1'')" by code_simp
  have "reorders (he_groups demo_host_env)" by (simp add: demo_host_env_def)
  from flags_are_the_access_control[OF this run]
  have "\<exists>srv. h_httpSrv h = Some srv \<and> (\<forall>tok g. Group (srv_tokens srv) tok = Some g \<longleftrightarrow> tok \<noteq> [] \<and>
      (tok = trim_space (fl_token demo_flags) \<and> g = DefaultGroup \<or> (\<exists>v \<in> set (fl_join_token demo_flags). ParseJoinToken v = Inr (g, tok))))"
    by (elim exE conjE) (intro exI conjI)
  then obtain srv where srv: "h_httpSrv h = Some srv" and g: "\<forall>tok g. Group (srv_tokens srv) tok = Some g \<longleftrightarrow> tok \<noteq> [] \<and>
      (tok = trim_space (fl_token demo_flags) \<and> g = DefaultGroup \<or> (\<exists>v \<in> set (fl_join_token demo_flags). ParseJoinToken v = Inr (g, tok)))"
    by blast
  have "Group (srv_tokens srv) ''t1'' = Some ''dev''"
    by (rule g[rule_format, THEN iffD2]) (use p f in simp)
  with run srv show ?thesis by blast
qed

theorem public_host_witness:
  "\<exists>rep h fs socks srv. runHeadless demo_host_env (\<lambda>f. None) (\<lambda>d. None) demo_flags (\<lambda>p. None) = (Inr rep, (h, fs, socks)) \<and>
     h_httpSrv h = Some srv \<and> srv_relayAddr srv = ''127.0.0.1:'' @ nat_str 3478 \<and> hr_join rep = JoinURL h ''vpn.example''"
proof -
  obtain rep h fs' socks where run: "runHeadless demo_host_env (\<lambda>f. None) (\<lambda>d. None) demo_flags (\<lambda>p. None) = (Inr rep, (h, fs', socks))"
    by (rule demo_headless)
  have f: "fl_relay_public demo_flags = []" "fl_public_host demo_flags = ''vpn.example''" by (simp_all add: demo_flags_def default_flags_def)
  have n: "list_all host_char ''vpn.example''" "''vpn.example'' \<noteq> []" by code_simp+
  have u: "he_udp demo_host_env a = Some (V4 0, 3478)" for a by (simp add: demo_host_env_def)
  from public_host_is_not_told_to_the_relay[OF run f(1) n]
  show ?thesis unfolding f(2) u option.inject using run by blast
qed

definition demo_tick :: "nat update_tick" where
  "demo_tick = \<lparr>ut_get = demo_get, ut_download = demo_download, ut_replace = (\<lambda>b. True), ut_executable = True, ut_started = True\<rparr>"

theorem restarts_witness:
  "autoUpdateLoop (''Zeliper'', ''zwan'', ServerAssetName ''linux'' ''amd64'') ''v1.9.2'' 1 [demo_tick] = (2, True) \<and>
   (\<exists>ver. IsNewer ''v1.9.2'' ver)"
proof -
  have run: "autoUpdateLoop (''Zeliper'', ''zwan'', ServerAssetName ''linux'' ''amd64'') ''v1.9.2'' 1 [demo_tick] = (2, True)" by code_simp
  with restarts_only_into_a_newer_version[OF run] show ?thesis by blast
qed

end
