(* ===== verification/Netsh.thy ===== *)
theory Netsh
  imports NetAddr
begin

text \<open>
  Machine settings made through \<open>netsh\<close>: the adapter's addresses and routes (\<open>client/tun/tun.go\<close>,
  \<open>client/tun/ipcfg_windows.go\<close>) and the firewall rules of the services (\<open>shared/firewall\<close>). Running \<open>netsh\<close> is an
  argument, a step of the machine that gives its output and whether it succeeded; the adapter's driver is one too.
\<close>

section \<open>Running netsh\<close>

type_synonym 'm netsh = "string list \<Rightarrow> 'm \<Rightarrow> (string \<times> bool) \<times> 'm"

datatype netsh_error = SetFailed nat string | AddFailed string string string | RouteFailed string string string
  | RuleIncompleteFw | RuleNotAdded string string | RuleNotRemoved string string | NoAdapter string

text \<open>The bytes of the Korean messages.\<close>

definition ko_exists :: string where
  "ko_exists = [CHR 0xEC, CHR 0x9D, CHR 0xB4, CHR 0xEB, CHR 0xAF, CHR 0xB8, CHR '' '', CHR 0xEC, CHR 0x9E, CHR 0x88]"

definition ko_match :: string where
  "ko_match = [CHR 0xEC, CHR 0x9D, CHR 0xBC, CHR 0xEC, CHR 0xB9, CHR 0x98, CHR 0xED, CHR 0x95, CHR 0x98, CHR 0xEB, CHR 0x8A, CHR 0x94]"

definition ko_find :: string where
  "ko_find = [CHR 0xEC, CHR 0xB0, CHR 0xBE, CHR 0xEC, CHR 0x9D, CHR 0x84, CHR '' '', CHR 0xEC, CHR 0x88, CHR 0x98, CHR '' '',
     CHR 0xEC, CHR 0x97, CHR 0x86]"

section \<open>Addresses and routes\<close>

definition DefaultMTU :: int where
  "DefaultMTU = 1420"

record adapter =
  ad_Name :: string
  ad_open :: bool

text \<open>\<open>Create\<close>: the driver is asked for the name and the MTU, a default one when none is given.\<close>

definition adapter_Create :: "(string \<Rightarrow> int \<Rightarrow> bool) \<Rightarrow> string \<Rightarrow> int \<Rightarrow> netsh_error + adapter" where
  "adapter_Create create name mtu0 =
     (let mtu = (if mtu0 \<le> 0 then DefaultMTU else mtu0) in
      if create name mtu then Inr \<lparr>ad_Name = name, ad_open = True\<rparr> else Inl (NoAdapter name))"

text \<open>\<open>net.CIDRMask\<close> as four numbers.\<close>

definition dotted_mask :: "nat \<Rightarrow> string" where
  "dotted_mask bits = string4 (mask4 (- 1) bits)"

definition set_args :: "string \<Rightarrow> string \<Rightarrow> nat \<Rightarrow> string list" where
  "set_args name ip bits = [''interface'', ''ipv4'', ''set'', ''address'', ''name='' @ name, ''static'', ip, dotted_mask bits]"

text \<open>The loop of \<open>setIPv4\<close>: the attempts that are left, and the error of the last one.\<close>

fun set_loop :: "'m netsh \<Rightarrow> string list \<Rightarrow> nat \<Rightarrow> nat \<Rightarrow> netsh_error option \<Rightarrow> 'm \<Rightarrow> netsh_error option \<times> 'm" where
  "set_loop run args i 0 last_err m = (last_err, m)"
| "set_loop run args i (Suc n) last_err m =
     (case run args m of
        ((out, True), m') \<Rightarrow> (None, m')
      | ((out, False), m') \<Rightarrow> set_loop run args (i + 1) n (Some (SetFailed (i + 1) out)) m')"

definition setIPv4 :: "'m netsh \<Rightarrow> string \<Rightarrow> string \<Rightarrow> nat \<Rightarrow> 'm \<Rightarrow> netsh_error option \<times> 'm" where
  "setIPv4 run name ip bits m = set_loop run (set_args name ip bits) 0 12 None m"

definition alreadyThere :: "string \<Rightarrow> bool" where
  "alreadyThere out \<longleftrightarrow> str_contains out ''already exists'' \<or> str_contains out ko_exists"

definition addIPv4 :: "'m netsh \<Rightarrow> string \<Rightarrow> string \<Rightarrow> nat \<Rightarrow> 'm \<Rightarrow> netsh_error option \<times> 'm" where
  "addIPv4 run name ip bits m =
     (case run [''interface'', ''ipv4'', ''add'', ''address'', ''name='' @ name, ip, dotted_mask bits] m of
        ((out, ok), m') \<Rightarrow> (if ok \<or> alreadyThere out then None else Some (AddFailed ip name out), m'))"

definition addRoute :: "'m netsh \<Rightarrow> string \<Rightarrow> string \<Rightarrow> 'm \<Rightarrow> netsh_error option \<times> 'm" where
  "addRoute run name peerIP m =
     (case run [''interface'', ''ipv4'', ''add'', ''route'', ''prefix='' @ peerIP @ ''/32'', ''interface='' @ name, ''store=active''] m of
        ((out, ok), m') \<Rightarrow> (if ok \<or> alreadyThere out then None else Some (RouteFailed peerIP name out), m'))"

definition SetNodeIP :: "'m netsh \<Rightarrow> adapter \<Rightarrow> string \<Rightarrow> 'm \<Rightarrow> netsh_error option \<times> 'm" where
  "SetNodeIP run a ip m = setIPv4 run (ad_Name a) ip 32 m"

definition AddServiceIP :: "'m netsh \<Rightarrow> adapter \<Rightarrow> string \<Rightarrow> 'm \<Rightarrow> netsh_error option \<times> 'm" where
  "AddServiceIP run a ip m = addIPv4 run (ad_Name a) ip 32 m"

definition AddPeerRoute :: "'m netsh \<Rightarrow> adapter \<Rightarrow> string \<Rightarrow> 'm \<Rightarrow> netsh_error option \<times> 'm" where
  "AddPeerRoute run a peerIP m = addRoute run (ad_Name a) peerIP m"

section \<open>Firewall rules\<close>

record fw_rule =
  fw_Name :: string
  fw_Exe :: string
  fw_Description :: string

definition addArgs :: "fw_rule \<Rightarrow> string list" where
  "addArgs r = [''advfirewall'', ''firewall'', ''add'', ''rule'', ''name='' @ fw_Name r, ''dir=in'', ''action=allow'',
     ''program='' @ fw_Exe r, ''description='' @ fw_Description r, ''profile=any'', ''enable=yes'']"

definition deleteArgs :: "string \<Rightarrow> string list" where
  "deleteArgs name = [''advfirewall'', ''firewall'', ''delete'', ''rule'', ''name='' @ name]"

definition notFound :: "string \<Rightarrow> bool" where
  "notFound out \<longleftrightarrow> (let s = to_lower out in
     str_contains s ''no rules match'' \<or> str_contains s ''not match'' \<or> str_contains s ko_match \<or> str_contains s ko_find)"

definition firewall_run :: "'m netsh \<Rightarrow> string list \<Rightarrow> 'm \<Rightarrow> (string \<times> bool) \<times> 'm" where
  "firewall_run run args m = (case run args m of ((out, ok), m') \<Rightarrow> ((trim_space out, ok), m'))"

definition firewall_Remove :: "'m netsh \<Rightarrow> string \<Rightarrow> 'm \<Rightarrow> netsh_error option \<times> 'm" where
  "firewall_Remove run name m =
     (case firewall_run run (deleteArgs name) m of
        ((out, ok), m') \<Rightarrow> (if \<not> ok \<and> \<not> notFound out then Some (RuleNotRemoved name out) else None, m'))"

definition firewall_Allow :: "'m netsh \<Rightarrow> fw_rule \<Rightarrow> 'm \<Rightarrow> netsh_error option \<times> 'm" where
  "firewall_Allow run r m =
     (if fw_Name r = [] \<or> fw_Exe r = [] then (Some RuleIncompleteFw, m)
      else case firewall_run run (addArgs r) (snd (firewall_Remove run (fw_Name r) m)) of
          ((out, ok), m') \<Rightarrow> (if ok then None else Some (RuleNotAdded (fw_Name r) out), m'))"

section \<open>Retrying\<close>

lemma funpow_front: "(f ^^ Suc k) m = (f ^^ k) (f m)"
  by (simp add: funpow_Suc_right del: funpow.simps)

lemma set_loop_result:
  defines "nxt \<equiv> \<lambda>run args m. snd (run args m)" and "good \<equiv> \<lambda>run args m. snd (fst (run args m))"
  shows "set_loop run args i n err m =
    (if \<exists>k<n. good run args ((nxt run args ^^ k) m)
     then (None, (nxt run args ^^ Suc (LEAST k. good run args ((nxt run args ^^ k) m))) m)
     else (if n = 0 then err else Some (SetFailed (i + n) (fst (fst (run args ((nxt run args ^^ (n - 1)) m))))), (nxt run args ^^ n) m))"
proof (induction n arbitrary: i err m)
  case (Suc n)
  obtain out ok m' where r: "run args m = ((out, ok), m')" by (metis prod.collapse)
  then have n: "nxt run args m = m'" "good run args m = ok" by (simp_all add: nxt_def good_def)
  show ?case
  proof (cases ok)
    case True
    have "(LEAST k. good run args ((nxt run args ^^ k) m)) = 0" using n True by (intro Least_eq_0) simp
    moreover have "\<exists>k<Suc n. good run args ((nxt run args ^^ k) m)" using n True by (intro exI[of _ 0]) simp
    ultimately show ?thesis using r True n by simp
  next
    case False
    have shift: "(\<exists>k<Suc n. good run args ((nxt run args ^^ k) m)) \<longleftrightarrow> (\<exists>k<n. good run args ((nxt run args ^^ k) m'))"
      using n False by (simp add: less_Suc_eq_0_disj ex_disj_distrib funpow_front del: funpow.simps) (auto simp: funpow_front simp del: funpow.simps)
    have least: "(LEAST k. good run args ((nxt run args ^^ k) m)) = Suc (LEAST k. good run args ((nxt run args ^^ k) m'))"
      if k: "good run args ((nxt run args ^^ k) m')" for k
    proof -
      have "good run args ((nxt run args ^^ Suc k) m)" using k n(1) by (simp only: funpow_front)
      from Least_Suc[of "\<lambda>k. good run args ((nxt run args ^^ k) m)", OF this] False n(2)
      show ?thesis by (simp add: funpow_front n(1) del: funpow.simps(2))
    qed
    show ?thesis
    proof (cases "\<exists>k<n. good run args ((nxt run args ^^ k) m')")
      case True
      then obtain k where "good run args ((nxt run args ^^ k) m')" by blast
      note least[OF this]
      then show ?thesis using Suc.IH[of "i + 1" "Some (SetFailed (i + 1) out)" m'] True shift r False n
        by (simp add: funpow_front del: funpow.simps(2))
    next
      case none: False
      have "(nxt run args ^^ n) m = (nxt run args ^^ (n - 1)) m'" if "n \<noteq> 0"
        using that n(1) by (cases n) (simp_all add: funpow_front del: funpow.simps(2))
      then show ?thesis using Suc.IH[of "i + 1" "Some (SetFailed (i + 1) out)" m'] none shift r False n
        by (auto simp: funpow_front simp del: funpow.simps(2))
    qed
  qed
qed simp

text \<open>The adapter's address is tried twelve times and no more. The same command is given until it succeeds for the
  first time, which is then the last command given; if none of the first twelve succeeds the error is that of
  the twelfth, with its number.
\<close>

theorem an_address_is_tried_twelve_times:
  fixes run :: "'m netsh" and name ip :: string and bits :: nat
  defines "nxt \<equiv> \<lambda>m. snd (run (set_args name ip bits) m)" and "good \<equiv> \<lambda>m. snd (fst (run (set_args name ip bits) m))"
  shows "setIPv4 run name ip bits m =
    (if \<exists>i<12. good ((nxt ^^ i) m) then (None, (nxt ^^ Suc (LEAST i. good ((nxt ^^ i) m))) m)
     else (Some (SetFailed 12 (fst (fst (run (set_args name ip bits) ((nxt ^^ 11) m))))), (nxt ^^ 12) m))"
  unfolding setIPv4_def set_loop_result nxt_def good_def by simp

section \<open>One rule per program\<close>

text \<open>
  The documented behaviour of the firewall commands: adding puts a rule behind those there are, deleting takes out
  every rule of the name, a command that fails changes nothing, and deleting says that nothing matches when
  no rule has the name.
\<close>

definition firewall_ok :: "'m netsh \<Rightarrow> ('m \<Rightarrow> (string \<times> string) list) \<Rightarrow> bool" where
  "firewall_ok run rules \<longleftrightarrow>
     (\<forall>r m out ok m'. run (addArgs r) m = ((out, ok), m') \<longrightarrow>
        rules m' = (if ok then rules m @ [(fw_Name r, fw_Exe r)] else rules m)) \<and>
     (\<forall>n m out ok m'. run (deleteArgs n) m = ((out, ok), m') \<longrightarrow>
        rules m' = (if ok then filter (\<lambda>x. fst x \<noteq> n) (rules m) else rules m) \<and>
        (notFound (trim_space out) \<longrightarrow> \<not> ok \<and> n \<notin> fst ` set (rules m)) \<and>
        (n \<notin> fst ` set (rules m) \<longrightarrow> \<not> ok \<and> notFound (trim_space out)))"

lemma Remove_rules:
  assumes "firewall_ok run rules" and "firewall_Remove run n m = (err, m')"
  shows "(if err = None then rules m' = filter (\<lambda>x. fst x \<noteq> n) (rules m) else rules m' = rules m \<and> n \<in> fst ` set (rules m))"
proof -
  obtain out ok where r: "run (deleteArgs n) m = ((out, ok), m')"
    "err = (if \<not> ok \<and> \<not> notFound (trim_space out) then Some (RuleNotRemoved n (trim_space out)) else None)"
    using assms(2) by (auto simp: firewall_Remove_def firewall_run_def split: prod.splits)
  have "rules m' = (if ok then filter (\<lambda>x. fst x \<noteq> n) (rules m) else rules m) \<and>
      (notFound (trim_space out) \<longrightarrow> \<not> ok \<and> n \<notin> fst ` set (rules m)) \<and> (n \<notin> fst ` set (rules m) \<longrightarrow> \<not> ok \<and> notFound (trim_space out))"
    using assms(1) r(1) unfolding firewall_ok_def by blast
  moreover have "filter (\<lambda>x. fst x \<noteq> n) (rules m) = rules m" if "n \<notin> fst ` set (rules m)"
    using that by (auto simp: filter_id_conv)
  ultimately show ?thesis using r(2) by (auto split: if_splits)
qed

lemma Allow_rules:
  assumes "firewall_ok run rules" and "firewall_Allow run r m = (None, m')"
  shows "rules m' = (if fst (firewall_Remove run (fw_Name r) m) = None then filter (\<lambda>x. fst x \<noteq> fw_Name r) (rules m) else rules m)
      @ [(fw_Name r, fw_Exe r)] \<and> fw_Name r \<noteq> [] \<and> fw_Exe r \<noteq> []"
proof -
  obtain e m1 where rm: "firewall_Remove run (fw_Name r) m = (e, m1)" by (cases "firewall_Remove run (fw_Name r) m")
  have ne: "fw_Name r \<noteq> []" "fw_Exe r \<noteq> []" using assms(2) by (auto simp: firewall_Allow_def split: if_splits)
  then obtain out where "run (addArgs r) m1 = ((out, True), m')"
    using assms(2) rm by (auto simp: firewall_Allow_def firewall_run_def split: prod.splits if_splits)
  then have "rules m' = rules m1 @ [(fw_Name r, fw_Exe r)]" using assms(1) unfolding firewall_ok_def by force
  then show ?thesis using Remove_rules[OF assms(1) rm] rm ne by (auto split: if_splits)
qed

text \<open>A program has one firewall rule. Whatever rules there were, allowing a program whose old rules could be taken out
  leaves exactly one rule of its name, for its executable, and leaves the rules of other names as they were; when
  the old ones could not be taken out they stay beside it. Removing takes out every rule of the name and no
  other, and fails only when there is one.
\<close>

theorem one_rule_per_program:
  assumes "firewall_ok run rules"
  shows "(firewall_Allow run r m = (None, m') \<longrightarrow>
      filter (\<lambda>x. fst x \<noteq> fw_Name r) (rules m') = filter (\<lambda>x. fst x \<noteq> fw_Name r) (rules m) \<and>
      filter (\<lambda>x. fst x = fw_Name r) (rules m') =
        (if fst (firewall_Remove run (fw_Name r) m) = None then [] else filter (\<lambda>x. fst x = fw_Name r) (rules m)) @ [(fw_Name r, fw_Exe r)]) \<and>
    (firewall_Remove run n m = (None, m'') \<longrightarrow> rules m'' = filter (\<lambda>x. fst x \<noteq> n) (rules m)) \<and>
    (firewall_Remove run n m = (Some err, m'') \<longrightarrow> rules m'' = rules m \<and> n \<in> fst ` set (rules m))"
proof (intro conjI impI)
  assume a: "firewall_Allow run r m = (None, m')"
  note rules = Allow_rules[OF assms a]
  show "filter (\<lambda>x. fst x \<noteq> fw_Name r) (rules m') = filter (\<lambda>x. fst x \<noteq> fw_Name r) (rules m)" using rules by simp
  show "filter (\<lambda>x. fst x = fw_Name r) (rules m') =
      (if fst (firewall_Remove run (fw_Name r) m) = None then [] else filter (\<lambda>x. fst x = fw_Name r) (rules m)) @ [(fw_Name r, fw_Exe r)]"
    using rules by (simp add: filter_empty_conv)
qed (use Remove_rules[OF assms, of n m] in \<open>force\<close>)+

section \<open>Witness\<close>

text \<open>A firewall that keeps its rules in a list.\<close>

definition demo_netsh :: "(string \<times> string) list netsh" where
  "demo_netsh args m =
     (if args ! 2 = ''add'' then (([], True), m @ [(drop 5 (args ! 4), drop 8 (args ! 7))])
      else if drop 5 (args ! 4) \<in> fst ` set m then (([], True), filter (\<lambda>x. fst x \<noteq> drop 5 (args ! 4)) m)
      else ((''No rules match the specified criteria.'', False), m))"

lemma demo_firewall_ok: "firewall_ok demo_netsh (\<lambda>m. m)"
proof -
  have "notFound (trim_space ''No rules match the specified criteria.'')" "\<not> notFound (trim_space [])" by code_simp+
  then show ?thesis
    by (auto simp: firewall_ok_def demo_netsh_def addArgs_def deleteArgs_def split: if_splits)
qed

definition demo_fw_rule :: fw_rule where
  "demo_fw_rule = \<lparr>fw_Name = ''zwan'', fw_Exe = ''new.exe'', fw_Description = []\<rparr>"

theorem one_rule_witness:
  "\<exists>m'. firewall_Allow demo_netsh demo_fw_rule [(''zwan'', ''old.exe''), (''dns'', ''d.exe'')] = (None, m') \<and>
     filter (\<lambda>x. fst x = ''zwan'') m' = [(''zwan'', ''new.exe'')]"
proof -
  let ?m = "[(''zwan'', ''old.exe''), (''dns'', ''d.exe'')]"
  have run: "firewall_Allow demo_netsh demo_fw_rule ?m = (None, [(''dns'', ''d.exe''), (''zwan'', ''new.exe'')])" by code_simp
  have rm: "fst (firewall_Remove demo_netsh (fw_Name demo_fw_rule) ?m) = None" by code_simp
  note all = one_rule_per_program[OF demo_firewall_ok, of demo_fw_rule ?m "[(''dns'', ''d.exe''), (''zwan'', ''new.exe'')]" "[]" ?m RuleIncompleteFw]
  from conjunct1[OF all, rule_format, OF run] rm
  have "filter (\<lambda>x. fst x = fw_Name demo_fw_rule) [(''dns'', ''d.exe''), (''zwan'', ''new.exe'')] = [(fw_Name demo_fw_rule, fw_Exe demo_fw_rule)]"
    by simp
  then show ?thesis using run by (auto simp: demo_fw_rule_def)
qed

end
