(* ===== verification/VipTable.thy ===== *)
theory VipTable
  imports NetAddr
begin

text \<open>
  \<open>client/vip/table.go\<close>: one network's two-way mapping between overlay addresses and the local
  addresses this device uses for them. The read lock and the second look under the write lock make
  \<open>Local\<close> one atomic function: a caller that loses the race gets the winner's address.
\<close>

record table =
  tb_prefix :: prefix
  tb_real :: prefix
  tb_base :: u32
  tb_size :: u32
  tb_toLocal :: "addr \<rightharpoonup> addr"
  tb_toReal :: "addr \<rightharpoonup> addr"
  tb_used :: "u32 \<Rightarrow> bool"
  tb_next :: u32

datatype table_error =
    LocalNotIPv4 prefix
  | OverlayNotIPv4 prefix
  | LocalTooSmall prefix

text \<open>\<open>toUint32\<close> is applied to IPv4 addresses only.\<close>

fun toUint32 :: "addr \<Rightarrow> u32" where
  "toUint32 (V4 a) = a"
| "toUint32 _ = 0"

definition fromUint32 :: "u32 \<Rightarrow> addr" where
  "fromUint32 v = V4 v"

definition NewTable :: "prefix \<Rightarrow> prefix \<Rightarrow> table_error + table" where
  "NewTable local real =
     (let local = prefix_masked local; real = prefix_masked real in
      if \<not> addr_is4 (prefix_addr local) then Inl (LocalNotIPv4 local)
      else if \<not> addr_is4 (prefix_addr real) then Inl (OverlayNotIPv4 real)
      else if prefix_bits local > 30 then Inl (LocalTooSmall local)
      else Inr \<lparr>tb_prefix = local, tb_real = real, tb_base = toUint32 (prefix_addr local),
                tb_size = push_bit (nat (32 - prefix_bits local)) 1,
                tb_toLocal = Map.empty, tb_toReal = Map.empty, tb_used = (\<lambda>_. False), tb_next = 1\<rparr>)"

definition table_Prefix :: "table \<Rightarrow> prefix" where "table_Prefix t = tb_prefix t"
definition Overlay :: "table \<Rightarrow> prefix" where "Overlay t = tb_real t"

definition usable :: "u32 \<Rightarrow> u32 \<Rightarrow> bool" where
  "usable idx sz = (idx \<noteq> 0 \<and> idx \<noteq> sz - 1)"

text \<open>The scan, with the number of turns that are left.\<close>

fun scan_free :: "nat \<Rightarrow> u32 \<Rightarrow> (u32 \<Rightarrow> bool) \<Rightarrow> u32 \<Rightarrow> u32 option \<times> u32" where
  "scan_free 0 sz used nxt = (None, nxt)"
| "scan_free (Suc n) sz used nxt =
     (let idx = nxt; nxt = nxt + 1; nxt = (if nxt \<ge> sz then 1 else nxt) in
      if usable idx sz \<and> \<not> used idx then (Some idx, nxt) else scan_free n sz used nxt)"

definition allocLocked :: "table \<Rightarrow> addr \<Rightarrow> u32 option \<times> table" where
  "allocLocked t real =
     (let want = toUint32 real AND (tb_size t - 1) in
      if usable want (tb_size t) \<and> \<not> tb_used t want then (Some want, t)
      else case scan_free (unat (tb_size t)) (tb_size t) (tb_used t) (tb_next t) of
             (found, nxt) \<Rightarrow> (found, t\<lparr>tb_next := nxt\<rparr>))"

definition Local :: "table \<Rightarrow> addr \<Rightarrow> addr option \<times> table" where
  "Local t real0 =
     (let real = addr_unmap real0 in
      if \<not> addr_is4 real \<or> \<not> prefix_contains (tb_real t) real then (None, t)
      else case tb_toLocal t real of
             Some got \<Rightarrow> (Some got, t)
           | None \<Rightarrow>
               (case allocLocked t real of
                  (None, t) \<Rightarrow> (None, t)
                | (Some idx, t) \<Rightarrow>
                    (let local = fromUint32 (tb_base t + idx) in
                     (Some local,
                      t\<lparr>tb_used := (tb_used t)(idx := True),
                        tb_toLocal := (tb_toLocal t)(real \<mapsto> local),
                        tb_toReal := (tb_toReal t)(local \<mapsto> real)\<rparr>))))"

definition Real :: "table \<Rightarrow> addr \<Rightarrow> addr option" where
  "Real t local = tb_toReal t (addr_unmap local)"

definition Pairs :: "table \<Rightarrow> (addr \<rightharpoonup> addr)" where
  "Pairs t = tb_toLocal t"

section \<open>The invariant\<close>

text \<open>
  Over the local range \<open>base/b\<close>: the two maps are inverse to each other, a local address is the base
  plus a handed-out index, and the cursor stays inside the range.
\<close>

definition table_ok :: "u32 \<Rightarrow> nat \<Rightarrow> prefix \<Rightarrow> table \<Rightarrow> bool" where
  "table_ok base b real t \<longleftrightarrow>
     v4_block base b \<and> 1 \<le> b \<and> b \<le> 30 \<and> tb_base t = base \<and> unat (tb_size t) = 2 ^ (32 - b) \<and>
     tb_prefix t = Prefix (V4 base) b \<and> tb_real t = real \<and>
     0 < unat (tb_next t) \<and> unat (tb_next t) < 2 ^ (32 - b) \<and>
     (\<forall>r l. tb_toLocal t r = Some l \<longleftrightarrow> tb_toReal t l = Some r) \<and>
     (\<forall>r l. tb_toLocal t r = Some l \<longrightarrow> addr_is4 r \<and> prefix_contains real r) \<and>
     (\<forall>l. l \<in> ran (tb_toLocal t) \<longleftrightarrow>
        (\<exists>i. l = V4 (base + i) \<and> tb_used t i \<and> unat i < 2 ^ (32 - b) \<and> usable i (tb_size t))) \<and>
     (\<forall>i. tb_used t i \<longrightarrow> unat i < 2 ^ (32 - b) \<and> usable i (tb_size t))"

lemma table_okD:
  assumes "table_ok base b real t"
  shows "v4_block base b" "1 \<le> b" "b \<le> 30" "tb_base t = base" "unat (tb_size t) = 2 ^ (32 - b)"
    "tb_prefix t = Prefix (V4 base) b" "tb_real t = real"
    "0 < unat (tb_next t)" "unat (tb_next t) < 2 ^ (32 - b)"
    "tb_toLocal t r = Some l \<longleftrightarrow> tb_toReal t l = Some r"
    "tb_toLocal t r = Some l \<Longrightarrow> addr_is4 r \<and> prefix_contains real r"
    "l \<in> ran (tb_toLocal t) \<longleftrightarrow>
        (\<exists>i. l = V4 (base + i) \<and> tb_used t i \<and> unat i < 2 ^ (32 - b) \<and> usable i (tb_size t))"
    "tb_used t i \<Longrightarrow> unat i < 2 ^ (32 - b) \<and> usable i (tb_size t)"
  using assms unfolding table_ok_def by blast+

lemma table_okI:
  assumes "v4_block base b" "1 \<le> b" "b \<le> 30" "tb_base t = base" "unat (tb_size t) = 2 ^ (32 - b)"
    "tb_prefix t = Prefix (V4 base) b" "tb_real t = real"
    "0 < unat (tb_next t)" "unat (tb_next t) < 2 ^ (32 - b)"
    "\<And>r l. tb_toLocal t r = Some l \<longleftrightarrow> tb_toReal t l = Some r"
    "\<And>r l. tb_toLocal t r = Some l \<Longrightarrow> addr_is4 r \<and> prefix_contains real r"
    "\<And>l. l \<in> ran (tb_toLocal t) \<longleftrightarrow>
        (\<exists>i. l = V4 (base + i) \<and> tb_used t i \<and> unat i < 2 ^ (32 - b) \<and> usable i (tb_size t))"
    "\<And>i. tb_used t i \<Longrightarrow> unat i < 2 ^ (32 - b) \<and> usable i (tb_size t)"
  shows "table_ok base b real t"
  unfolding table_ok_def using assms by blast

lemma table_ok_next [inv_intros]:
  assumes "table_ok base b real t" "0 < unat n" "unat n < 2 ^ (32 - b)"
  shows "table_ok base b real (t\<lparr>tb_next := n\<rparr>)"
proof (rule table_okI, goal_cases)
  case (10 r l)
  show ?case using table_okD(10)[OF assms(1)] by simp
next
  case (11 r l)
  then show ?case using table_okD(11)[OF assms(1)] by simp
next
  case (12 l)
  show ?case using table_okD(12)[OF assms(1), of l] by simp
next
  case (13 i)
  then show ?case using table_okD(13)[OF assms(1)] by simp
qed (use table_okD(2)[OF assms(1)] in \<open>simp_all add: table_okD(1,3-9)[OF assms(1)] assms(2,3)\<close>)

lemma pow_bounds: "1 \<le> b \<Longrightarrow> b \<le> 30 \<Longrightarrow> (4::nat) \<le> 2 ^ (32 - b) \<and> 2 ^ (32 - b) \<le> (2147483648::nat)"
proof -
  assume b: "1 \<le> b" "b \<le> 30"
  have "(2::nat) ^ 2 \<le> 2 ^ (32 - b)" using b by (intro power_increasing) auto
  moreover have "(2::nat) ^ (32 - b) \<le> 2 ^ 31" using b by (intro power_increasing) auto
  ultimately show ?thesis by simp
qed

lemma unat_range_size: "1 \<le> b \<Longrightarrow> unat (push_bit (32 - b) (1 :: u32)) = 2 ^ (32 - b)"
proof -
  assume "1 \<le> b"
  then have lt: "(2::nat) ^ (32 - b) < 2 ^ 32" by (intro power_strict_increasing) auto
  have "unat (push_bit (32 - b) (1 :: u32)) = take_bit 32 (push_bit (32 - b) 1)"
    by (simp only: unsigned_push_bit_eq) simp
  also have "\<dots> = 2 ^ (32 - b)"
    using lt by (simp add: take_bit_eq_mod push_bit_eq_mult del: push_bit_of_1)
  finally show ?thesis .
qed

lemma NewTable_ok [inv_intros]:
  assumes "NewTable local real = Inr t" and "1 \<le> prefix_bits local"
  shows "\<exists>base b. table_ok base b (prefix_masked real) t \<and> prefix_masked local = Prefix (V4 base) b"
proof -
  from assms(1) obtain a b where l: "local = Prefix (V4 a) b"
    by (cases local rule: prefix_masked.cases) (auto simp: NewTable_def Let_def split: if_splits)
  have b: "b \<le> 30" "1 \<le> b" using assms by (auto simp: l NewTable_def Let_def split: if_splits)
  have "unat (push_bit (32 - b) (1 :: u32)) = 2 ^ (32 - b)" using b(2) by (rule unat_range_size)
  moreover have "nat (32 - int b) = 32 - b" using b by simp
  moreover have "(4::nat) \<le> 2 ^ (32 - b)" using pow_bounds b by blast
  ultimately have "table_ok (mask4 a b) b (prefix_masked real) t"
    using assms(1) b mask4_block[of b a]
    by (auto simp: l NewTable_def Let_def table_ok_def ran_def split: if_splits)
  then show ?thesis by (auto simp: l)
qed

section \<open>The scan visits every index\<close>

definition scan_pos :: "nat \<Rightarrow> u32 \<Rightarrow> nat \<Rightarrow> nat" where
  "scan_pos m nxt i = 1 + (unat nxt - 1 + i) mod m"

lemma scan_next:
  fixes nxt sz :: u32
  assumes "unat sz = Suc m" "1 \<le> m" "Suc m \<le> 2147483648" "0 < unat nxt" "unat nxt \<le> m"
  defines "nxt' \<equiv> (if nxt + 1 \<ge> sz then 1 else nxt + 1)"
  shows "0 < unat nxt' \<and> unat nxt' \<le> m \<and> scan_pos m nxt' i = scan_pos m nxt (Suc i)"
proof -
  have "unat (nxt + 1) = unat nxt + 1" using assms(3-5) by (simp add: unat_word_ariths)
  then have n': "unat nxt' = (if unat nxt = m then 1 else unat nxt + 1)"
    using assms by (auto simp: nxt'_def word_le_nat_alt)
  show ?thesis
  proof (cases "unat nxt = m")
    case True
    have "m - 1 + Suc i = i + m" using assms(2) by simp
    with True n' assms(2) show ?thesis by (simp add: scan_pos_def)
  next
    case False
    with n' assms show ?thesis by (auto simp: scan_pos_def)
  qed
qed

lemma scan_free_None:
  assumes "scan_free n sz used nxt = (None, nxt')"
    and "unat sz = Suc m" "1 \<le> m" "Suc m \<le> 2147483648" "0 < unat nxt" "unat nxt \<le> m"
  shows "\<forall>i < n. \<forall>idx. unat idx = scan_pos m nxt i \<longrightarrow> usable idx sz \<longrightarrow> used idx"
  using assms(1,5,6)
proof (induction n arbitrary: nxt)
  case (Suc n)
  let ?nxt = "if nxt + 1 \<ge> sz then 1 else nxt + 1"
  from Suc.prems(1) have head: "\<not> (usable nxt sz \<and> \<not> used nxt)"
      and tail: "scan_free n sz used ?nxt = (None, nxt')"
    by (auto simp: Let_def split: if_splits)
  note nx = scan_next[OF assms(2-4) Suc.prems(2,3)]
  have ih: "\<forall>i < n. \<forall>idx. unat idx = scan_pos m ?nxt i \<longrightarrow> usable idx sz \<longrightarrow> used idx"
    by (rule Suc.IH[OF tail]) (use nx in blast)+
  show ?case
  proof (intro allI impI)
    fix i idx
    assume i: "i < Suc n" "unat idx = scan_pos m nxt i" "usable idx sz"
    show "used idx"
    proof (cases i)
      case 0
      with i(2) Suc.prems(2,3) have "unat idx = unat nxt" by (simp add: scan_pos_def)
      then have "idx = nxt" by (simp only: word_unat_eq_iff)
      with head i(3) show ?thesis by simp
    next
      case (Suc j)
      with i nx ih show ?thesis by auto
    qed
  qed
qed simp

lemma scan_free_Some:
  assumes "scan_free n sz used nxt = (Some idx, nxt')"
    and "unat sz = Suc m" "1 \<le> m" "Suc m \<le> 2147483648" "0 < unat nxt" "unat nxt \<le> m"
  shows "usable idx sz \<and> \<not> used idx \<and> unat idx \<le> m"
  using assms(1,5,6)
proof (induction n arbitrary: nxt)
  case (Suc n)
  then show ?case using scan_next[OF assms(2-4) Suc.prems(2,3)]
    by (auto simp: Let_def split: if_splits)
qed simp

lemma scan_free_next:
  assumes "scan_free n sz used nxt = (r, nxt')"
    and "unat sz = Suc m" "1 \<le> m" "Suc m \<le> 2147483648" "0 < unat nxt" "unat nxt \<le> m"
  shows "0 < unat nxt' \<and> unat nxt' \<le> m"
  using assms(1,5,6)
proof (induction n arbitrary: nxt)
  case (Suc n)
  then show ?case using scan_next[OF assms(2-4) Suc.prems(2,3)]
    by (auto simp: Let_def split: if_splits)
qed simp

lemma scan_covers:
  assumes "0 < unat nxt" "unat nxt \<le> m" "0 < k" "k \<le> m"
  shows "\<exists>i < Suc m. k = scan_pos m nxt i"
proof (cases "unat nxt \<le> k")
  case True
  then have "k = scan_pos m nxt (k - unat nxt)" using assms by (simp add: scan_pos_def)
  then show ?thesis using assms by (intro exI[of _ "k - unat nxt"]) auto
next
  case False
  let ?i = "m - unat nxt + k"
  have e: "unat nxt - 1 + ?i = (k - 1) + m" using assms by linarith
  have "(k - 1 + m) mod m = (k - 1) mod m" by (rule mod_add_self2)
  also have "\<dots> = k - 1" using assms by (intro mod_less) linarith
  finally have "(k - 1 + m) mod m = k - 1" .
  then have "k = scan_pos m nxt ?i" using assms unfolding scan_pos_def e by simp
  moreover have "?i < Suc m" using False assms by linarith
  ultimately show ?thesis by blast
qed

section \<open>The table keeps the allocator's contract\<close>

lemma unat_base_idx:
  assumes "v4_block base b" "unat i < 2 ^ (32 - b)"
  shows "unat (base + i) = unat base + unat i"
  using v4_block_bound[OF assms(1)] assms(2) by (simp add: unat_word_ariths)

lemma want_bound:
  fixes sz :: u32
  assumes "unat sz = 2 ^ (32 - b)" and "1 \<le> b"
  shows "unat (w AND (sz - 1)) = unat w mod 2 ^ (32 - b)"
proof -
  have "sz = push_bit (32 - b) 1"
    using assms unat_range_size[OF assms(2)] by (simp only: word_unat_eq_iff)
  then have "sz - 1 = mask (32 - b)" by (simp add: mask_eq_exp_minus_1)
  then have "w AND (sz - 1) = take_bit (32 - b) w" by (simp add: take_bit_eq_mask)
  then have "unat (w AND (sz - 1)) = take_bit (32 - b) (unat w)" by (simp only: unsigned_take_bit_eq)
  then show ?thesis by (simp add: take_bit_eq_mod)
qed

text \<open>What \<open>allocLocked\<close> gives: a free index, or none when every usable index is taken.\<close>

lemma allocLocked_spec:
  assumes ok: "table_ok base b real t" and al: "allocLocked t r = (found, t')"
  shows "\<exists>nxt. t' = t\<lparr>tb_next := nxt\<rparr> \<and> 0 < unat nxt \<and> unat nxt < 2 ^ (32 - b) \<and>
    (case found of
       Some idx \<Rightarrow> usable idx (tb_size t) \<and> \<not> tb_used t idx \<and> unat idx < 2 ^ (32 - b)
     | None \<Rightarrow> \<forall>idx. unat idx < 2 ^ (32 - b) \<and> usable idx (tb_size t) \<longrightarrow> tb_used t idx)"
proof -
  note D = table_okD[OF ok]
  let ?want = "toUint32 r AND (tb_size t - 1)"
  obtain m where m: "2 ^ (32 - b) = Suc m" by (metis Suc_pred' zero_less_power zero_less_numeral)
  have mb: "1 \<le> m" "Suc m \<le> 2147483648" using pow_bounds[OF D(2,3)] unfolding m by simp_all
  have nx: "0 < unat (tb_next t)" "unat (tb_next t) \<le> m" using D(8,9) unfolding m by simp_all
  have sz: "unat (tb_size t) = Suc m" using D(5) unfolding m .
  show ?thesis
  proof (cases "usable ?want (tb_size t) \<and> \<not> tb_used t ?want")
    case True
    then have r: "found = Some ?want" "t' = t" using al by (auto simp: allocLocked_def Let_def)
    have "unat ?want < 2 ^ (32 - b)" unfolding want_bound[OF D(5,2)] by simp
    with r True D(8,9) show ?thesis by (intro exI[of _ "tb_next t"]) simp
  next
    case False
    obtain nxt where sc: "scan_free (Suc m) (tb_size t) (tb_used t) (tb_next t) = (found, nxt)"
      and t': "t' = t\<lparr>tb_next := nxt\<rparr>"
    proof -
      obtain f n where fn: "scan_free (unat (tb_size t)) (tb_size t) (tb_used t) (tb_next t) = (f, n)" by fastforce
      with False al have "found = f" "t' = t\<lparr>tb_next := n\<rparr>" unfolding allocLocked_def Let_def by (simp_all only: if_False) auto
      with fn show thesis using sz by (intro that[of n]) (simp_all only:)
    qed
    have n: "0 < unat nxt" "unat nxt < 2 ^ (32 - b)"
      using scan_free_next[OF sc sz mb nx] unfolding m by simp_all
    show ?thesis
    proof (cases found)
      case None
      have "tb_used t idx" if idx: "unat idx < 2 ^ (32 - b)" "usable idx (tb_size t)" for idx
      proof -
        have "0 < unat idx" using idx(2) by (auto simp: usable_def word_greater_zero_iff unat_gt_0)
        moreover have "unat idx \<le> m" using idx(1) unfolding m by simp
        ultimately obtain i where "i < Suc m" "unat idx = scan_pos m (tb_next t) i"
          using scan_covers[OF nx] by blast
        with scan_free_None[OF sc[unfolded None] sz mb nx] idx(2) show ?thesis by blast
      qed
      with None t' n show ?thesis by auto
    next
      case (Some idx)
      have "usable idx (tb_size t) \<and> \<not> tb_used t idx \<and> unat idx < 2 ^ (32 - b)"
        using scan_free_Some[OF sc[unfolded Some] sz mb nx] unfolding m by simp
      with Some t' n show ?thesis by auto
    qed
  qed
qed

definition local_alloc :: "table \<Rightarrow> u32 \<Rightarrow> addr option \<times> table" where
  "local_alloc t a = Local t (V4 a)"

definition local_held :: "table \<Rightarrow> u32 \<Rightarrow> addr option" where
  "local_held t a = tb_toLocal t (V4 a)"

lemma Local_known:
  assumes "table_ok base b real t" "tb_toLocal t (V4 a) = Some l"
  shows "Local t (V4 a) = (Some l, t)"
  using table_okD(11)[OF assms] assms table_okD(7)[OF assms(1)] by (simp add: Local_def Let_def)

lemma Local_new:
  assumes ok: "table_ok base b real t" and none: "tb_toLocal t (V4 a) = None" and r: "prefix_contains real (V4 a)"
  obtains (taken) nxt where "Local t (V4 a) = (None, t\<lparr>tb_next := nxt\<rparr>)" "0 < unat nxt" "unat nxt < 2 ^ (32 - b)"
      "\<forall>idx. unat idx < 2 ^ (32 - b) \<and> usable idx (tb_size t) \<longrightarrow> tb_used t idx"
    | (fresh) nxt idx where "Local t (V4 a) = (Some (V4 (base + idx)),
          t\<lparr>tb_next := nxt, tb_used := (tb_used t)(idx := True), tb_toLocal := (tb_toLocal t)(V4 a \<mapsto> V4 (base + idx)),
            tb_toReal := (tb_toReal t)(V4 (base + idx) \<mapsto> V4 a)\<rparr>)" "0 < unat nxt" "unat nxt < 2 ^ (32 - b)"
      "usable idx (tb_size t)" "\<not> tb_used t idx" "unat idx < 2 ^ (32 - b)"
      "allocLocked t (V4 a) = (Some idx, t\<lparr>tb_next := nxt\<rparr>)"
proof -
  note D = table_okD[OF ok]
  obtain found t' where al: "allocLocked t (V4 a) = (found, t')" by fastforce
  from allocLocked_spec[OF ok al] obtain nxt where n: "t' = t\<lparr>tb_next := nxt\<rparr>" "0 < unat nxt" "unat nxt < 2 ^ (32 - b)"
    and c: "case found of Some idx \<Rightarrow> usable idx (tb_size t) \<and> \<not> tb_used t idx \<and> unat idx < 2 ^ (32 - b)
     | None \<Rightarrow> \<forall>idx. unat idx < 2 ^ (32 - b) \<and> usable idx (tb_size t) \<longrightarrow> tb_used t idx" by blast
  show thesis
  proof (cases found)
    case None
    then show thesis using al n c none r D(7) by (intro taken[of nxt]) (simp_all add: Local_def Let_def)
  next
    case (Some idx)
    then show thesis using al n c none r D(4,7)
      by (intro fresh[of idx nxt]) (simp_all add: Local_def Let_def fromUint32_def)
  qed
qed

lemma Local_ok [inv_intros]:
  assumes ok: "table_ok base b real t"
  shows "table_ok base b real (snd (Local t a))"
proof -
  note D = table_okD[OF ok]
  have v4: "table_ok base b real (snd (Local t (V4 x)))" for x
  proof (cases "tb_toLocal t (V4 x)")
    case (Some l)
    with ok show ?thesis by (simp add: Local_known)
  next
    case None
    show ?thesis
    proof (cases "prefix_contains real (V4 x)")
      case True
      from ok None True show ?thesis
      proof (cases rule: Local_new)
        case (taken nxt)
        with ok show ?thesis by (simp add: table_ok_next)
      next
        case (fresh nxt idx)
        have new: "V4 (base + idx) \<notin> ran (tb_toLocal t)" using D(12) fresh(5) by auto
        then have nr: "tb_toReal t (V4 (base + idx)) = None"
          using D(10) by (metis not_None_eq ranI)
        have ran': "ran ((tb_toLocal t)(V4 x \<mapsto> V4 (base + idx))) = insert (V4 (base + idx)) (ran (tb_toLocal t))"
          using None by (rule ran_map_upd)
        have inv: "(((tb_toLocal t)(V4 x \<mapsto> V4 (base + idx))) r = Some l) =
            (((tb_toReal t)(V4 (base + idx) \<mapsto> V4 x)) l = Some r)" for r l
        proof -
          have "tb_toLocal t r \<noteq> Some (V4 (base + idx))" using new by (blast intro: ranI)
          moreover have "tb_toReal t l \<noteq> Some (V4 x)" using D(10)[of "V4 x" l] None by simp
          ultimately show ?thesis using D(10)[of r l]
            by (cases "r = V4 x"; cases "l = V4 (base + idx)") simp_all
        qed
        have mem: "l \<in> insert (V4 (base + idx)) (ran (tb_toLocal t)) \<longleftrightarrow>
            (\<exists>i. l = V4 (base + i) \<and> ((tb_used t)(idx := True)) i \<and> unat i < 2 ^ (32 - b) \<and> usable i (tb_size t))" for l
          using D(12)[of l] fresh(4-6) by auto
        show ?thesis
          unfolding fresh(1) snd_conv
        proof (rule table_okI, goal_cases)
          case (10 r l)
          show ?case using inv[of r l] by simp
        next
          case (11 r l)
          then show ?case using D(11)[of r l] True by (cases "r = V4 x") simp_all
        next
          case (12 l)
          show ?case using mem[of l] ran' by simp
        next
          case (13 i)
          then show ?case using D(13)[of i] fresh(4,6) by (cases "i = idx") simp_all
        qed (use D(2) in \<open>simp_all add: D(1,3-9) fresh(2,3)\<close>)
      qed
    next
      case False
      with ok D(7) show ?thesis by (simp add: Local_def)
    qed
  qed
  show ?thesis
  proof (cases "addr_unmap a")
    case (V4 x)
    then have "Local t a = Local t (V4 x)" by (simp add: Local_def)
    with v4 show ?thesis by simp
  qed (use ok in \<open>simp_all add: Local_def\<close>)
qed

interpretation vip: stable_allocator local_alloc local_held "table_ok base b real" for base b real
proof
  fix t k x t'
  assume ok: "table_ok base b real t"
  note D = table_okD[OF ok]
  show "table_ok base b real (snd (local_alloc t k))" using ok by (simp add: local_alloc_def Local_ok)
  show "local_alloc t k = (Some x, t)" if "local_held t k = Some x"
    using Local_known[OF ok] that by (simp add: local_alloc_def local_held_def)
  show "local_held t' = (local_held t)(k \<mapsto> x) \<and> x \<notin> ran (local_held t)"
    if h: "local_held t k = None" and al: "local_alloc t k = (Some x, t')"
  proof -
    have r: "prefix_contains real (V4 k)" using al D(7) by (auto simp: local_alloc_def Local_def Let_def split: if_splits)
    from ok h[unfolded local_held_def] r show ?thesis
    proof (cases rule: Local_new)
      case (fresh nxt idx)
      have "V4 (base + idx) \<notin> ran (tb_toLocal t)" using D(12) fresh(5) by auto
      then show ?thesis using fresh(1) al by (auto simp: local_alloc_def local_held_def ran_def)
    qed (use al in \<open>simp add: local_alloc_def\<close>)
  qed
  show "local_held t' = local_held t" if al: "local_alloc t k = (None, t')"
  proof (cases "tb_toLocal t (V4 k) = None \<and> prefix_contains real (V4 k)")
    case True
    with ok have "tb_toLocal t (V4 k) = None" "prefix_contains real (V4 k)" by simp_all
    from ok this show ?thesis
    proof (cases rule: Local_new)
      case (taken nxt)
      with al show ?thesis by (auto simp: local_alloc_def local_held_def)
    qed (use al in \<open>simp add: local_alloc_def\<close>)
  next
    case False
    with al D(7) show ?thesis by (auto simp: local_alloc_def Local_def Let_def split: if_splits option.splits)
  qed
qed

text \<open>A table after any sequence of lookups.\<close>

definition local_all :: "table \<Rightarrow> addr list \<Rightarrow> table" where
  "local_all t as = foldl (\<lambda>t a. snd (Local t a)) t as"

lemma local_all_ok [inv_intros]: "table_ok base b real t \<Longrightarrow> table_ok base b real (local_all t as)"
  unfolding local_all_def by (induction as arbitrary: t) (auto intro: Local_ok)

lemma Local_Some:
  assumes ok: "table_ok base b real t" and L: "Local t a = (Some l, t')"
  obtains x where "addr_unmap a = V4 x" "local_alloc t x = (Some l, t')" "tb_toLocal t' (V4 x) = Some l"
proof -
  from L obtain x where x: "addr_unmap a = V4 x"
    by (cases "addr_unmap a") (auto simp: Local_def Let_def)
  with L have al: "local_alloc t x = (Some l, t')" by (simp add: local_alloc_def Local_def)
  have "local_held t' x = Some l" using ok al by (rule vip.alloc_held)
  with x al show thesis by (intro that) (simp_all add: local_held_def)
qed

lemma Local_keeps:
  assumes ok: "table_ok base b real t" and "tb_toLocal t (V4 x) = Some l"
  shows "tb_toLocal (snd (Local t a)) (V4 x) = Some l"
proof (cases "addr_unmap a")
  case (V4 y)
  then have "snd (Local t a) = snd (local_alloc t y)" by (simp add: local_alloc_def Local_def)
  with vip.alloc_keeps[OF ok, of x l y] assms(2) show ?thesis by (simp add: local_held_def)
qed (use assms in \<open>simp_all add: Local_def\<close>)

lemma local_all_keeps:
  "table_ok base b real t \<Longrightarrow> tb_toLocal t (V4 x) = Some l \<Longrightarrow> tb_toLocal (local_all t as) (V4 x) = Some l"
  unfolding local_all_def by (induction as arbitrary: t) (auto intro: Local_ok Local_keeps)

lemma table_local_v4:
  assumes ok: "table_ok base b real t" and l: "tb_toLocal t r = Some l"
  shows "\<exists>y. l = V4 y \<and> unat base < unat y \<and> unat y < unat base + 2 ^ (32 - b) - 1"
proof -
  note D = table_okD[OF ok]
  from l have "l \<in> ran (tb_toLocal t)" by (rule ranI)
  then obtain i where i: "l = V4 (base + i)" "unat i < 2 ^ (32 - b)" "usable i (tb_size t)" using D(12) by blast
  have "unat i \<noteq> 0" using i(3) by (auto simp: usable_def unsigned_eq_0_iff)
  moreover have "unat i \<noteq> 2 ^ (32 - b) - 1"
  proof
    assume e: "unat i = 2 ^ (32 - b) - 1"
    have "tb_size t \<noteq> 0" using D(5) by (metis power_not_zero unsigned_0 zero_neq_numeral)
    then have "unat (tb_size t - 1) = 2 ^ (32 - b) - 1" using D(5) by (simp add: unat_minus_one)
    with e have "i = tb_size t - 1" by (simp only: word_unat_eq_iff)
    with i(3) show False by (simp add: usable_def)
  qed
  ultimately show ?thesis using i unat_base_idx[OF D(1) i(2)] by auto
qed

section \<open>Properties\<close>

text \<open>C7: the mapping of a network is a bijection that never changes. The local address an overlay
  address gets stands for it from then on, in both directions and whatever is looked up in between;
  no other overlay address ever shares it; and it lies inside the local range, off its first and
  last address.\<close>

theorem vip_mapping_is_stable_bijection:
  assumes "NewTable local real = Inr t0" and "1 \<le> prefix_bits local"
    and "Local (local_all t0 before) a = (Some l, t1)" and "t2 = local_all t1 later"
  shows "Real t2 l = Some (addr_unmap a) \<and> Local t2 a = (Some l, t2) \<and>
    (\<forall>c. fst (Local t2 c) = Some l \<longrightarrow> addr_unmap c = addr_unmap a) \<and>
    (\<exists>base b y. prefix_masked local = Prefix (V4 base) b \<and> l = V4 y \<and>
       unat base < unat y \<and> unat y < unat base + 2 ^ (32 - b) - 1)"
proof -
  obtain base b where ok0: "table_ok base b (prefix_masked real) t0" and p: "prefix_masked local = Prefix (V4 base) b"
    using NewTable_ok[OF assms(1,2)] by blast
  then have ok: "table_ok base b (prefix_masked real) (local_all t0 before)" by (intro local_all_ok)
  have ok1: "table_ok base b (prefix_masked real) t1" using Local_ok[OF ok, of a] assms(3) by simp
  then have ok2: "table_ok base b (prefix_masked real) t2" unfolding assms(4) by (rule local_all_ok)
  obtain x where x: "addr_unmap a = V4 x" "tb_toLocal t1 (V4 x) = Some l"
    using Local_Some[OF ok assms(3)] by metis
  then have x2: "tb_toLocal t2 (V4 x) = Some l" unfolding assms(4) using ok1 by (intro local_all_keeps)
  obtain y where y: "l = V4 y" "unat base < unat y" "unat y < unat base + 2 ^ (32 - b) - 1"
    using table_local_v4[OF ok2 x2] by blast
  have inverse: "tb_toReal t2 l = Some (V4 x)" using table_okD(10)[OF ok2] x2 by blast
  have "Local t2 a = Local t2 (V4 x)" using x(1) by (simp add: Local_def)
  then have again: "Local t2 a = (Some l, t2)" using Local_known[OF ok2 x2] by simp
  have "addr_unmap c = addr_unmap a" if c: "fst (Local t2 c) = Some l" for c
  proof -
    obtain t3 where t3: "Local t2 c = (Some l, t3)" using c by (cases "Local t2 c") auto
    obtain z where z: "addr_unmap c = V4 z" "tb_toLocal t3 (V4 z) = Some l" using Local_Some[OF ok2 t3] by metis
    have ok3: "table_ok base b (prefix_masked real) t3" using Local_ok[OF ok2, of c] t3 by simp
    have "tb_toLocal t3 (V4 x) = Some l" using Local_keeps[OF ok2 x2, of c] t3 by simp
    then have "tb_toReal t3 l = Some (V4 x)" using table_okD(10)[OF ok3, of "V4 x" l] by simp
    moreover have "tb_toReal t3 l = Some (V4 z)" using table_okD(10)[OF ok3, of "V4 z" l] z(2) by simp
    ultimately show ?thesis using z(1) x(1) by simp
  qed
  moreover have "Real t2 l = Some (addr_unmap a)" using inverse x(1) y(1) by (simp add: Real_def)
  moreover have "\<exists>base b y. prefix_masked local = Prefix (V4 base) b \<and> l = V4 y \<and>
       unat base < unat y \<and> unat y < unat base + 2 ^ (32 - b) - 1"
    using p y by blast
  ultimately show ?thesis using again by blast
qed

theorem vip_mapping_is_stable_bijection_witness:
  "\<exists>t0 t1. NewTable (Prefix (V4 0x64700000) 16) (Prefix (V4 0x64400000) 16) = Inr t0 \<and>
     Local t0 (V4 0x64400007) = (Some (V4 0x64700007), t1) \<and>
     Real (local_all t1 [V4 0x64400008]) (V4 0x64700007) = Some (V4 0x64400007)"
proof -
  have lt: "(65536 :: u32) - 1 = 65535" by simp
  obtain t0 where t0: "NewTable (Prefix (V4 0x64700000) 16) (Prefix (V4 0x64400000) 16) = Inr t0"
      and f: "tb_toLocal t0 = Map.empty" "tb_size t0 = 65536" "tb_used t0 = (\<lambda>_. False)"
        "tb_base t0 = 0x64700000" "tb_real t0 = Prefix (V4 0x64400000) 16"
    by (auto simp: NewTable_def mask4_def mask_eq_exp_minus_1)
  obtain t1 where t1: "Local (local_all t0 []) (V4 0x64400007) = (Some (V4 0x64700007), t1)"
    by (auto simp: local_all_def Local_def allocLocked_def f usable_def fromUint32_def Let_def)
  have "Real (local_all t1 [V4 0x64400008]) (V4 0x64700007) = Some (addr_unmap (V4 0x64400007))"
    using vip_mapping_is_stable_bijection[OF t0 _ t1 refl] by simp
  with t0 t1 show ?thesis by (auto simp: local_all_def)
qed

lemma usable_count:
  assumes ok: "table_ok base b real t"
  shows "card {l. \<exists>i. l = V4 (base + i) \<and> unat i < 2 ^ (32 - b) \<and> usable i (tb_size t)} = 2 ^ (32 - b) - 2"
proof -
  note D = table_okD[OF ok]
  let ?n = "2 ^ (32 - b) :: nat"
  have n: "4 \<le> ?n" "?n \<le> 2147483648" using pow_bounds[OF D(2,3)] by blast+
  have "tb_size t \<noteq> 0" using D(5) n by (metis not_numeral_le_zero unsigned_0)
  then have last: "unat (tb_size t - 1) = ?n - 1" using D(5) by (simp add: unat_minus_one)
  have us: "usable i (tb_size t) \<longleftrightarrow> unat i \<noteq> 0 \<and> unat i \<noteq> ?n - 1" for i
    unfolding usable_def word_unat_eq_iff[of i "tb_size t - 1"] last by (simp add: unsigned_eq_0_iff)
  have "{l. \<exists>i. l = V4 (base + i) \<and> unat i < ?n \<and> usable i (tb_size t)} =
      (\<lambda>k. V4 (base + of_nat k)) ` {0 <..< ?n - 1}"
  proof (intro set_eqI iffI)
    fix l
    assume "l \<in> {l. \<exists>i. l = V4 (base + i) \<and> unat i < ?n \<and> usable i (tb_size t)}"
    then obtain i where "l = V4 (base + i)" "unat i < ?n" "usable i (tb_size t)" by blast
    then show "l \<in> (\<lambda>k. V4 (base + of_nat k)) ` {0 <..< ?n - 1}"
      unfolding us by (intro image_eqI[of _ _ "unat i"]) auto
  next
    fix l
    assume "l \<in> (\<lambda>k. V4 (base + of_nat k)) ` {0 <..< ?n - 1}"
    then obtain k where k: "l = V4 (base + of_nat k)" "0 < k" "k < ?n - 1" by auto
    have "unat (of_nat k :: u32) = k" using k(3) n by (intro unat_of_nat32) simp
    with k show "l \<in> {l. \<exists>i. l = V4 (base + i) \<and> unat i < ?n \<and> usable i (tb_size t)}"
      unfolding us by (auto intro!: exI[of _ "of_nat k"])
  qed
  moreover have "inj_on (\<lambda>k. V4 (base + of_nat k)) {0 <..< ?n - 1}"
  proof (rule inj_onI)
    fix j k
    assume jk: "j \<in> {0 <..< ?n - 1}" "k \<in> {0 <..< ?n - 1}" "V4 (base + of_nat j) = V4 (base + of_nat k)"
    then have "(of_nat j :: u32) = of_nat k" by simp
    moreover have "unat (of_nat j :: u32) = j" "unat (of_nat k :: u32) = k"
      using jk(1,2) n by (auto intro!: unat_of_nat32)
    ultimately show "j = k" by metis
  qed
  ultimately show ?thesis by (simp add: card_image)
qed

text \<open>an address of the overlay range gets a local address as long as one is free: a lookup
  fails only when all addresses of the local range but its first and last are taken. The low bits
  are kept where they can be: if the index they name is usable and free, it is the one taken.
  Addresses outside the overlay range never get one.\<close>

theorem vip_lookup_is_complete:
  assumes "NewTable local real = Inr t0" and "1 \<le> prefix_bits local" and "t = local_all t0 before"
  shows "(\<not> prefix_contains (prefix_masked real) (addr_unmap a) \<longrightarrow> Local t a = (None, t)) \<and>
    (prefix_contains (prefix_masked real) (V4 x) \<and> fst (Local t (V4 x)) = None \<longrightarrow>
       int (card (ran (tb_toLocal t))) = 2 ^ nat (32 - prefix_bits local) - 2) \<and>
    (prefix_contains (prefix_masked real) (V4 x) \<and> tb_toLocal t (V4 x) = None \<and>
       usable (x AND (tb_size t - 1)) (tb_size t) \<and> \<not> tb_used t (x AND (tb_size t - 1)) \<longrightarrow>
       fst (Local t (V4 x)) = Some (V4 (tb_base t + (x AND (tb_size t - 1)))))"
proof (intro conjI impI)
  obtain base b where ok0: "table_ok base b (prefix_masked real) t0" and p: "prefix_masked local = Prefix (V4 base) b"
    using NewTable_ok[OF assms(1,2)] by blast
  have ok: "table_ok base b (prefix_masked real) t" unfolding assms(3) using ok0 by (rule local_all_ok)
  note D = table_okD[OF ok]
  show "Local t a = (None, t)" if "\<not> prefix_contains (prefix_masked real) (addr_unmap a)"
    using that D(7) by (simp add: Local_def Let_def)
  show "int (card (ran (tb_toLocal t))) = 2 ^ nat (32 - prefix_bits local) - 2"
    if a: "prefix_contains (prefix_masked real) (V4 x) \<and> fst (Local t (V4 x)) = None"
  proof -
    have none: "tb_toLocal t (V4 x) = None" using Local_known[OF ok, of x] a by (cases "tb_toLocal t (V4 x)") auto
    have full: "\<forall>idx. unat idx < 2 ^ (32 - b) \<and> usable idx (tb_size t) \<longrightarrow> tb_used t idx"
      using ok none a[THEN conjunct1]
    proof (cases rule: Local_new)
      case (taken nxt)
      then show ?thesis by blast
    qed (use a in simp)
    have "ran (tb_toLocal t) = {l. \<exists>i. l = V4 (base + i) \<and> unat i < 2 ^ (32 - b) \<and> usable i (tb_size t)}"
      using D(12) full by blast
    then have c: "card (ran (tb_toLocal t)) = 2 ^ (32 - b) - 2" using usable_count[OF ok] by simp
    have "prefix_bits local = int b" using p by (cases local rule: prefix_masked.cases) auto
    then have e: "nat (32 - prefix_bits local) = 32 - b" using D(3) by simp
    have "(4::nat) \<le> 2 ^ (32 - b)" using pow_bounds[OF D(2,3)] by blast
    then show ?thesis unfolding c e by (simp add: of_nat_diff)
  qed
  show "fst (Local t (V4 x)) = Some (V4 (tb_base t + (x AND (tb_size t - 1))))"
    if "prefix_contains (prefix_masked real) (V4 x) \<and> tb_toLocal t (V4 x) = None \<and>
       usable (x AND (tb_size t - 1)) (tb_size t) \<and> \<not> tb_used t (x AND (tb_size t - 1))"
    using that D(7) by (simp add: Local_def allocLocked_def fromUint32_def Let_def)
qed

theorem vip_lookup_is_complete_witness:
  "\<exists>t0. NewTable (Prefix (V4 0x64700000) 16) (Prefix (V4 0x64400000) 16) = Inr t0 \<and>
     Local (local_all t0 []) (V4 0x08080808) = (None, local_all t0 [])"
proof -
  obtain t0 where t0: "NewTable (Prefix (V4 0x64700000) 16) (Prefix (V4 0x64400000) 16) = Inr t0"
    by (auto simp: NewTable_def mask4_def mask_eq_exp_minus_1)
  have "\<not> prefix_contains (prefix_masked (Prefix (V4 0x64400000) 16)) (addr_unmap (V4 0x08080808))"
    by (simp add: mask4_def mask_eq_exp_minus_1)
  with vip_lookup_is_complete[OF t0 _ refl, where before = "[]" and a = "V4 0x08080808"] t0 show ?thesis by auto
qed

end
