(* ===== verification/LocalPool.thy ===== *)
theory LocalPool
  imports VipTable
begin

text \<open>
  The ranges and ports the manager hands to its networks (\<open>client/manager/manager.go\<close>): slices of the local
  pool and UDP ports, each chosen among those no network of the device holds. A port is a number, 0 the one
  that means that none was free.
\<close>

record mg_config =
  mc_DNSAddr :: string
  mc_ProductName :: string
  mc_DeviceUUID :: string
  mc_BasePort :: nat
  mc_LocalPool :: string
  mc_LocalBits :: nat
  mc_NoTranslate :: bool

definition DefaultBasePort :: nat where "DefaultBasePort = 51820"
definition DefaultLocalPool :: string where "DefaultLocalPool = ''100.112.0.0/12''"
definition DefaultLocalBits :: nat where "DefaultLocalBits = 16"

text \<open>Why no slice is chosen. The last one is a panic: an IPv6 pool has no four-byte base.\<close>

datatype pool_error = PoolUnparsable string | SliceTooLarge nat prefix | PoolFull prefix nat | PoolPanic

definition prefixBase :: "prefix \<Rightarrow> u32 option" where
  "prefixBase p = addr_as4 (prefix_addr p)"

definition addrFromUint32 :: "u32 \<Rightarrow> addr" where
  "addrFromUint32 v = V4 v"

definition prefixString :: "prefix \<Rightarrow> string" where
  "prefixString p = (if \<not> prefix_valid p then [] else prefix_string p)"

text \<open>The slices from number \<open>i\<close> on, \<open>n\<close> of them.\<close>

fun slice_loop :: "prefix set \<Rightarrow> u32 \<Rightarrow> nat \<Rightarrow> u32 \<Rightarrow> nat \<Rightarrow> prefix option" where
  "slice_loop taken base bits i 0 = None"
| "slice_loop taken base bits i (Suc n) =
     (let step = push_bit (32 - bits) 1; p = prefix_from (addrFromUint32 (base + i * step)) bits in
      if p \<notin> taken then Some p else slice_loop taken base bits (i + 1) n)"

definition freePrefixLocked :: "mg_config \<Rightarrow> prefix set \<Rightarrow> pool_error + prefix" where
  "freePrefixLocked cfg taken =
     (if mc_NoTranslate cfg then Inr NoPrefix
      else case parse_prefix (mc_LocalPool cfg) of
        None \<Rightarrow> Inl (PoolUnparsable (mc_LocalPool cfg))
      | Some pool0 \<Rightarrow>
          (let pool = prefix_masked pool0; bits = mc_LocalBits cfg in
           if int bits \<le> prefix_bits pool \<or> bits > 30 then Inl (SliceTooLarge bits pool)
           else (case prefixBase pool of
             None \<Rightarrow> Inl PoolPanic
           | Some base \<Rightarrow>
               (let count = push_bit (nat (int bits - prefix_bits pool)) 1 :: u32 in
                case slice_loop taken base bits 0 (unat count) of
                  Some p \<Rightarrow> Inr p
                | None \<Rightarrow> Inl (PoolFull pool bits)))))"

text \<open>The ports from \<open>port\<close> on, \<open>n\<close> of them; \<open>udpFree\<close> is what the system answers.\<close>

fun port_loop :: "nat set \<Rightarrow> (nat \<Rightarrow> bool) \<Rightarrow> nat \<Rightarrow> nat \<Rightarrow> nat" where
  "port_loop taken udpFree port 0 = 0"
| "port_loop taken udpFree port (Suc n) =
     (if port \<in> taken \<or> \<not> udpFree port then port_loop taken udpFree (port + 1) n else port)"

definition freePortLocked :: "mg_config \<Rightarrow> nat set \<Rightarrow> (nat \<Rightarrow> bool) \<Rightarrow> nat" where
  "freePortLocked cfg taken udpFree = port_loop taken udpFree (mc_BasePort cfg) 64"

section \<open>Ports\<close>

lemma port_loop_spec:
  "0 < port \<Longrightarrow> (case port_loop taken udpFree port n of
     0 \<Rightarrow> (\<forall>q. port \<le> q \<and> q < port + n \<longrightarrow> q \<in> taken \<or> \<not> udpFree q)
   | Suc k \<Rightarrow> port \<le> Suc k \<and> Suc k < port + n \<and> Suc k \<notin> taken \<and> udpFree (Suc k))"
proof (induction n arbitrary: port)
  case (Suc n)
  show ?case
  proof (cases "port \<in> taken \<or> \<not> udpFree port")
    case True
    from Suc.IH[of "port + 1"] have ih: "case port_loop taken udpFree (port + 1) n of
       0 \<Rightarrow> (\<forall>q. port + 1 \<le> q \<and> q < port + 1 + n \<longrightarrow> q \<in> taken \<or> \<not> udpFree q)
     | Suc k \<Rightarrow> port + 1 \<le> Suc k \<and> Suc k < port + 1 + n \<and> Suc k \<notin> taken \<and> udpFree (Suc k)" by simp
    have "q \<in> taken \<or> \<not> udpFree q"
      if "\<forall>q. port + 1 \<le> q \<and> q < port + 1 + n \<longrightarrow> q \<in> taken \<or> \<not> udpFree q" "port \<le> q" "q < port + Suc n" for q
      using that True by (cases "q = port") auto
    then show ?thesis using True ih by (auto split: nat.splits)
  qed (use Suc.prems in \<open>auto split: nat.splits\<close>)
qed auto

lemma freePort_spec:
  assumes "freePortLocked cfg taken udpFree = p" and "p \<noteq> 0" and "0 < mc_BasePort cfg"
  shows "mc_BasePort cfg \<le> p" "p < mc_BasePort cfg + 64" "p \<notin> taken" "udpFree p"
  using port_loop_spec[OF assms(3), where taken = taken and udpFree = udpFree and n = 64] assms(1,2) by (auto simp: freePortLocked_def split: nat.splits)

lemma freePort_none:
  assumes "0 < mc_BasePort cfg"
  shows "freePortLocked cfg taken udpFree = 0 \<longleftrightarrow>
    (\<forall>q. mc_BasePort cfg \<le> q \<and> q < mc_BasePort cfg + 64 \<longrightarrow> q \<in> taken \<or> \<not> udpFree q)"
  using port_loop_spec[OF assms, where taken = taken and udpFree = udpFree and n = 64] unfolding freePortLocked_def
  by (cases "port_loop taken udpFree (mc_BasePort cfg) 64") auto

section \<open>Slices\<close>

definition pool_slice :: "u32 \<Rightarrow> nat \<Rightarrow> nat \<Rightarrow> prefix" where
  "pool_slice base bits i = Prefix (V4 (base + of_nat i * 2 ^ (32 - bits))) bits"

lemma slice_unat:
  assumes "v4_block base pb" and "pb < bits" and "bits \<le> 30" and "i < 2 ^ (bits - pb)"
  shows "unat (base + of_nat i * 2 ^ (32 - bits)) = unat base + i * 2 ^ (32 - bits)"
    and "unat base + i * 2 ^ (32 - bits) + 2 ^ (32 - bits) \<le> unat base + 2 ^ (32 - pb)"
proof -
  have pow: "(2::nat) ^ (32 - pb) = 2 ^ (bits - pb) * 2 ^ (32 - bits)" using assms(2,3) by (simp flip: power_add)
  have "Suc i * 2 ^ (32 - bits) \<le> 2 ^ (bits - pb) * 2 ^ (32 - bits)" using assms(4) by (intro mult_le_mono1) simp
  then show le: "unat base + i * 2 ^ (32 - bits) + 2 ^ (32 - bits) \<le> unat base + 2 ^ (32 - pb)" by (simp add: pow)
  have "unat base + 2 ^ (32 - pb) \<le> 2 ^ 32" by (rule v4_block_bound[OF assms(1)])
  moreover have "0 < (2::nat) ^ (32 - bits)" by simp
  ultimately have lt: "unat base + i * 2 ^ (32 - bits) < 2 ^ 32" using le by linarith
  have "base + of_nat i * 2 ^ (32 - bits) = of_nat (unat base + i * 2 ^ (32 - bits))" by simp
  then show "unat (base + of_nat i * 2 ^ (32 - bits)) = unat base + i * 2 ^ (32 - bits)"
    using unat_of_nat32[OF lt] by simp
qed

lemma slice_block:
  assumes "v4_block base pb" and "pb < bits" and "bits \<le> 30" and "i < 2 ^ (bits - pb)"
  shows "unat (base + of_nat i * 2 ^ (32 - bits)) mod 2 ^ (32 - bits) = 0"
proof -
  obtain m where m: "32 - pb = (32 - bits) + m" using assms(2,3) by (metis diff_le_mono2 le_Suc_ex less_imp_le)
  have "unat base mod 2 ^ (32 - pb) = 0" using assms(1) by (simp add: v4_block_def)
  then have "unat base mod 2 ^ (32 - bits) = 0" unfolding m power_add by (metis mod_mod_cancel dvd_triv_left mod_0)
  then show ?thesis using slice_unat(1)[OF assms] by simp
qed

lemma slice_contains:
  assumes "v4_block base pb" and "pb < bits" and "bits \<le> 30" and "i < 2 ^ (bits - pb)"
  shows "prefix_contains (pool_slice base bits i) (V4 a) \<longleftrightarrow>
    unat base + i * 2 ^ (32 - bits) \<le> unat a \<and> unat a < unat base + i * 2 ^ (32 - bits) + 2 ^ (32 - bits)"
proof -
  have "v4_block (base + of_nat i * 2 ^ (32 - bits)) bits"
    using assms(3) slice_block[OF assms] by (simp add: v4_block_def)
  from prefix_contains_block[OF this, of a] slice_unat(1)[OF assms] show ?thesis unfolding pool_slice_def by simp
qed

text \<open>Two slices have no address in common, and each lies inside the pool.\<close>

lemma slices_disjoint:
  assumes "v4_block base pb" and "pb < bits" and "bits \<le> 30" and "i < 2 ^ (bits - pb)" and "j < 2 ^ (bits - pb)"
    and "prefix_contains (pool_slice base bits i) x" and "prefix_contains (pool_slice base bits j) x"
  shows "i = j"
proof -
  let ?m = "(2::nat) ^ (32 - bits)"
  obtain a where a: "x = V4 a" using assms(6) unfolding pool_slice_def by (auto dest: prefix_contains_v4D)
  from assms(6,7) have "unat base + i * ?m \<le> unat a" "unat a < unat base + (i + 1) * ?m"
    "unat base + j * ?m \<le> unat a" "unat a < unat base + (j + 1) * ?m"
    unfolding a slice_contains[OF assms(1-4)] slice_contains[OF assms(1-3,5)] by simp_all
  then have "i * ?m < (j + 1) * ?m" "j * ?m < (i + 1) * ?m" by linarith+
  then have "i < j + 1" "j < i + 1" by (simp_all only: mult_less_cancel2)
  then show ?thesis by simp
qed

lemma slice_in_pool:
  assumes "v4_block base pb" and "pb < bits" and "bits \<le> 30" and "i < 2 ^ (bits - pb)"
    and "prefix_contains (pool_slice base bits i) x"
  shows "prefix_contains (Prefix (V4 base) pb) x"
proof -
  obtain a where a: "x = V4 a" using assms(5) unfolding pool_slice_def by (auto dest: prefix_contains_v4D)
  from assms(5) show ?thesis unfolding a slice_contains[OF assms(1-4)] prefix_contains_block[OF assms(1)]
    using slice_unat(2)[OF assms(1-4)] by linarith
qed

lemma slice_inj:
  assumes "v4_block base pb" and "pb < bits" and "bits \<le> 30" and "i < 2 ^ (bits - pb)" and "j < 2 ^ (bits - pb)"
    and "pool_slice base bits i = pool_slice base bits j"
  shows "i = j"
proof (rule slices_disjoint[OF assms(1-5)])
  show "prefix_contains (pool_slice base bits i) (V4 (base + of_nat i * 2 ^ (32 - bits)))"
    using slice_contains[OF assms(1-4)] slice_unat(1)[OF assms(1-4)] by simp
  then show "prefix_contains (pool_slice base bits j) (V4 (base + of_nat i * 2 ^ (32 - bits)))" unfolding assms(6) .
qed

lemma slice_step:
  assumes "bits \<le> 30"
  shows "prefix_from (addrFromUint32 (base + of_nat i * push_bit (32 - bits) 1)) bits = pool_slice base bits i"
  using assms by (simp add: addrFromUint32_def pool_slice_def push_bit_eq_mult)

lemma slice_loop_spec:
  assumes "bits \<le> 30"
  shows "case slice_loop taken base bits (of_nat i) n of
    Some p \<Rightarrow> p \<notin> taken \<and> (\<exists>j. i \<le> j \<and> j < i + n \<and> p = pool_slice base bits j)
  | None \<Rightarrow> (\<forall>j. i \<le> j \<and> j < i + n \<longrightarrow> pool_slice base bits j \<in> taken)"
proof (induction n arbitrary: i)
  case (Suc n)
  show ?case
  proof (cases "pool_slice base bits i \<in> taken")
    case False
    then show ?thesis using slice_step[OF assms] by (auto simp: Let_def)
  next
    case True
    have "(of_nat i :: u32) + 1 = of_nat (i + 1)" by simp
    then have e: "slice_loop taken base bits (of_nat i) (Suc n) = slice_loop taken base bits (of_nat (i + 1)) n"
      using True slice_step[OF assms] by (simp add: Let_def add.commute)
    have ih: "case slice_loop taken base bits (of_nat (i + 1)) n of
        Some p \<Rightarrow> p \<notin> taken \<and> (\<exists>j. i + 1 \<le> j \<and> j < i + 1 + n \<and> p = pool_slice base bits j)
      | None \<Rightarrow> (\<forall>j. i + 1 \<le> j \<and> j < i + 1 + n \<longrightarrow> pool_slice base bits j \<in> taken)" by (rule Suc.IH)
    show ?thesis
    proof (cases "slice_loop taken base bits (of_nat (i + 1)) n")
      case None
      then have "pool_slice base bits j \<in> taken" if "i \<le> j" "j < i + Suc n" for j
        using ih that True by (cases "j = i") auto
      then show ?thesis unfolding e None by simp
    next
      case (Some p)
      then obtain j where "p \<notin> taken" "i + 1 \<le> j" "j < i + 1 + n" "p = pool_slice base bits j" using ih by auto
      then have "p \<notin> taken \<and> (\<exists>j. i \<le> j \<and> j < i + Suc n \<and> p = pool_slice base bits j)" by (intro conjI exI[of _ j]) simp_all
      then show ?thesis unfolding e Some by simp
    qed
  qed
qed auto

text \<open>A pool that can be sliced.\<close>

definition pool_of :: "mg_config \<Rightarrow> (u32 \<times> nat) option" where
  "pool_of cfg = (case parse_prefix (mc_LocalPool cfg) of
     Some (Prefix (V4 a) pb) \<Rightarrow> if pb < mc_LocalBits cfg \<and> mc_LocalBits cfg \<le> 30 then Some (mask4 a pb, pb) else None
   | _ \<Rightarrow> None)"

lemma pool_of_block: "pool_of cfg = Some (base, pb) \<Longrightarrow> v4_block base pb \<and> pb < mc_LocalBits cfg \<and> mc_LocalBits cfg \<le> 30"
  by (auto simp: pool_of_def intro!: mask4_block split: option.splits prefix.splits addr.splits if_splits)

lemma freePrefix_pool:
  assumes "\<not> mc_NoTranslate cfg" and "pool_of cfg = Some (base, pb)"
  shows "freePrefixLocked cfg taken =
    (case slice_loop taken base (mc_LocalBits cfg) 0 (2 ^ (mc_LocalBits cfg - pb)) of
       Some p \<Rightarrow> Inr p | None \<Rightarrow> Inl (PoolFull (Prefix (V4 base) pb) (mc_LocalBits cfg)))"
proof -
  obtain a where a: "parse_prefix (mc_LocalPool cfg) = Some (Prefix (V4 a) pb)" "base = mask4 a pb"
    "pb < mc_LocalBits cfg" "mc_LocalBits cfg \<le> 30"
    using assms(2) by (auto simp: pool_of_def split: option.splits prefix.splits addr.splits if_splits)
  have "(2::nat) ^ (mc_LocalBits cfg - pb) < 2 ^ 32" using a(4) by (intro power_strict_increasing) simp_all
  then have c: "unat (2 ^ (mc_LocalBits cfg - pb) :: u32) = 2 ^ (mc_LocalBits cfg - pb)"
    using unat_of_nat32[of "2 ^ (mc_LocalBits cfg - pb)"] by simp
  have n: "nat (int (mc_LocalBits cfg) - int pb) = mc_LocalBits cfg - pb" using a(3) by simp
  show ?thesis unfolding a(2) using a(1,3,4) assms(1) unfolding freePrefixLocked_def
    by (simp add: Let_def prefixBase_def n c)
qed

lemma freePrefix_Inr:
  assumes "\<not> mc_NoTranslate cfg" and "pool_of cfg = Some (base, pb)" and "freePrefixLocked cfg taken = Inr p"
  shows "p \<notin> taken \<and> (\<exists>i < 2 ^ (mc_LocalBits cfg - pb). p = pool_slice base (mc_LocalBits cfg) i)"
  using slice_loop_spec[where bits = "mc_LocalBits cfg" and taken = taken and base = base and i = 0 and n = "2 ^ (mc_LocalBits cfg - pb)"] pool_of_block[OF assms(2)] assms(3)
  unfolding freePrefix_pool[OF assms(1,2)] by (auto split: option.splits)

end
