(* ===== verification/Resolver.thy ===== *)
theory Resolver
  imports NetAddr
begin

text \<open>
  \<open>client/resolver/resolver.go\<close>: the zones of the joined networks and the answers to DNS questions.
  A \<open>net.IP\<close> is an address or nil. Ranging over the zones takes an order; a resource record's text is
  parsed by the DNS library, which is an argument.
\<close>

type_synonym ip = "addr option"
type_synonym zone = "string \<rightharpoonup> ip"

record resolver =
  rv_ttl :: nat
  rv_zones :: "(string, zone) gomap"

definition resolver_New :: resolver where
  "resolver_New = \<lparr>rv_ttl = 30, rv_zones = []\<rparr>"

definition dns_normalize :: "string \<Rightarrow> string" where
  "dns_normalize s = to_lower (trim_dots (trim_space s))"

definition SetZone :: "((string \<times> ip) list \<Rightarrow> (string \<times> ip) list) \<Rightarrow> resolver \<Rightarrow> string \<Rightarrow> (string, ip) gomap \<Rightarrow> resolver" where
  "SetZone iter r suffix0 recs =
     (let suffix = dns_normalize suffix0 in
      if suffix = [] then r
      else let m = foldl (\<lambda>m (k, v). m(dns_normalize k \<mapsto> v)) Map.empty (iter recs) in
           r\<lparr>rv_zones := AList.update suffix m (rv_zones r)\<rparr>)"

definition RemoveZone :: "resolver \<Rightarrow> string \<Rightarrow> resolver" where
  "RemoveZone r suffix = r\<lparr>rv_zones := AList.delete (dns_normalize suffix) (rv_zones r)\<rparr>"

definition Suffixes :: "((string \<times> zone) list \<Rightarrow> (string \<times> zone) list) \<Rightarrow> resolver \<Rightarrow> string list" where
  "Suffixes iter r = sort (map fst (iter (rv_zones r)))"

definition covers :: "string \<Rightarrow> string \<Rightarrow> bool" where
  "covers suffix name = (name = suffix \<or> has_suffix name (''.'' @ suffix))"

text \<open>The loop of \<open>lookup\<close> over the zones that are left.\<close>

fun lookup_in :: "string \<Rightarrow> (string \<times> zone) list \<Rightarrow> bool \<Rightarrow> ip \<times> bool" where
  "lookup_in name [] inZone = (None, inZone)"
| "lookup_in name ((suffix, recs) # zs) inZone =
     (if \<not> covers suffix name then lookup_in name zs inZone
      else case recs name of
             Some got \<Rightarrow> (got, True)
           | None \<Rightarrow> lookup_in name zs True)"

definition lookup :: "((string \<times> zone) list \<Rightarrow> (string \<times> zone) list) \<Rightarrow> resolver \<Rightarrow> string \<Rightarrow> ip \<times> bool" where
  "lookup iter r name = lookup_in name (iter (rv_zones r)) False"

datatype qtype = TypeA | TypeAAAA | OtherType nat
datatype rcode = NoError | NameError | Refused

text \<open>The reply to the questions of a message: its code and its answer records.\<close>

definition answer_text :: "nat \<Rightarrow> string \<Rightarrow> addr \<Rightarrow> string" where
  "answer_text ttl qname ip = qname @ '' '' @ nat_str ttl @ '' IN A '' @ addr_string ip"

fun answer_loop :: "(string \<Rightarrow> 'rr option) \<Rightarrow> (string \<Rightarrow> ip \<times> bool) \<Rightarrow> nat \<Rightarrow> (string \<times> qtype) list \<Rightarrow>
    rcode \<times> 'rr list \<Rightarrow> rcode \<times> 'rr list" where
  "answer_loop newRR look ttl [] m = m"
| "answer_loop newRR look ttl ((qname, qt) # qs) m =
     answer_loop newRR look ttl qs
       (if qt \<noteq> TypeA \<and> qt \<noteq> TypeAAAA then m
        else (case look (dns_normalize qname) of
               (ip, inZone) \<Rightarrow>
                 (if \<not> inZone then (Refused, snd m)
                  else (case ip of
                          None \<Rightarrow> (NameError, snd m)
                        | Some a \<Rightarrow>
                            (if qt = TypeA then
                               (case newRR (answer_text ttl qname a) of
                                  Some rr \<Rightarrow> (fst m, snd m @ [rr]) | None \<Rightarrow> m)
                             else m)))))"

definition dns_handle :: "(string \<Rightarrow> 'rr option) \<Rightarrow> ((string \<times> zone) list \<Rightarrow> (string \<times> zone) list) \<Rightarrow> resolver \<Rightarrow>
    (string \<times> qtype) list \<Rightarrow> rcode \<times> 'rr list" where
  "dns_handle newRR iter r qs = answer_loop newRR (lookup iter r) (rv_ttl r) qs (NoError, [])"

section \<open>Lookups\<close>

text \<open>
  The zones a name lies in. A suffix may have dots and one suffix may lie under another, so there may be several.
  A map has one zone for each suffix (\<open>gomap_ok\<close>); every operation keeps it so.
\<close>

definition owners :: "resolver \<Rightarrow> string \<Rightarrow> (string \<times> zone) set" where
  "owners r name = {z. map_of (rv_zones r) (fst z) = Some (snd z) \<and> covers (fst z) name}"

lemma zones_map [inv_intros]:
  "gomap_ok (rv_zones r) \<Longrightarrow> gomap_ok (rv_zones (SetZone iter r x recs))"
  "gomap_ok (rv_zones r) \<Longrightarrow> gomap_ok (rv_zones (RemoveZone r x))"
  by (simp_all add: SetZone_def RemoveZone_def Let_def)

lemma owners_in:
  assumes "gomap_ok (rv_zones r)" and "reorders iter"
  shows "owners r name = {z \<in> set (iter (rv_zones r)). covers (fst z) name}"
  using gomap_in_iff[OF assms(1)] by (auto simp: owners_def reorders_set[OF assms(2)])

lemma lookup_in_missing:
  "(\<And>z. z \<in> set zs \<Longrightarrow> covers (fst z) name \<Longrightarrow> snd z name = None) \<Longrightarrow>
     lookup_in name zs b = (None, b \<or> (\<exists>z \<in> set zs. covers (fst z) name))"
proof (induction zs arbitrary: b)
  case (Cons z zs)
  obtain s m where z: "z = (s, m)" by fastforce
  have "lookup_in name zs c = (None, c \<or> (\<exists>z \<in> set zs. covers (fst z) name))" for c
    by (rule Cons.IH) (use Cons.prems in auto)
  with Cons.prems[of z] z show ?case by simp
qed simp

lemma lookup_in_found:
  "\<exists>z \<in> set zs. covers (fst z) name \<and> snd z name \<noteq> None \<Longrightarrow>
     \<exists>z \<in> set zs. \<exists>got. covers (fst z) name \<and> snd z name = Some got \<and> lookup_in name zs b = (got, True)"
proof (induction zs arbitrary: b)
  case (Cons z zs)
  obtain s m where z: "z = (s, m)" by fastforce
  show ?case
  proof (cases "covers s name \<and> m name \<noteq> None")
    case True
    then show ?thesis using z by auto
  next
    case False
    then have "\<exists>z \<in> set zs. covers (fst z) name \<and> snd z name \<noteq> None" using Cons.prems z by auto
    from Cons.IH[OF this, of b] Cons.IH[OF this, of True] False show ?thesis by (cases "covers s name") (auto simp: z)
  qed
qed simp

lemma lookup_owners:
  assumes "gomap_ok (rv_zones r)" and "reorders iter"
  shows "owners r name = {} \<Longrightarrow> lookup iter r name = (None, False)"
    and "owners r name \<noteq> {} \<Longrightarrow> \<forall>z \<in> owners r name. snd z name = None \<Longrightarrow> lookup iter r name = (None, True)"
    and "\<exists>z \<in> owners r name. snd z name \<noteq> None \<Longrightarrow>
      \<exists>z \<in> owners r name. \<exists>got. snd z name = Some got \<and> lookup iter r name = (got, True)"
proof -
  note o = owners_in[OF assms, of name]
  show "owners r name = {} \<Longrightarrow> lookup iter r name = (None, False)"
    unfolding o lookup_def using lookup_in_missing[of "iter (rv_zones r)" name False] by fastforce
  show "owners r name \<noteq> {} \<Longrightarrow> \<forall>z \<in> owners r name. snd z name = None \<Longrightarrow> lookup iter r name = (None, True)"
    unfolding o lookup_def using lookup_in_missing[of "iter (rv_zones r)" name False] by fastforce
  show "\<exists>z \<in> owners r name. \<exists>got. snd z name = Some got \<and> lookup iter r name = (got, True)"
    if "\<exists>z \<in> owners r name. snd z name \<noteq> None"
    using lookup_in_found[of "iter (rv_zones r)" name False] that unfolding o lookup_def by blast
qed

lemma covers_common:
  assumes "covers s name" "covers t name"
  shows "covers s t \<or> covers t s"
proof -
  have suf: "\<exists>a. name = a @ s \<and> (a = [] \<or> last a = CHR ''.'')" if "covers s name" for s
    using that unfolding covers_def has_suffix_iff by (auto intro: exI[of _ "_ @ ''.''"])
  obtain a b where ab: "name = a @ s" "a = [] \<or> last a = CHR ''.''" "name = b @ t" "b = [] \<or> last b = CHR ''.''"
    using suf[OF assms(1)] suf[OF assms(2)] by blast
  then have "a @ s = b @ t" by simp
  then consider c where "a = b @ c" "t = c @ s" | c where "b = a @ c" "s = c @ t"
    by (auto simp: append_eq_append_conv2)
  then show ?thesis
  proof cases
    case 1
    with ab have "c = [] \<or> last c = CHR ''.''" by (cases "c = []") auto
    with 1 have "covers s t" unfolding covers_def has_suffix_iff
      by (cases c rule: rev_cases) auto
    then show ?thesis ..
  next
    case 2
    with ab have "c = [] \<or> last c = CHR ''.''" by (cases "c = []") auto
    with 2 have "covers t s" unfolding covers_def has_suffix_iff
      by (cases c rule: rev_cases) auto
    then show ?thesis ..
  qed
qed

text \<open>Two zones over one name lie one under the other, so a name has one zone when no zone lies under another.\<close>

lemma owners_nested:
  "(s, m) \<in> owners r name \<Longrightarrow> (t, k) \<in> owners r name \<Longrightarrow> covers s t \<or> covers t s"
  unfolding owners_def using covers_common[of s name t] by simp

section \<open>Zones do not disturb each other\<close>

text \<open>
  What the network manager relies on when networks are joined and left at any time: a zone operation
  leaves every name outside that zone alone.
\<close>

datatype 'r zone_op = JoinZone string 'r | LeaveZone string

locale isolated_zones =
  fixes set_zone :: "'s \<Rightarrow> string \<Rightarrow> 'r \<Rightarrow> 's"
    and remove_zone :: "'s \<Rightarrow> string \<Rightarrow> 's"
    and look :: "'s \<Rightarrow> string \<Rightarrow> 'a"
    and outside :: "string \<Rightarrow> string \<Rightarrow> bool"
    and inv :: "'s \<Rightarrow> bool"
  assumes set_inv: "inv s \<Longrightarrow> inv (set_zone s x r)"
    and remove_inv: "inv s \<Longrightarrow> inv (remove_zone s x)"
    and set_outside: "inv s \<Longrightarrow> outside x name \<Longrightarrow> look (set_zone s x r) name = look s name"
    and remove_outside: "inv s \<Longrightarrow> outside x name \<Longrightarrow> look (remove_zone s x) name = look s name"
begin

fun op_zone :: "'r zone_op \<Rightarrow> string" where
  "op_zone (JoinZone x r) = x"
| "op_zone (LeaveZone x) = x"

fun apply_op :: "'s \<Rightarrow> 'r zone_op \<Rightarrow> 's" where
  "apply_op s (JoinZone x r) = set_zone s x r"
| "apply_op s (LeaveZone x) = remove_zone s x"

lemma ops_outside:
  assumes "inv s" and "\<And>op. op \<in> set ops \<Longrightarrow> outside (op_zone op) name"
  shows "inv (foldl apply_op s ops) \<and> look (foldl apply_op s ops) name = look s name"
  using assms
proof (induction ops arbitrary: s)
  case (Cons op ops)
  have op: "outside (op_zone op) name" using Cons.prems(2)[of op] by auto
  have "inv (apply_op s op) \<and> look (apply_op s op) name = look s name"
    using op Cons.prems(1) by (cases op) (auto intro: set_inv remove_inv set_outside remove_outside)
  with Cons.IH[of "apply_op s op"] Cons.prems(2) show ?case by simp
qed simp

end

interpretation zones: isolated_zones "SetZone (\<lambda>m. m)" RemoveZone owners
  "\<lambda>x name. \<not> covers (dns_normalize x) name" "\<lambda>r. gomap_ok (rv_zones r)"
proof
  fix r :: resolver and x recs name
  assume ok: "gomap_ok (rv_zones r)"
  show "gomap_ok (rv_zones (SetZone (\<lambda>m. m) r x recs))" using ok by (rule zones_map)
  show "gomap_ok (rv_zones (RemoveZone r x))" using ok by (rule zones_map)
  assume out: "\<not> covers (dns_normalize x) name"
  show "owners (SetZone (\<lambda>m. m) r x recs) name = owners r name"
    using out by (auto simp: owners_def SetZone_def Let_def split: if_splits)
  show "owners (RemoveZone r x) name = owners r name" using out by (auto simp: owners_def RemoveZone_def split: if_splits)
qed

section \<open>Properties\<close>

definition option_list :: "'a option \<Rightarrow> 'a list" where
  "option_list x = (case x of None \<Rightarrow> [] | Some y \<Rightarrow> [y])"

text \<open>The reply to a question whose name the zone has: a zone may have a name with no address.\<close>

definition reply_of :: "(string \<Rightarrow> 'rr option) \<Rightarrow> nat \<Rightarrow> string \<Rightarrow> qtype \<Rightarrow> ip \<Rightarrow> rcode \<times> 'rr list" where
  "reply_of newRR ttl qname qt got =
     (case got of None \<Rightarrow> (NameError, [])
      | Some a \<Rightarrow> (NoError, if qt = TypeA then option_list (newRR (answer_text ttl qname a)) else []))"

lemma dns_handle_one:
  assumes "qt = TypeA \<or> qt = TypeAAAA"
  shows "dns_handle newRR iter r [(qname, qt)] =
    (case lookup iter r (dns_normalize qname) of
       (got, inZone) \<Rightarrow> if inZone then reply_of newRR (rv_ttl r) qname qt got else (Refused, []))"
  using assms by (auto simp: dns_handle_def reply_of_def option_list_def split: option.splits prod.splits)

text \<open>C17: A question is answered from the zones its name lies in, whatever the case of the name or a final dot, however
  many dots a zone has and whichever zones lie under others. It is refused exactly when no joined network
  owns the name; it is NXDOMAIN when one does and none has it; and when one has it the answer is what such a
  network says, its record for an IPv4 question and no records, without an error, for an IPv6 one. So a name that one
  network owns is answered from that network's zone, in whichever order the zones are tried; when several zones
  that lie under each other have the name, the order decides which of them answers.
\<close>

theorem resolver_answers_from_the_owning_zone:
  assumes "gomap_ok (rv_zones r)" and "reorders iter" and "qt = TypeA \<or> qt = TypeAAAA" and "n = dns_normalize qname"
  shows "(owners r n = {} \<longleftrightarrow> fst (dns_handle newRR iter r [(qname, qt)]) = Refused) \<and>
    (owners r n = {} \<longrightarrow> snd (dns_handle newRR iter r [(qname, qt)]) = []) \<and>
    (owners r n \<noteq> {} \<and> (\<forall>z \<in> owners r n. snd z n = None) \<longrightarrow> dns_handle newRR iter r [(qname, qt)] = (NameError, [])) \<and>
    ((\<exists>z \<in> owners r n. snd z n \<noteq> None) \<longrightarrow>
      (\<exists>z \<in> owners r n. \<exists>got. snd z n = Some got \<and> dns_handle newRR iter r [(qname, qt)] = reply_of newRR (rv_ttl r) qname qt got)) \<and>
    (\<forall>s m. owners r n = {(s, m)} \<longrightarrow> dns_handle newRR iter r [(qname, qt)] =
      (case m n of None \<Rightarrow> (NameError, []) | Some got \<Rightarrow> reply_of newRR (rv_ttl r) qname qt got))"
proof -
  note h = dns_handle_one[OF assms(3), of newRR iter r qname, folded assms(4)]
  note look = lookup_owners[OF assms(1,2), of n]
  have none: "reply_of newRR (rv_ttl r) qname qt None = (NameError, [])" by (simp add: reply_of_def)
  have code: "fst (reply_of newRR (rv_ttl r) qname qt got) \<noteq> Refused" for got by (simp add: reply_of_def split: option.split)
  have refused: "owners r n = {} \<Longrightarrow> dns_handle newRR iter r [(qname, qt)] = (Refused, [])" using look(1) by (simp add: h)
  have missing: "owners r n \<noteq> {} \<Longrightarrow> \<forall>z \<in> owners r n. snd z n = None \<Longrightarrow> dns_handle newRR iter r [(qname, qt)] = (NameError, [])"
    using look(2) none by (simp add: h)
  have found: "\<exists>z \<in> owners r n. \<exists>got. snd z n = Some got \<and> dns_handle newRR iter r [(qname, qt)] = reply_of newRR (rv_ttl r) qname qt got"
    if some: "\<exists>z \<in> owners r n. snd z n \<noteq> None"
  proof -
    obtain z got where z: "z \<in> owners r n" "snd z n = Some got" "lookup iter r n = (got, True)" using look(3)[OF some] by blast
    then have "dns_handle newRR iter r [(qname, qt)] = reply_of newRR (rv_ttl r) qname qt got" by (simp add: h)
    with z show ?thesis by blast
  qed
  have answered: "fst (dns_handle newRR iter r [(qname, qt)]) \<noteq> Refused" if "owners r n \<noteq> {}"
  proof (cases "\<exists>z \<in> owners r n. snd z n \<noteq> None")
    case True
    then show ?thesis using found code by metis
  next
    case False
    then show ?thesis using missing that by simp
  qed
  have one: "dns_handle newRR iter r [(qname, qt)] =
      (case m n of None \<Rightarrow> (NameError, []) | Some got \<Rightarrow> reply_of newRR (rv_ttl r) qname qt got)" if "owners r n = {(s, m)}" for s m
    using missing found that by (cases "m n") auto
  show ?thesis using refused missing found answered one by (intro conjI allI impI iffI) (simp, blast, simp_all)
qed

text \<open>A name two zones have: each of the two is the answer under some order of the zones.\<close>

lemma nested_zones_answer_by_order:
  assumes "(s, m) \<in> owners r n" and "m n = Some got" and "gomap_ok (rv_zones r)"
  shows "\<exists>iter. reorders iter \<and> lookup iter r n = (got, True)"
proof -
  let ?it = "\<lambda>zs. filter (\<lambda>z. fst z = s) zs @ filter (\<lambda>z. fst z \<noteq> s) zs"
  have r: "reorders (?it :: (string \<times> zone) list \<Rightarrow> _)" by (simp add: reorders_def multiset_partition[symmetric])
  have sm: "map_of (rv_zones r) s = Some m" "covers s n" using assms(1) by (simp_all add: owners_def)
  have "fst z = s \<Longrightarrow> z \<in> set (rv_zones r) \<Longrightarrow> z = (s, m)" for z
    using gomap_in_iff[OF assms(3)] sm(1) by (cases z) auto
  then have only: "\<forall>z \<in> set (filter (\<lambda>z. fst z = s) (rv_zones r)). z = (s, m)" by auto
  have "(s, m) \<in> set (rv_zones r)" using map_of_SomeD[OF sm(1)] .
  then obtain zs where "filter (\<lambda>z. fst z = s) (rv_zones r) = (s, m) # zs"
    using only by (cases "filter (\<lambda>z. fst z = s) (rv_zones r)") (auto simp: filter_empty_conv)
  then have "lookup ?it r n = (got, True)" using sm(2) assms(2) by (simp add: lookup_def)
  with r show ?thesis by blast
qed

text \<open>A dotted zone under which another lies, as the repository's own tests name them.\<close>

theorem resolver_answers_witness:
  "dns_handle (\<lambda>t. Some t) rev \<lparr>rv_ttl = 30, rv_zones = [(''demo.zwan'', [''mc.demo.zwan'' \<mapsto> Some (V4 0x0A4D0002)]), (''work'', Map.empty)]\<rparr>
     [(''Mc.Demo.zwan.'', TypeA)] = (NoError, [answer_text 30 ''Mc.Demo.zwan.'' (V4 0x0A4D0002)])"
proof -
  let ?m = "[''mc.demo.zwan'' \<mapsto> Some (V4 0x0A4D0002)]"
  let ?r = "\<lparr>rv_ttl = 30, rv_zones = [(''demo.zwan'', ?m), (''work'', Map.empty)]\<rparr>"
  have ok: "gomap_ok (rv_zones ?r)" by (simp add: gomap_ok_def)
  have n: "''mc.demo.zwan'' = dns_normalize ''Mc.Demo.zwan.''" by code_simp
  have z: "owners ?r ''mc.demo.zwan'' = {(''demo.zwan'', ?m)}"
    by (auto simp: owners_def covers_def has_suffix_def split: if_splits)
  show ?thesis
    using resolver_answers_from_the_owning_zone[OF ok reorders_rev disjI1[OF refl] n, of "\<lambda>t. Some t",
        THEN conjunct2, THEN conjunct2, THEN conjunct2, THEN conjunct2, THEN spec, THEN spec, THEN mp, OF z]
    by (simp add: reply_of_def option_list_def)
qed

text \<open>joining and leaving networks does not disturb the names of the others. After any sequence of
  joins and leaves of networks over which a name does not lie, the name lies in the zones it lay in, and when
  its own network is left, and no other owns it, it is refused from that moment on.\<close>

theorem joins_and_leaves_are_isolated:
  assumes "gomap_ok (rv_zones r)" and "reorders iter" and "fst ` owners r name \<subseteq> {dns_normalize own}"
    and "\<And>op. op \<in> set ops \<Longrightarrow> \<not> covers (dns_normalize (zones.op_zone op)) name"
  shows "owners (foldl zones.apply_op r ops) name = owners r name \<and>
    lookup iter (foldl zones.apply_op (RemoveZone r own) ops) name = (None, False)"
proof -
  have run: "gomap_ok (rv_zones (foldl zones.apply_op x ops)) \<and> owners (foldl zones.apply_op x ops) name = owners x name"
    if "gomap_ok (rv_zones x)" for x
    using that assms(4) by (rule zones.ops_outside)
  have ok': "gomap_ok (rv_zones (RemoveZone r own))" using assms(1) by (rule zones_map)
  have "z \<notin> owners (RemoveZone r own) name" for z
  proof
    assume z: "z \<in> owners (RemoveZone r own) name"
    then have "fst z \<noteq> dns_normalize own" "z \<in> owners r name" by (auto simp: owners_def RemoveZone_def split: if_splits)
    then show False using assms(3) by auto
  qed
  then have "owners (RemoveZone r own) name = {}" by blast
  then have "owners (foldl zones.apply_op (RemoveZone r own) ops) name = {}" using run[OF ok'] by simp
  from lookup_owners(1)[OF conjunct1[OF run[OF ok']] assms(2) this] run[OF assms(1)] show ?thesis by simp
qed

theorem joins_and_leaves_witness:
  "owners (SetZone (\<lambda>m. m) (RemoveZone (SetZone (\<lambda>m. m) (SetZone (\<lambda>m. m) resolver_New ''home'' [(''mc.home'', Some (V4 1))])
       ''my.work'' []) ''my.work'') ''lab'' []) ''mc.home'' = {(''home'', [''mc.home'' \<mapsto> Some (V4 1)])}"
proof -
  let ?r = "SetZone (\<lambda>m. m) resolver_New ''home'' [(''mc.home'', Some (V4 1))]"
  let ?ops = "[JoinZone ''my.work'' [], LeaveZone ''my.work'', JoinZone ''lab'' []]"
  have c: "\<not> covers (dns_normalize ''my.work'') ''mc.home''" "\<not> covers (dns_normalize ''lab'') ''mc.home''" by code_simp+
  have n: "dns_normalize ''home'' = ''home''" "dns_normalize ''mc.home'' = ''mc.home''" "covers ''home'' ''mc.home''" by code_simp+
  have z: "rv_zones ?r = [(''home'', [''mc.home'' \<mapsto> Some (V4 1)])]" by (simp add: SetZone_def n resolver_New_def Let_def)
  then have ok: "gomap_ok (rv_zones ?r)" by (simp add: gomap_ok_def)
  have own: "owners ?r ''mc.home'' = {(''home'', [''mc.home'' \<mapsto> Some (V4 1)])}" using n(3) by (auto simp: owners_def z split: if_splits)
  then have sub: "fst ` owners ?r ''mc.home'' \<subseteq> {dns_normalize ''home''}" by (simp add: n)
  have ops: "\<not> covers (dns_normalize (zones.op_zone op)) ''mc.home''"
    if "op \<in> set ?ops" for op :: "(string \<times> ip) list zone_op" using that c by auto
  have "owners (foldl zones.apply_op ?r ?ops) ''mc.home'' = owners ?r ''mc.home''"
    by (rule conjunct1, rule joins_and_leaves_are_isolated[OF ok reorders_rev sub]) (rule ops)
  then show ?thesis using own by simp
qed

end
