(* ===== verification/Nrpt.thy ===== *)
theory Nrpt
  imports Resolver
begin

text \<open>
  \<open>client/nrpt\<close>: keeping the system's name resolution policy equal to the joined suffixes. The system
  itself is a state of any type with two operations, reading our rules and changing them; what each
  of them does to it is PowerShell's, so they are arguments of \<open>Apply\<close>.
\<close>

record nrpt_rule =
  nr_id :: string
  nr_namespace :: string
  nr_servers :: "string list"

record nrpt_binder =
  bd_server :: string
  bd_synced :: bool
  bd_last :: string

datatype nrpt_error = BadResolverAddress string | NotPort53 nat | ListFailed | MutateFailed

definition Tag :: string where
  "Tag = ''zwan-split-dns''"

definition nrpt_New :: "string \<Rightarrow> nrpt_error + nrpt_binder" where
  "nrpt_New a = (case parse_addrport a of
      None \<Rightarrow> Inl (BadResolverAddress a)
    | Some (ip, port) \<Rightarrow>
        if port \<noteq> 53 then Inl (NotPort53 port)
        else Inr \<lparr>bd_server = addr_string ip, bd_synced = False, bd_last = []\<rparr>)"

definition plain_char :: "char \<Rightarrow> bool" where
  "plain_char c = (is_lower_alnum c \<or> c = CHR ''-'' \<or> c = CHR ''.'')"

definition plainName :: "string \<Rightarrow> bool" where
  "plainName s = (list_all plain_char s \<and> \<not> str_contains s ''..'')"

fun namespaces_loop :: "string list \<Rightarrow> string set \<Rightarrow> string list \<Rightarrow> string list" where
  "namespaces_loop [] seen out = out"
| "namespaces_loop (s0 # ss) seen out =
     (let s = to_lower (trim_dots (trim_space s0)) in
      if s = [] \<or> s \<in> seen \<or> \<not> plainName s then namespaces_loop ss seen out
      else namespaces_loop ss (insert s seen) (out @ [''.'' @ s]))"

definition namespaces :: "string list \<Rightarrow> string list" where
  "namespaces suffixes = sort (namespaces_loop suffixes {} [])"

definition sameNamespace :: "string \<Rightarrow> string" where
  "sameNamespace ns0 =
     (let ns = to_lower (trim_space ns0) in
      if 1 < length ns then trim_suffix ns ''.'' else ns)"

definition servedBy :: "nrpt_rule \<Rightarrow> string \<Rightarrow> bool" where
  "servedBy r server = (length (nr_servers r) = 1 \<and> equal_fold (trim_space (nr_servers r ! 0)) server)"

text \<open>The loop over the rules found: which namespaces are covered, and what is to be removed.\<close>

fun plan_loop :: "string set \<Rightarrow> string \<Rightarrow> nrpt_rule list \<Rightarrow> string set \<Rightarrow> string list \<Rightarrow> string set \<times> string list" where
  "plan_loop wanted server [] found remove = (found, remove)"
| "plan_loop wanted server (r # rs) found remove =
     (let ns = sameNamespace (nr_namespace r) in
      if ns \<notin> wanted \<or> ns \<in> found \<or> \<not> servedBy r server
      then plan_loop wanted server rs found (remove @ [nr_id r])
      else plan_loop wanted server rs (insert ns found) remove)"

definition plan :: "string list \<Rightarrow> nrpt_rule list \<Rightarrow> string \<Rightarrow> string list \<times> string list" where
  "plan want have_rules server =
     (case plan_loop (set want) server have_rules {} [] of
        (found, remove) \<Rightarrow> (filter (\<lambda>ns. ns \<notin> found) want, remove))"

definition Apply :: "('t \<Rightarrow> nrpt_rule list option) \<Rightarrow> (string list \<Rightarrow> string list \<Rightarrow> string \<Rightarrow> 't \<Rightarrow> bool \<times> 't) \<Rightarrow>
    string list \<Rightarrow> nrpt_binder \<times> 't \<Rightarrow> (nrpt_error + unit) \<times> nrpt_binder \<times> 't" where
  "Apply list_rules mutate suffixes bt =
     (case bt of (b, t) \<Rightarrow>
        let want = namespaces suffixes; sig = join_with '','' want in
        if bd_synced b \<and> sig = bd_last b then (Inr (), b, t)
        else (case list_rules t of
               None \<Rightarrow> (Inl ListFailed, b, t)
             | Some rules \<Rightarrow>
                 (case plan want rules (bd_server b) of (add, remove) \<Rightarrow>
                    (case mutate add remove (bd_server b) t of
                       (False, t') \<Rightarrow> (Inl MutateFailed, b, t')
                     | (True, t') \<Rightarrow> (Inr (), b\<lparr>bd_synced := True, bd_last := sig\<rparr>, t')))))"

definition Resync :: "nrpt_binder \<Rightarrow> nrpt_binder" where
  "Resync b = b\<lparr>bd_synced := False\<rparr>"

definition Clear :: "('t \<Rightarrow> nrpt_rule list option) \<Rightarrow> (string list \<Rightarrow> string list \<Rightarrow> string \<Rightarrow> 't \<Rightarrow> bool \<times> 't) \<Rightarrow>
    nrpt_binder \<times> 't \<Rightarrow> (nrpt_error + unit) \<times> nrpt_binder \<times> 't" where
  "Clear list_rules mutate bt = Apply list_rules mutate [] bt"

definition Purge :: "('t \<Rightarrow> nrpt_rule list option) \<Rightarrow> (string list \<Rightarrow> string list \<Rightarrow> string \<Rightarrow> 't \<Rightarrow> bool \<times> 't) \<Rightarrow>
    't \<Rightarrow> (nrpt_error + unit) \<times> 't" where
  "Purge list_rules mutate t =
     (case Apply list_rules mutate [] (\<lparr>bd_server = [], bd_synced = False, bd_last = []\<rparr>, t) of
        (res, _, t') \<Rightarrow> (res, t'))"

section \<open>The Windows side: scripts and their output\<close>

definition quote :: "string \<Rightarrow> string" where
  "quote s = replace_quote s"

definition ProductName :: string where
  "ProductName = ''MyWAN''"

definition displayName :: "string \<Rightarrow> string" where
  "displayName ns = ProductName @ '' ('' @ trim_prefix ns ''.'' @ '')''"

definition splitList :: "string \<Rightarrow> string list" where
  "splitList s = filter (\<lambda>p. p \<noteq> []) (map trim_space (split_on CHR '','' s))"

text \<open>\<open>strings.SplitN\<close> with three fields, and the loop of \<open>list\<close> over the lines of the output.\<close>

definition split_fields :: "string \<Rightarrow> (string \<times> string \<times> string) option" where
  "split_fields s = (case cut s ''|'' of None \<Rightarrow> None
     | Some (a, r) \<Rightarrow> (case cut r ''|'' of None \<Rightarrow> None | Some (b, c) \<Rightarrow> Some (a, b, c)))"

fun parse_rules :: "string list \<Rightarrow> nrpt_rule list" where
  "parse_rules [] = []"
| "parse_rules (l # ls) = (case split_fields (trim_space l) of
      None \<Rightarrow> parse_rules ls
    | Some (i, ns, srv) \<Rightarrow>
        if i = [] then parse_rules ls
        else \<lparr>nr_id = i, nr_namespace = to_lower ns, nr_servers = splitList srv\<rparr> # parse_rules ls)"

text \<open>
  \<open>powershell\<close> runs a script: what it printed when it succeeded, none when it failed, and what became of the system.
\<close>

definition list_script :: string where
  "list_script = ''Get-DnsClientNrptRule -ErrorAction Stop | Where-Object { $_.Comment -eq '' @ [CHR 0x27] @ Tag @ [CHR 0x27] @
        '' } | ForEach-Object { '' @ [CHR 0x22] @
        ''$($_.Name)|$($_.Namespace -join '' @ [CHR 0x27] @ '','' @ [CHR 0x27] @ '')|$($_.NameServers -join '' @
        [CHR 0x27] @ '','' @ [CHR 0x27] @ '')'' @ [CHR 0x22] @ '' }''"

definition ps_list :: "(string \<Rightarrow> 't \<Rightarrow> string option \<times> 't) \<Rightarrow> 't \<Rightarrow> nrpt_rule list option" where
  "ps_list powershell t = map_option (\<lambda>out. parse_rules (split_on CHR 0x0A out)) (fst (powershell list_script t))"

definition quoted :: "string \<Rightarrow> string" where
  "quoted s = [CHR 0x27] @ s @ [CHR 0x27]"

definition remove_stmt :: "string \<Rightarrow> string" where
  "remove_stmt i = ''Remove-DnsClientNrptRule -Name '' @ quoted (quote i) @ '' -Force -ErrorAction Stop''"

definition add_stmt :: "string \<Rightarrow> string \<Rightarrow> string" where
  "add_stmt server ns = ''Add-DnsClientNrptRule -Namespace '' @ quoted (quote ns) @ '' -NameServers '' @ quoted (quote server) @
     '' -Comment '' @ quoted Tag @ '' -DisplayName '' @ quoted (quote (displayName ns)) @ '' -ErrorAction Stop | Out-Null''"

definition ps_mutate :: "(string \<Rightarrow> 't \<Rightarrow> string option \<times> 't) \<Rightarrow> string list \<Rightarrow> string list \<Rightarrow> string \<Rightarrow> 't \<Rightarrow> bool \<times> 't" where
  "ps_mutate powershell add remove server t =
     (if add = [] \<and> remove = [] then (True, t)
      else (case powershell (join_with ''; '' (map remove_stmt remove @ map (add_stmt server) add)) t of
              (out, t') \<Rightarrow> (out \<noteq> None, t')))"

text \<open>Elsewhere there is no such table.\<close>

definition no_list :: "'t \<Rightarrow> nrpt_rule list option" where
  "no_list t = Some []"

definition no_mutate :: "string list \<Rightarrow> string list \<Rightarrow> string \<Rightarrow> 't \<Rightarrow> bool \<times> 't" where
  "no_mutate add remove server t = (True, t)"

section \<open>Namespaces\<close>

lemma plain_char_nat: "plain_char c \<longleftrightarrow>
    48 \<le> (of_char c :: nat) \<and> (of_char c :: nat) \<le> 57 \<or> 97 \<le> (of_char c :: nat) \<and> (of_char c :: nat) \<le> 122 \<or>
    of_char c = (45 :: nat) \<or> of_char c = (46 :: nat)"
  by (auto simp: plain_char_def is_lower_alnum_nat char_eq_nat[of c])

lemma plain_char_facts:
  assumes "plain_char c"
  shows "lower_char c = c" and "\<not> is_space c" and "c \<noteq> CHR 0x27"
proof -
  show "lower_char c = c" using assms by (auto simp: plain_char_nat char_eq_nat lower_char_nat)
  show "\<not> is_space c" using assms by (auto simp: plain_char_nat is_space_nat)
  show "c \<noteq> CHR 0x27" using assms by (auto simp: plain_char_nat)
qed

text \<open>The suffixes that make a rule, in the form they take in it.\<close>

definition rule_suffixes :: "string list \<Rightarrow> string set" where
  "rule_suffixes ss = {s \<in> dns_normalize ` set ss. s \<noteq> [] \<and> plainName s}"

lemma namespaces_loop_facts:
  assumes "set out = (\<lambda>s. ''.'' @ s) ` seen" and "distinct out"
  shows "set (namespaces_loop ss seen out) = (\<lambda>s. ''.'' @ s) ` (seen \<union> rule_suffixes ss) \<and>
    distinct (namespaces_loop ss seen out)"
  using assms
proof (induction ss arbitrary: seen out)
  case (Cons s0 ss)
  let ?s = "dns_normalize s0"
  have norm: "to_lower (trim_dots (trim_space s0)) = ?s" by (simp add: dns_normalize_def)
  show ?case
  proof (cases "?s = [] \<or> ?s \<in> seen \<or> \<not> plainName ?s")
    case True
    then have "seen \<union> rule_suffixes (s0 # ss) = seen \<union> rule_suffixes ss" by (auto simp: rule_suffixes_def)
    with True Cons.IH[OF Cons.prems] show ?thesis by (simp add: norm)
  next
    case False
    then have "seen \<union> rule_suffixes (s0 # ss) = insert ?s seen \<union> rule_suffixes ss" by (auto simp: rule_suffixes_def)
    moreover have "set (out @ [''.'' @ ?s]) = (\<lambda>s. ''.'' @ s) ` insert ?s seen" using Cons.prems(1) by auto
    moreover have "distinct (out @ [''.'' @ ?s])" using Cons.prems False by auto
    ultimately show ?thesis using False Cons.IH[of "out @ [''.'' @ ?s]" "insert ?s seen"] by (simp add: norm Let_def)
  qed
qed (simp add: rule_suffixes_def)

lemma set_namespaces: "set (namespaces ss) = (\<lambda>s. ''.'' @ s) ` rule_suffixes ss"
  and distinct_namespaces [simp]: "distinct (namespaces ss)"
  and sorted_namespaces [simp]: "sorted (namespaces ss)"
  using namespaces_loop_facts[of "[]" "{}" ss] by (simp_all add: namespaces_def)

lemma dns_normalize_ends: "dns_normalize s \<noteq> [] \<Longrightarrow> last (dns_normalize s) \<noteq> CHR ''.''"
proof -
  let ?t = "trim_dots (to_lower (trim_space s))"
  have "dns_normalize s = ?t" by (simp add: dns_normalize_def trim_dots_lower)
  moreover assume "dns_normalize s \<noteq> []"
  ultimately show ?thesis using trim_by_ends[of "\<lambda>c. c = CHR ''.''" "to_lower (trim_space s)"] by (simp add: trim_dots_def)
qed

lemma namespace_chars:
  assumes "ns \<in> set (namespaces ss)"
  obtains s where "ns = CHR ''.'' # s" "s \<noteq> []" "plainName s" "\<forall>c \<in> set ns. plain_char c" "last s \<noteq> CHR ''.''" "s \<in> rule_suffixes ss"
proof -
  obtain s where s: "ns = ''.'' @ s" "s \<in> rule_suffixes ss" using assms by (auto simp: set_namespaces)
  then have "s \<noteq> []" "plainName s" "last s \<noteq> CHR ''.''" by (auto simp: rule_suffixes_def dns_normalize_ends)
  moreover from this have "\<forall>c \<in> set ns. plain_char c"
    using s(1) by (auto simp: plainName_def list_all_iff plain_char_def)
  ultimately show ?thesis using that s by auto
qed

text \<open>A namespace the binder wrote is recognised when it is read back, with or without the final dot.\<close>

lemma plain_lower: "\<forall>c \<in> set s. plain_char c \<Longrightarrow> to_lower s = s"
  unfolding to_lower_def by (simp add: map_idI plain_char_facts)

lemma plain_trim: "\<forall>c \<in> set s. plain_char c \<Longrightarrow> trim_space s = s"
  unfolding trim_space_def by (rule trim_by_none) (simp add: plain_char_facts)

lemma sameNamespace_own:
  assumes "ns \<in> set (namespaces ss)"
  shows "sameNamespace ns = ns" and "sameNamespace (ns @ ''.'') = ns"
proof -
  obtain s where s: "ns = CHR ''.'' # s" "s \<noteq> []" "\<forall>c \<in> set ns. plain_char c" "last s \<noteq> CHR ''.''"
    using namespace_chars[OF assms] by metis
  have "last ns \<noteq> CHR ''.''" using s by simp
  then have "trim_suffix ns ''.'' = ns" unfolding trim_suffix_def has_suffix_iff by (metis last_snoc)
  with s show "sameNamespace ns = ns" by (simp add: sameNamespace_def plain_lower plain_trim)
  have "\<forall>c \<in> set (ns @ ''.''). plain_char c" using s(3) by (auto simp: plain_char_def)
  moreover have "trim_suffix (ns @ ''.'') ''.'' = ns" by (rule trim_suffix_append)
  moreover have "1 < length (ns @ ''.'')" using s(1) by simp
  ultimately show "sameNamespace (ns @ ''.'') = ns" by (simp only: sameNamespace_def plain_lower plain_trim Let_def if_True)
qed

section \<open>Reconciling\<close>

text \<open>The rules the loop leaves in place.\<close>

fun kept :: "string set \<Rightarrow> string \<Rightarrow> nrpt_rule list \<Rightarrow> string set \<Rightarrow> nrpt_rule list" where
  "kept wanted server [] found = []"
| "kept wanted server (r # rs) found =
     (let ns = sameNamespace (nr_namespace r) in
      if ns \<notin> wanted \<or> ns \<in> found \<or> \<not> servedBy r server then kept wanted server rs found
      else r # kept wanted server rs (insert ns found))"

abbreviation rule_ns :: "nrpt_rule \<Rightarrow> string" where
  "rule_ns r \<equiv> sameNamespace (nr_namespace r)"

lemma kept_facts:
  "(\<forall>r \<in> set (kept w srv rs found). r \<in> set rs \<and> rule_ns r \<in> w \<and> rule_ns r \<notin> found \<and> servedBy r srv) \<and>
   distinct (map rule_ns (kept w srv rs found))"
proof (induction rs arbitrary: found)
  case (Cons r rs)
  show ?case using Cons.IH[of found] Cons.IH[of "insert (rule_ns r) found"] by (auto simp: Let_def)
qed simp

lemma plan_loop_kept:
  "fst (plan_loop w srv rs found rem) = found \<union> rule_ns ` set (kept w srv rs found)"
proof (induction rs arbitrary: found rem)
  case (Cons r rs)
  show ?case by (auto simp: Let_def Cons.IH)
qed simp

lemma plan_loop_removed:
  assumes "distinct (map nr_id rs)"
  shows "filter (\<lambda>r. nr_id r \<notin> set (snd (plan_loop w srv rs found rem))) rs =
      filter (\<lambda>r. nr_id r \<notin> set rem) (kept w srv rs found)
    \<and> set (snd (plan_loop w srv rs found rem)) = set rem \<union> (nr_id ` set rs - nr_id ` set (kept w srv rs found))"
  using assms
proof (induction rs arbitrary: found rem)
  case (Cons r rs)
  let ?drop = "rule_ns r \<notin> w \<or> rule_ns r \<in> found \<or> \<not> servedBy r srv"
  have sub: "set (kept w srv rs f) \<subseteq> set rs" for f using kept_facts by blast
  have fresh: "nr_id r \<notin> nr_id ` set rs" and d: "distinct (map nr_id rs)" using Cons.prems by auto
  show ?case
  proof (cases ?drop)
    case True
    note ih = Cons.IH[OF d, of found "rem @ [nr_id r]"]
    have k: "filter (\<lambda>x. nr_id x \<notin> set (rem @ [nr_id r])) (kept w srv rs found) =
        filter (\<lambda>x. nr_id x \<notin> set rem) (kept w srv rs found)"
      by (rule filter_cong[OF refl]) (use sub[of found] fresh in \<open>force simp: image_iff\<close>)
    have "nr_id r \<notin> nr_id ` set (kept w srv rs found)" using sub[of found] fresh by auto
    with True ih k show ?thesis by (auto simp: Let_def)
  next
    case False
    note ih = Cons.IH[OF d, of "insert (rule_ns r) found" rem]
    have "nr_id r \<notin> nr_id ` set rs - nr_id ` set (kept w srv rs (insert (rule_ns r) found))" using fresh by auto
    with False ih fresh show ?thesis by (auto simp: Let_def)
  qed
qed simp

text \<open>What a table that is as wanted looks like, and that planning on it changes nothing.\<close>

definition exact :: "string list \<Rightarrow> string \<Rightarrow> nrpt_rule list \<Rightarrow> bool" where
  "exact want server rs \<longleftrightarrow> mset (map rule_ns rs) = mset want \<and> (\<forall>r \<in> set rs. servedBy r server)"

lemma kept_all:
  assumes "distinct (map rule_ns rs)" and "\<forall>r \<in> set rs. rule_ns r \<in> w \<and> servedBy r srv \<and> rule_ns r \<notin> found"
  shows "kept w srv rs found = rs \<and> snd (plan_loop w srv rs found rem) = rem"
  using assms
proof (induction rs arbitrary: found)
  case (Cons r rs)
  have "kept w srv rs (insert (rule_ns r) found) = rs \<and> snd (plan_loop w srv rs (insert (rule_ns r) found) rem) = rem"
    by (rule Cons.IH) (use Cons.prems in \<open>auto simp: image_iff\<close>)
  with Cons.prems show ?case by (simp add: Let_def)
qed simp

lemma exact_plan:
  assumes "distinct want" and "exact want srv rs"
  shows "plan want rs srv = ([], [])"
proof -
  have m: "mset (map rule_ns rs) = mset want" and sv: "\<forall>r \<in> set rs. servedBy r srv" using assms(2) by (simp_all add: exact_def)
  have d: "distinct (map rule_ns rs)" using m assms(1) by (metis mset_eq_imp_distinct_iff)
  have st: "set (map rule_ns rs) = set want" using m by (metis set_mset_mset)
  have k: "kept (set want) srv rs {} = rs \<and> snd (plan_loop (set want) srv rs {} []) = []"
    by (rule kept_all[OF d]) (use st sv in auto)
  have "fst (plan_loop (set want) srv rs {} []) = set want" using k st by (simp add: plan_loop_kept)
  then show ?thesis using k by (cases "plan_loop (set want) srv rs {} []") (simp add: plan_def)
qed

section \<open>What PowerShell does\<close>

text \<open>
  The documented behaviour of the cmdlets the two scripts are made of, with \<open>table t\<close> the rules of the system \<open>t\<close> that
  carry our tag. The statements of a script run one after the other until one fails, so a script that fails may
  have done any first part of its work, and one that succeeds has done all of it. Removing takes the rule of
  that name out; adding makes a rule with a name of its own, for that namespace (Windows may give it back with a
  final dot), served by that server.
\<close>

definition ps_char :: "char \<Rightarrow> bool" where
  "ps_char c \<longleftrightarrow> 33 \<le> (of_char c :: nat) \<and> (of_char c :: nat) \<le> 126 \<and>
     c \<notin> {CHR 0x27, CHR 0x22, CHR '','', CHR '';'', CHR ''|''}"

text \<open>A word that needs no quoting and that a line of the listing can hold.\<close>

definition ps_plain :: "string \<Rightarrow> bool" where
  "ps_plain s \<longleftrightarrow> s \<noteq> [] \<and> list_all ps_char s"

datatype ps_stmt = RemoveRule string | AddRule string string

fun stmt_text :: "ps_stmt \<Rightarrow> string" where
  "stmt_text (RemoveRule i) = remove_stmt i"
| "stmt_text (AddRule ns server) = add_stmt server ns"

fun stmt_plain :: "ps_stmt \<Rightarrow> bool" where
  "stmt_plain (RemoveRule i) = ps_plain i"
| "stmt_plain (AddRule ns server) = (ps_plain ns \<and> ps_plain server)"

fun stmt_effect :: "ps_stmt \<Rightarrow> nrpt_rule list \<Rightarrow> nrpt_rule list \<Rightarrow> bool" where
  "stmt_effect (RemoveRule i) rs rs' \<longleftrightarrow> mset rs' = mset (filter (\<lambda>r. nr_id r \<noteq> i) rs)"
| "stmt_effect (AddRule ns server) rs rs' \<longleftrightarrow>
     (\<exists>r. mset rs' = add_mset r (mset rs) \<and> nr_namespace r \<in> {ns, ns @ ''.''} \<and> nr_servers r = [server])"

inductive script_effect :: "ps_stmt list \<Rightarrow> nrpt_rule list \<Rightarrow> nrpt_rule list \<Rightarrow> bool" where
  nothing: "mset rs' = mset rs \<Longrightarrow> script_effect [] rs rs'"
| statement: "stmt_effect s rs m \<Longrightarrow> script_effect ss m rs' \<Longrightarrow> script_effect (s # ss) rs rs'"

inductive_cases script_effect_NilE: "script_effect [] rs rs'"
inductive_cases script_effect_ConsE: "script_effect (s # ss) rs rs'"

definition rule_line :: "nrpt_rule \<Rightarrow> string" where
  "rule_line r = nr_id r @ ''|'' @ nr_namespace r @ ''|'' @ join_with '','' (nr_servers r)"

definition listing :: "nrpt_rule list \<Rightarrow> string" where
  "listing rs = concat (map (\<lambda>r. rule_line r @ [CHR 0x0D, CHR 0x0A]) rs)"

definition rule_printable :: "nrpt_rule \<Rightarrow> bool" where
  "rule_printable r \<longleftrightarrow> ps_plain (nr_id r) \<and> CHR ''|'' \<notin> set (nr_namespace r) \<and> CHR 0x0A \<notin> set (nr_namespace r) \<and>
     list_all ps_plain (nr_servers r)"

definition powershell_ok :: "(string \<Rightarrow> 't \<Rightarrow> string option \<times> 't) \<Rightarrow> ('t \<Rightarrow> nrpt_rule list) \<Rightarrow> bool" where
  "powershell_ok powershell table \<longleftrightarrow>
     (\<forall>t. list_all rule_printable (table t) \<and> distinct (map nr_id (table t))) \<and>
     (\<forall>t. snd (powershell list_script t) = t) \<and>
     (\<forall>t out. fst (powershell list_script t) = Some out \<longrightarrow> out = listing (table t)) \<and>
     (\<forall>stmts t. stmts \<noteq> [] \<longrightarrow> list_all stmt_plain stmts \<longrightarrow>
        (case powershell (join_with ''; '' (map stmt_text stmts)) t of
           (out, t') \<Rightarrow> \<exists>n \<le> length stmts. script_effect (take n stmts) (table t) (table t') \<and> (out \<noteq> None \<longrightarrow> n = length stmts)))"

text \<open>A rule as the program sees it.\<close>

definition as_read :: "nrpt_rule \<Rightarrow> nrpt_rule" where
  "as_read r = r\<lparr>nr_namespace := to_lower (nr_namespace r)\<rparr>"

lemma as_read_simps [simp]: "nr_id (as_read r) = nr_id r" "nr_servers (as_read r) = nr_servers r" "servedBy (as_read r) server = servedBy r server"
  by (simp_all add: as_read_def servedBy_def)

lemma as_read_ns [simp]: "rule_ns (as_read r) = rule_ns r"
  by (simp add: as_read_def sameNamespace_def trim_space_lower)

lemma ps_char_facts:
  assumes "ps_char c"
  shows "\<not> is_space c" "c \<noteq> CHR 0x0A" "c \<noteq> CHR '',''" "c \<noteq> CHR ''|''" "c \<noteq> CHR '';''" "c \<noteq> CHR 0x27"
  using assms by (auto simp: ps_char_def is_space_nat)

lemma ps_plain_chars: "ps_plain s \<Longrightarrow> c \<in> set s \<Longrightarrow> ps_char c"
  by (simp add: ps_plain_def list_all_iff)

lemma ps_plain_trim: "ps_plain s \<Longrightarrow> trim_space s = s"
  unfolding trim_space_def by (rule trim_by_none) (use ps_plain_chars ps_char_facts in blast)

lemma plain_is_ps: "ns \<in> set (namespaces ss) \<Longrightarrow> ps_plain ns"
proof (erule namespace_chars)
  fix s
  assume "ns = CHR ''.'' # s" and "\<forall>c \<in> set ns. plain_char c"
  then show "ps_plain ns" by (auto simp: ps_plain_def list_all_iff ps_char_def plain_char_nat)
qed

section \<open>The listing is read back\<close>

lemma split_listing:
  assumes "list_all (\<lambda>l. CHR 0x0A \<notin> set l) ls"
  shows "split_on CHR 0x0A (concat (map (\<lambda>l. l @ [CHR 0x0D, CHR 0x0A]) ls)) = map (\<lambda>l. l @ [CHR 0x0D]) ls @ [[]]"
  using assms
proof (induction ls)
  case (Cons l ls)
  have "CHR 0x0A \<notin> set (l @ [CHR 0x0D])" using Cons.prems by simp
  from split_on_append[OF this, of "concat (map (\<lambda>l. l @ [CHR 0x0D, CHR 0x0A]) ls)"] Cons show ?case by simp
qed simp

lemma servers_chars:
  assumes "list_all ps_plain srv"
  shows "CHR 0x0A \<notin> set (join_with '','' srv)" and "join_with '','' srv = [] \<or> \<not> is_space (last (join_with '','' srv))"
    and "splitList (join_with '','' srv) = srv"
proof -
  have plain: "ps_plain x" if "x \<in> set srv" for x using assms that by (simp add: list_all_iff)
  have set: "set (join_with '','' xs) \<subseteq> \<Union> (set ` set xs) \<union> {CHR '',''}" for xs
    by (induction "'',''" xs rule: join_with.induct) auto
  show "CHR 0x0A \<notin> set (join_with '','' srv)" using set[of srv] plain ps_plain_chars ps_char_facts(2) by fastforce
  have "join_with '','' xs = [] \<or> \<not> is_space (last (join_with '','' xs))" if "\<forall>x \<in> set xs. ps_plain x" for xs
    using that
  proof (induction "'',''" xs rule: join_with.induct)
    case (2 p)
    then have "ps_plain p" by simp
    then show ?case using ps_plain_chars[of p "last p"] ps_char_facts(1) by (cases "p = []") auto
  next
    case (3 p q ps)
    then have "ps_plain q" by simp
    then have "join_with '','' (q # ps) \<noteq> []" by (cases ps) (auto simp: ps_plain_def)
    then show ?case using 3 by simp
  qed simp
  then show "join_with '','' srv = [] \<or> \<not> is_space (last (join_with '','' srv))" using plain by blast
  show "splitList (join_with '','' srv) = srv"
  proof (cases "srv = []")
    case False
    have "split_on CHR '','' (join_with [CHR '',''] srv) = srv"
      by (rule split_join[OF False]) (use plain ps_plain_chars ps_char_facts(3) in blast)
    moreover have "map trim_space srv = srv" using plain ps_plain_trim by (simp add: map_idI)
    moreover have "filter (\<lambda>p. p \<noteq> []) srv = srv" using plain by (auto simp: filter_id_conv ps_plain_def)
    ultimately show ?thesis by (simp add: splitList_def)
  qed (simp add: splitList_def)
qed

lemma rule_line_read:
  assumes "rule_printable r"
  shows "CHR 0x0A \<notin> set (rule_line r)" and "split_fields (trim_space (rule_line r @ [CHR 0x0D])) =
    Some (nr_id r, nr_namespace r, join_with '','' (nr_servers r))"
proof -
  let ?srv = "join_with '','' (nr_servers r)"
  have i: "ps_plain (nr_id r)" and ns: "CHR ''|'' \<notin> set (nr_namespace r)" "CHR 0x0A \<notin> set (nr_namespace r)"
    and srv: "list_all ps_plain (nr_servers r)" using assms by (simp_all add: rule_printable_def)
  have ichars: "CHR ''|'' \<notin> set (nr_id r)" "CHR 0x0A \<notin> set (nr_id r)" "nr_id r \<noteq> []" "\<not> is_space (hd (nr_id r))"
    using i ps_plain_chars[OF i] ps_char_facts by (auto simp: ps_plain_def) (use hd_in_set in blast)
  show "CHR 0x0A \<notin> set (rule_line r)" using ichars ns servers_chars(1)[OF srv] by (simp add: rule_line_def)
  have last: "\<not> is_space (last (rule_line r))"
    using servers_chars(2)[OF srv] by (auto simp: rule_line_def is_space_def)
  have hd: "\<not> is_space (hd (rule_line r))" and ne: "rule_line r \<noteq> []" using ichars by (simp_all add: rule_line_def)
  have "is_space CHR 0x0D" by (simp add: is_space_nat)
  then have "trim_space (rule_line r @ [CHR 0x0D]) = rule_line r"
    using hd ne last by (simp add: trim_space_def trim_by_def trim_left_by_def trim_right_by_def dropWhile_hd hd_rev)
  moreover have "cut (rule_line r) ''|'' = Some (nr_id r, nr_namespace r @ ''|'' @ ?srv)"
    using cut_first[OF ichars(1), of "nr_namespace r @ ''|'' @ ?srv"] by (simp add: rule_line_def)
  moreover have "cut (nr_namespace r @ ''|'' @ ?srv) ''|'' = Some (nr_namespace r, ?srv)"
    using cut_first[OF ns(1), of ?srv] by simp
  ultimately show "split_fields (trim_space (rule_line r @ [CHR 0x0D])) = Some (nr_id r, nr_namespace r, ?srv)"
    by (simp add: split_fields_def)
qed

lemma listing_read:
  assumes "list_all rule_printable rs"
  shows "parse_rules (split_on CHR 0x0A (listing rs)) = map as_read rs"
proof -
  have "split_on CHR 0x0A (listing rs) = map (\<lambda>l. l @ [CHR 0x0D]) (map rule_line rs) @ [[]]"
    using split_listing[of "map rule_line rs"] assms rule_line_read(1)
    by (simp add: listing_def list_all_iff comp_def)
  moreover have "parse_rules (map (\<lambda>r. rule_line r @ [CHR 0x0D]) rs @ [[]]) = map as_read rs" using assms
  proof (induction rs)
    case Nil
    show ?case by (simp add: split_fields_def)
  next
    case (Cons r rs)
    then have "rule_printable r" "nr_id r \<noteq> []" "splitList (join_with '','' (nr_servers r)) = nr_servers r"
      using servers_chars(3) by (simp_all add: rule_printable_def ps_plain_def)
    then show ?case using Cons by (simp add: rule_line_read(2) as_read_def)
  qed
  ultimately show ?thesis by (simp add: comp_def)
qed

section \<open>The table as the program sees it\<close>

text \<open>
  What the two functions of the package do to the table, whichever way they do it: reading shows the table, and a
  change that succeeds takes out the rules named for removal and adds one for each namespace. Nothing is said of
  a change that fails.
\<close>

definition policy_system :: "('t \<Rightarrow> nrpt_rule list option) \<Rightarrow> (string list \<Rightarrow> string list \<Rightarrow> string \<Rightarrow> 't \<Rightarrow> bool \<times> 't) \<Rightarrow>
    ('t \<Rightarrow> nrpt_rule list) \<Rightarrow> bool" where
  "policy_system list_rules mutate table \<longleftrightarrow>
     (\<forall>t. distinct (map nr_id (table t)) \<and> (\<forall>r \<in> set (table t). ps_plain (nr_id r))) \<and>
     (\<forall>t rules. list_rules t = Some rules \<longrightarrow> rules = map as_read (table t)) \<and>
     (\<forall>add remove server t t'. list_all ps_plain add \<longrightarrow> list_all ps_plain remove \<longrightarrow> (add \<noteq> [] \<longrightarrow> ps_plain server) \<longrightarrow>
        mutate add remove server t = (True, t') \<longrightarrow>
        (\<exists>fresh. mset (table t') = mset (filter (\<lambda>r. nr_id r \<notin> set remove) (table t)) + mset fresh \<and>
           list_all2 (\<lambda>ns r. nr_namespace r \<in> {ns, ns @ ''.''} \<and> nr_servers r = [server]) add fresh))"

lemma script_removes:
  "script_effect (map RemoveRule is @ ss) rs rs' \<Longrightarrow>
     \<exists>m. mset m = mset (filter (\<lambda>r. nr_id r \<notin> set is) rs) \<and> script_effect ss m rs'"
proof (induction "is" arbitrary: rs)
  case (Cons i "is")
  then obtain m where m: "mset m = mset (filter (\<lambda>r. nr_id r \<noteq> i) rs)" "script_effect (map RemoveRule is @ ss) m rs'"
    by (auto elim: script_effect_ConsE)
  from Cons.IH[OF m(2)] obtain k where k: "mset k = mset (filter (\<lambda>r. nr_id r \<notin> set is) m)" "script_effect ss k rs'" by blast
  have "mset k = mset (filter (\<lambda>r. nr_id r \<notin> set (i # is)) rs)"
    unfolding k(1) mset_filter m(1) filter_filter_mset by (simp add: conj_commute)
  then show ?case using k(2) by blast
qed auto

lemma script_adds:
  "script_effect (map (\<lambda>ns. AddRule ns server) nss) rs rs' \<Longrightarrow>
     \<exists>fresh. mset rs' = mset rs + mset fresh \<and>
       list_all2 (\<lambda>ns r. nr_namespace r \<in> {ns, ns @ ''.''} \<and> nr_servers r = [server]) nss fresh"
proof (induction nss arbitrary: rs)
  case (Cons ns nss)
  then obtain m r where m: "mset m = add_mset r (mset rs)" "nr_namespace r \<in> {ns, ns @ ''.''}" "nr_servers r = [server]"
      "script_effect (map (\<lambda>ns. AddRule ns server) nss) m rs'"
    by (auto elim!: script_effect_ConsE)
  from Cons.IH[OF m(4)] obtain fresh where "mset rs' = mset m + mset fresh"
    "list_all2 (\<lambda>ns r. nr_namespace r \<in> {ns, ns @ ''.''} \<and> nr_servers r = [server]) nss fresh" by blast
  then show ?case using m by (intro exI[of _ "r # fresh"]) simp
qed (auto elim: script_effect_NilE)

lemma powershell_script:
  assumes "powershell_ok powershell table" and "stmts \<noteq> []" and "list_all stmt_plain stmts"
    and "powershell (join_with ''; '' (map stmt_text stmts)) t = (Some out, t')"
  shows "script_effect stmts (table t) (table t')"
proof -
  have "\<forall>stmts t. stmts \<noteq> [] \<longrightarrow> list_all stmt_plain stmts \<longrightarrow>
        (case powershell (join_with ''; '' (map stmt_text stmts)) t of
           (out, t') \<Rightarrow> \<exists>n \<le> length stmts. script_effect (take n stmts) (table t) (table t') \<and> (out \<noteq> None \<longrightarrow> n = length stmts))"
    using assms(1) unfolding powershell_ok_def by (elim conjE)
  then have "case powershell (join_with ''; '' (map stmt_text stmts)) t of
           (out, t') \<Rightarrow> \<exists>n \<le> length stmts. script_effect (take n stmts) (table t) (table t') \<and> (out \<noteq> None \<longrightarrow> n = length stmts)"
    using assms(2,3) by (elim allE impE)
  then show ?thesis unfolding assms(4) by auto
qed

text \<open>The two functions of Windows are such a system.\<close>

lemma windows_policy_system:
  assumes "powershell_ok powershell table"
  shows "policy_system (ps_list powershell) (ps_mutate powershell) table"
  unfolding policy_system_def
proof (intro conjI allI impI ballI)
  fix t and r :: nrpt_rule
  show "distinct (map nr_id (table t))" using assms by (simp add: powershell_ok_def)
  assume "r \<in> set (table t)"
  then show "ps_plain (nr_id r)" using assms by (auto simp: powershell_ok_def list_all_iff rule_printable_def)
next
  fix t rules
  assume "ps_list powershell t = Some rules"
  then obtain out where "fst (powershell list_script t) = Some out" and rules: "rules = parse_rules (split_on CHR 0x0A out)"
    by (auto simp: ps_list_def)
  then have "out = listing (table t)" and "list_all rule_printable (table t)" using assms by (simp_all add: powershell_ok_def)
  then show "rules = map as_read (table t)" using listing_read rules by simp
next
  fix add remove server t t'
  assume plain: "list_all ps_plain add" "list_all ps_plain remove" "add \<noteq> [] \<longrightarrow> ps_plain server"
    and run: "ps_mutate powershell add remove server t = (True, t')"
  let ?stmts = "map RemoveRule remove @ map (\<lambda>ns. AddRule ns server) add"
  have eff: "script_effect ?stmts (table t) (table t')"
  proof (cases "?stmts = []")
    case True
    then show ?thesis using run by (auto simp: ps_mutate_def intro: script_effect.nothing)
  next
    case False
    have texts: "map stmt_text ?stmts = map remove_stmt remove @ map (add_stmt server) add" by simp
    have ok: "list_all stmt_plain ?stmts" using plain by (auto simp: list_all_iff)
    obtain out where "powershell (join_with ''; '' (map stmt_text ?stmts)) t = (Some out, t')"
      using run False unfolding texts by (auto simp: ps_mutate_def split: prod.splits if_splits)
    from powershell_script[OF assms False ok this] show ?thesis .
  qed
  from script_removes[OF eff] obtain m where m: "mset m = mset (filter (\<lambda>r. nr_id r \<notin> set remove) (table t))"
    "script_effect (map (\<lambda>ns. AddRule ns server) add) m (table t')" by blast
  show "\<exists>fresh. mset (table t') = mset (filter (\<lambda>r. nr_id r \<notin> set remove) (table t)) + mset fresh \<and>
       list_all2 (\<lambda>ns r. nr_namespace r \<in> {ns, ns @ ''.''} \<and> nr_servers r = [server]) add fresh"
    using script_adds[OF m(2)] unfolding m(1) .
qed

lemma plan_as_read: "plan want (map as_read rs) server = plan want rs server"
proof -
  have "plan_loop w server (map as_read rs) found out = plan_loop w server rs found out" for w found out
    by (induction rs arbitrary: found out) (simp_all add: Let_def)
  then show ?thesis by (simp add: plan_def)
qed

lemma plan_makes_exact:
  assumes want: "want = namespaces ss" and srv: "fresh = [] \<or> trim_space server = server"
    and ids: "distinct (map nr_id rules)" and pl: "plan want rules server = (add, remove)"
    and new: "mset rules' = mset (filter (\<lambda>r. nr_id r \<notin> set remove) rules) + mset fresh"
      "list_all2 (\<lambda>ns r. nr_namespace r \<in> {ns, ns @ ''.''} \<and> nr_servers r = [server]) add fresh"
  shows "exact want server rules'"
proof -
  let ?k = "kept (set want) server rules {}"
  have add: "add = filter (\<lambda>ns. ns \<notin> rule_ns ` set ?k) want"
    and rem: "remove = snd (plan_loop (set want) server rules {} [])"
    using pl plan_loop_kept[of "set want" server rules "{}" "[]"] by (auto simp: plan_def split: prod.splits)
  have "filter (\<lambda>r. nr_id r \<notin> set remove) rules = ?k"
    using plan_loop_removed[OF ids, of "set want" server "{}" "[]"] unfolding rem
    by (metis (no_types, lifting) append_Nil filter_True list.set(1) empty_iff)
  then have m: "mset rules' = mset ?k + mset fresh" using new(1) by simp
  have kf: "\<forall>r \<in> set ?k. rule_ns r \<in> set want \<and> servedBy r server" "distinct (map rule_ns ?k)" using kept_facts by blast+
  have own: "rule_ns r = ns" if "ns \<in> set add" "nr_namespace r \<in> {ns, ns @ ''.''}" for ns and r :: nrpt_rule
    using that sameNamespace_own[of ns ss] unfolding add want by auto
  have fresh_ns: "map rule_ns fresh = add"
    using new(2) own by (induction add fresh rule: list_all2_induct) auto
  have fresh_srv: "\<forall>r \<in> set fresh. nr_servers r = [server]"
    using new(2) by (induction add fresh rule: list_all2_induct) auto
  have k_eq: "mset (map rule_ns ?k) = mset (filter (\<lambda>ns. ns \<in> rule_ns ` set ?k) want)"
    by (rule set_eq_iff_mset_eq_distinct[THEN iffD1]) (use kf want in auto)
  have "mset (map rule_ns rules') = mset (map rule_ns ?k) + mset (map rule_ns fresh)"
    unfolding mset_map m image_mset_union ..
  also have "\<dots> = mset (filter (\<lambda>ns. ns \<in> rule_ns ` set ?k) want) + mset (filter (\<lambda>ns. ns \<notin> rule_ns ` set ?k) want)"
    by (simp only: k_eq fresh_ns) (subst add, rule refl)
  also have "\<dots> = mset want"
    using multiset_partition[of "mset want" "\<lambda>ns. ns \<in> rule_ns ` set ?k"] by (simp only: mset_filter)
  finally have "mset (map rule_ns rules') = mset want" .
  moreover have "servedBy r server" if "r \<in> set rules'" for r
  proof -
    have "r \<in> set ?k \<or> r \<in> set fresh" using that m by (metis set_mset_mset set_mset_union Un_iff)
    then show ?thesis using kf(1) fresh_srv srv by (auto simp: servedBy_def equal_fold_def)
  qed
  ultimately show ?thesis by (simp add: exact_def)
qed

text \<open>
  An application either finds the wanted set remembered and leaves everything alone, or looks at the system; and
  when it looks and succeeds the table is as wanted, whatever was in it.
\<close>

definition remembered :: "nrpt_binder \<Rightarrow> string list \<Rightarrow> bool" where
  "remembered b ss \<longleftrightarrow> bd_synced b \<and> join_with '','' (namespaces ss) = bd_last b"

lemma Apply_idle: "remembered b ss \<Longrightarrow> Apply list_rules mutate ss (b, t) = (Inr (), b, t)"
  by (simp add: remembered_def Apply_def Let_def)

lemma Apply_looks:
  assumes sys: "policy_system list_rules mutate table" and srv: "namespaces ss = [] \<or> ps_plain (bd_server b)"
    and look: "\<not> remembered b ss" and run: "Apply list_rules mutate ss (b, t) = (Inr (), b', t')"
  shows "exact (namespaces ss) (bd_server b) (table t') \<and>
    b' = b\<lparr>bd_synced := True, bd_last := join_with '','' (namespaces ss)\<rparr>"
proof -
  obtain rules where l: "list_rules t = Some rules"
    using look run by (cases "list_rules t") (auto simp: Apply_def Let_def remembered_def)
  have rules: "rules = map as_read (table t)" using sys l by (simp add: policy_system_def)
  obtain add remove where pl: "plan (namespaces ss) (table t) (bd_server b) = (add, remove)" by fastforce
  have mu: "mutate add remove (bd_server b) t = (True, t')" "b' = b\<lparr>bd_synced := True, bd_last := join_with '','' (namespaces ss)\<rparr>"
    using look run l pl by (auto simp: Apply_def Let_def rules plan_as_read remembered_def split: prod.splits bool.splits)
  have ids: "distinct (map nr_id (table t))" and idp: "\<forall>r \<in> set (table t). ps_plain (nr_id r)"
    using sys by (simp_all add: policy_system_def)
  have "set add \<subseteq> set (namespaces ss)" using pl by (auto simp: plan_def split: prod.splits)
  then have pa: "list_all ps_plain add" and ps: "add \<noteq> [] \<longrightarrow> ps_plain (bd_server b)"
    using plain_is_ps srv by (auto simp: list_all_iff)
  have "set remove \<subseteq> nr_id ` set (table t)"
    using pl plan_loop_removed[OF ids, of "set (namespaces ss)" "bd_server b" "{}" "[]"] by (auto simp: plan_def split: prod.splits)
  then have pr: "list_all ps_plain remove" using idp by (auto simp: list_all_iff)
  obtain fresh where f: "mset (table t') = mset (filter (\<lambda>r. nr_id r \<notin> set remove) (table t)) + mset fresh"
      "list_all2 (\<lambda>ns r. nr_namespace r \<in> {ns, ns @ ''.''} \<and> nr_servers r = [bd_server b]) add fresh"
    using sys[unfolded policy_system_def] pa pr ps mu(1) by blast
  have "fresh = [] \<or> trim_space (bd_server b) = bd_server b" using f(2) ps ps_plain_trim by (cases add) auto
  from plan_makes_exact[OF refl this ids pl f] mu(2) show ?thesis by simp
qed

text \<open>
  What the binder's memory is worth: as long as no change has failed, the table is as it remembers. An application
  that does not fail in changing the system keeps it so.
\<close>

definition policy_ok :: "('t \<Rightarrow> nrpt_rule list) \<Rightarrow> string \<Rightarrow> nrpt_binder \<times> 't \<Rightarrow> bool" where
  "policy_ok table server bt \<longleftrightarrow> bd_server (fst bt) = server \<and> (bd_synced (fst bt) \<longrightarrow>
     (\<exists>ss. bd_last (fst bt) = join_with '','' (namespaces ss) \<and> exact (namespaces ss) server (table (snd bt))))"

lemma Apply_server: "Apply list_rules mutate ss (b, t) = (res, b', t') \<Longrightarrow> bd_server b' = bd_server b"
  by (auto simp: Apply_def Let_def split: if_splits option.splits prod.splits bool.splits)

lemma Apply_policy:
  assumes sys: "policy_system list_rules mutate table" and srv: "ps_plain server" and ok: "policy_ok table server bt"
    and run: "Apply list_rules mutate ss bt = (res, bt')" and res: "res \<noteq> Inl MutateFailed"
  shows "policy_ok table server bt'"
proof -
  obtain b t b' t' where bt: "bt = (b, t)" "bt' = (b', t')" by (cases bt; cases bt')
  have s: "bd_server b = server" using ok by (simp add: policy_ok_def bt)
  show ?thesis
  proof (cases "remembered b ss")
    case True
    then show ?thesis using ok run by (simp add: bt Apply_idle)
  next
    case look: False
    show ?thesis
    proof (cases res)
      case (Inr u)
      then have "exact (namespaces ss) server (table t') \<and> b' = b\<lparr>bd_synced := True, bd_last := join_with '','' (namespaces ss)\<rparr>"
        using Apply_looks[OF sys _ look, of t b' t'] srv run s by (simp add: bt)
      then show ?thesis using s by (auto simp: policy_ok_def bt)
    next
      case (Inl err)
      then have "b' = b \<and> t' = t" using run res
        by (auto simp: bt Apply_def Let_def split: if_splits option.splits prod.splits bool.splits)
      then show ?thesis using ok by (simp add: bt)
    qed
  qed
qed

lemma namespaces_Nil [simp]: "namespaces [] = []"
  by code_simp

lemma join_namespaces_Nil: "join_with '','' (namespaces ss) = [] \<longleftrightarrow> namespaces ss = []"
proof
  assume j: "join_with '','' (namespaces ss) = []"
  show "namespaces ss = []"
  proof (cases "namespaces ss")
    case (Cons a as)
    then have "a \<noteq> []" using plain_is_ps[of a ss] by (auto simp: ps_plain_def)
    then show ?thesis using j Cons by (cases as) auto
  qed
qed simp

lemma exact_none: "exact [] server rs \<longleftrightarrow> rs = []"
  by (auto simp: exact_def)

section \<open>Properties\<close>

text \<open>C8: what a reconciliation of the Windows table that succeeds has done. If the binder remembers having installed just
  this set, it looks at nothing and changes nothing. Otherwise, and so for the first one and for the first after
  a resync, the table ends with exactly one rule per joined network, each pointing at this device's resolver,
  whatever rules of ours were in it: leftovers of a crash, duplicates, rules pointing elsewhere; the set is
  remembered, and to plan again from that table changes nothing. The rules of the table are ours when they
  carry our tag; PowerShell is assumed to do what its cmdlets document and may fail at any statement.
\<close>

theorem reconciling_makes_the_table_exact:
  assumes "powershell_ok powershell table" and "ps_plain (bd_server b)"
    and "Apply (ps_list powershell) (ps_mutate powershell) ss (b, t) = (Inr (), b', t')"
  shows "if remembered b ss then b' = b \<and> t' = t
    else mset (map rule_ns (table t')) = mset (namespaces ss) \<and> (\<forall>r \<in> set (table t'). servedBy r (bd_server b)) \<and>
      remembered b' ss \<and> plan (namespaces ss) (table t') (bd_server b) = ([], [])"
proof (cases "remembered b ss")
  case True
  then show ?thesis using assms(3) by (simp add: Apply_idle)
next
  case False
  from Apply_looks[OF windows_policy_system[OF assms(1)] disjI2[OF assms(2)] False assms(3)]
  have ex: "exact (namespaces ss) (bd_server b) (table t')"
    and b': "b' = b\<lparr>bd_synced := True, bd_last := join_with '','' (namespaces ss)\<rparr>" by simp_all
  have "plan (namespaces ss) (table t') (bd_server b) = ([], [])" using ex by (intro exact_plan) simp_all
  then show ?thesis unfolding if_not_P[OF False] using ex b' by (simp add: exact_def remembered_def)
qed

text \<open>what reaches the system's command line. The namespaces are sorted and without duplicates,
  each is a dot and a non-empty plain name, so that quoting leaves it as it is and nothing a control
  server sends can end the quoted argument; and they depend on which suffixes there are, not on their
  order, case, spacing or dots.\<close>

theorem namespaces_are_plain_and_canonical:
  shows "sorted (namespaces ss) \<and> distinct (namespaces ss) \<and>
    (\<forall>ns \<in> set (namespaces ss). (\<exists>s. ns = ''.'' @ s \<and> s \<noteq> [] \<and> plainName s) \<and> quote ns = ns \<and>
       (quote (displayName ns) = displayName ns \<and> sameNamespace ns = ns \<and> sameNamespace (ns @ ''.'') = ns)) \<and>
    (dns_normalize ` set ss = dns_normalize ` set ss' \<longrightarrow> namespaces ss = namespaces ss')"
proof -
  have noquote: "replace_quote s = s" if "CHR 0x27 \<notin> set s" for s
    using that unfolding replace_quote_def by (induction s) auto
  have "(\<exists>s. ns = ''.'' @ s \<and> s \<noteq> [] \<and> plainName s) \<and> quote ns = ns \<and>
       (quote (displayName ns) = displayName ns \<and> sameNamespace ns = ns \<and> sameNamespace (ns @ ''.'') = ns)"
    if ns: "ns \<in> set (namespaces ss)" for ns
  proof -
    obtain s where s: "ns = CHR ''.'' # s" "s \<noteq> []" "plainName s" "\<forall>c \<in> set ns. plain_char c"
      using namespace_chars[OF ns] by metis
    have q: "CHR 0x27 \<notin> set ns" using s(4) plain_char_facts(3) by blast
    have "trim_prefix ns ''.'' = s" using trim_prefix_append[of "''.''" s] s(1) by simp
    then have "CHR 0x27 \<notin> set (displayName ns)" using q s(1) by (simp add: displayName_def ProductName_def)
    then show ?thesis using s q sameNamespace_own[OF ns] by (auto simp: quote_def noquote)
  qed
  moreover have "namespaces ss = namespaces ss'" if "dns_normalize ` set ss = dns_normalize ` set ss'"
    by (rule sorted_distinct_set_unique) (use that in \<open>simp_all add: set_namespaces rule_suffixes_def\<close>)
  ultimately show ?thesis by (intro conjI ballI impI) simp_all
qed

text \<open>the binder remembers the last set it installed, and a change that fails does not make it
  forget. So when a failing change has already removed rules, going back to the previous set is taken
  for no change at all: it reports success without looking at the system and the rules stay missing.\<close>

theorem failed_change_leaves_a_stale_memory:
  assumes "Apply list_rules mutate old (b0, t0) = (Inr (), b1, t1)"
    and "Apply list_rules mutate new (b1, t1) = (Inl e, b2, t2)"
  shows "Apply list_rules mutate old (b2, t2) = (Inr (), b2, t2)"
proof -
  have "bd_synced b1 \<and> bd_last b1 = join_with '','' (namespaces old)"
    using assms(1) by (auto simp: Apply_def Let_def split: prod.splits bool.splits option.splits if_splits)
  moreover have "b2 = b1"
    using assms(2) by (auto simp: Apply_def Let_def split: prod.splits bool.splits option.splits if_splits)
  ultimately show ?thesis by (simp add: Apply_def)
qed

section \<open>A PowerShell\<close>

text \<open>
  A PowerShell over a list of rules, which reads its scripts; it refuses after \<open>n\<close> statements. A new rule is named
  after all the others.
\<close>

definition demo_nrpt :: "nrpt_rule list \<Rightarrow> nrpt_rule list" where
  "demo_nrpt t = (if list_all rule_printable t \<and> distinct (map nr_id t) then t else [])"

definition until_quote :: "string \<Rightarrow> string" where
  "until_quote s = takeWhile (\<lambda>c. c \<noteq> CHR 0x27) s"

definition parse_stmt :: "string \<Rightarrow> ps_stmt option" where
  "parse_stmt txt =
     (let s = dropWhile (\<lambda>c. c = CHR '' '') txt;
          rem = ''Remove-DnsClientNrptRule -Name '' @ [CHR 0x27];
          add = ''Add-DnsClientNrptRule -Namespace '' @ [CHR 0x27];
          srv = [CHR 0x27] @ '' -NameServers '' @ [CHR 0x27] in
      if has_prefix s rem then Some (RemoveRule (until_quote (drop (length rem) s)))
      else if has_prefix s add
      then (let r = drop (length add) s; ns = until_quote r in
            Some (AddRule ns (until_quote (drop (length ns + length srv) r))))
      else None)"

fun ps_run :: "nat \<Rightarrow> ps_stmt option list \<Rightarrow> nrpt_rule list \<Rightarrow> bool \<times> nrpt_rule list" where
  "ps_run n [] t = (True, t)"
| "ps_run 0 (s # ss) t = (False, t)"
| "ps_run (Suc n) (None # ss) t = (False, t)"
| "ps_run (Suc n) (Some (RemoveRule i) # ss) t = ps_run n ss (filter (\<lambda>r. nr_id r \<noteq> i) t)"
| "ps_run (Suc n) (Some (AddRule ns server) # ss) t =
     ps_run n ss (t @ [\<lparr>nr_id = concat (map nr_id t) @ ''x'', nr_namespace = ns, nr_servers = [server]\<rparr>])"

definition demo_ps :: "nat \<Rightarrow> string \<Rightarrow> nrpt_rule list \<Rightarrow> string option \<times> nrpt_rule list" where
  "demo_ps n script t =
     (if script = list_script then (Some (listing (demo_nrpt t)), t)
      else (case ps_run n (map parse_stmt (split_on CHR '';'' script)) (demo_nrpt t) of
              (ok, t') \<Rightarrow> (if ok then Some [] else None, t')))"

lemma until_quote_plain: "ps_plain s \<Longrightarrow> until_quote (s @ CHR 0x27 # r) = s"
  unfolding until_quote_def using ps_plain_chars[of s] ps_char_facts(6)
  by (subst takeWhile_append2) auto

lemma quote_plain: "ps_plain s \<Longrightarrow> quote s = s"
proof -
  have "replace_quote s = s" if "CHR 0x27 \<notin> set s" for s
    using that unfolding replace_quote_def by (induction s) auto
  moreover assume "ps_plain s"
  ultimately show ?thesis using ps_plain_chars[of s] ps_char_facts(6) unfolding quote_def by blast
qed

lemma parse_stmt_space [simp]: "parse_stmt (CHR '' '' # x) = parse_stmt x"
  by (simp add: parse_stmt_def)

lemma parse_stmt_text:
  assumes "stmt_plain s"
  shows "parse_stmt (stmt_text s) = Some s" and "CHR '';'' \<notin> set (stmt_text s)" and "stmt_text s \<noteq> []" and "hd (stmt_text s) \<noteq> CHR ''G''"
proof -
  have "parse_stmt (stmt_text s) = Some s \<and> CHR '';'' \<notin> set (stmt_text s) \<and> stmt_text s \<noteq> [] \<and> hd (stmt_text s) \<noteq> CHR ''G''"
  proof (cases s)
    case (RemoveRule i)
    then have "quote i = i" "ps_plain i" "CHR '';'' \<notin> set i" using assms quote_plain ps_plain_chars[of i] ps_char_facts(5) by auto
    then show ?thesis unfolding RemoveRule
      by (simp add: parse_stmt_def remove_stmt_def quoted_def has_prefix_def Let_def until_quote_plain)
  next
    case (AddRule ns srv)
    then have p: "quote ns = ns" "ps_plain ns" "quote srv = srv" "ps_plain srv" using assms quote_plain by simp_all
    have no: "CHR '';'' \<notin> set ns" "CHR '';'' \<notin> set srv" using p ps_plain_chars ps_char_facts(5) by blast+
    have "set (quote x) \<subseteq> insert CHR 0x27 (set x)" for x unfolding quote_def replace_quote_def by auto
    moreover have "CHR '';'' \<notin> insert CHR 0x27 (set (displayName ns))"
      using no by (auto simp: displayName_def ProductName_def trim_prefix_def dest: in_set_dropD)
    ultimately have "CHR '';'' \<notin> set (quote (displayName ns))" by blast
    then show ?thesis unfolding AddRule using p no
      by (simp add: parse_stmt_def add_stmt_def quoted_def Tag_def has_prefix_def Let_def until_quote_plain)
  qed
  then show "parse_stmt (stmt_text s) = Some s" and "CHR '';'' \<notin> set (stmt_text s)" and "stmt_text s \<noteq> []" and "hd (stmt_text s) \<noteq> CHR ''G''"
    by simp_all
qed

lemma split_script:
  assumes "xs \<noteq> []" and "\<forall>x \<in> set xs. CHR '';'' \<notin> set x"
  shows "split_on CHR '';'' (join_with ''; '' xs) = hd xs # map (\<lambda>x. CHR '' '' # x) (tl xs)"
  using assms
proof (induction "''; ''" xs rule: join_with.induct)
  case (2 p)
  then show ?case by (simp add: split_on_absent)
next
  case (3 p q ps)
  have "split_on CHR '';'' (p @ CHR '';'' # CHR '' '' # join_with ''; '' (q # ps)) = p # split_on CHR '';'' (CHR '' '' # join_with ''; '' (q # ps))"
    using 3 by (intro split_on_append) simp
  then show ?case using 3 by simp
qed simp

lemma script_parsed:
  assumes "stmts \<noteq> []" and "list_all stmt_plain stmts"
  shows "map parse_stmt (split_on CHR '';'' (join_with ''; '' (map stmt_text stmts))) = map Some stmts"
    and "join_with ''; '' (map stmt_text stmts) \<noteq> list_script"
proof -
  have "\<forall>x \<in> set (map stmt_text stmts). CHR '';'' \<notin> set x" using assms(2) parse_stmt_text(2) by (auto simp: list_all_iff)
  from split_script[OF _ this] assms
  have "split_on CHR '';'' (join_with ''; '' (map stmt_text stmts)) =
      stmt_text (hd stmts) # map (\<lambda>x. CHR '' '' # stmt_text x) (tl stmts)"
    by (cases stmts) (simp_all add: comp_def)
  then show "map parse_stmt (split_on CHR '';'' (join_with ''; '' (map stmt_text stmts))) = map Some stmts"
    using assms parse_stmt_text(1) by (cases stmts) (auto simp: list_all_iff)
  obtain s ss where ss: "stmts = s # ss" "stmt_plain s" using assms by (cases stmts) auto
  have "hd (join_with ''; '' (stmt_text s # xs)) = hd (stmt_text s)" for xs
    using parse_stmt_text(3)[OF ss(2)] by (cases xs) auto
  then have "hd (join_with ''; '' (map stmt_text stmts)) \<noteq> CHR ''G''" using ss parse_stmt_text(4) by simp
  then show "join_with ''; '' (map stmt_text stmts) \<noteq> list_script" by (auto simp: list_script_def)
qed

lemma concat_longer: "x \<in> set xs \<Longrightarrow> length x \<le> length (concat xs)"
  by (induction xs) auto

definition table_wf :: "nrpt_rule list \<Rightarrow> bool" where
  "table_wf t \<longleftrightarrow> list_all rule_printable t \<and> distinct (map nr_id t)"

lemma demo_new_wf:
  assumes "table_wf t" and "stmt_plain (AddRule ns server)"
  shows "table_wf (t @ [\<lparr>nr_id = concat (map nr_id t) @ ''x'', nr_namespace = ns, nr_servers = [server]\<rparr>])"
proof -
  let ?i = "concat (map nr_id t) @ ''x''"
  have "?i \<notin> set (map nr_id t)" using concat_longer[of ?i "map nr_id t"] by auto
  moreover have "ps_plain ?i" using assms(1) by (auto simp: table_wf_def ps_plain_def list_all_iff rule_printable_def ps_char_def)
  moreover have "CHR ''|'' \<notin> set ns" "CHR 0x0A \<notin> set ns" using assms(2) ps_plain_chars[of ns] ps_char_facts(2,4) by fastforce+
  ultimately show ?thesis using assms by (auto simp: table_wf_def rule_printable_def)
qed

lemma ps_run_effect:
  assumes "list_all stmt_plain stmts" and "table_wf t"
  shows "case ps_run n (map Some stmts) t of (ok, t') \<Rightarrow> table_wf t' \<and>
    (\<exists>k \<le> length stmts. script_effect (take k stmts) t t' \<and> (ok \<longrightarrow> k = length stmts))"
  using assms
proof (induction stmts arbitrary: n t)
  case Nil
  then show ?case by (auto intro: script_effect.nothing)
next
  case (Cons s ss)
  show ?case
  proof (cases n)
    case 0
    then show ?thesis using Cons.prems by (auto intro!: exI[of _ 0] script_effect.nothing)
  next
    case (Suc m)
    define t1 where "t1 = (case s of RemoveRule i \<Rightarrow> filter (\<lambda>r. nr_id r \<noteq> i) t
      | AddRule ns server \<Rightarrow> t @ [\<lparr>nr_id = concat (map nr_id t) @ ''x'', nr_namespace = ns, nr_servers = [server]\<rparr>])"
    have wf: "table_wf t1" and eff: "stmt_effect s t t1" and run: "ps_run n (map Some (s # ss)) t = ps_run m (map Some ss) t1"
      using Cons.prems demo_new_wf[OF Cons.prems(2)]
      by (cases s; auto simp: t1_def table_wf_def list_all_iff distinct_map_filter Suc)+
    obtain ok t' k where k: "ps_run m (map Some ss) t1 = (ok, t')" "table_wf t'" "k \<le> length ss"
      "script_effect (take k ss) t1 t'" "ok \<longrightarrow> k = length ss"
      using Cons.IH[OF _ wf, of m] Cons.prems(1) by (auto split: prod.splits)
    have "script_effect (take (Suc k) (s # ss)) t t'" using script_effect.statement[OF eff k(4)] by simp
    then show ?thesis unfolding run k(1) using k by (auto intro!: exI[of _ "Suc k"])
  qed
qed

lemma demo_powershell: "powershell_ok (demo_ps n) demo_nrpt"
  unfolding powershell_ok_def
proof (intro conjI allI impI)
  fix t
  show "list_all rule_printable (demo_nrpt t)" "distinct (map nr_id (demo_nrpt t))" by (simp_all add: demo_nrpt_def)
  show "snd (demo_ps n list_script t) = t" by (simp add: demo_ps_def)
  show "fst (demo_ps n list_script t) = Some out \<Longrightarrow> out = listing (demo_nrpt t)" for out by (simp add: demo_ps_def)
next
  fix stmts t
  assume a: "stmts \<noteq> []" "list_all stmt_plain stmts"
  have wf: "table_wf (demo_nrpt t)" by (simp add: table_wf_def demo_nrpt_def)
  obtain ok t' where r: "ps_run n (map Some stmts) (demo_nrpt t) = (ok, t')" by fastforce
  have "demo_ps n (join_with ''; '' (map stmt_text stmts)) t = (if ok then Some [] else None, t')"
    using script_parsed[OF a] r by (simp add: demo_ps_def)
  moreover have "table_wf t'" "\<exists>k \<le> length stmts. script_effect (take k stmts) (demo_nrpt t) t' \<and> (ok \<longrightarrow> k = length stmts)"
    using ps_run_effect[OF a(2) wf, of n] r by simp_all
  moreover have "demo_nrpt t' = t'" using calculation(2) by (simp add: demo_nrpt_def table_wf_def)
  ultimately show "case demo_ps n (join_with ''; '' (map stmt_text stmts)) t of (out, t') \<Rightarrow>
      \<exists>k \<le> length stmts. script_effect (take k stmts) (demo_nrpt t) (demo_nrpt t') \<and> (out \<noteq> None \<longrightarrow> k = length stmts)" by (cases ok) auto
qed

definition demo_binder :: nrpt_binder where
  "demo_binder = \<lparr>bd_server = ''127.0.0.1'', bd_synced = False, bd_last = []\<rparr>"

lemma demo_binder_plain: "ps_plain (bd_server demo_binder)"
  by (simp add: demo_binder_def ps_plain_def ps_char_def)

section \<open>Witnesses\<close>

theorem reconciling_witness:
  "\<exists>b' t'. Apply (ps_list (demo_ps 9)) (ps_mutate (demo_ps 9)) [''Home''] (demo_binder,
      [\<lparr>nr_id = ''1'', nr_namespace = ''.HOME.'', nr_servers = [''127.0.0.1'']\<rparr>,
       \<lparr>nr_id = ''2'', nr_namespace = ''.home'', nr_servers = [''127.0.0.1'']\<rparr>,
       \<lparr>nr_id = ''3'', nr_namespace = ''.gone'', nr_servers = [''127.0.0.1'']\<rparr>]) = (Inr (), b', t') \<and>
     map rule_ns (demo_nrpt t') = [''.home'']"
proof -
  let ?t = "[\<lparr>nr_id = ''1'', nr_namespace = ''.HOME.'', nr_servers = [''127.0.0.1'']\<rparr>,
       \<lparr>nr_id = ''2'', nr_namespace = ''.home'', nr_servers = [''127.0.0.1'']\<rparr>,
       \<lparr>nr_id = ''3'', nr_namespace = ''.gone'', nr_servers = [''127.0.0.1'']\<rparr>]"
  let ?a = "Apply (ps_list (demo_ps 9)) (ps_mutate (demo_ps 9)) [''Home''] (demo_binder, ?t)"
  have ok: "fst ?a = Inr ()" by code_simp
  have ns: "namespaces [''Home''] = [''.home'']" by code_simp
  have run: "?a = (Inr (), fst (snd ?a), snd (snd ?a))" using ok by (metis prod.collapse)
  have new: "\<not> remembered demo_binder [''Home'']" by (simp add: remembered_def demo_binder_def)
  have "mset (map rule_ns (demo_nrpt (snd (snd ?a)))) = mset (namespaces [''Home''])"
    using reconciling_makes_the_table_exact[OF demo_powershell demo_binder_plain run] unfolding if_not_P[OF new] by (rule conjunct1)
  then have "mset (map rule_ns (demo_nrpt (snd (snd ?a)))) = {#''.home''#}" by (simp only: ns mset.simps)
  then have "map rule_ns (demo_nrpt (snd (snd ?a))) = [''.home'']" by (simp only: mset_single_iff)
  then show ?thesis using run by (intro exI conjI)
qed

text \<open>PowerShell fails at the second statement: one rule is gone, and the binder still remembers it.\<close>

theorem stale_memory_witness:
  "\<exists>b t. Apply (ps_list (demo_ps 1)) (ps_mutate (demo_ps 1)) [''a'', ''b''] (b, t) = (Inr (), b, t) \<and>
     map nr_namespace t = [''.b'']"
proof -
  let ?r = "\<lambda>i ns. \<lparr>nr_id = i, nr_namespace = ns, nr_servers = [''127.0.0.1'']\<rparr>"
  let ?b = "demo_binder\<lparr>bd_synced := True, bd_last := ''.a,.b''\<rparr>"
  have "Apply (ps_list (demo_ps 1)) (ps_mutate (demo_ps 1)) [''a'', ''b''] (demo_binder, [?r ''x'' ''.a'', ?r ''y'' ''.b'']) =
      (Inr (), ?b, [?r ''x'' ''.a'', ?r ''y'' ''.b''])" by code_simp
  moreover have "Apply (ps_list (demo_ps 1)) (ps_mutate (demo_ps 1)) [] (?b, [?r ''x'' ''.a'', ?r ''y'' ''.b'']) =
      (Inl MutateFailed, ?b, [?r ''y'' ''.b''])" by code_simp
  ultimately have "Apply (ps_list (demo_ps 1)) (ps_mutate (demo_ps 1)) [''a'', ''b''] (?b, [?r ''y'' ''.b'']) =
      (Inr (), ?b, [?r ''y'' ''.b''])" by (rule failed_change_leaves_a_stale_memory)
  moreover have "map nr_namespace [?r ''y'' ''.b''] = [''.b'']" by simp
  ultimately show ?thesis by - (rule exI, rule exI, rule conjI)
qed


theorem namespaces_witness:
  "namespaces [''Bob'', ''alice'', ''alice.'', '' ALICE ''] = namespaces ['' alice '', ''BOB.''] \<and>
   namespaces ['' alice '', ''BOB.''] = [''.alice'', ''.bob''] \<and> quote ''.bob'' = ''.bob''"
proof -
  have "dns_normalize ` set [''Bob'', ''alice'', ''alice.'', '' ALICE ''] = dns_normalize ` set ['' alice '', ''BOB.'']" by code_simp
  then have "namespaces [''Bob'', ''alice'', ''alice.'', '' ALICE ''] = namespaces ['' alice '', ''BOB.'']"
    using namespaces_are_plain_and_canonical by blast
  moreover have v: "namespaces ['' alice '', ''BOB.''] = [''.alice'', ''.bob'']" by code_simp
  moreover have "quote ''.bob'' = ''.bob''"
    using namespaces_are_plain_and_canonical[of "['' alice '', ''BOB.'']" "[]"] unfolding v by simp
  ultimately show ?thesis by blast
qed

end
