(* ===== verification/Profile.thy ===== *)
theory Profile
  imports Nrpt Proto
begin

text \<open>
  \<open>client/profile\<close>: the networks a device remembers, what makes one acceptable, the file they are
  kept in, and the device's identifier. A state file is absent, unreadable, or holds a document (or
  bytes that are not one). Nil and empty slices are one list: both are read back as empty.
\<close>

record joined =
  jn_alias :: string
  jn_server :: string
  jn_pin :: string
  jn_token :: string
  jn_name :: string
  jn_relay :: bool
  jn_auto :: bool
  jn_publish :: "service list"

datatype profile_error =
    AliasRequired | AliasTooLong | AliasEmptyPart string | AliasPartTooLong string | AliasChars string
  | ServerRequired | TokenRequired | SameServiceName string
  | ServiceNameless | ServiceNameLong string | ServiceNameChars string | ServiceBadProto string
  | ServiceBadPort string | ServiceBadBackend string

definition NormalizeAlias :: "string \<Rightarrow> string" where
  "NormalizeAlias alias = to_lower (trim_dots (trim_space alias))"

text \<open>The characters of a DNS label from position \<open>i\<close> on, \<open>n\<close> its length.\<close>

fun label_chars :: "nat \<Rightarrow> nat \<Rightarrow> string \<Rightarrow> bool" where
  "label_chars n i [] = True"
| "label_chars n i (c # cs) =
     ((is_lower_alnum c \<or> c = CHR ''-'' \<and> 0 < i \<and> i < n - 1) \<and> label_chars n (i + 1) cs)"

fun check_labels :: "string \<Rightarrow> string list \<Rightarrow> profile_error option" where
  "check_labels alias [] = None"
| "check_labels alias (l # ls) =
     (if l = [] then Some (AliasEmptyPart alias)
      else if 63 < length l then Some (AliasPartTooLong l)
      else if \<not> label_chars (length l) 0 l then Some (AliasChars alias)
      else check_labels alias ls)"

definition ValidAlias :: "string \<Rightarrow> profile_error option" where
  "ValidAlias alias =
     (let a = NormalizeAlias alias in
      if a = [] then Some AliasRequired
      else if 253 < length a then Some AliasTooLong
      else check_labels alias (split_on CHR ''.'' a))"

definition ValidService :: "service \<Rightarrow> profile_error option" where
  "ValidService s =
     (let name = to_lower (trim_space (sv_name s)); proto = to_lower (trim_space (sv_proto s)) in
      if name = [] then Some ServiceNameless
      else if 63 < length name then Some (ServiceNameLong (sv_name s))
      else if \<not> label_chars (length name) 0 name then Some (ServiceNameChars (sv_name s))
      else if \<not> (proto = [] \<or> proto = ''tcp'' \<or> proto = ''udp'') then Some (ServiceBadProto (sv_name s))
      else if sv_port s < 1 \<or> 65535 < sv_port s then Some (ServiceBadPort (sv_name s))
      else if sv_backend s < 0 \<or> 65535 < sv_backend s then Some (ServiceBadBackend (sv_name s))
      else None)"

fun check_publish :: "service list \<Rightarrow> string set \<Rightarrow> profile_error option" where
  "check_publish [] seen = None"
| "check_publish (s # ss) seen =
     (case ValidService s of
        Some e \<Rightarrow> Some e
      | None \<Rightarrow>
          (let name = to_lower (trim_space (sv_name s)) in
           if name \<in> seen then Some (SameServiceName (sv_name s))
           else check_publish ss (insert name seen)))"

definition Validate :: "joined \<Rightarrow> profile_error option" where
  "Validate n =
     (case ValidAlias (jn_alias n) of
        Some e \<Rightarrow> Some e
      | None \<Rightarrow>
          if trim_space (jn_server n) = [] then Some ServerRequired
          else if trim_space (jn_token n) = [] then Some TokenRequired
          else check_publish (jn_publish n) {})"

definition normal_service :: "service \<Rightarrow> service" where
  "normal_service s =
     (let proto = to_lower (trim_space (sv_proto s)) in
      s\<lparr>sv_name := to_lower (trim_space (sv_name s)),
        sv_proto := (if proto = [] then ''tcp'' else proto),
        sv_allow := filter (\<lambda>g. g \<noteq> []) (map trim_space (sv_allow s)),
        sv_node := [], sv_vip := []\<rparr>)"

definition NormalizePublish :: "service list \<Rightarrow> service list" where
  "NormalizePublish ss = map normal_service ss"

section \<open>The saved networks\<close>

datatype state_file = NoFile | Unreadable | File "json option"

datatype load_error = NoStateDir | ReadFailed | NotParsed

definition enc_joined :: "joined \<Rightarrow> json" where
  "enc_joined n = JObj
     (always ''alias'' (JStr (jn_alias n)) @ always ''server'' (JStr (jn_server n)) @
      omit_empty ''pin'' (JStr (jn_pin n)) @ always ''token'' (JStr (jn_token n)) @
      omit_empty ''name'' (JStr (jn_name n)) @ always ''useRelay'' (JBool (jn_relay n)) @
      always ''autoConnect'' (JBool (jn_auto n)) @
      omit_empty ''publish'' (JArr (map enc_service (jn_publish n))))"

definition dec_joined :: "json \<Rightarrow> joined option" where
  "dec_joined j =
     (case (field ''alias'' rd_string [] j, field ''server'' rd_string [] j, field ''pin'' rd_string [] j,
            field ''token'' rd_string [] j, field ''name'' rd_string [] j, field ''useRelay'' rd_bool False j,
            field ''autoConnect'' rd_bool False j, field ''publish'' (rd_list dec_service) [] j) of
        (Some a, Some s, Some p, Some t, Some n, Some r, Some c, Some ps) \<Rightarrow>
          Some \<lparr>jn_alias = a, jn_server = s, jn_pin = p, jn_token = t, jn_name = n, jn_relay = r, jn_auto = c, jn_publish = ps\<rparr>
      | _ \<Rightarrow> None)"

definition enc_networks :: "joined list \<Rightarrow> json" where
  "enc_networks ns = JObj (always ''networks'' (JArr (map enc_joined ns)))"

definition dec_networks :: "json \<Rightarrow> joined list option" where
  "dec_networks j = field ''networks'' (rd_list dec_joined) [] j"

definition LoadNetworks :: "bool \<Rightarrow> state_file \<Rightarrow> load_error + joined list" where
  "LoadNetworks pathOk f =
     (if \<not> pathOk then Inl NoStateDir
      else case f of
          NoFile \<Rightarrow> Inr []
        | Unreadable \<Rightarrow> Inl ReadFailed
        | File None \<Rightarrow> Inl NotParsed
        | File (Some j) \<Rightarrow> (case dec_networks j of None \<Rightarrow> Inl NotParsed | Some ns \<Rightarrow> Inr ns))"

text \<open>Saving reports whether it worked and leaves the file; a failed write is told by \<open>writeOk\<close>.\<close>

definition SaveNetworks :: "bool \<Rightarrow> bool \<Rightarrow> joined list \<Rightarrow> state_file \<Rightarrow> bool \<times> state_file" where
  "SaveNetworks pathOk writeOk ns f =
     (if pathOk \<and> writeOk then (True, File (Some (enc_networks ns))) else (False, f))"

section \<open>The device identifier\<close>

text \<open>
  The file's text, or none; the random bytes, or none when the source fails. The result is the
  identifier, or none for an error, and the file afterwards.
\<close>

definition hex_text :: "byte list \<Rightarrow> string" where
  "hex_text bs = concat (map (\<lambda>b. [''0123456789abcdef'' ! (unat b div 16), ''0123456789abcdef'' ! (unat b mod 16)]) bs)"

definition deviceUUIDAt :: "bool \<Rightarrow> bool \<Rightarrow> byte list option \<Rightarrow> string option \<Rightarrow> string option \<times> string option" where
  "deviceUUIDAt dirOk writeOk rnd f =
     (if \<not> dirOk then (None, f)
      else case (case f of Some t \<Rightarrow> (if 8 \<le> length (trim_space t) then Some (trim_space t) else None) | None \<Rightarrow> None) of
          Some i \<Rightarrow> (Some i, f)
        | None \<Rightarrow>
            (case rnd of
               None \<Rightarrow> (None, f)
             | Some bs \<Rightarrow> if writeOk then (Some (hex_text bs), Some (hex_text bs)) else (None, f)))"

section \<open>Labels and aliases\<close>

lemma label_chars_plain: "label_chars n i l \<Longrightarrow> \<forall>c \<in> set l. is_lower_alnum c \<or> c = CHR ''-''"
  by (induction n i l rule: label_chars.induct) auto

lemma check_labels_None:
  "check_labels alias ls = None \<longleftrightarrow> (\<forall>l \<in> set ls. l \<noteq> [] \<and> length l \<le> 63 \<and> label_chars (length l) 0 l)"
  by (induction ls) (auto simp: not_less)

lemma str_contains_split: "str_contains s sub \<Longrightarrow> \<exists>a b. s = a @ sub @ b"
proof (induction s)
  case (Cons c cs)
  show ?case
  proof (cases "has_prefix (c # cs) sub")
    case True
    then obtain t where "c # cs = [] @ sub @ t" by (auto simp: has_prefix_iff)
    then show ?thesis by blast
  next
    case False
    with Cons obtain a b where "cs = a @ sub @ b" by auto
    then have "c # cs = (c # a) @ sub @ b" by simp
    then show ?thesis by blast
  qed
qed simp

lemma split_on_empty_part: "[] \<in> set (split_on x (a @ [x, x] @ b))"
proof -
  have "split_on x (a @ x # r) = split_on x a @ split_on x r" for r
    by (induction a) (auto split: list.splits)
  then show ?thesis by simp
qed

lemma alias_is_plain:
  assumes "ValidAlias alias = None"
  shows "NormalizeAlias alias \<noteq> [] \<and> plainName (NormalizeAlias alias)"
proof -
  let ?a = "NormalizeAlias alias"
  have ne: "?a \<noteq> []" and labels: "\<forall>l \<in> set (split_on CHR ''.'' ?a). l \<noteq> [] \<and> label_chars (length l) 0 l"
    using assms by (auto simp: ValidAlias_def Let_def check_labels_None split: if_splits)
  have "plain_char c" if c: "c \<in> set ?a" for c
  proof (cases "c = CHR ''.''")
    case False
    have "c \<in> set (join_with [CHR ''.''] (split_on CHR ''.'' ?a))" using c by (simp add: join_split)
    moreover have "set (join_with [CHR ''.''] ls) \<subseteq> insert CHR ''.'' (\<Union> (set ` set ls))" for ls
      by (induction "[CHR ''.'']" ls rule: join_with.induct) auto
    ultimately obtain l where "l \<in> set (split_on CHR ''.'' ?a)" "c \<in> set l" using False by blast
    moreover from this have "is_lower_alnum c \<or> c = CHR ''-''" using labels label_chars_plain by blast
    ultimately show ?thesis by (auto simp: plain_char_def)
  qed (simp add: plain_char_def)
  moreover have "\<not> str_contains ?a ''..''"
  proof
    assume "str_contains ?a ''..''"
    then obtain u v where "?a = u @ ''..'' @ v" using str_contains_split by blast
    then have "[] \<in> set (split_on CHR ''.'' ?a)" using split_on_empty_part[of "CHR ''.''" u v] by simp
    with labels show False by blast
  qed
  ultimately show ?thesis using ne by (simp add: plainName_def list_all_iff)
qed

lemma NormalizeAlias_dns: "NormalizeAlias a = dns_normalize a"
  by (simp add: NormalizeAlias_def dns_normalize_def)

lemma plain_normal:
  assumes "plainName (dns_normalize s)"
  shows "dns_normalize (dns_normalize s) = dns_normalize s"
proof -
  have pc: "\<forall>c \<in> set (dns_normalize s). plain_char c" using assms by (simp add: plainName_def list_all_iff)
  have "trim_dots (dns_normalize s) = dns_normalize s"
    unfolding dns_normalize_def trim_dots_lower[symmetric] by (simp add: trim_dots_def)
  with pc show ?thesis unfolding dns_normalize_def[of "dns_normalize s"] by (simp add: plain_trim plain_lower)
qed

lemma alias_one_rule:
  assumes "ValidAlias alias = None"
  shows "namespaces [alias] = [''.'' @ NormalizeAlias alias]"
proof -
  have "rule_suffixes [alias] = {NormalizeAlias alias}"
    using alias_is_plain[OF assms] by (auto simp: rule_suffixes_def NormalizeAlias_dns)
  then have st: "set (namespaces [alias]) = {''.'' @ NormalizeAlias alias}" by (simp add: set_namespaces)
  then have "card (set (namespaces [alias])) = 1" by simp
  then have "length (namespaces [alias]) = 1" by (simp only: distinct_card[OF distinct_namespaces])
  then obtain x where "namespaces [alias] = [x]" by (auto simp: length_Suc_conv)
  with st show ?thesis by simp
qed

section \<open>Services and the file\<close>

lemma normal_service_idem [simp]: "normal_service (normal_service s) = normal_service s"
proof -
  have "filter (\<lambda>g. g \<noteq> []) (map trim_space (filter (\<lambda>g. g \<noteq> []) (map trim_space gs))) =
      filter (\<lambda>g. g \<noteq> []) (map trim_space gs)" for gs
    by (induction gs) auto
  moreover have "to_lower (trim_space ''tcp'') = ''tcp''" by code_simp
  ultimately show ?thesis by (simp add: normal_service_def Let_def trim_space_lower)
qed

lemma normal_service_valid: "ValidService (normal_service s) = None \<longleftrightarrow> ValidService s = None"
proof -
  have "to_lower (trim_space ''tcp'') = ''tcp''" by code_simp
  then show ?thesis by (auto simp: ValidService_def normal_service_def Let_def trim_space_lower)
qed

lemma dec_enc_joined [simp]: "list_all service_ints (jn_publish n) \<Longrightarrow> dec_joined (enc_joined n) = Some n"
  by (auto simp: dec_joined_def enc_joined_def wire_defs rd_list_JArr list_all_iff)

lemma saved_networks_load:
  assumes "\<And>n. n \<in> set ns \<Longrightarrow> list_all service_ints (jn_publish n)"
  shows "LoadNetworks True (snd (SaveNetworks True True ns f)) = Inr ns"
  using assms by (simp add: LoadNetworks_def SaveNetworks_def dec_networks_def enc_networks_def wire_defs rd_list_JArr)

lemma valid_service_ints: "ValidService s = None \<Longrightarrow> service_ints s"
  by (auto simp: ValidService_def Let_def service_ints_def int64_def split: if_splits)

lemma check_publish_valid: "check_publish ss seen = None \<Longrightarrow> s \<in> set ss \<Longrightarrow> ValidService s = None"
  by (induction ss arbitrary: seen) (auto simp: Let_def split: option.splits if_splits)

definition canonical :: "joined \<Rightarrow> joined" where
  "canonical n = n\<lparr>jn_alias := NormalizeAlias (jn_alias n), jn_publish := NormalizePublish (jn_publish n)\<rparr>"

lemma check_publish_normal: "check_publish ss seen = None \<Longrightarrow> check_publish (NormalizePublish ss) seen = None"
proof (induction ss arbitrary: seen)
  case (Cons s ss)
  then have v: "ValidService (normal_service s) = None" by (auto simp: normal_service_valid split: option.splits)
  have n: "to_lower (trim_space (sv_name (normal_service s))) = to_lower (trim_space (sv_name s))"
    by (simp add: normal_service_def Let_def trim_space_lower)
  from Cons have "to_lower (trim_space (sv_name s)) \<notin> seen"
    and "check_publish ss (insert (to_lower (trim_space (sv_name s))) seen) = None"
    by (auto simp: Let_def split: option.splits if_splits)
  with Cons.IH v n show ?case by (simp add: NormalizePublish_def)
qed (simp add: NormalizePublish_def)

lemma ValidAlias_normal:
  assumes "ValidAlias a = None"
  shows "ValidAlias (NormalizeAlias a) = None"
proof -
  have "NormalizeAlias (NormalizeAlias a) = NormalizeAlias a"
    using alias_is_plain[OF assms] plain_normal by (simp add: NormalizeAlias_dns)
  then show ?thesis using assms by (simp add: ValidAlias_def Let_def check_labels_None split: if_splits)
qed

lemma Validate_canonical: "Validate n = None \<Longrightarrow> Validate (canonical n) = None"
  by (auto simp: Validate_def canonical_def ValidAlias_normal check_publish_normal split: option.splits if_splits)

lemma hex_text_facts: "length (hex_text bs) = 2 * length bs \<and> trim_space (hex_text bs) = hex_text bs"
proof -
  have digits: "\<forall>c \<in> set ''0123456789abcdef''. \<not> is_space c" by code_simp
  have nth: "''0123456789abcdef'' ! k \<in> set ''0123456789abcdef''" if "k < 16" for k
    by (rule nth_mem) (use that in simp)
  have "unat b div 16 < 16" for b :: byte using unsigned_less[of b, where 'a = nat] by simp
  then have hex: "''0123456789abcdef'' ! (unat b div 16) \<in> set ''0123456789abcdef''"
    "''0123456789abcdef'' ! (unat b mod 16) \<in> set ''0123456789abcdef''" for b :: byte
    by (rule nth, simp_all only: nth mod_less_divisor zero_less_numeral)
  have "set (hex_text bs) \<subseteq> set ''0123456789abcdef''"
  proof (induction bs)
    case (Cons b bs)
    with hex[of b] show ?case
      by (simp only: hex_text_def list.map concat.simps set_append list.set Un_subset_iff insert_subset empty_subsetI simp_thms)
  qed (simp add: hex_text_def)
  then have "\<not> is_space c" if "c \<in> set (hex_text bs)" for c using that digits by blast
  then have "trim_space (hex_text bs) = hex_text bs" unfolding trim_space_def by (rule trim_by_none)
  moreover have "length (hex_text bs) = 2 * length bs" by (induction bs) (simp_all add: hex_text_def)
  ultimately show ?thesis by simp
qed

section \<open>Properties\<close>

text \<open>an alias that is accepted survives everything it is used for unchanged. Its canonical form is
  accepted and is its own canonical form, it is the key of the network's zone in the resolver, and
  it gives exactly one rule in the system's name resolution, for that zone.\<close>

theorem accepted_alias_survives:
  assumes "ValidAlias alias = None"
  shows "NormalizeAlias (NormalizeAlias alias) = NormalizeAlias alias \<and> ValidAlias (NormalizeAlias alias) = None \<and>
    (\<exists>zone. map_of (rv_zones (SetZone iter r alias recs)) (NormalizeAlias alias) = Some zone) \<and>
    namespaces [alias] = [''.'' @ NormalizeAlias alias] \<and>
    sameNamespace (''.'' @ NormalizeAlias alias) = ''.'' @ NormalizeAlias alias"
proof -
  have a: "NormalizeAlias alias \<noteq> []" using alias_is_plain[OF assms] ..
  have ns: "namespaces [alias] = [''.'' @ NormalizeAlias alias]" using assms by (rule alias_one_rule)
  have "map_of (rv_zones (SetZone iter r alias recs)) (NormalizeAlias alias) \<noteq> None"
    using a by (simp add: SetZone_def Let_def NormalizeAlias_dns)
  moreover have "sameNamespace (''.'' @ NormalizeAlias alias) = ''.'' @ NormalizeAlias alias"
    by (rule sameNamespace_own[of _ "[alias]"]) (simp add: ns)
  ultimately show ?thesis
    using ns ValidAlias_normal[OF assms] alias_is_plain[OF assms] plain_normal by (auto simp: NormalizeAlias_dns)
qed

theorem accepted_alias_witness: "namespaces ['' Home.Lab-2. ''] = [''.home.lab-2'']"
proof -
  have "ValidAlias '' Home.Lab-2. '' = None" by code_simp
  then have "namespaces ['' Home.Lab-2. ''] = [''.'' @ NormalizeAlias '' Home.Lab-2. '']"
    using accepted_alias_survives by blast
  also have "\<dots> = [''.home.lab-2'']" by code_simp
  finally show ?thesis .
qed

text \<open>C32: networks that passed the check are read back from the file as they were remembered, with
  their published services in canonical form, and still pass the check.\<close>

theorem accepted_networks_survive_the_file:
  assumes "\<forall>n \<in> set ns. Validate n = None"
  shows "LoadNetworks True (snd (SaveNetworks True True (map canonical ns) f)) = Inr (map canonical ns) \<and>
    (\<forall>n \<in> set (map canonical ns). Validate n = None \<and> canonical n = canonical (canonical n))"
proof -
  have "list_all service_ints (jn_publish m)" if "m \<in> set (map canonical ns)" for m
  proof -
    have "Validate m = None" using assms that Validate_canonical by auto
    then have "check_publish (jn_publish m) {} = None" by (auto simp: Validate_def split: option.splits if_splits)
    then show ?thesis by (auto simp: list_all_iff intro: valid_service_ints check_publish_valid)
  qed
  then have "LoadNetworks True (snd (SaveNetworks True True (map canonical ns) f)) = Inr (map canonical ns)"
    by (rule saved_networks_load)
  moreover have "canonical (canonical n) = canonical n" if "n \<in> set ns" for n
  proof -
    have "ValidAlias (jn_alias n) = None" using assms that by (auto simp: Validate_def split: option.splits)
    then have "NormalizeAlias (NormalizeAlias (jn_alias n)) = NormalizeAlias (jn_alias n)"
      using alias_is_plain plain_normal by (simp add: NormalizeAlias_dns)
    then show ?thesis by (simp add: canonical_def NormalizePublish_def)
  qed
  ultimately show ?thesis using assms Validate_canonical by auto
qed

definition demo_joined :: joined where
  "demo_joined = \<lparr>jn_alias = ''Home'', jn_server = ''https://203.0.113.5:8787'', jn_pin = [], jn_token = ''t'', jn_name = ''box'',
     jn_relay = True, jn_auto = True,
     jn_publish = [\<lparr>sv_name = ''MC'', sv_proto = [], sv_port = 25565, sv_backend = 0, sv_node = [], sv_vip = [], sv_allow = [''dev '']\<rparr>]\<rparr>"

theorem accepted_networks_witness:
  "LoadNetworks True (snd (SaveNetworks True True [canonical demo_joined] NoFile)) = Inr [canonical demo_joined]"
proof -
  have trim: "trim_space ''https://203.0.113.5:8787'' = ''https://203.0.113.5:8787''" "trim_space ''t'' = ''t''"
    "to_lower (trim_space ''MC'') = ''mc''" by code_simp+
  have "label_chars 2 0 ''mc''" by code_simp
  then have "ValidService (jn_publish demo_joined ! 0) = None" using trim(3) by (simp add: ValidService_def demo_joined_def)
  moreover have "ValidAlias ''Home'' = None" by code_simp
  ultimately have "Validate demo_joined = None" using trim by (simp add: Validate_def demo_joined_def)
  then have "\<forall>n \<in> set [demo_joined]. Validate n = None" by simp
  from conjunct1[OF accepted_networks_survive_the_file[OF this, of NoFile]] show ?thesis by (simp only: list.map)
qed

text \<open>a device keeps its identity: once an identifier has been handed out, every later start reads the
  same one from the file, draws nothing and writes nothing.\<close>

theorem device_keeps_its_identity:
  assumes "deviceUUIDAt dirOk writeOk rnd f = (Some i, f')" and "rnd = Some bs" and "length bs = 16"
  shows "deviceUUIDAt True writeOk' rnd' f' = (Some i, f') \<and> 8 \<le> length i"
proof -
  have "\<exists>t. f' = Some t \<and> trim_space t = i \<and> 8 \<le> length i"
    using assms hex_text_facts[of bs] by (auto simp: deviceUUIDAt_def split: if_splits option.splits)
  then show ?thesis by (auto simp: deviceUUIDAt_def)
qed

theorem device_identity_witness:
  "deviceUUIDAt True False None (snd (deviceUUIDAt True True (Some (replicate 16 0xAB)) (Some ''short''))) =
     (Some (hex_text (replicate 16 0xAB)), Some (hex_text (replicate 16 0xAB)))"
proof -
  have first: "deviceUUIDAt True True (Some (replicate 16 0xAB)) (Some ''short'') =
      (Some (hex_text (replicate 16 0xAB)), Some (hex_text (replicate 16 0xAB)))"
  proof -
    have "length (trim_space ''short'') = 5" by code_simp
    then show ?thesis by (simp add: deviceUUIDAt_def)
  qed
  have "length (replicate 16 (0xAB :: byte)) = 16" by simp
  from device_keeps_its_identity[OF first refl this, of False None] show ?thesis using first by simp
qed

end
