(* ===== verification/Translate.thy ===== *)
theory Translate
  imports VipTable Proto
begin

text \<open>
  \<open>client/engine/translate.go\<close>: the peers, services and tunnel states of a network restated in the
  addresses this device uses for it. The translator is a table or nothing; a lookup may enlarge the
  table, so every operation returns it.
\<close>

type_synonym translator = "table option"

datatype translate_error = BadLocalRange string | BadOverlayRange string | TableRefused table_error

definition newTranslator :: "string \<Rightarrow> string \<Rightarrow> translate_error + translator" where
  "newTranslator localPrefix overlayCIDR =
     (if localPrefix = [] then Inr None
      else case parse_prefix localPrefix of
        None \<Rightarrow> Inl (BadLocalRange localPrefix)
      | Some local \<Rightarrow>
          (case parse_prefix overlayCIDR of
             None \<Rightarrow> Inl (BadOverlayRange overlayCIDR)
           | Some overlay \<Rightarrow>
               (case NewTable local overlay of Inl e \<Rightarrow> Inl (TableRefused e) | Inr t \<Rightarrow> Inr (Some t))))"

definition xl_on :: "translator \<Rightarrow> bool" where
  "xl_on t = (t \<noteq> None)"

definition xl_cidr :: "translator \<Rightarrow> string" where
  "xl_cidr t = (case t of None \<Rightarrow> [] | Some tb \<Rightarrow> prefix_string (table_Prefix tb))"

definition xl_local :: "translator \<Rightarrow> string \<Rightarrow> string option \<times> translator" where
  "xl_local t overlay =
     (case t of
        None \<Rightarrow> (if overlay \<noteq> [] then Some overlay else None, None)
      | Some tb \<Rightarrow>
          (case parse_addr overlay of
             None \<Rightarrow> (None, t)
           | Some a \<Rightarrow> (case Local tb a of (got, tb') \<Rightarrow> (map_option addr_string got, Some tb'))))"

fun xl_peers_loop :: "translator \<Rightarrow> peer list \<Rightarrow> peer list \<times> translator" where
  "xl_peers_loop t [] = ([], t)"
| "xl_peers_loop t (p # ps) =
     (case xl_local t (pe_ip p) of
        (None, t1) \<Rightarrow> xl_peers_loop t1 ps
      | (Some local, t1) \<Rightarrow> (case xl_peers_loop t1 ps of (out, t2) \<Rightarrow> (p\<lparr>pe_ip := local\<rparr> # out, t2)))"

definition xl_peers :: "translator \<Rightarrow> peer list \<Rightarrow> peer list \<times> translator" where
  "xl_peers t ps = (if \<not> xl_on t then (ps, t) else xl_peers_loop t ps)"

fun xl_services_loop :: "translator \<Rightarrow> service list \<Rightarrow> service list \<times> translator" where
  "xl_services_loop t [] = ([], t)"
| "xl_services_loop t (s # ss) =
     (case xl_local t (sv_node s) of
        (None, t1) \<Rightarrow> xl_services_loop t1 ss
      | (Some local, t1) \<Rightarrow>
          (if sv_vip s \<noteq> [] then
             (case xl_local t1 (sv_vip s) of
                (None, t2) \<Rightarrow> xl_services_loop t2 ss
              | (Some v, t2) \<Rightarrow>
                  (case xl_services_loop t2 ss of (out, t3) \<Rightarrow> (s\<lparr>sv_node := local, sv_vip := v\<rparr> # out, t3)))
           else (case xl_services_loop t1 ss of (out, t2) \<Rightarrow> (s\<lparr>sv_node := local\<rparr> # out, t2))))"

definition xl_services :: "translator \<Rightarrow> service list \<Rightarrow> service list \<times> translator" where
  "xl_services t ss = (if \<not> xl_on t then (ss, t) else xl_services_loop t ss)"

text \<open>The tunnel states, a map; the loop goes over its entries in the order they come.\<close>

fun xl_handshakes_loop :: "translator \<Rightarrow> (string \<times> bool) list \<Rightarrow> (string \<rightharpoonup> bool) \<Rightarrow> (string \<rightharpoonup> bool) \<times> translator" where
  "xl_handshakes_loop t [] out = (out, t)"
| "xl_handshakes_loop t ((overlay, up) # hs) out =
     (case xl_local t overlay of
        (None, t1) \<Rightarrow> xl_handshakes_loop t1 hs out
      | (Some local, t1) \<Rightarrow> xl_handshakes_loop t1 hs (out(local \<mapsto> up)))"

definition xl_handshakes :: "((string \<times> bool) list \<Rightarrow> (string \<times> bool) list) \<Rightarrow> translator \<Rightarrow> (string, bool) gomap \<Rightarrow> (string \<rightharpoonup> bool) \<times> translator" where
  "xl_handshakes iter t hs = (if \<not> xl_on t then (map_of hs, t) else xl_handshakes_loop t (iter hs) Map.empty)"

section \<open>What is shown for an overlay address\<close>

definition overlay_of :: "string \<Rightarrow> addr option" where
  "overlay_of s = map_option addr_unmap (parse_addr s)"

definition shown :: "table \<Rightarrow> string \<Rightarrow> string \<Rightarrow> bool" where
  "shown t ov l \<longleftrightarrow> (\<exists>x y. overlay_of ov = Some (V4 x) \<and> tb_toLocal t (V4 x) = Some (V4 y) \<and> l = string4 y)"

definition grows :: "u32 \<Rightarrow> nat \<Rightarrow> prefix \<Rightarrow> table \<Rightarrow> table \<Rightarrow> bool" where
  "grows base b real t t' \<longleftrightarrow> table_ok base b real t \<and> table_ok base b real t' \<and>
     (\<forall>x l. tb_toLocal t (V4 x) = Some l \<longrightarrow> tb_toLocal t' (V4 x) = Some l)"

lemma grows_refl: "table_ok base b real t \<Longrightarrow> grows base b real t t"
  and grows_trans: "grows base b real t t' \<Longrightarrow> grows base b real t' t'' \<Longrightarrow> grows base b real t t''"
  and grows_ok: "grows base b real t t' \<Longrightarrow> table_ok base b real t'"
  by (auto simp: grows_def)

lemma grows_shown: "grows base b real t t' \<Longrightarrow> shown t ov l \<Longrightarrow> shown t' ov l"
  by (auto simp: grows_def shown_def)

lemma shown_same:
  assumes "table_ok base b real t" and "shown t ov l" and "shown t ov' l'"
  shows "l = l' \<longleftrightarrow> overlay_of ov = overlay_of ov'"
proof -
  obtain x y x' y' where o: "overlay_of ov = Some (V4 x)" "tb_toLocal t (V4 x) = Some (V4 y)" "l = string4 y"
    "overlay_of ov' = Some (V4 x')" "tb_toLocal t (V4 x') = Some (V4 y')" "l' = string4 y'"
    using assms(2,3) by (auto simp: shown_def)
  have "y = y' \<longleftrightarrow> x = x'"
    using table_okD(10)[OF assms(1), of "V4 x" "V4 y"] table_okD(10)[OF assms(1), of "V4 x'" "V4 y'"] o(2,5) by auto
  with o show ?thesis by simp
qed

lemma xl_local_spec:
  assumes "table_ok base b real t" and "xl_local (Some t) ov = (r, T)"
  obtains t' where "T = Some t'" "grows base b real t t'" "\<forall>l. r = Some l \<longrightarrow> shown t' ov l"
proof (cases "parse_addr ov")
  case None
  with assms(2) that[of t] grows_refl[OF assms(1)] show thesis by (auto simp: xl_local_def)
next
  case (Some a)
  obtain got t' where L: "Local t a = (got, t')" by fastforce
  have T: "T = Some t'" "r = map_option addr_string got" using assms(2) Some L by (auto simp: xl_local_def)
  have ok': "table_ok base b real t'" using Local_ok[OF assms(1), of a] L by simp
  have g: "grows base b real t t'"
    using assms(1) ok' Local_keeps[OF assms(1), of _ _ a] L by (auto simp: grows_def)
  have s: "shown t' ov l" if "r = Some l" for l
  proof -
    obtain la where la: "got = Some la" "l = addr_string la" using \<open>r = Some l\<close> T(2) by auto
    obtain x where x: "addr_unmap a = V4 x" "tb_toLocal t' (V4 x) = Some la"
      using Local_Some[OF assms(1) L[unfolded la(1)]] by metis
    obtain y where "la = V4 y" using table_local_v4[OF ok' x(2)] by blast
    with la(2) x Some show ?thesis by (auto simp: shown_def overlay_of_def)
  qed
  from T(1) g s show thesis by (intro that) blast+
qed

section \<open>Lists\<close>

text \<open>What becomes of a listed peer and of a listed service.\<close>

definition peer_shown :: "table \<Rightarrow> peer \<Rightarrow> peer \<Rightarrow> bool" where
  "peer_shown t p p' \<longleftrightarrow> (\<exists>l. shown t (pe_ip p) l \<and> p' = p\<lparr>pe_ip := l\<rparr>)"

definition service_shown :: "table \<Rightarrow> service \<Rightarrow> service \<Rightarrow> bool" where
  "service_shown t s s' \<longleftrightarrow> (\<exists>l v. shown t (sv_node s) l \<and> (if sv_vip s = [] then v = [] else shown t (sv_vip s) v) \<and>
     s' = s\<lparr>sv_node := l, sv_vip := v\<rparr>)"

lemma peer_shown_grows: "grows base b real t t' \<Longrightarrow> peer_shown t p p' \<Longrightarrow> peer_shown t' p p'"
  by (auto simp: peer_shown_def intro: grows_shown)

lemma service_shown_grows: "grows base b real t t' \<Longrightarrow> service_shown t s s' \<Longrightarrow> service_shown t' s s'"
  unfolding service_shown_def by (metis grows_shown)

lemma xl_peers_loop_spec:
  assumes "table_ok base b real t" and "xl_peers_loop (Some t) ps = (out, T)"
  shows "\<exists>t'. T = Some t' \<and> grows base b real t t' \<and> (\<forall>p' \<in> set out. \<exists>p \<in> set ps. peer_shown t' p p')"
  using assms
proof (induction ps arbitrary: t out T)
  case Nil
  then show ?case by (auto intro: grows_refl)
next
  case (Cons p ps)
  obtain r T1 where l: "xl_local (Some t) (pe_ip p) = (r, T1)" by fastforce
  from Cons.prems(1) l obtain t1 where t1: "T1 = Some t1" "grows base b real t t1" "\<forall>l. r = Some l \<longrightarrow> shown t1 (pe_ip p) l"
    by (rule xl_local_spec)
  obtain out' T' where rest: "xl_peers_loop (Some t1) ps = (out', T')" by fastforce
  from Cons.IH[OF grows_ok[OF t1(2)] rest] obtain t' where t': "T' = Some t'" "grows base b real t1 t'"
    "\<forall>p' \<in> set out'. \<exists>p \<in> set ps. peer_shown t' p p'" by blast
  have g: "grows base b real t t'" using t1(2) t'(2) by (rule grows_trans)
  have "T = T' \<and> (\<forall>p' \<in> set out. p' \<in> set out' \<or> peer_shown t' p p')"
    using Cons.prems(2) l t1 rest t'(2) by (auto simp: peer_shown_def split: option.splits intro: grows_shown)
  with g t' show ?case by (metis list.set_intros)
qed

lemma xl_services_loop_spec:
  assumes "table_ok base b real t" and "xl_services_loop (Some t) ss = (out, T)"
  shows "\<exists>t'. T = Some t' \<and> grows base b real t t' \<and> (\<forall>s' \<in> set out. \<exists>s \<in> set ss. service_shown t' s s')"
  using assms
proof (induction ss arbitrary: t out T)
  case Nil
  then show ?case by (auto intro: grows_refl)
next
  case (Cons s ss)
  obtain r T1 where l: "xl_local (Some t) (sv_node s) = (r, T1)" by fastforce
  from Cons.prems(1) l obtain t1 where t1: "T1 = Some t1" "grows base b real t t1" "\<forall>l. r = Some l \<longrightarrow> shown t1 (sv_node s) l"
    by (rule xl_local_spec)
  obtain rv T2 where lv: "xl_local (Some t1) (sv_vip s) = (rv, T2)" by fastforce
  from grows_ok[OF t1(2)] lv obtain t2 where t2: "T2 = Some t2" "grows base b real t1 t2" "\<forall>l. rv = Some l \<longrightarrow> shown t2 (sv_vip s) l"
    by (rule xl_local_spec)
  define tn where "tn = (if r \<noteq> None \<and> sv_vip s \<noteq> [] then t2 else t1)"
  have tn: "grows base b real t1 tn" using t2(2) grows_refl[OF grows_ok[OF t1(2)]] by (simp add: tn_def)
  obtain out' T' where rest: "xl_services_loop (Some tn) ss = (out', T')" by fastforce
  from Cons.IH[OF grows_ok[OF tn] rest] obtain t' where t': "T' = Some t'" "grows base b real tn t'"
    "\<forall>s' \<in> set out'. \<exists>s \<in> set ss. service_shown t' s s'" by blast
  have g: "grows base b real t t'" using grows_trans[OF grows_trans[OF t1(2) tn] t'(2)] .
  have here: "service_shown t' s (s\<lparr>sv_node := ln, sv_vip := lv\<rparr>)"
    if h: "r = Some ln" "sv_vip s \<noteq> []" "rv = Some lv" for ln lv
  proof -
    have "shown t' (sv_node s) ln" using t1(3) h(1) grows_shown[OF grows_trans[OF tn t'(2)]] by blast
    moreover have "shown t' (sv_vip s) lv" using t2(3) h grows_shown[OF t'(2)] by (simp add: tn_def)
    ultimately show ?thesis using h(2) unfolding service_shown_def by auto
  qed
  have plain: "service_shown t' s (s\<lparr>sv_node := ln\<rparr>)" if h: "r = Some ln" "sv_vip s = []" for ln
  proof -
    have "shown t' (sv_node s) ln" using t1(3) h(1) grows_shown[OF grows_trans[OF tn t'(2)]] by blast
    moreover have "s\<lparr>sv_node := ln\<rparr> = s\<lparr>sv_node := ln, sv_vip := []\<rparr>" using h(2) by (cases s) simp
    ultimately show ?thesis using h(2) unfolding service_shown_def by auto
  qed
  have "T = T' \<and> (\<forall>s' \<in> set out. s' \<in> set out' \<or> service_shown t' s s')"
    using Cons.prems(2) l lv t1(1) t2(1) rest here plain
    by (auto simp: tn_def split: option.splits if_splits prod.splits)
  with g t' show ?case by (metis list.set_intros)
qed

section \<open>Properties\<close>

text \<open>C16: what a device shows of a network agrees with the network. Restating the peers and then the services
  in local addresses changes nothing but the addresses, and two addresses that are shown, of peers or
  services, of now or of an earlier restatement, are the same exactly when they stand for the same overlay address: a service
  is shown on the peer that hosts it, and no two devices are taken for one another.\<close>

theorem translation_agrees_with_the_overlay:
  assumes "table_ok base b real t" and "xl_peers (Some t) ps = (ps', T1)" and "xl_services T1 ss = (ss', T2)"
  shows "\<exists>t2. T2 = Some t2 \<and> table_ok base b real t2 \<and>
    (\<forall>p' \<in> set ps'. \<exists>p \<in> set ps. p' = p\<lparr>pe_ip := pe_ip p'\<rparr> \<and> shown t2 (pe_ip p) (pe_ip p')) \<and>
    (\<forall>s' \<in> set ss'. \<exists>s \<in> set ss. s' = s\<lparr>sv_node := sv_node s', sv_vip := sv_vip s'\<rparr> \<and> shown t2 (sv_node s) (sv_node s') \<and>
       (if sv_vip s = [] then sv_vip s' = [] else shown t2 (sv_vip s) (sv_vip s'))) \<and>
    (\<forall>ov l ov' l'. (shown t ov l \<or> shown t2 ov l) \<longrightarrow> shown t2 ov' l' \<longrightarrow> (l = l' \<longleftrightarrow> overlay_of ov = overlay_of ov'))"
proof -
  obtain t1 where t1: "T1 = Some t1" "grows base b real t t1" "\<forall>p' \<in> set ps'. \<exists>p \<in> set ps. peer_shown t1 p p'"
    using xl_peers_loop_spec[OF assms(1), of ps ps' T1] assms(2) unfolding xl_peers_def xl_on_def by auto
  obtain t2 where t2: "T2 = Some t2" "grows base b real t1 t2" "\<forall>s' \<in> set ss'. \<exists>s \<in> set ss. service_shown t2 s s'"
    using xl_services_loop_spec[OF grows_ok[OF t1(2)], of ss ss' T2] assms(3) t1(1) unfolding xl_services_def xl_on_def by auto
  have g: "grows base b real t t2" using t1(2) t2(2) by (rule grows_trans)
  have "\<forall>p' \<in> set ps'. \<exists>p \<in> set ps. p' = p\<lparr>pe_ip := pe_ip p'\<rparr> \<and> shown t2 (pe_ip p) (pe_ip p')"
  proof
    fix p' assume "p' \<in> set ps'"
    then obtain p l where "p \<in> set ps" "shown t1 (pe_ip p) l" "p' = p\<lparr>pe_ip := l\<rparr>"
      using t1(3) by (auto simp: peer_shown_def)
    then show "\<exists>p \<in> set ps. p' = p\<lparr>pe_ip := pe_ip p'\<rparr> \<and> shown t2 (pe_ip p) (pe_ip p')"
      using grows_shown[OF t2(2)] by (intro bexI[of _ p]) simp_all
  qed
  moreover have "\<forall>s' \<in> set ss'. \<exists>s \<in> set ss. s' = s\<lparr>sv_node := sv_node s', sv_vip := sv_vip s'\<rparr> \<and>
      shown t2 (sv_node s) (sv_node s') \<and> (if sv_vip s = [] then sv_vip s' = [] else shown t2 (sv_vip s) (sv_vip s'))"
  proof
    fix s' assume "s' \<in> set ss'"
    then obtain s l v where "s \<in> set ss" "shown t2 (sv_node s) l" "if sv_vip s = [] then v = [] else shown t2 (sv_vip s) v"
      "s' = s\<lparr>sv_node := l, sv_vip := v\<rparr>" using t2(3) by (auto simp: service_shown_def)
    then show "\<exists>s \<in> set ss. s' = s\<lparr>sv_node := sv_node s', sv_vip := sv_vip s'\<rparr> \<and>
      shown t2 (sv_node s) (sv_node s') \<and> (if sv_vip s = [] then sv_vip s' = [] else shown t2 (sv_vip s) (sv_vip s'))"
      by (intro bexI[of _ s]) simp_all
  qed
  ultimately show ?thesis using t2(1) grows_ok[OF g] shown_same[OF grows_ok[OF g]] grows_shown[OF g] by blast
qed

section \<open>Witness\<close>

definition demo_shown_peer :: "u32 \<Rightarrow> peer" where
  "demo_shown_peer a = \<lparr>pe_hostname = ''nas'', pe_key = ''K'', pe_ip = string4 a, pe_endpoint = [], pe_group = []\<rparr>"

theorem translation_agrees_witness:
  "\<exists>t ps' T1. NewTable (Prefix (V4 0x64700000) 16) (Prefix (V4 0x64400000) 16) = Inr t \<and>
     xl_peers (Some t) [demo_shown_peer 0x64400007] = (ps', T1) \<and> length ps' = 1 \<and>
     (\<exists>t2. T1 = Some t2 \<and> (\<forall>p' \<in> set ps'. shown t2 (string4 0x64400007) (pe_ip p')))"
proof -
  have lt: "(65536 :: u32) - 1 = 65535" by simp
  obtain t where t: "NewTable (Prefix (V4 0x64700000) 16) (Prefix (V4 0x64400000) 16) = Inr t"
      and f: "tb_toLocal t = Map.empty" "tb_size t = 65536" "tb_used t = (\<lambda>_. False)"
        "tb_base t = 0x64700000" "tb_real t = Prefix (V4 0x64400000) 16"
    by (auto simp: NewTable_def mask4_def mask_eq_exp_minus_1)
  obtain b k where ok: "table_ok b k (prefix_masked (Prefix (V4 0x64400000) 16)) t" using NewTable_ok[OF t] by auto
  obtain t1 where L: "Local t (V4 0x64400007) = (Some (V4 0x64700007), t1)"
    by (auto simp: Local_def allocLocked_def f usable_def fromUint32_def Let_def)
  have pa: "pe_ip (demo_shown_peer a) = string4 a" for a by (simp add: demo_shown_peer_def)
  have "xl_local (Some t) (pe_ip (demo_shown_peer 0x64400007)) = (Some (string4 0x64700007), Some t1)"
    by (simp only: pa xl_local_def option.case parse_addr_string4 L prod.case option.map addr_string.simps)
  then have ps: "xl_peers (Some t) [demo_shown_peer 0x64400007] =
      ([(demo_shown_peer 0x64400007)\<lparr>pe_ip := string4 0x64700007\<rparr>], Some t1)"
    by (simp add: xl_peers_def xl_on_def)
  have ss: "xl_services (Some t1) [] = ([], Some t1)" by (simp add: xl_services_def xl_on_def)
  from translation_agrees_with_the_overlay[OF ok ps ss]
  have "\<forall>p' \<in> set [(demo_shown_peer 0x64400007)\<lparr>pe_ip := string4 0x64700007\<rparr>]. \<exists>p \<in> set [demo_shown_peer 0x64400007].
      p' = p\<lparr>pe_ip := pe_ip p'\<rparr> \<and> shown t1 (pe_ip p) (pe_ip p')" by blast
  then have "\<forall>p' \<in> set [(demo_shown_peer 0x64400007)\<lparr>pe_ip := string4 0x64700007\<rparr>]. shown t1 (string4 0x64400007) (pe_ip p')"
    unfolding pa[symmetric] by (auto simp del: peer.simps)
  with t ps show ?thesis by auto
qed

end
