(* ===== verification/Wg.thy ===== *)
theory Wg
  imports GoStrings Prelude
begin

text \<open>
  \<open>client/wg/wg.go\<close>: the text protocol with the wireguard-go device. What is written is the device's
  and the peers' configuration, one \<open>key=value\<close> line each; what is read back is the state of the peers.
  Applying a configuration to the device is wireguard-go and an argument.
\<close>

record wg_peer =
  wp_key :: string
  wp_endpoint :: string
  wp_allowed :: "string list"

definition newline :: char where "newline = CHR 0x0A"

definition config_line :: "string \<Rightarrow> string \<Rightarrow> string" where
  "config_line k v = k @ ''='' @ v @ [newline]"

section \<open>Writing\<close>

definition peer_config :: "wg_peer \<Rightarrow> string" where
  "peer_config p =
     config_line ''public_key'' (wp_key p) @
     (if wp_endpoint p \<noteq> [] then config_line ''endpoint'' (wp_endpoint p) else []) @
     concat (map (config_line ''allowed_ip'') (wp_allowed p)) @
     config_line ''persistent_keepalive_interval'' ''25''"

definition buildPeerConfig :: "wg_peer list \<Rightarrow> string" where
  "buildPeerConfig ps = config_line ''replace_peers'' ''true'' @ concat (map peer_config ps)"

definition SetPeers :: "(string \<Rightarrow> 'd \<Rightarrow> bool \<times> 'd) \<Rightarrow> wg_peer list \<Rightarrow> 'd \<Rightarrow> bool \<times> 'd" where
  "SetPeers ipcSet ps d = ipcSet (buildPeerConfig ps) d"

text \<open>Bringing a device up: its private key and port are set, then it is started; a device that
  refuses either is closed again.\<close>

definition device_config :: "string \<Rightarrow> nat \<Rightarrow> string" where
  "device_config privHex listenPort = config_line ''private_key'' privHex @ config_line ''listen_port'' (nat_str listenPort)"

datatype up_error = NotConfigured | NotUp

definition wg_Up :: "(string \<Rightarrow> bool) \<Rightarrow> bool \<Rightarrow> string \<Rightarrow> nat \<Rightarrow> up_error + unit" where
  "wg_Up ipcSet up privHex listenPort =
     (if \<not> ipcSet (device_config privHex listenPort) then Inl NotConfigured
      else if \<not> up then Inl NotUp else Inr ())"

section \<open>Reading\<close>

text \<open>\<open>strconv.ParseInt(v, 10, 64)\<close> with its error ignored: 0 for bad syntax, the nearest bound when out of range.\<close>

definition parse_int64 :: "string \<Rightarrow> int" where
  "parse_int64 s =
     (let neg = has_prefix s ''-''; d = (if has_prefix s ''-'' \<or> has_prefix s ''+'' then tl s else s) in
      case parse_digits d of
        None \<Rightarrow> 0
      | Some n \<Rightarrow> if neg then max (- (2 ^ 63)) (- int n) else min (2 ^ 63 - 1) (int n))"

fun handshake_lines :: "string list \<Rightarrow> string \<Rightarrow> (string \<rightharpoonup> int) \<Rightarrow> (string \<rightharpoonup> int)" where
  "handshake_lines [] cur out = out"
| "handshake_lines (line # ls) cur out =
     (case cut line ''='' of
        None \<Rightarrow> handshake_lines ls cur out
      | Some (k, v) \<Rightarrow>
          if k = ''public_key'' then handshake_lines ls v out
          else if k = ''last_handshake_time_sec'' then
            handshake_lines ls cur (if cur \<noteq> [] then out(cur \<mapsto> parse_int64 v) else out)
          else handshake_lines ls cur out)"

definition PeerHandshakes :: "string option \<Rightarrow> (string \<rightharpoonup> int) option" where
  "PeerHandshakes ipcGet = map_option (\<lambda>s. handshake_lines (split_on newline s) [] Map.empty) ipcGet"

section \<open>What the device reads\<close>

text \<open>
  A reader of the protocol's text, as its documentation has it: lines of a key and a value, a
  \<open>public_key\<close> line beginning a peer, \<open>endpoint\<close> and \<open>allowed_ip\<close> lines belonging to the peer that was
  begun last. Other lines do not bear on the peers' addresses.
\<close>

fun read_peers :: "(string \<times> string) list \<Rightarrow> wg_peer option \<Rightarrow> wg_peer list" where
  "read_peers [] cur = (case cur of None \<Rightarrow> [] | Some p \<Rightarrow> [p])"
| "read_peers ((k, v) # ls) cur =
     (if k = ''public_key'' then
        (case cur of None \<Rightarrow> [] | Some p \<Rightarrow> [p]) @ read_peers ls (Some \<lparr>wp_key = v, wp_endpoint = [], wp_allowed = []\<rparr>)
      else case cur of
          None \<Rightarrow> read_peers ls None
        | Some p \<Rightarrow>
            (if k = ''endpoint'' then read_peers ls (Some (p\<lparr>wp_endpoint := v\<rparr>))
             else if k = ''allowed_ip'' then read_peers ls (Some (p\<lparr>wp_allowed := wp_allowed p @ [v]\<rparr>))
             else read_peers ls cur))"

definition device_reads :: "string \<Rightarrow> wg_peer list" where
  "device_reads txt = read_peers (List.map_filter (\<lambda>l. cut l ''='') (split_on newline txt)) None"

definition single_line :: "string \<Rightarrow> bool" where
  "single_line s \<longleftrightarrow> newline \<notin> set s"

definition plain_peer :: "wg_peer \<Rightarrow> bool" where
  "plain_peer p \<longleftrightarrow> single_line (wp_key p) \<and> single_line (wp_endpoint p) \<and> list_all single_line (wp_allowed p)"

lemma config_line_split:
  assumes "CHR ''='' \<notin> set k" and "single_line k" and "single_line v"
  shows "List.map_filter (\<lambda>l. cut l ''='') (split_on newline (config_line k v @ rest)) =
    (k, v) # List.map_filter (\<lambda>l. cut l ''='') (split_on newline rest)"
proof -
  have "newline \<notin> set (k @ ''='' @ v)" using assms(2,3) by (auto simp: single_line_def newline_def)
  from split_on_append[OF this, of rest]
  have "split_on newline (config_line k v @ rest) = (k @ ''='' @ v) # split_on newline rest" by (simp add: config_line_def)
  moreover have "cut (k @ ''='' @ v) ''='' = Some (k, v)" using cut_first[OF assms(1), of v] by simp
  ultimately show ?thesis by simp
qed

definition config_keys :: "string list" where
  "config_keys = [''public_key'', ''endpoint'', ''allowed_ip'', ''persistent_keepalive_interval'', ''replace_peers'']"

lemma config_keys_plain: "list_all (\<lambda>k. CHR ''='' \<notin> set k \<and> single_line k) config_keys"
  by code_simp

lemma config_key_split:
  assumes "k \<in> set config_keys" and "single_line v"
  shows "List.map_filter (\<lambda>l. cut l ''='') (split_on newline (config_line k v @ rest)) =
    (k, v) # List.map_filter (\<lambda>l. cut l ''='') (split_on newline rest)"
  using config_keys_plain assms by (intro config_line_split) (auto simp: list_all_iff)

definition peer_lines :: "wg_peer \<Rightarrow> (string \<times> string) list" where
  "peer_lines p = (''public_key'', wp_key p) # (if wp_endpoint p \<noteq> [] then [(''endpoint'', wp_endpoint p)] else []) @
     map (\<lambda>a. (''allowed_ip'', a)) (wp_allowed p) @ [(''persistent_keepalive_interval'', ''25'')]"

lemma allowed_lines:
  assumes "list_all single_line as"
  shows "List.map_filter (\<lambda>l. cut l ''='') (split_on newline (concat (map (config_line ''allowed_ip'') as) @ rest)) =
    map (\<lambda>a. (''allowed_ip'', a)) as @ List.map_filter (\<lambda>l. cut l ''='') (split_on newline rest)"
  using assms
proof (induction as)
  case (Cons a as)
  have "''allowed_ip'' \<in> set config_keys" by (simp add: config_keys_def)
  with Cons show ?case by (simp add: config_key_split)
qed simp

lemma peer_config_lines:
  assumes "plain_peer p"
  shows "List.map_filter (\<lambda>l. cut l ''='') (split_on newline (peer_config p @ rest)) =
    peer_lines p @ List.map_filter (\<lambda>l. cut l ''='') (split_on newline rest)"
proof -
  have k: "''public_key'' \<in> set config_keys" "''endpoint'' \<in> set config_keys" "''persistent_keepalive_interval'' \<in> set config_keys"
    by (simp_all add: config_keys_def)
  have "single_line ''25''" by code_simp
  with assms show ?thesis
    by (simp add: peer_config_def peer_lines_def plain_peer_def config_key_split[OF k(1)] config_key_split[OF k(2)]
        config_key_split[OF k(3)] allowed_lines)
qed

lemma read_allowed: "read_peers (map (\<lambda>a. (''allowed_ip'', a)) as @ ls) (Some p) =
    read_peers ls (Some (p\<lparr>wp_allowed := wp_allowed p @ as\<rparr>))"
  by (induction as arbitrary: p) simp_all

lemma read_peer_lines: "read_peers (peer_lines p @ ls) cur =
    (case cur of None \<Rightarrow> [] | Some q \<Rightarrow> [q]) @ read_peers ls (Some p)"
  by (cases p) (simp add: peer_lines_def read_allowed)

lemma read_all_peers: "read_peers (concat (map peer_lines ps)) cur = (case cur of None \<Rightarrow> [] | Some q \<Rightarrow> [q]) @ ps"
proof (induction ps arbitrary: cur)
  case (Cons p ps)
  then show ?case by (simp add: read_peer_lines)
qed simp

lemma all_peer_lines:
  assumes "list_all plain_peer ps"
  shows "List.map_filter (\<lambda>l. cut l ''='') (split_on newline (concat (map peer_config ps))) = concat (map peer_lines ps)"
  using assms by (induction ps) (simp_all add: peer_config_lines)

lemma device_reads_config:
  assumes "list_all plain_peer ps"
  shows "device_reads (buildPeerConfig ps) = ps"
proof -
  have "''replace_peers'' \<in> set config_keys" by (simp add: config_keys_def)
  moreover have "single_line ''true''" by code_simp
  ultimately show ?thesis
    using assms by (simp add: device_reads_def buildPeerConfig_def config_key_split all_peer_lines read_all_peers)
qed

section \<open>Properties\<close>

text \<open>the device is configured with exactly the peers that were meant, each with its key, its endpoint
  and its addresses in order, as long as no endpoint, key or address contains a line break.\<close>

theorem peer_configuration_roundtrip:
  assumes "list_all plain_peer ps"
  shows "device_reads (buildPeerConfig ps) = ps"
  using assms by (rule device_reads_config)

text \<open>an endpoint with a line break writes configuration of its own. Endpoints come from the other
  devices and are passed on unchecked by the control server, so a member can give itself, in every other
  device's tunnel, an address that belongs to somebody else: the peer it is configured as has that
  address among its own, and everything else is as it was meant.\<close>

theorem endpoint_grants_itself_addresses:
  assumes "list_all plain_peer before" and "list_all plain_peer after" and "plain_peer \<lparr>wp_key = k, wp_endpoint = ep, wp_allowed = own\<rparr>"
    and "single_line victim" and "ep \<noteq> []"
  shows "device_reads (buildPeerConfig
        (before @ \<lparr>wp_key = k, wp_endpoint = ep @ [newline] @ ''allowed_ip='' @ victim, wp_allowed = own\<rparr> # after)) =
      before @ \<lparr>wp_key = k, wp_endpoint = ep, wp_allowed = victim # own\<rparr> # after"
proof -
  have "buildPeerConfig (before @ \<lparr>wp_key = k, wp_endpoint = ep @ [newline] @ ''allowed_ip='' @ victim, wp_allowed = own\<rparr> # after) =
      buildPeerConfig (before @ \<lparr>wp_key = k, wp_endpoint = ep, wp_allowed = victim # own\<rparr> # after)"
    using assms(5) by (simp add: buildPeerConfig_def peer_config_def config_line_def)
  moreover have "list_all plain_peer (before @ \<lparr>wp_key = k, wp_endpoint = ep, wp_allowed = victim # own\<rparr> # after)"
    using assms(1-4) by (simp add: plain_peer_def)
  ultimately show ?thesis by (simp add: device_reads_config)
qed

section \<open>Witnesses\<close>

definition demo_peer :: "string \<Rightarrow> string \<Rightarrow> wg_peer" where
  "demo_peer ep a = \<lparr>wp_key = ''ab01'', wp_endpoint = ep, wp_allowed = [a]\<rparr>"

theorem peer_configuration_witness:
  "device_reads (buildPeerConfig [demo_peer ''192.0.2.1:51820'' ''100.64.0.1/32'', demo_peer [] ''100.64.0.2/32'']) =
     [demo_peer ''192.0.2.1:51820'' ''100.64.0.1/32'', demo_peer [] ''100.64.0.2/32'']"
proof -
  have "list_all plain_peer [demo_peer ''192.0.2.1:51820'' ''100.64.0.1/32'', demo_peer [] ''100.64.0.2/32'']"
    by code_simp
  then show ?thesis by (rule peer_configuration_roundtrip)
qed

theorem endpoint_grants_witness:
  "device_reads (buildPeerConfig ([] @ \<lparr>wp_key = ''ab01'', wp_endpoint = ''192.0.2.1:1'' @ [newline] @ ''allowed_ip='' @ ''100.64.0.9/32'',
        wp_allowed = [''100.64.0.5/32'']\<rparr> # [])) =
     [] @ \<lparr>wp_key = ''ab01'', wp_endpoint = ''192.0.2.1:1'', wp_allowed = [''100.64.0.9/32'', ''100.64.0.5/32'']\<rparr> # []"
proof -
  have "list_all plain_peer []" by simp
  moreover have "plain_peer \<lparr>wp_key = ''ab01'', wp_endpoint = ''192.0.2.1:1'', wp_allowed = [''100.64.0.5/32'']\<rparr>"
    "single_line ''100.64.0.9/32''" "''192.0.2.1:1'' \<noteq> []" by code_simp+
  ultimately show ?thesis by (intro endpoint_grants_itself_addresses)
qed

end
