(* ===== verification/L4.thy ===== *)
theory L4
  imports Acl NetAddr Proto
begin

text \<open>
  \<open>client/l4\<close>: who may use a service hosted here (\<open>access.go\<close>), the TCP proxy's check of each
  connection (\<open>l4.go\<close>), and the UDP proxy's table of flows (\<open>udp.go\<close>). The UDP proxy runs one reading
  goroutine, one goroutine per flow and whoever closes it; each of their locked sections is a step, with the closing of sockets that follows it.
\<close>

section \<open>Access to a hosted service\<close>

record access_policy =
  ac_groups :: "string \<rightharpoonup> string"
  ac_allow :: "string \<rightharpoonup> string list"

definition access_Set :: "peer list \<Rightarrow> service list \<Rightarrow> access_policy \<Rightarrow> access_policy" where
  "access_Set peers svcs a =
     a\<lparr>ac_groups := foldl (\<lambda>m p. m(pe_ip p \<mapsto> pe_group p)) Map.empty peers,
       ac_allow := foldl (\<lambda>m s. m(sv_name s \<mapsto> sv_allow s)) Map.empty svcs\<rparr>"

definition Permits :: "access_policy \<Rightarrow> string \<Rightarrow> addr \<Rightarrow> bool" where
  "Permits a svc src =
     (case ac_allow a svc of
        None \<Rightarrow> False
      | Some allowed \<Rightarrow>
          if length allowed = 0 then True
          else (case ac_groups a (addr_string src) of
                  None \<Rightarrow> False
                | Some grp \<Rightarrow> AllowsGroup allowed grp))"

definition Filter :: "access_policy \<Rightarrow> string \<Rightarrow> addr \<Rightarrow> bool" where
  "Filter a svc = (\<lambda>src. Permits a svc src)"

section \<open>The TCP proxy\<close>

definition tcp_permit :: "(addr \<Rightarrow> bool) option \<Rightarrow> string \<Rightarrow> bool" where
  "tcp_permit allow remote =
     (case allow of
        None \<Rightarrow> True
      | Some f \<Rightarrow> (case parse_addrport remote of None \<Rightarrow> False | Some (ip, port) \<Rightarrow> f (addr_unmap ip)))"

text \<open>
  The accept loop over the connections that arrive, a failing accept ending it: which remotes get a
  handler and which are closed at once. The filter is asked anew for each connection.
\<close>

fun tcp_serve :: "((addr \<Rightarrow> bool) option \<times> string option) list \<Rightarrow> string list \<times> string list" where
  "tcp_serve [] = ([], [])"
| "tcp_serve ((allow, None) # cs) = ([], [])"
| "tcp_serve ((allow, Some remote) # cs) =
     (case tcp_serve cs of (handled, closed) \<Rightarrow>
        if \<not> tcp_permit allow remote then (handled, remote # closed) else (remote # handled, closed))"

section \<open>The UDP proxy\<close>

datatype flow_src = FlowSrc (src_addr: addr) (src_port: nat)

text \<open>
  The table and its flag, the sockets to the backend that are open, the flows that have a pump
  goroutine, and where the reading goroutine is: between its two locked sections it holds a socket
  it has just opened for a client.
\<close>

record udp_proxy =
  up_flows :: "flow_src \<rightharpoonup> nat"
  up_closed :: bool
  up_open :: "nat set"
  up_pumps :: "(flow_src \<times> nat) set"
  up_dialed :: "(flow_src \<times> nat) option"

definition ListenUDP :: udp_proxy where
  "ListenUDP = \<lparr>up_flows = Map.empty, up_closed = False, up_open = {}, up_pumps = {}, up_dialed = None\<rparr>"

datatype flow_begin = FlowClosed | FlowFound nat | FlowDial

definition flowFor_begin :: "udp_proxy \<Rightarrow> flow_src \<Rightarrow> flow_begin" where
  "flowFor_begin p src =
     (if up_closed p then FlowClosed
      else case up_flows p src of Some c \<Rightarrow> FlowFound c | None \<Rightarrow> FlowDial)"

text \<open>The second locked section: the socket the datagram is sent on, if any.\<close>

definition flowFor_commit :: "udp_proxy \<Rightarrow> flow_src \<Rightarrow> nat \<Rightarrow> nat option \<times> udp_proxy" where
  "flowFor_commit p src conn =
     (if up_closed p then (None, p\<lparr>up_open := up_open p - {conn}, up_dialed := None\<rparr>)
      else case up_flows p src of
          Some existing \<Rightarrow> (Some existing, p\<lparr>up_open := up_open p - {conn}, up_dialed := None\<rparr>)
        | None \<Rightarrow> (Some conn, p\<lparr>up_flows := (up_flows p)(src \<mapsto> conn), up_pumps := insert (src, conn) (up_pumps p),
                            up_dialed := None\<rparr>))"

definition pump_end :: "udp_proxy \<Rightarrow> flow_src \<Rightarrow> nat \<Rightarrow> udp_proxy" where
  "pump_end p src conn =
     p\<lparr>up_flows := (if up_flows p src = Some conn then (up_flows p)(src := None) else up_flows p),
       up_open := up_open p - {conn}, up_pumps := up_pumps p - {(src, conn)}\<rparr>"

definition udp_Close :: "udp_proxy \<Rightarrow> udp_proxy" where
  "udp_Close p = p\<lparr>up_closed := True, up_flows := Map.empty, up_open := up_open p - ran (up_flows p)\<rparr>"

text \<open>What a step does on the wire: a datagram to the backend or back to a client.\<close>

datatype udp_event = Quiet | ToBackend flow_src nat | ToClient nat flow_src

inductive udp_step :: "(addr \<Rightarrow> bool) option \<Rightarrow> udp_proxy \<Rightarrow> udp_event \<Rightarrow> udp_proxy \<Rightarrow> bool"
  for allow :: "(addr \<Rightarrow> bool) option" where
  refused: "allow = Some f \<Longrightarrow> \<not> f (addr_unmap (src_addr src)) \<Longrightarrow> up_dialed p = None \<Longrightarrow> udp_step allow p Quiet p"
| found: "(\<And>f. allow = Some f \<Longrightarrow> f (addr_unmap (src_addr src))) \<Longrightarrow> up_dialed p = None \<Longrightarrow>
    flowFor_begin p src = FlowFound c \<Longrightarrow> udp_step allow p (ToBackend src c) p"
| dial: "(\<And>f. allow = Some f \<Longrightarrow> f (addr_unmap (src_addr src))) \<Longrightarrow> up_dialed p = None \<Longrightarrow>
    flowFor_begin p src = FlowDial \<Longrightarrow> conn \<notin> up_open p \<Longrightarrow> conn \<notin> snd ` up_pumps p \<Longrightarrow>
    udp_step allow p Quiet (p\<lparr>up_open := insert conn (up_open p), up_dialed := Some (src, conn)\<rparr>)"
| commit: "up_dialed p = Some (src, conn) \<Longrightarrow> flowFor_commit p src conn = (Some c, p') \<Longrightarrow>
    udp_step allow p (ToBackend src c) p'"
| commit_closed: "up_dialed p = Some (src, conn) \<Longrightarrow> flowFor_commit p src conn = (None, p') \<Longrightarrow> udp_step allow p Quiet p'"
| reply: "(src, conn) \<in> up_pumps p \<Longrightarrow> conn \<in> up_open p \<Longrightarrow> udp_step allow p (ToClient conn src) p"
| pump_done: "(src, conn) \<in> up_pumps p \<Longrightarrow> udp_step allow p Quiet (pump_end p src conn)"
| close: "udp_step allow p Quiet (udp_Close p)"

inductive_cases udp_replyE: "udp_step allow p (ToClient c src) q"

section \<open>Access lists\<close>

text \<open>The maps built by the two loops: the last entry for a key is the one that counts.\<close>

lemma foldl_upd: "foldl (\<lambda>m x. m(k x \<mapsto> v x)) m0 xs = m0 ++ map_of (rev (map (\<lambda>x. (k x, v x)) xs))"
proof (induction xs rule: rev_induct)
  case (snoc x xs)
  then show ?case by (auto simp: map_add_def fun_eq_iff split: option.splits)
qed simp

lemma last_entry: "map_of (rev (map (\<lambda>x. (k x, v x)) xs)) key = map_option v (List.find (\<lambda>x. k x = key) (rev xs))"
proof -
  have "map_of (map (\<lambda>x. (k x, v x)) ys) key = map_option v (List.find (\<lambda>x. k x = key) ys)" for ys
    by (induction ys) auto
  then show ?thesis by (simp only: rev_map)
qed

lemma find_unique_key:
  assumes "distinct (map k xs)" and "x \<in> set xs"
  shows "List.find (\<lambda>y. k y = k x) (rev xs) = Some x"
  using assms by (intro find_unique) (auto simp: distinct_map inj_on_def)

lemma find_absent: "List.find P xs = None \<longleftrightarrow> (\<forall>x \<in> set xs. \<not> P x)"
  by (induction xs) auto

lemma Permits_Set:
  "Permits (access_Set peers svcs a) svc src =
     (case List.find (\<lambda>s. sv_name s = svc) (rev svcs) of
        None \<Rightarrow> False
      | Some s \<Rightarrow> sv_allow s = [] \<or>
          (\<exists>p. List.find (\<lambda>p. pe_ip p = addr_string src) (rev peers) = Some p \<and> AllowsGroup (sv_allow s) (pe_group p)))"
  by (auto simp: Permits_def access_Set_def foldl_upd last_entry split: option.splits)

section \<open>Flows\<close>

text \<open>
  Before it is closed, the table lists exactly the flows that have a goroutine; each of them has a
  socket of its own; and the sockets open are theirs and the one the reader has just opened. A
  closed proxy lists nothing and keeps nothing open but that last one.
\<close>

definition dialed_socks :: "udp_proxy \<Rightarrow> nat set" where
  "dialed_socks p = (case up_dialed p of None \<Rightarrow> {} | Some (src, c) \<Rightarrow> {c})"

definition udp_ok :: "udp_proxy \<Rightarrow> bool" where
  "udp_ok p \<longleftrightarrow>
     (if up_closed p then up_flows p = Map.empty else up_pumps p = Map.graph (up_flows p)) \<and>
     inj_on snd (up_pumps p) \<and>
     (\<forall>src c. up_dialed p = Some (src, c) \<longrightarrow> c \<notin> snd ` up_pumps p \<and> up_flows p src = None) \<and>
     up_open p = (if up_closed p then {} else snd ` up_pumps p) \<union> dialed_socks p"

lemma udp_ok_ListenUDP: "udp_ok ListenUDP"
  by (simp add: udp_ok_def ListenUDP_def dialed_socks_def)

lemma dialed_apart: "udp_ok p \<Longrightarrow> dialed_socks p \<inter> snd ` up_pumps p = {}"
  by (cases "up_dialed p") (auto simp: udp_ok_def dialed_socks_def)

lemma udp_ok_close:
  assumes "udp_ok p"
  shows "udp_ok (udp_Close p)"
proof -
  have "up_open p - ran (up_flows p) = dialed_socks p"
  proof (cases "up_closed p")
    case True
    with assms show ?thesis by (simp add: udp_ok_def)
  next
    case False
    then have "ran (up_flows p) = snd ` up_pumps p" using assms by (simp add: udp_ok_def snd_graph_ran)
    moreover have "up_open p = snd ` up_pumps p \<union> dialed_socks p" using assms False by (simp add: udp_ok_def)
    ultimately show ?thesis using dialed_apart[OF assms] by blast
  qed
  then show ?thesis using assms by (simp add: udp_ok_def udp_Close_def dialed_socks_def)
qed

lemma udp_ok_dial:
  assumes "udp_ok p" "up_dialed p = None" "up_flows p src = None" "conn \<notin> snd ` up_pumps p"
  shows "udp_ok (p\<lparr>up_open := insert conn (up_open p), up_dialed := Some (src, conn)\<rparr>)"
  using assms by (simp add: udp_ok_def dialed_socks_def split: if_splits)

lemma udp_ok_commit:
  assumes ok: "udp_ok p" and d: "up_dialed p = Some (src, conn)" and c: "flowFor_commit p src conn = (r, p')"
  shows "udp_ok p' \<and> r = (if up_closed p then None else Some conn) \<and> (\<forall>c. r = Some c \<longrightarrow> (src, c) \<in> up_pumps p')"
proof (cases "up_closed p")
  case True
  then have "p' = p\<lparr>up_open := up_open p - {conn}, up_dialed := None\<rparr>" "r = None" using c by (simp_all add: flowFor_commit_def)
  then show ?thesis using ok d True by (simp add: udp_ok_def dialed_socks_def)
next
  case False
  have n: "up_flows p src = None" and fresh: "conn \<notin> snd ` up_pumps p" using ok d by (simp_all add: udp_ok_def)
  have p': "p' = p\<lparr>up_flows := (up_flows p)(src \<mapsto> conn), up_pumps := insert (src, conn) (up_pumps p), up_dialed := None\<rparr>"
    and r: "r = Some conn" using c False n by (auto simp: flowFor_commit_def)
  have "Map.graph ((up_flows p)(src \<mapsto> conn)) = insert (src, conn) (Map.graph (up_flows p))"
    using n by (simp add: graph_map_upd fun_upd_idem)
  moreover have "inj_on snd (insert (src, conn) (up_pumps p))" using ok fresh by (simp add: udp_ok_def image_iff)
  ultimately have "udp_ok p'" using ok d False by (simp add: udp_ok_def p' dialed_socks_def)
  then show ?thesis using False r p' by simp
qed

lemma udp_ok_pump_end:
  assumes ok: "udp_ok p" and m: "(src, conn) \<in> up_pumps p"
  shows "udp_ok (pump_end p src conn)"
proof -
  have inj: "inj_on snd (up_pumps p)" using ok by (simp add: udp_ok_def)
  have rest: "snd ` (up_pumps p - {(src, conn)}) = snd ` up_pumps p - {conn}"
    using inj_on_image_set_diff[OF inj, of "up_pumps p" "{(src, conn)}"] m by auto
  have inj': "inj_on snd (up_pumps p - {(src, conn)})" using inj by (rule inj_on_diff)
  have c: "conn \<in> snd ` up_pumps p" using m by (rule image_eqI[rotated]) simp
  then have apart: "conn \<notin> dialed_socks p" using dialed_apart[OF ok] by blast
  show ?thesis
  proof (cases "up_closed p")
    case True
    then have "up_open p - {conn} = dialed_socks p" using ok apart by (auto simp: udp_ok_def)
    then show ?thesis using ok True inj' rest by (simp add: udp_ok_def pump_end_def dialed_socks_def)
  next
    case False
    then have g: "up_pumps p = Map.graph (up_flows p)" using ok by (simp add: udp_ok_def)
    then have fl: "up_flows p src = Some conn" using m by (simp add: in_graphD)
    have "Map.graph ((up_flows p)(src := None)) = up_pumps p - {(src, conn)}"
      unfolding g using fl by (auto simp: graph_def split: if_splits)
    moreover have "up_open p - {conn} = (snd ` up_pumps p - {conn}) \<union> dialed_socks p"
      using ok False apart by (auto simp: udp_ok_def)
    moreover have "\<forall>s c. up_dialed p = Some (s, c) \<longrightarrow>
        c \<notin> snd ` (up_pumps p - {(src, conn)}) \<and> ((up_flows p)(src := None)) s = None"
      using ok by (auto simp: udp_ok_def)
    ultimately show ?thesis using False inj' rest fl
      by (simp del: fun_upd_apply add: udp_ok_def pump_end_def dialed_socks_def)
  qed
qed

lemma udp_step_ok: "udp_step allow p e p' \<Longrightarrow> udp_ok p \<Longrightarrow> udp_ok p'"
proof (induction rule: udp_step.induct)
  case (dial src p conn)
  then show ?case by (intro udp_ok_dial) (auto simp: flowFor_begin_def split: if_splits option.splits)
qed (auto intro: udp_ok_close udp_ok_pump_end dest: udp_ok_commit)

text \<open>The filter is consulted anew for every datagram and may change between steps.\<close>

definition udp_moves :: "udp_proxy \<Rightarrow> udp_proxy \<Rightarrow> bool" where
  "udp_moves p p' \<longleftrightarrow> (\<exists>allow e. udp_step allow p e p')"

interpretation udp: step_invariant udp_moves udp_ok
  by unfold_locales (auto simp: udp_moves_def intro: udp_step_ok)

lemma udp_reachable_ok: "udp_moves\<^sup>*\<^sup>* ListenUDP p \<Longrightarrow> udp_ok p"
  using udp.steps_inv udp_ok_ListenUDP by blast

lemma forwarded_has_flow:
  assumes "udp_ok p" and "udp_step allow p (ToBackend src c) p'"
  shows "udp_ok p' \<and> (src, c) \<in> up_pumps p' \<and> c \<in> up_open p'"
proof -
  have ok': "udp_ok p'" using assms by (metis udp_step_ok)
  moreover have "(src, c) \<in> up_pumps p' \<and> \<not> up_closed p'" using assms(2)
  proof cases
    case found
    then show ?thesis using assms(1) by (auto simp: flowFor_begin_def udp_ok_def in_graphI split: if_splits option.splits)
  next
    case (commit conn)
    then have open_p: "\<not> up_closed p" by (auto simp: flowFor_commit_def)
    then have "\<not> up_closed p'" using commit by (auto simp: flowFor_commit_def split: option.splits)
    then show ?thesis using udp_ok_commit[OF assms(1) commit] by auto
  qed
  ultimately show ?thesis by (force simp: udp_ok_def)
qed

section \<open>Properties\<close>

text \<open>C25: the access list of a hosted service is a boundary. A connection is handled exactly when its
  source address is that of a current peer whose group the service admits, or the service admits
  everyone; an unknown service, an unknown source and an unreadable address are refused.\<close>

theorem proxy_admits_exactly_the_listed_groups:
  assumes "distinct (map pe_ip peers)" and "distinct (map sv_name svcs)"
  shows "tcp_permit (Some (Filter (access_Set peers svcs a) name)) remote \<longleftrightarrow>
    (\<exists>ip port s. parse_addrport remote = Some (ip, port) \<and> s \<in> set svcs \<and> sv_name s = name \<and>
       (sv_allow s = [] \<or>
        (\<exists>p \<in> set peers. pe_ip p = addr_string (addr_unmap ip) \<and> AllowsGroup (sv_allow s) (pe_group p))))"
proof -
  have svc: "List.find (\<lambda>s. sv_name s = name) (rev svcs) = Some s \<longleftrightarrow> s \<in> set svcs \<and> sv_name s = name" for s
    using find_unique_key[OF assms(2), of s] by (auto dest: find_SomeD)
  have pr: "List.find (\<lambda>p. pe_ip p = i) (rev peers) = Some p \<longleftrightarrow> p \<in> set peers \<and> pe_ip p = i" for p i
    using find_unique_key[OF assms(1), of p] by (auto dest: find_SomeD)
  have cases: "(case f of None \<Rightarrow> False | Some x \<Rightarrow> Q x) \<longleftrightarrow> (\<exists>x. f = Some x \<and> Q x)" for f and Q :: "'x \<Rightarrow> bool"
    by (cases f) auto
  show ?thesis
    unfolding tcp_permit_def Filter_def option.case Permits_Set cases svc pr by (auto simp: prod.case_eq_if)
qed

definition demo_peer :: peer where
  "demo_peer = \<lparr>pe_hostname = ''a'', pe_key = ''k'', pe_ip = addr_string (V4 7), pe_endpoint = [], pe_group = ''dev''\<rparr>"

definition demo_service :: service where
  "demo_service = \<lparr>sv_name = ''mc'', sv_proto = ''tcp'', sv_port = 1, sv_backend = 2, sv_node = [], sv_vip = [], sv_allow = [''Dev'']\<rparr>"

theorem proxy_admits_witness:
  "tcp_permit (Some (Filter (access_Set [demo_peer] [demo_service] \<lparr>ac_groups = Map.empty, ac_allow = Map.empty\<rparr>) ''mc''))
     (addrport_string (V4 7, 5555))"
proof -
  have a: "parse_addrport (addrport_string (V4 7, 5555)) = Some (V4 7, 5555)" by (rule parse_addrport_string) simp
  have p: "demo_peer \<in> set [demo_peer]" "pe_ip demo_peer = addr_string (addr_unmap (V4 7))"
    by (simp_all only: demo_peer_def peer.select_convs addr_unmap.simps list.set insertI1)
  have g: "AllowsGroup (sv_allow demo_service) (pe_group demo_peer)" by code_simp
  have s: "demo_service \<in> set [demo_service]" "sv_name demo_service = ''mc''" by (simp_all add: demo_service_def)
  have d: "distinct (map pe_ip [demo_peer])" "distinct (map sv_name [demo_service])" by simp_all
  show ?thesis
    by (rule iffD2[OF proxy_admits_exactly_the_listed_groups[OF d]],
        rule exI, rule exI, rule exI, intro conjI, rule a, rule s(1), rule s(2), rule disjI2,
        rule bexI[OF _ p(1)], rule conjI[OF p(2) g])
qed

text \<open>C6: each client of a UDP service has a flow of its own, under every interleaving of datagrams,
  expiring flows and closing: what comes back from the backend on the socket a client's datagram was
  sent on goes to that client and to no other. The open sockets are those of the listed flows and the one
  being dialed, and a proxy that is closed keeps none.\<close>

theorem udp_flows_are_isolated:
  assumes "udp_moves\<^sup>*\<^sup>* ListenUDP p"
  shows "(\<forall>allow src c p'. udp_step allow p (ToBackend src c) p' \<longrightarrow>
      (\<forall>allow' src' q. udp_step allow' p' (ToClient c src') q \<longleftrightarrow> src' = src \<and> q = p')) \<and>
    (up_closed p \<and> up_dialed p = None \<longrightarrow> up_open p = {}) \<and>
    (\<not> up_closed p \<longrightarrow> up_open p = ran (up_flows p) \<union> dialed_socks p)"
proof (intro conjI allI impI)
  have ok: "udp_ok p" using assms by (rule udp_reachable_ok)
  show "up_open p = ran (up_flows p) \<union> dialed_socks p" if "\<not> up_closed p"
    using ok that by (simp add: udp_ok_def snd_graph_ran)
  show "up_open p = {}" if "up_closed p \<and> up_dialed p = None" using ok that by (simp add: udp_ok_def dialed_socks_def)
  fix allow src c p' allow' src' q
  assume "udp_step allow p (ToBackend src c) p'"
  from forwarded_has_flow[OF ok this]
  have f: "udp_ok p'" "(src, c) \<in> up_pumps p'" "c \<in> up_open p'" by simp_all
  then have uniq: "s = src" if "(s, c) \<in> up_pumps p'" for s using that unfolding udp_ok_def inj_on_def
    by (metis prod.inject snd_conv)
  show "udp_step allow' p' (ToClient c src') q \<longleftrightarrow> src' = src \<and> q = p'"
  proof
    assume "udp_step allow' p' (ToClient c src') q"
    then have "(src', c) \<in> up_pumps p' \<and> q = p'" by (rule udp_replyE) simp
    with uniq show "src' = src \<and> q = p'" by blast
  next
    assume "src' = src \<and> q = p'"
    with f(2,3) show "udp_step allow' p' (ToClient c src') q" by (auto intro: udp_step.reply)
  qed
qed

theorem udp_flows_witness:
  "\<exists>p2. udp_step None (ListenUDP\<lparr>up_open := {7}, up_dialed := Some (FlowSrc (V4 1) 9, 7)\<rparr>) (ToBackend (FlowSrc (V4 1) 9) 7) p2 \<and>
     (\<forall>s q. udp_step None p2 (ToClient 7 s) q \<longleftrightarrow> s = FlowSrc (V4 1) 9 \<and> q = p2)"
proof -
  let ?src = "FlowSrc (V4 1) 9"
  let ?p1 = "ListenUDP\<lparr>up_open := {7}, up_dialed := Some (?src, 7)\<rparr>"
  let ?p2 = "snd (flowFor_commit ?p1 ?src 7)"
  have "udp_step None ListenUDP Quiet (ListenUDP\<lparr>up_open := insert 7 (up_open ListenUDP), up_dialed := Some (?src, 7)\<rparr>)"
    by (rule udp_step.dial) (simp_all add: ListenUDP_def flowFor_begin_def)
  then have "udp_moves ListenUDP ?p1" by (auto simp: udp_moves_def ListenUDP_def)
  then have run: "udp_moves\<^sup>*\<^sup>* ListenUDP ?p1" ..
  have step: "udp_step None ?p1 (ToBackend ?src 7) ?p2"
    by (rule udp_step.commit) (simp_all add: flowFor_commit_def ListenUDP_def)
  with conjunct1[OF udp_flows_are_isolated[OF run]] show ?thesis by blast
qed

end
