(* ===== verification/EngineTick.thy ===== *)
theory EngineTick
  imports Translate Wg L4 Resolver JoinClient
begin

text \<open>
  The refresh of a connection (\<open>apply\<close> in \<open>client/engine/engine.go\<close>) and the functions it is made of.
  Every three seconds the engine asks the control server for the peers and the services and brings the
  tunnel, the routes, the names, the access lists and the hosted services in line with the answer.
  What the operating system answers is an argument (\<open>tick_env\<close>); the sockets of hosted services that
  are open on the machine are part of the state.
\<close>

section \<open>The tunnel's peers\<close>

text \<open>The addresses of the services hosted on a node, in the order of the list.\<close>

definition hosted_on :: "service list \<Rightarrow> string \<Rightarrow> string list" where
  "hosted_on svcs node = map sv_vip (filter (\<lambda>s. sv_vip s \<noteq> [] \<and> sv_node s = node) svcs)"

definition cidrs :: "string list \<Rightarrow> string list" where
  "cidrs addrs = map (\<lambda>a. a @ ''/32'') addrs"

definition wg_peer_of :: "bool \<Rightarrow> service list \<Rightarrow> peer \<Rightarrow> string \<Rightarrow> wg_peer" where
  "wg_peer_of useRelay svcs p hexKey =
     \<lparr>wp_key = hexKey, wp_endpoint = (if useRelay then pe_ip p else pe_endpoint p),
      wp_allowed = (pe_ip p @ ''/32'') # cidrs (hosted_on svcs (pe_ip p))\<rparr>"

text \<open>The loop over the peers: the tunnel's peers, the routes that were added, the translator.\<close>

fun peer_loop :: "(string \<Rightarrow> bool) \<Rightarrow> bool \<Rightarrow> string \<Rightarrow> service list \<Rightarrow> string set \<times> translator \<Rightarrow> peer list \<Rightarrow>
    wg_peer list \<times> string set \<times> translator" where
  "peer_loop addRoute useRelay selfIP svcs (routed, t) [] = ([], routed, t)"
| "peer_loop addRoute useRelay selfIP svcs (routed, t) (p # ps) =
     (if pe_ip p = selfIP \<or> pe_key p = [] then peer_loop addRoute useRelay selfIP svcs (routed, t) ps
      else (case PublicHexFromBase64 (pe_key p) of
        None \<Rightarrow> peer_loop addRoute useRelay selfIP svcs (routed, t) ps
      | Some hexKey \<Rightarrow>
          (case xl_local t (pe_ip p) of (local, t1) \<Rightarrow>
            (let routed1 = (case local of
                              None \<Rightarrow> routed
                            | Some l \<Rightarrow> if l \<notin> routed \<and> addRoute l then insert l routed else routed) in
             case peer_loop addRoute useRelay selfIP svcs (routed1, t1) ps of (ws, st) \<Rightarrow>
               (wg_peer_of useRelay svcs p hexKey # ws, st)))))"

definition peer_part :: "wg_peer \<Rightarrow> string" where
  "peer_part p = wp_key p @ ''|'' @ wp_endpoint p @ ''|'' @ join_with '','' (wp_allowed p)"

definition peerSig :: "wg_peer list \<Rightarrow> string" where
  "peerSig ps = join_with '','' (sort (map peer_part ps))"

fun handshake_loop :: "(string \<rightharpoonup> int) \<Rightarrow> wg_peer list \<Rightarrow> (string, bool) gomap \<Rightarrow> (string, bool) gomap" where
  "handshake_loop hs [] out = out"
| "handshake_loop hs (p # ps) out =
     (case wp_allowed p of
        [] \<Rightarrow> handshake_loop hs ps out
      | a # _ \<Rightarrow> handshake_loop hs ps
          (AList.update (trim_suffix a ''/32'') ((case hs (wp_key p) of Some n \<Rightarrow> n | None \<Rightarrow> 0) > 0) out))"

definition handshakeMap :: "string option \<Rightarrow> wg_peer list \<Rightarrow> (string, bool) gomap" where
  "handshakeMap ipcGet ps = (case PeerHandshakes ipcGet of None \<Rightarrow> [] | Some hs \<Rightarrow> handshake_loop hs ps [])"

section \<open>Services\<close>

definition serviceAddr :: "service \<Rightarrow> string" where
  "serviceAddr s = (if sv_vip s \<noteq> [] then sv_vip s else sv_node s)"

fun republish_loop :: "'w exchange \<Rightarrow> string set \<Rightarrow> string \<Rightarrow> service list \<Rightarrow> service list \<Rightarrow> client \<times> 'w \<Rightarrow> service list \<times> client \<times> 'w" where
  "republish_loop http listed selfIP [] have cw = (have, cw)"
| "republish_loop http listed selfIP (s # ss) have cw =
     (if sv_name s \<in> listed then republish_loop http listed selfIP ss have cw
      else (case PublishService http (s\<lparr>sv_node := selfIP\<rparr>) cw of
              (Inl e, cw') \<Rightarrow> republish_loop http listed selfIP ss have cw'
            | (Inr stored, cw') \<Rightarrow> republish_loop http listed selfIP ss (have @ [stored]) cw'))"

definition republish :: "'w exchange \<Rightarrow> service list \<Rightarrow> service list \<Rightarrow> string \<Rightarrow> client \<times> 'w \<Rightarrow> service list \<times> client \<times> 'w" where
  "republish http want have selfIP cw =
     (if want = [] then (have, cw) else republish_loop http (sv_name ` set have) selfIP want have cw)"

fun routeServices :: "(string \<Rightarrow> bool) \<Rightarrow> string set \<Rightarrow> string \<Rightarrow> service list \<Rightarrow> string set" where
  "routeServices addRoute routed selfIP [] = routed"
| "routeServices addRoute routed selfIP (s # ss) =
     (if sv_vip s = [] \<or> sv_node s = selfIP \<or> sv_vip s \<in> routed then routeServices addRoute routed selfIP ss
      else routeServices addRoute (if addRoute (sv_vip s) then insert (sv_vip s) routed else routed) selfIP ss)"

text \<open>The records of a zone: devices under their names, services under theirs.\<close>

definition peer_record :: "string \<Rightarrow> peer \<Rightarrow> (string \<times> ip) option" where
  "peer_record suffix p =
     (if pe_hostname p = [] then None
      else case net_parse_ip (pe_ip p) of
          None \<Rightarrow> None | Some a \<Rightarrow> Some (to_lower (pe_hostname p) @ ''.'' @ suffix, Some a))"

definition service_record :: "string \<Rightarrow> service \<Rightarrow> (string \<times> ip) option" where
  "service_record suffix s =
     (case net_parse_ip (if sv_vip s = [] then sv_node s else sv_vip s) of
        None \<Rightarrow> None | Some a \<Rightarrow> Some (to_lower (sv_name s) @ ''.'' @ suffix, Some a))"

definition zone_records :: "string \<Rightarrow> peer list \<Rightarrow> service list \<Rightarrow> (string, ip) gomap" where
  "zone_records suffix ps ss =
     foldl (\<lambda>m (k, v). AList.update k v m) []
       (List.map_filter (peer_record suffix) ps @ List.map_filter (service_record suffix) ss)"

definition updateDNS :: "((string \<times> ip) list \<Rightarrow> (string \<times> ip) list) \<Rightarrow> resolver option \<Rightarrow> string \<Rightarrow> peer list \<Rightarrow> service list \<Rightarrow> resolver option" where
  "updateDNS iter zone suffix ps ss = map_option (\<lambda>r. SetZone iter r suffix (zone_records suffix ps ss)) zone"

section \<open>Hosted services\<close>

datatype hosted = HostedTCP string | HostedUDP string

definition listen_of :: "string \<Rightarrow> service \<Rightarrow> hosted" where
  "listen_of addr s =
     (let listen = addr @ '':'' @ int_str (sv_port s) in
      if equal_fold (sv_proto s) ''udp'' then HostedUDP listen else HostedTCP listen)"

text \<open>
  \<open>running\<close> maps a service to its listener; \<open>open\<close> are the listeners open on the machine. A listener
  that is open already cannot be opened again.
\<close>

fun manageHostProxies :: "(string \<Rightarrow> bool) \<Rightarrow> (hosted \<Rightarrow> bool) \<Rightarrow> string \<Rightarrow> service list \<Rightarrow>
    (string \<rightharpoonup> hosted) \<times> hosted set \<Rightarrow> (string \<rightharpoonup> hosted) \<times> hosted set" where
  "manageHostProxies addServiceIP listenOk selfIP [] st = st"
| "manageHostProxies addServiceIP listenOk selfIP (s # ss) (running, opened) =
     (if sv_node s \<noteq> selfIP \<or> sv_backend s = 0 then manageHostProxies addServiceIP listenOk selfIP ss (running, opened)
      else if running (sv_name s) \<noteq> None then manageHostProxies addServiceIP listenOk selfIP ss (running, opened)
      else if sv_vip s \<noteq> [] \<and> \<not> addServiceIP (sv_vip s) then manageHostProxies addServiceIP listenOk selfIP ss (running, opened)
      else (let h = listen_of (if sv_vip s = [] then selfIP else sv_vip s) s in
            if h \<in> opened \<or> \<not> listenOk h then manageHostProxies addServiceIP listenOk selfIP ss (running, opened)
            else manageHostProxies addServiceIP listenOk selfIP ss (running(sv_name s \<mapsto> h), insert h opened)))"

section \<open>The refresh\<close>

record tick_env =
  tk_route :: "string \<Rightarrow> bool"
  tk_serviceIP :: "string \<Rightarrow> bool"
  tk_listen :: "hosted \<Rightarrow> bool"
  tk_ipcGet :: "string option"
  tk_names :: "(string \<times> ip) list \<Rightarrow> (string \<times> ip) list"
  tk_states :: "(string \<times> bool) list \<Rightarrow> (string \<times> bool) list"

text \<open>What stays the same during a connection.\<close>

record connection =
  cn_self :: string
  cn_device :: string
  cn_suffix :: string
  cn_relay :: bool
  cn_publish :: "service list"

text \<open>What \<open>run\<close> keeps in its variables, the tunnel device, the zone it publishes to, and the part of the
  status a refresh writes.\<close>

record 'd run_state =
  ru_routed :: "string set"
  ru_proxies :: "string \<rightharpoonup> hosted"
  ru_access :: access_policy
  ru_lastSig :: string
  ru_curPeers :: "wg_peer list"
  ru_xlate :: translator
  ru_device :: 'd
  ru_zone :: "resolver option"
  ru_open :: "hosted set"
  ru_peers :: "peer list"
  ru_services :: "service list"
  ru_handshakes :: "string \<rightharpoonup> bool"

definition apply_lists :: "(string \<Rightarrow> 'd \<Rightarrow> bool \<times> 'd) \<Rightarrow> tick_env \<Rightarrow> connection \<Rightarrow> peer list \<Rightarrow> service list \<Rightarrow> 'd run_state \<Rightarrow> 'd run_state" where
  "apply_lists ipcSet e cn ps svcs st =
     (case peer_loop (tk_route e) (cn_relay cn) (cn_self cn) svcs (ru_routed st, ru_xlate st) ps of
        (wgPeers, routed, t) \<Rightarrow>
          (let st1 = st\<lparr>ru_routed := routed, ru_xlate := t\<rparr>; sig = peerSig wgPeers in
           case (if sig \<noteq> ru_lastSig st
                 then (case SetPeers ipcSet wgPeers (ru_device st) of
                         (False, d) \<Rightarrow> (False, st1\<lparr>ru_device := d\<rparr>)
                       | (True, d) \<Rightarrow> (True, st1\<lparr>ru_device := d, ru_lastSig := sig, ru_curPeers := wgPeers\<rparr>))
                 else (True, st1)) of
             (False, st2) \<Rightarrow> st2
           | (True, st2) \<Rightarrow>
               (case xl_peers t ps of (shownPeers, t1) \<Rightarrow>
               (case xl_services t1 svcs of (shownSvcs, t2) \<Rightarrow>
               (case manageHostProxies (tk_serviceIP e) (tk_listen e) (cn_device cn) shownSvcs (ru_proxies st2, ru_open st2) of
                 (running, opened) \<Rightarrow>
               (case xl_handshakes (tk_states e) t2 (handshakeMap (tk_ipcGet e) (ru_curPeers st2)) of
                 (hs, t3) \<Rightarrow>
                   st2\<lparr>ru_routed := routeServices (tk_route e) routed (cn_device cn) shownSvcs,
                       ru_zone := updateDNS (tk_names e) (ru_zone st2) (cn_suffix cn) shownPeers shownSvcs,
                       ru_access := access_Set shownPeers shownSvcs (ru_access st2),
                       ru_proxies := running, ru_open := opened, ru_xlate := t3,
                       ru_peers := shownPeers, ru_services := shownSvcs, ru_handshakes := hs\<rparr>))))))"

definition apply_tick :: "'w exchange \<Rightarrow> (string \<Rightarrow> 'd \<Rightarrow> bool \<times> 'd) \<Rightarrow> tick_env \<Rightarrow> connection \<Rightarrow>
    (client \<times> 'w) \<times> 'd run_state \<Rightarrow> (client \<times> 'w) \<times> 'd run_state" where
  "apply_tick http ipcSet e cn all =
     (case all of (cw, st) \<Rightarrow>
      (case client_Peers http cw of
         (Inl err, cw1) \<Rightarrow> (cw1, st)
       | (Inr ps, cw1) \<Rightarrow>
           (case client_Services http cw1 of (r, cw2) \<Rightarrow>
             (case republish http (cn_publish cn) (case r of Inl _ \<Rightarrow> [] | Inr svcs \<Rightarrow> svcs) (cn_self cn) cw2 of
               (svcs, cw3) \<Rightarrow> (cw3, apply_lists ipcSet e cn ps svcs st)))))"

end
