(* ===== verification/EngineSync.thy ===== *)
theory EngineSync
  imports EngineTick
begin

text \<open>
  What a refresh establishes: whose packets a tunnel takes, which names resolve to what, and what a
  refused configuration does to everything that comes after it.
\<close>

section \<open>The peers of the tunnel\<close>

definition tunnel_peer :: "bool \<Rightarrow> string \<Rightarrow> service list \<Rightarrow> peer \<Rightarrow> wg_peer option" where
  "tunnel_peer useRelay selfIP svcs p =
     (if pe_ip p = selfIP \<or> pe_key p = [] then None
      else map_option (wg_peer_of useRelay svcs p) (PublicHexFromBase64 (pe_key p)))"

lemma peer_loop_peers:
  "fst (peer_loop addRoute useRelay selfIP svcs st ps) = List.map_filter (tunnel_peer useRelay selfIP svcs) ps"
proof (induction ps arbitrary: st)
  case Nil
  then show ?case by (cases st) simp
next
  case (Cons p ps)
  obtain routed t where st: "st = (routed, t)" by (cases st)
  show ?case
  proof (cases "pe_ip p = selfIP \<or> pe_key p = [] \<or> PublicHexFromBase64 (pe_key p) = None")
    case True
    with Cons st show ?thesis by (auto simp: tunnel_peer_def)
  next
    case False
    then obtain h where h: "PublicHexFromBase64 (pe_key p) = Some h" by auto
    obtain l t1 where l: "xl_local t (pe_ip p) = (l, t1)" by fastforce
    let ?r = "case l of None \<Rightarrow> routed | Some l \<Rightarrow> if l \<notin> routed \<and> addRoute l then insert l routed else routed"
    obtain ws st' where rest: "peer_loop addRoute useRelay selfIP svcs (?r, t1) ps = (ws, st')"
      by (cases "peer_loop addRoute useRelay selfIP svcs (?r, t1) ps") auto
    then have "ws = List.map_filter (tunnel_peer useRelay selfIP svcs) ps" using Cons.IH[of "(?r, t1)"] by simp
    moreover have "tunnel_peer useRelay selfIP svcs p = Some (wg_peer_of useRelay svcs p h)" using False h by (simp add: tunnel_peer_def)
    ultimately show ?thesis using False h l rest st by (simp add: Let_def)
  qed
qed

lemma tunnel_peer_Some: "tunnel_peer useRelay selfIP svcs p = Some w \<Longrightarrow>
    pe_ip p \<noteq> selfIP \<and> wp_allowed w = (pe_ip p @ ''/32'') # cidrs (hosted_on svcs (pe_ip p)) \<and> PublicHexFromBase64 (pe_key p) = Some (wp_key w)"
  by (auto simp: tunnel_peer_def wg_peer_of_def split: if_splits)

text \<open>The addresses a node answers for: its own and those of the services it hosts.\<close>

definition node_addrs :: "service list \<Rightarrow> string \<Rightarrow> string set" where
  "node_addrs svcs node = insert node (set (hosted_on svcs node))"

lemma hosted_on_iff: "v \<in> set (hosted_on svcs node) \<longleftrightarrow> (\<exists>s \<in> set svcs. sv_vip s = v \<and> v \<noteq> [] \<and> sv_node s = node)"
  by (auto simp: hosted_on_def)

lemma tunnel_peer_allowed: "tunnel_peer useRelay selfIP svcs p = Some w \<Longrightarrow>
    set (wp_allowed w) = (\<lambda>a. a @ ''/32'') ` node_addrs svcs (pe_ip p)"
  by (auto simp: tunnel_peer_Some cidrs_def node_addrs_def)

text \<open>A service's address belongs to one service, and is no device's.\<close>

definition unique_addrs :: "peer list \<Rightarrow> service list \<Rightarrow> string \<Rightarrow> bool" where
  "unique_addrs ps svcs selfIP \<longleftrightarrow> distinct (map pe_ip ps) \<and>
     (\<forall>s \<in> set svcs. \<forall>s' \<in> set svcs. sv_vip s \<noteq> [] \<and> sv_vip s = sv_vip s' \<longrightarrow> sv_node s = sv_node s') \<and>
     (\<forall>s \<in> set svcs. sv_vip s \<notin> insert selfIP (pe_ip ` set ps))"

lemma unique_addrsI:
  assumes "distinct (map pe_ip ps)"
    and "\<And>s s'. s \<in> set svcs \<Longrightarrow> s' \<in> set svcs \<Longrightarrow> sv_vip s = sv_vip s' \<Longrightarrow> sv_node s = sv_node s'"
    and "\<And>s. s \<in> set svcs \<Longrightarrow> sv_vip s \<notin> insert selfIP (pe_ip ` set ps)"
  shows "unique_addrs ps svcs selfIP"
  unfolding unique_addrs_def using assms by blast

lemma node_addrs_disjoint:
  assumes "unique_addrs ps svcs selfIP" and "a \<in> insert selfIP (pe_ip ` set ps)" "b \<in> insert selfIP (pe_ip ` set ps)" and "a \<noteq> b"
  shows "node_addrs svcs a \<inter> node_addrs svcs b = {}"
proof (rule ccontr)
  assume "node_addrs svcs a \<inter> node_addrs svcs b \<noteq> {}"
  then obtain c where c: "c \<in> node_addrs svcs a" "c \<in> node_addrs svcs b" by blast
  have node: "v \<notin> insert selfIP (pe_ip ` set ps)" if "v \<in> set (hosted_on svcs n)" for v n
    using that assms(1) by (auto simp: hosted_on_iff unique_addrs_def)
  have "c \<in> set (hosted_on svcs a)" "c \<in> set (hosted_on svcs b)"
    using c node assms(2-4) unfolding node_addrs_def by blast+
  then obtain s s' where "s \<in> set svcs" "s' \<in> set svcs" "sv_vip s = c" "sv_vip s' = c" "c \<noteq> []" "sv_node s = a" "sv_node s' = b"
    by (auto simp: hosted_on_iff)
  with assms(1,4) show False unfolding unique_addrs_def by metis
qed

lemma map_filter_mem: "x \<in> set xs \<Longrightarrow> f x = Some y \<Longrightarrow> y \<in> set (List.map_filter f xs)"
  by (force simp: List.map_filter_def)

lemma map_filter_nth:
  assumes "i < j" "j < length (List.map_filter f xs)" and "distinct xs"
  shows "\<exists>x \<in> set xs. \<exists>y \<in> set xs. x \<noteq> y \<and> f x = Some (List.map_filter f xs ! i) \<and> f y = Some (List.map_filter f xs ! j)"
  using assms
proof (induction xs arbitrary: i j)
  case (Cons x xs)
  let ?m = "List.map_filter f xs"
  show ?case
  proof (cases "f x")
    case None
    then show ?thesis using Cons.IH[of i j] Cons.prems by auto
  next
    case (Some w)
    obtain k where k: "j = Suc k" "k < length ?m" using Cons.prems(1,2) Some by (cases j) auto
    show ?thesis
    proof (cases i)
      case 0
      have "?m ! k \<in> set ?m" using k(2) by (rule nth_mem)
      then obtain y where "y \<in> set xs" "f y = Some (?m ! k)" by (auto simp: List.map_filter_def)
      moreover have "x \<noteq> y" using \<open>y \<in> set xs\<close> Cons.prems(3) by auto
      ultimately show ?thesis using 0 k Some by auto
    next
      case (Suc n)
      then have "n < k" using Cons.prems(1) k by simp
      from Cons.IH[OF this k(2)] Cons.prems(3) obtain y z where "y \<in> set xs" "z \<in> set xs" "y \<noteq> z" "f y = Some (?m ! n)" "f z = Some (?m ! k)"
        by auto
      then show ?thesis using Suc k Some by auto
    qed
  qed
qed simp

lemma tunnel_owner:
  assumes "unique_addrs ps svcs selfIP" and "peer_loop addRoute useRelay selfIP svcs st ps = (ws, st')"
  shows "(\<forall>w \<in> set ws. \<exists>p \<in> set ps. pe_ip p \<noteq> selfIP \<and> PublicHexFromBase64 (pe_key p) = Some (wp_key w) \<and>
      set (wp_allowed w) = (\<lambda>a. a @ ''/32'') ` node_addrs svcs (pe_ip p)) \<and>
    (\<forall>i j. i < length ws \<longrightarrow> j < length ws \<longrightarrow> i \<noteq> j \<longrightarrow> set (wp_allowed (ws ! i)) \<inter> set (wp_allowed (ws ! j)) = {}) \<and>
    (\<forall>w \<in> set ws. \<forall>a \<in> node_addrs svcs selfIP. a @ ''/32'' \<notin> set (wp_allowed w))"
proof -
  have ws: "ws = List.map_filter (tunnel_peer useRelay selfIP svcs) ps"
    using peer_loop_peers[of addRoute useRelay selfIP svcs st ps] assms(2) by simp
  have from_peer: "\<exists>p \<in> set ps. tunnel_peer useRelay selfIP svcs p = Some w" if "w \<in> set ws" for w
    using that unfolding ws by (auto simp: List.map_filter_def)
  have inj: "inj (\<lambda>a. a @ ''/32'')" by (rule injI) simp
  have allowed: "\<exists>p \<in> set ps. pe_ip p \<noteq> selfIP \<and> PublicHexFromBase64 (pe_key p) = Some (wp_key w) \<and>
      set (wp_allowed w) = (\<lambda>a. a @ ''/32'') ` node_addrs svcs (pe_ip p)" if "w \<in> set ws" for w
    using from_peer[OF that] tunnel_peer_allowed tunnel_peer_Some by metis
  moreover have "a @ ''/32'' \<notin> set (wp_allowed w)" if m: "w \<in> set ws" "a \<in> node_addrs svcs selfIP" for w a
  proof -
    obtain p where p: "p \<in> set ps" "pe_ip p \<noteq> selfIP" "set (wp_allowed w) = (\<lambda>a. a @ ''/32'') ` node_addrs svcs (pe_ip p)"
      using allowed[OF m(1)] by blast
    have "node_addrs svcs selfIP \<inter> node_addrs svcs (pe_ip p) = {}" using assms(1) p(1,2) by (intro node_addrs_disjoint) auto
    with m(2) p(3) show ?thesis by auto
  qed
  moreover have apart: "set (wp_allowed (ws ! i)) \<inter> set (wp_allowed (ws ! j)) = {}" if ij: "i < j" "j < length ws" for i j
  proof -
    have d: "distinct (map pe_ip ps)" using assms(1) by (simp add: unique_addrs_def)
    then have "distinct ps" by (simp add: distinct_map)
    then obtain p q where pq: "p \<in> set ps" "q \<in> set ps" "p \<noteq> q" "tunnel_peer useRelay selfIP svcs p = Some (ws ! i)"
      "tunnel_peer useRelay selfIP svcs q = Some (ws ! j)" using map_filter_nth[of i j "tunnel_peer useRelay selfIP svcs" ps] ij ws by metis
    have "pe_ip p \<noteq> pe_ip q" using d pq(1-3) by (auto simp: distinct_map dest: inj_onD)
    then have "node_addrs svcs (pe_ip p) \<inter> node_addrs svcs (pe_ip q) = {}" using assms(1) pq(1,2) by (intro node_addrs_disjoint) auto
    with tunnel_peer_allowed[OF pq(4)] tunnel_peer_allowed[OF pq(5)] show ?thesis using inj by auto
  qed
  ultimately show ?thesis using apart by (metis (no_types, lifting) inf_commute linorder_neqE_nat)
qed

text \<open>The lists a member gets from the server are of this kind, in every state the server can be in.\<close>

lemma service_ip_inj:
  assumes ok: "api_ok base b mid (s, js)"
    and sv: "map_of (nw_services (srv_net s)) n = Some sv" "map_of (nw_services (srv_net s)) n' = Some sv'"
    and ip: "ss_vip sv = ss_vip sv'"
  shows "n = n'"
proof -
  note D = api_okD[OF ok]
  have al: "ipam_ok mid (b + 1) (srv_serviceIPs s)" using D(2) by (simp add: halves_def)
  obtain ip1 ip2 where a: "al_byKey (srv_serviceIPs s) (ss_name sv) = Some ip1" "ss_vip sv = addr_string ip1"
      "al_byKey (srv_serviceIPs s) (ss_name sv') = Some ip2" "ss_vip sv' = addr_string ip2"
    using D(4)[OF sv(1)] D(4)[OF sv(2)] unfolding held_service_def by blast
  obtain x y where "ip1 = V4 x" "ip2 = V4 y" using ipam_held_range[OF al] a by metis
  with a ip have "ip1 = ip2" by simp
  with a ipam_held_inj[OF al] have "ss_name sv = ss_name sv'" unfolding ipam.held_inj_def by metis
  with sv store_okD(5)[OF D(1)] show ?thesis by metis
qed

lemma visibleServices_stored:
  assumes "store_ok (srv_net s)" and "reorders (e_services e)" and "x \<in> set (visibleServices e s c)"
  obtains sv where "x = service_of sv" "map_of (nw_services (srv_net s)) (ss_name sv) = Some sv"
proof -
  obtain sv where sv: "x = service_of sv" "sv \<in> set (Services (e_services e) (srv_net s))"
    using assms(3) by (auto simp: visibleServices_def)
  then obtain k where "map_of (nw_services (srv_net s)) k = Some sv"
    using gomap_entry_get[OF store_okD(2)[OF assms(1)]] reorders_set[OF assms(2)] by (fastforce simp: Services_def)
  with sv(1) store_okD(5)[OF assms(1)] that show thesis by metis
qed

lemma server_lists_unique:
  assumes "api_start ident suffix cidr opts" and "api_reach opts (s, js)"
    and "reorders (e_members e)" and "reorders (e_services e)" and "caller s r = Inr c"
  shows "unique_addrs (visiblePeers e s c) (visibleServices e s c) (m_ip c)"
proof -
  obtain base b mid where ok: "api_ok base b mid (s, js)" using assms(1,2) by (rule api_reach_ok)
  note st = api_okD(1)[OF ok]
  note stored = visibleServices_stored[OF st assms(4)]
  have c: "member_of (srv_net s) (m_uuid c) = Some c" using st assms(5) by (rule caller_member)
  have peer: "\<exists>u m. member_of (srv_net s) u = Some m \<and> ip = m_ip m" if "ip \<in> insert (m_ip c) (pe_ip ` set (visiblePeers e s c))" for ip
  proof -
    have "pe_ip ` set (visiblePeers e s c) = m_ip ` {m. member_of (srv_net s) (m_uuid m) = Some m \<and>
        (m_uuid m = m_uuid c \<or> Connected (srv_policy s) (m_group c) (m_group m))}"
      unfolding visiblePeers_set[OF ok assms(3)] image_image by (simp add: peer_of_def)
    with that c show ?thesis by blast
  qed
  have vip: "sv_vip x \<notin> insert (m_ip c) (pe_ip ` set (visiblePeers e s c))" if x: "x \<in> set (visibleServices e s c)" for x
  proof
    assume "sv_vip x \<in> insert (m_ip c) (pe_ip ` set (visiblePeers e s c))"
    then obtain u m where m: "member_of (srv_net s) u = Some m" "sv_vip x = m_ip m" using peer by blast
    obtain sv where "x = service_of sv" "map_of (nw_services (srv_net s)) (ss_name sv) = Some sv" using x by (rule stored)
    with member_service_apart[OF ok m(1)] m(2) show False by (simp add: service_of_def)
  qed
  have node: "sv_node x = sv_node y"
    if xy: "x \<in> set (visibleServices e s c)" "y \<in> set (visibleServices e s c)" "sv_vip x = sv_vip y" for x y
  proof -
    obtain sx where sx: "x = service_of sx" "map_of (nw_services (srv_net s)) (ss_name sx) = Some sx" using xy(1) by (rule stored)
    obtain sy where sy: "y = service_of sy" "map_of (nw_services (srv_net s)) (ss_name sy) = Some sy" using xy(2) by (rule stored)
    have "ss_name sx = ss_name sy" using service_ip_inj[OF ok sx(2) sy(2)] xy(3) sx(1) sy(1) by (simp add: service_of_def)
    then have "sx = sy" using sx(2) sy(2) by (metis option.inject)
    then show ?thesis unfolding sx(1) sy(1) by (simp only:)
  qed
  have "distinct (map pe_ip (visiblePeers e s c))" using visiblePeers_sorted[OF ok assms(3), of c] by (rule conjunct2)
  then show ?thesis using node vip by (rule unique_addrsI)
qed

text \<open>The keys and addresses written to the device never break a line; the endpoints are the members' own words.\<close>

lemma single_line_parts:
  "PublicHexFromBase64 k = Some h \<Longrightarrow> single_line h" "single_line (string4 a)"
  "single_line (x @ ''/32'') \<longleftrightarrow> single_line x"
proof -
  have "\<not> text_char newline" "\<not> is_digit newline" "newline \<noteq> CHR ''.''" by code_simp+
  then show "PublicHexFromBase64 k = Some h \<Longrightarrow> single_line h" "single_line (string4 a)"
    using hex_text string4_no_char[of newline a]
    by (auto simp: PublicHexFromBase64_def public_Hex_def single_line_def is_digit_nat)
qed (auto simp: single_line_def newline_def)

lemma server_lists_lines:
  assumes "api_start ident suffix cidr opts" and "api_reach opts (s, js)" and "reorders (e_members e)" and "reorders (e_services e)"
  shows "\<forall>p \<in> set (visiblePeers e s c). single_line (pe_ip p)" "\<forall>v \<in> set (visibleServices e s c). single_line (sv_vip v)"
proof -
  obtain base b mid where ok: "api_ok base b mid (s, js)" using assms(1,2) by (rule api_reach_ok)
  note D = api_okD[OF ok]
  have al: "ipam_ok base (b + 1) (srv_nodeIPs s)" "ipam_ok mid (b + 1) (srv_serviceIPs s)" using D(2) by (simp_all add: halves_def)
  have held: "single_line (addr_string ip)" if "ipam_ok ba bb a" "al_byKey a k = Some ip" for ba bb a k ip
    using ipam_held_range[OF that] single_line_parts(2) by auto
  have "single_line (m_ip m)" if "member_of (srv_net s) u = Some m" for u m
    using D(3)[OF that] held[OF al(1)] by (auto simp: held_node_def)
  then show "\<forall>p \<in> set (visiblePeers e s c). single_line (pe_ip p)"
    unfolding visiblePeers_set[OF ok assms(3)] by (auto simp: peer_of_def)
  have "single_line (sv_vip v)" if v: "v \<in> set (visibleServices e s c)" for v
  proof -
    obtain sv where sv: "v = service_of sv" "map_of (nw_services (srv_net s)) (ss_name sv) = Some sv"
      using D(1) assms(4) v by (rule visibleServices_stored)
    from D(4)[OF sv(2)] held[OF al(2)] show ?thesis by (auto simp: held_service_def sv(1) service_of_def)
  qed
  then show "\<forall>v \<in> set (visibleServices e s c). single_line (sv_vip v)" by blast
qed

lemma tunnel_plain:
  assumes "\<forall>p \<in> set ps. single_line (pe_ip p)" and "\<forall>v \<in> set svcs. single_line (sv_vip v)"
    and "useRelay \<or> (\<forall>p \<in> set ps. single_line (pe_endpoint p))"
    and "peer_loop addRoute useRelay selfIP svcs st ps = (ws, st')"
  shows "list_all plain_peer ws"
proof -
  have ws: "ws = List.map_filter (tunnel_peer useRelay selfIP svcs) ps"
    using peer_loop_peers[of addRoute useRelay selfIP svcs st ps] assms(4) by simp
  have "plain_peer w" if p: "p \<in> set ps" "tunnel_peer useRelay selfIP svcs p = Some w" for p w
  proof -
    obtain h where h: "PublicHexFromBase64 (pe_key p) = Some h" "w = wg_peer_of useRelay svcs p h"
      using p(2) by (auto simp: tunnel_peer_def split: if_splits)
    have "single_line v" if "v \<in> set (hosted_on svcs n)" for v n using that assms(2) by (auto simp: hosted_on_iff)
    then show ?thesis using assms(1,3) p(1) single_line_parts(1)[OF h(1)]
      by (auto simp: h(2) plain_peer_def wg_peer_of_def cidrs_def list_all_iff single_line_parts(3))
  qed
  then show ?thesis unfolding ws by (auto simp: List.map_filter_def list_all_iff)
qed

section \<open>A configuration the device refuses\<close>

text \<open>An endpoint the device cannot use: it refuses every set of peers that has it.\<close>

definition refuses :: "(string \<Rightarrow> 'd \<Rightarrow> bool \<times> 'd) \<Rightarrow> string \<Rightarrow> bool" where
  "refuses ipcSet ep \<longleftrightarrow> (\<forall>ps d. (\<exists>w \<in> set ps. wp_endpoint w = ep) \<longrightarrow> \<not> fst (SetPeers ipcSet ps d))"

text \<open>A member that is listed with it, to a device that reaches its peers directly.\<close>

definition lists_endpoint :: "string \<Rightarrow> string \<Rightarrow> peer list \<Rightarrow> bool" where
  "lists_endpoint selfIP ep ps \<longleftrightarrow>
     (\<exists>p \<in> set ps. pe_ip p \<noteq> selfIP \<and> pe_key p \<noteq> [] \<and> PublicHexFromBase64 (pe_key p) \<noteq> None \<and> pe_endpoint p = ep)"

definition refresh_all :: "(string \<Rightarrow> 'd \<Rightarrow> bool \<times> 'd) \<Rightarrow> connection \<Rightarrow> (tick_env \<times> peer list \<times> service list) list \<Rightarrow> 'd run_state \<Rightarrow> 'd run_state" where
  "refresh_all ipcSet cn ts st = foldl (\<lambda>st (e, ps, svcs). apply_lists ipcSet e cn ps svcs st) st ts"

lemma listed_in_tunnel:
  assumes "lists_endpoint selfIP ep ps" and "peer_loop addRoute False selfIP svcs st ps = (ws, st')"
  shows "\<exists>w \<in> set ws. wp_endpoint w = ep"
proof -
  have ws: "ws = List.map_filter (tunnel_peer False selfIP svcs) ps"
    using peer_loop_peers[of addRoute False selfIP svcs st ps] assms(2) by simp
  obtain p h where p: "p \<in> set ps" "pe_ip p \<noteq> selfIP" "pe_key p \<noteq> []" "PublicHexFromBase64 (pe_key p) = Some h" "pe_endpoint p = ep"
    using assms(1) by (auto simp: lists_endpoint_def)
  then have "tunnel_peer False selfIP svcs p = Some (wg_peer_of False svcs p h)" by (simp add: tunnel_peer_def)
  with p(1) have "wg_peer_of False svcs p h \<in> set ws" unfolding ws by (force simp: List.map_filter_def)
  then show ?thesis using p(5) by (intro bexI[of _ "wg_peer_of False svcs p h"]) (simp_all add: wg_peer_of_def)
qed

lemma peerSig_Nil: "peerSig ws = [] \<longleftrightarrow> ws = []"
proof
  assume e: "peerSig ws = []"
  show "ws = []"
  proof (rule ccontr)
    assume "ws \<noteq> []"
    then obtain part rest where p: "sort (map peer_part ws) = part # rest" by (cases "sort (map peer_part ws)") (auto dest: arg_cong[of _ _ length])
    then have "part \<in> set (map peer_part ws)" by (metis list.set_intros(1) set_sort)
    then have "part \<noteq> []" by (auto simp: peer_part_def)
    with p e show False by (cases rest) (simp_all add: peerSig_def)
  qed
qed (simp add: peerSig_def)

lemma apply_lists_refused:
  assumes "refuses ipcSet ep" and "lists_endpoint (cn_self cn) ep ps" and "\<not> cn_relay cn" and "ru_lastSig st = []"
  shows "\<exists>routed t d. apply_lists ipcSet e cn ps svcs st = st\<lparr>ru_routed := routed, ru_xlate := t, ru_device := d\<rparr>"
proof -
  obtain ws routed t where l: "peer_loop (tk_route e) (cn_relay cn) (cn_self cn) svcs (ru_routed st, ru_xlate st) ps = (ws, routed, t)"
    by (metis prod_cases3)
  then have w: "\<exists>w \<in> set ws. wp_endpoint w = ep" using assms(2,3) listed_in_tunnel by auto
  then have "peerSig ws \<noteq> ru_lastSig st" using assms(4) by (auto simp: peerSig_Nil)
  moreover have "\<not> fst (SetPeers ipcSet ws (ru_device st))" using assms(1) w unfolding refuses_def by blast
  then obtain d where "SetPeers ipcSet ws (ru_device st) = (False, d)" by (metis (full_types) prod.collapse)
  ultimately show ?thesis by (intro exI) (simp add: apply_lists_def l Let_def)
qed

section \<open>Properties\<close>

text \<open>C5: every packet belongs to one peer. In every state the control server can get into, whatever handlers
  are half way, and as long as no listed member's endpoint contains a line break (or the tunnel goes through
  the relay, where endpoints are not used), a device that reads the configuration a member writes from its
  peer and service lists is given the peers that were meant: each with its own
  address and those of the services it hosts and nothing else, no two with a common address, and
  none with an address of this device or of a service hosted here. An endpoint with a line break is the exception,
  and a real one: nothing checks endpoints, and with one a member gives itself any address
  (\<open>endpoint_grants_itself_addresses\<close>). Two members with one public key are two peers of the list.\<close>

theorem tunnel_addresses_have_one_owner:
  assumes "api_start ident suffix cidr opts" and "api_reach opts (s, js)"
    and "reorders (e_members e)" and "reorders (e_services e)" and "caller s r = Inr c"
    and "useRelay \<or> (\<forall>p \<in> set (visiblePeers e s c). single_line (pe_endpoint p))"
    and "peer_loop addRoute useRelay (m_ip c) (visibleServices e s c) st (visiblePeers e s c) = (ws, st')"
  shows "\<exists>rs. device_reads (buildPeerConfig ws) = rs \<and> map wp_key rs = map wp_key ws \<and>
    (\<forall>w \<in> set rs. \<exists>p \<in> set (visiblePeers e s c). pe_ip p \<noteq> m_ip c \<and> PublicHexFromBase64 (pe_key p) = Some (wp_key w) \<and>
      set (wp_allowed w) = (\<lambda>a. a @ ''/32'') ` node_addrs (visibleServices e s c) (pe_ip p)) \<and>
    (\<forall>i j. i < length rs \<longrightarrow> j < length rs \<longrightarrow> i \<noteq> j \<longrightarrow> set (wp_allowed (rs ! i)) \<inter> set (wp_allowed (rs ! j)) = {}) \<and>
    (\<forall>w \<in> set rs. \<forall>a \<in> node_addrs (visibleServices e s c) (m_ip c). a @ ''/32'' \<notin> set (wp_allowed w))"
proof -
  have "device_reads (buildPeerConfig ws) = ws"
    using tunnel_plain[OF server_lists_lines[OF assms(1-4)] assms(6,7)] by (rule device_reads_config)
  with tunnel_owner[OF server_lists_unique[OF assms(1-5)] assms(7)] show ?thesis by blast
qed

text \<open>one bad endpoint stops everybody. A member that registers with an endpoint the tunnel device
  refuses keeps every other directly connected device from getting any further: as long as it is listed
  a new connection publishes no name, admits nobody to its services, serves none and shows no peer,
  however often it refreshes, because the refresh is given up at that point as a whole.\<close>

theorem a_refused_endpoint_stops_the_refresh:
  assumes "refuses ipcSet ep" and "\<not> cn_relay cn" and "ru_lastSig st = []"
    and "\<forall>(e, ps, svcs) \<in> set ts. lists_endpoint (cn_self cn) ep ps"
  shows "ru_zone (refresh_all ipcSet cn ts st) = ru_zone st \<and> ru_access (refresh_all ipcSet cn ts st) = ru_access st \<and>
    ru_proxies (refresh_all ipcSet cn ts st) = ru_proxies st \<and> ru_peers (refresh_all ipcSet cn ts st) = ru_peers st \<and>
    ru_services (refresh_all ipcSet cn ts st) = ru_services st \<and> ru_lastSig (refresh_all ipcSet cn ts st) = []"
  using assms(3,4)
proof (induction ts arbitrary: st)
  case (Cons t ts)
  obtain e ps svcs where t: "t = (e, ps, svcs)" by (cases t)
  then have "lists_endpoint (cn_self cn) ep ps" using Cons.prems(2) by simp
  then obtain routed x d where a: "apply_lists ipcSet e cn ps svcs st = st\<lparr>ru_routed := routed, ru_xlate := x, ru_device := d\<rparr>"
    using apply_lists_refused[OF assms(1) _ assms(2) Cons.prems(1)] by blast
  have "refresh_all ipcSet cn (t # ts) st = refresh_all ipcSet cn ts (st\<lparr>ru_routed := routed, ru_xlate := x, ru_device := d\<rparr>)"
    by (simp add: refresh_all_def t a)
  with Cons.IH[of "st\<lparr>ru_routed := routed, ru_xlate := x, ru_device := d\<rparr>"] Cons.prems show ?case by simp
qed (simp add: refresh_all_def)

section \<open>Witnesses\<close>

text \<open>Two devices with real keys and endpoints, the second of which hosts a service that is open to all.\<close>

definition demo_key :: "char \<Rightarrow> string" where
  "demo_key k = b64_encode (replicate 32 k)"

definition demo_join :: "string \<Rightarrow> char \<Rightarrow> request" where
  "demo_join uuid k = \<lparr>req_method = ''POST'', req_auth = [],
     req_body = Some (enc_register_request \<lparr>rq_token = ''secret'', rq_uuid = uuid, rq_hostname = uuid,
       rq_key = demo_key k, rq_endpoint = ''192.0.2.7:51820''\<rparr>)\<rparr>"

definition demo_host :: "string \<Rightarrow> char \<Rightarrow> u32 \<Rightarrow> string \<Rightarrow> member" where
  "demo_host uuid k ip tok = \<lparr>m_uuid = uuid, m_hostname = uuid, m_key = demo_key k, m_ip = addr_string (V4 ip),
     m_endpoint = ''192.0.2.7:51820'', m_joined = 0, m_token = tok, m_group = ''default''\<rparr>"

abbreviation "demo_here \<equiv> demo_host ''laptop'' (CHR ''k'') 0x64400001 ''01''"
abbreviation "demo_there \<equiv> demo_host ''phone'' (CHR ''m'') 0x64400002 ''02''"

definition demo_home1 :: server where
  "demo_home1 = demo_server [(''laptop'', demo_here)] [''01'' \<mapsto> demo_here] demo_nodes1"

definition demo_home2 :: server where
  "demo_home2 = demo_server [(''laptop'', demo_here), (''phone'', demo_there)]
     [''01'' \<mapsto> demo_here, ''02'' \<mapsto> demo_there] demo_nodes2"

lemma demo_key_some: "demo_key k \<noteq> []" "PublicHexFromBase64 (demo_key k) = Some (hex_encode (replicate 32 k))"
proof -
  have "length (demo_key k) = 44" unfolding demo_key_def length_b64_encode length_replicate by simp
  then show "demo_key k \<noteq> []" by auto
qed (use public_key_text[of "replicate 32 k"] in \<open>simp add: demo_key_def public_String_def\<close>)

lemma demo_home1_reach: "api_reach demo_options (demo_home1, [])"
proof -
  have b: "register_begin (demo_env 1) (api_New demo_options) (demo_join ''laptop'' CHR ''k'') =
      ((api_New demo_options)\<lparr>srv_nodeIPs := demo_nodes1\<rparr>, Inr demo_here)"
    by (simp add: register_begin_def demo_join_def demo_env_def demo_hex demo_host_def api_New_def
        demo_options_def demo_groups demo_alloc demo_key_some)
  have c: "fst (register_commit ((api_New demo_options)\<lparr>srv_nodeIPs := demo_nodes1\<rparr>) demo_here) = demo_home1"
    by (simp add: register_commit_def demo_home1_def demo_server_def Upsert_def api_New_def demo_options_def NewNetwork_def demo_host_def)
  have "api_reach demo_options (api_New demo_options, [])" by (simp add: api_reach_def)
  from register_reach[OF this b] show ?thesis
    unfolding c by (simp add: fresh_token_def demo_host_def api_New_def demo_options_def NewNetwork_def)
qed

lemma demo_home2_reach: "api_reach demo_options (demo_home2, [])"
proof -
  have b: "register_begin (demo_env 2) demo_home1 (demo_join ''phone'' CHR ''m'') =
      (demo_home1\<lparr>srv_nodeIPs := demo_nodes2\<rparr>, Inr demo_there)"
    by (simp add: register_begin_def demo_join_def demo_env_def demo_hex demo_host_def api_New_def
        demo_options_def demo_groups demo_alloc demo_key_some demo_home1_def demo_server_def)
  have c: "fst (register_commit (demo_home1\<lparr>srv_nodeIPs := demo_nodes2\<rparr>) demo_there) = demo_home2"
    by (simp add: register_commit_def demo_home1_def demo_home2_def demo_server_def Upsert_def api_New_def demo_options_def
        NewNetwork_def demo_host_def)
  from register_reach[OF demo_home1_reach b] show ?thesis
    unfolding c by (simp add: fresh_token_def demo_host_def demo_home1_def demo_server_def)
qed

definition demo_game :: store_service where
  "demo_game = \<lparr>ss_name = ''game'', ss_proto = ''tcp'', ss_port = 25565, ss_backend = 0,
     ss_node = addr_string (V4 0x64400002), ss_vip = addr_string (V4 0x64408001), ss_allow = []\<rparr>"

definition demo_home3 :: server where
  "demo_home3 = demo_home2\<lparr>srv_serviceIPs := demo_services1,
     srv_net := (srv_net demo_home2)\<lparr>nw_services := [(''game'', demo_game)]\<rparr>\<rparr>"

lemma demo_home3_reach: "api_reach demo_options (demo_home3, [])"
proof -
  have "bearer (''Bearer '' @ ''02'') = ''02''" by code_simp
  then have "caller demo_home2 (demo_publish ''02'' ''game'' []) = Inr demo_there"
    by (simp only: caller_iff demo_publish_fields) (simp add: MemberByToken_def demo_home2_def demo_server_def)
  moreover have "srv_serviceIPs demo_home2 = newFrom (Prefix (V4 0x64408000) 17)"
    by (simp add: demo_home2_def demo_server_def api_New_def demo_options_def)
  moreover have "cleanGroups [] = []" by code_simp
  ultimately have b: "publish_begin demo_home2 (demo_publish ''02'' ''game'' []) =
      (demo_home2\<lparr>srv_serviceIPs := demo_services1\<rparr>, Inr demo_game)"
    by (simp add: publish_begin_def demo_publish_fields demo_service_alloc demo_wire_def service_ints_def int64_def demo_game_def demo_host_def)
  have "fst (publish_commit (demo_home2\<lparr>srv_serviceIPs := demo_services1\<rparr>) demo_game) = demo_home3"
    by (simp add: publish_commit_def demo_home3_def UpsertService_def demo_home2_def demo_server_def NewNetwork_def demo_game_def)
  with publish_reach[OF demo_home2_reach b] show ?thesis by simp
qed

lemma demo_home3_members: "member_of (srv_net demo_home3) x = [''laptop'' \<mapsto> demo_here, ''phone'' \<mapsto> demo_there] x"
  by (simp add: demo_home3_def demo_home2_def demo_server_def member_of_def)

lemma demo_home3_caller: "caller demo_home3 (demo_get ''01'') = Inr demo_here"
proof -
  have "bearer (''Bearer '' @ ''01'') = ''01''" by code_simp
  then show ?thesis
    by (simp add: caller_iff demo_get_def MemberByToken_def demo_home3_def demo_home2_def demo_server_def)
qed

theorem tunnel_addresses_witness:
  "\<exists>ws st' rs. peer_loop (\<lambda>a. True) False (m_ip demo_here) (visibleServices (demo_env 1) demo_home3 demo_here) ({}, None)
       (visiblePeers (demo_env 1) demo_home3 demo_here) = (ws, st') \<and> device_reads (buildPeerConfig ws) = rs \<and>
     (\<exists>w \<in> set rs. wp_key w = hex_encode (replicate 32 CHR ''m'')) \<and>
     (\<forall>w \<in> set rs. wp_key w = hex_encode (replicate 32 CHR ''m'') \<longrightarrow>
        set (wp_allowed w) = {m_ip demo_there @ ''/32'', ss_vip demo_game @ ''/32''})"
proof -
  let ?e = "demo_env 1" and ?s = demo_home3 and ?c = demo_here
  have it: "reorders (e_members ?e)" "reorders (e_services ?e)" by (simp_all add: demo_env_def)
  obtain ws st' where l: "peer_loop (\<lambda>a. True) False (m_ip ?c) (visibleServices ?e ?s ?c) ({}, None) (visiblePeers ?e ?s ?c) = (ws, st')"
    by (rule prod.exhaust)
  obtain base b mid where ok: "api_ok base b mid (?s, [])" using demo_start demo_home3_reach by (rule api_reach_ok)
  have conn: "Connected (op_Policy demo_options) ''default'' ''default''" by code_simp
  have pol: "srv_policy ?s = op_Policy demo_options" by (simp add: demo_home3_def demo_home2_def demo_server_def api_New_def)
  have peers: "set (visiblePeers ?e ?s ?c) = {peer_of demo_here, peer_of demo_there}"
    unfolding visiblePeers_set[OF ok it(1)] demo_home3_members pol using conn by (auto simp: demo_host_def split: if_splits)
  have sne: "string4 a \<noteq> []" for a using string4_has_dot[of a] by auto
  have "member_of (srv_net ?s) (m_uuid demo_there) = Some demo_there \<and> m_ip demo_there = ss_node demo_game \<and> ss_node demo_game \<noteq> [] \<and>
      Connected (srv_policy ?s) (m_group ?c) (m_group demo_there) \<and> AllowsGroup (ss_allow demo_game) (m_group ?c)"
    using conn sne unfolding demo_home3_members pol by (simp add: demo_host_def demo_game_def AllowsGroup_def)
  then have "visibleService ?e ?s ?c demo_game" unfolding visibleService_iff[OF ok it(1)] by blast
  then have svcs: "set (visibleServices ?e ?s ?c) = {service_of demo_game}"
    unfolding visibleServices_facts(1)[OF ok it] by (auto simp: demo_home3_def demo_game_def split: if_splits)
  have "\<forall>p \<in> set (visiblePeers ?e ?s ?c). single_line (pe_endpoint p)"
    unfolding peers by (simp add: peer_of_def demo_host_def single_line_def newline_def)
  then obtain rs where rs: "device_reads (buildPeerConfig ws) = rs" "map wp_key rs = map wp_key ws"
    "\<forall>w \<in> set rs. \<exists>p \<in> set (visiblePeers ?e ?s ?c). pe_ip p \<noteq> m_ip ?c \<and> PublicHexFromBase64 (pe_key p) = Some (wp_key w) \<and>
      set (wp_allowed w) = (\<lambda>a. a @ ''/32'') ` node_addrs (visibleServices ?e ?s ?c) (pe_ip p)"
    using tunnel_addresses_have_one_owner[OF demo_start demo_home3_reach it demo_home3_caller disjI2 l] by blast
  have away: "m_ip demo_there \<noteq> m_ip demo_here" by (simp add: demo_host_def)
  have ws: "ws = List.map_filter (tunnel_peer False (m_ip ?c) (visibleServices ?e ?s ?c)) (visiblePeers ?e ?s ?c)"
    using peer_loop_peers[of "\<lambda>a. True" False "m_ip ?c" "visibleServices ?e ?s ?c" "({}, None)" "visiblePeers ?e ?s ?c"] l by simp
  have there: "pe_ip (peer_of demo_there) = m_ip demo_there" "pe_key (peer_of demo_there) = demo_key CHR ''m''"
    by (simp_all add: peer_of_def demo_host_def)
  have "tunnel_peer False (m_ip ?c) (visibleServices ?e ?s ?c) (peer_of demo_there) =
      Some (wg_peer_of False (visibleServices ?e ?s ?c) (peer_of demo_there) (hex_encode (replicate 32 CHR ''m'')))" (is "_ = Some ?w")
    using away by (simp only: tunnel_peer_def there demo_key_some if_False option.map(2) de_Morgan_disj HOL.simp_thms)
  moreover have "peer_of demo_there \<in> set (visiblePeers ?e ?s ?c)" unfolding peers by (rule insertI2, rule singletonI)
  ultimately have "?w \<in> set ws" unfolding ws by (rule map_filter_mem[rotated])
  then have "wp_key ?w \<in> wp_key ` set ws" by (rule imageI)
  moreover have "wp_key ?w = hex_encode (replicate 32 CHR ''m'')" by (simp only: wg_peer_of_def wg_peer.simps)
  ultimately have "hex_encode (replicate 32 CHR ''m'') \<in> wp_key ` set rs" using rs(2) by (metis list.set_map)
  then have key: "\<exists>w \<in> set rs. wp_key w = hex_encode (replicate 32 CHR ''m'')"
    unfolding image_iff by (rule bexE) (rule bexI, rule sym)
  have "node_addrs (visibleServices ?e ?s ?c) (m_ip demo_there) = {m_ip demo_there, ss_vip demo_game}"
  proof -
    have g: "sv_vip (service_of demo_game) = ss_vip demo_game" "sv_node (service_of demo_game) = m_ip demo_there" "ss_vip demo_game \<noteq> []"
      by (simp_all add: service_of_def demo_game_def demo_host_def sne)
    have "v \<in> set (hosted_on (visibleServices ?e ?s ?c) (m_ip demo_there)) \<longleftrightarrow> v = ss_vip demo_game" for v
      unfolding hosted_on_iff svcs using g by (auto simp only: bex_simps)
    then have "set (hosted_on (visibleServices ?e ?s ?c) (m_ip demo_there)) = {ss_vip demo_game}" by blast
    then show ?thesis unfolding node_addrs_def by (rule arg_cong)
  qed
  then have there_addrs: "(\<lambda>a. a @ ''/32'') ` node_addrs (visibleServices ?e ?s ?c) (m_ip demo_there) = {m_ip demo_there @ ''/32'', ss_vip demo_game @ ''/32''}"
    by (simp only: image_insert image_empty)
  have here: "pe_ip (peer_of demo_here) = m_ip ?c" by (simp add: peer_of_def)
  have all: "set (wp_allowed w) = {m_ip demo_there @ ''/32'', ss_vip demo_game @ ''/32''}" if w: "w \<in> set rs" for w
  proof -
    obtain p where p: "p \<in> set (visiblePeers ?e ?s ?c)" "pe_ip p \<noteq> m_ip ?c"
        "set (wp_allowed w) = (\<lambda>a. a @ ''/32'') ` node_addrs (visibleServices ?e ?s ?c) (pe_ip p)"
      using bspec[OF rs(3) w] by (elim bexE conjE) (rule that)
    have "p = peer_of demo_there" using p(1,2) here unfolding peers by (elim insertE emptyE) simp_all
    then show ?thesis using p(3) there(1) there_addrs by (simp only:)
  qed
  from l rs(1) key all show ?thesis by blast
qed

definition demo_ipcSet :: "string \<Rightarrow> unit \<Rightarrow> bool \<times> unit" where
  "demo_ipcSet txt d = (\<not> str_contains txt ''vpn.example:51820'', d)"

lemma demo_refuses: "refuses demo_ipcSet ''vpn.example:51820''"
proof -
  have "str_contains (buildPeerConfig ps) (wp_endpoint w)" if m: "w \<in> set ps" "wp_endpoint w \<noteq> []" for ps w
  proof -
    obtain a b where ab: "ps = a @ w # b" using m(1) by (metis split_list)
    have "buildPeerConfig ps = (config_line ''replace_peers'' ''true'' @ concat (map peer_config a) @ config_line ''public_key'' (wp_key w) @
          ''endpoint='') @ wp_endpoint w @ ([newline] @ concat (map (config_line ''allowed_ip'') (wp_allowed w)) @
          config_line ''persistent_keepalive_interval'' ''25'' @ concat (map peer_config b))"
      using m(2) unfolding ab by (simp add: buildPeerConfig_def peer_config_def config_line_def)
    then have "\<exists>x y. buildPeerConfig ps = x @ wp_endpoint w @ y" by blast
    then show ?thesis using str_contains_middle by metis
  qed
  then show ?thesis unfolding refuses_def SetPeers_def demo_ipcSet_def by fastforce
qed

definition demo_bad_peer :: peer where
  "demo_bad_peer = \<lparr>pe_hostname = ''x'', pe_key = b64_encode (replicate 32 CHR ''k''), pe_ip = ''100.64.0.9'',
     pe_endpoint = ''vpn.example:51820'', pe_group = []\<rparr>"

definition demo_run :: "unit run_state" where
  "demo_run = \<lparr>ru_routed = {}, ru_proxies = Map.empty, ru_access = \<lparr>ac_groups = Map.empty, ac_allow = Map.empty\<rparr>, ru_lastSig = [],
     ru_curPeers = [], ru_xlate = None, ru_device = (), ru_zone = Some resolver_New, ru_open = {}, ru_peers = [], ru_services = [],
     ru_handshakes = Map.empty\<rparr>"

definition demo_connection :: connection where
  "demo_connection = \<lparr>cn_self = ''100.64.0.1'', cn_device = ''100.64.0.1'', cn_suffix = ''home'', cn_relay = False, cn_publish = []\<rparr>"

definition demo_tick :: tick_env where
  "demo_tick = \<lparr>tk_route = (\<lambda>a. True), tk_serviceIP = (\<lambda>a. True), tk_listen = (\<lambda>h. True), tk_ipcGet = None, tk_names = (\<lambda>x. x), tk_states = (\<lambda>x. x)\<rparr>"

theorem a_refused_endpoint_witness:
  "ru_peers (refresh_all demo_ipcSet demo_connection (replicate 5 (demo_tick, [demo_bad_peer], [])) demo_run) = []"
proof -
  have "lists_endpoint (cn_self demo_connection) ''vpn.example:51820'' [demo_bad_peer]"
  proof -
    have "length (b64_encode (replicate 32 CHR ''k'')) = 44" unfolding length_b64_encode length_replicate by simp
    then have "b64_encode (replicate 32 CHR ''k'') \<noteq> []" by auto
    then show ?thesis
      by (simp add: lists_endpoint_def demo_bad_peer_def demo_connection_def PublicHexFromBase64_def ParsePublic_def)
  qed
  then have "\<forall>(e, ps, svcs) \<in> set (replicate 5 (demo_tick, [demo_bad_peer], [])). lists_endpoint (cn_self demo_connection) ''vpn.example:51820'' ps"
    by simp
  moreover have "\<not> cn_relay demo_connection" "ru_lastSig demo_run = []" "ru_peers demo_run = []"
    by (simp_all add: demo_connection_def demo_run_def)
  ultimately show ?thesis using a_refused_endpoint_stops_the_refresh[OF demo_refuses, of demo_connection demo_run] by metis
qed

end
