(* ===== verification/DeviceName.thy ===== *)
theory DeviceName
  imports GoStrings
begin

text \<open>
  What a device is called on the overlay: \<open>deviceName\<close> and \<open>dnsLabel\<close> of \<open>client/engine/engine.go\<close>. Strings
  are bytes; a character outside ASCII is a run of bytes no label may hold, which becomes one hyphen
  like the character does.
\<close>

section \<open>Names\<close>

fun label_loop :: "bool \<Rightarrow> string \<Rightarrow> string \<Rightarrow> string" where
  "label_loop dash b [] = b"
| "label_loop dash b (r # rs) =
     (if is_lower_alnum r then label_loop False (b @ [r]) rs
      else if \<not> dash \<and> length b > 0 then label_loop True (b @ ''-'') rs
      else label_loop dash b rs)"

definition dnsLabel :: "string \<Rightarrow> string" where
  "dnsLabel s =
     (let out = trim_right_by (\<lambda>c. c = CHR ''-'') (label_loop False [] (to_lower (trim_space s))) in
      if length out > 63 then trim_right_by (\<lambda>c. c = CHR ''-'') (take 63 out) else out)"

definition deviceName :: "string \<Rightarrow> string \<Rightarrow> string" where
  "deviceName hostname given =
     (if dnsLabel given \<noteq> [] then dnsLabel given
      else if dnsLabel hostname \<noteq> [] then dnsLabel hostname else [])"

section \<open>Labels\<close>

abbreviation "hyphen \<equiv> CHR ''-''"

definition label_char :: "char \<Rightarrow> bool" where
  "label_char c \<longleftrightarrow> is_lower_alnum c \<or> c = hyphen"

definition no_double :: "string \<Rightarrow> bool" where
  "no_double s \<longleftrightarrow> successively (\<lambda>a b. \<not> (a = hyphen \<and> b = hyphen)) s"

definition label_prefix :: "string \<Rightarrow> bool" where
  "label_prefix s \<longleftrightarrow> list_all label_char s \<and> (s \<noteq> [] \<longrightarrow> hd s \<noteq> hyphen) \<and> no_double s"

definition valid_label :: "string \<Rightarrow> bool" where
  "valid_label s \<longleftrightarrow> label_prefix s \<and> (s \<noteq> [] \<longrightarrow> last s \<noteq> hyphen)"

lemma hyphen_not_alnum [simp]: "\<not> is_lower_alnum hyphen"
  by code_simp

lemma label_prefix_snoc: "label_prefix (s @ [c]) \<longleftrightarrow>
    label_prefix s \<and> label_char c \<and> (c = hyphen \<longrightarrow> s \<noteq> [] \<and> last s \<noteq> hyphen)"
  by (cases "s = []") (auto simp: label_prefix_def no_double_def successively_append_iff hd_append)

lemma label_loop_prefix:
  "label_prefix b \<Longrightarrow> dash = (b \<noteq> [] \<and> last b = hyphen) \<Longrightarrow> label_prefix (label_loop dash b rs)"
proof (induction rs arbitrary: dash b)
  case (Cons r rs)
  consider "is_lower_alnum r" | "\<not> is_lower_alnum r" "\<not> dash" "b \<noteq> []" | "\<not> is_lower_alnum r" "dash \<or> b = []" by blast
  then show ?case
  proof cases
    case 1
    then have "r \<noteq> hyphen" by auto
    with 1 Cons.prems show ?thesis by (simp add: Cons.IH label_prefix_snoc label_char_def)
  next
    case 2
    with Cons.prems show ?thesis by (simp add: Cons.IH label_prefix_snoc label_char_def)
  next
    case 3
    with Cons show ?thesis by auto
  qed
qed simp

lemma label_prefix_take: "label_prefix s \<Longrightarrow> label_prefix (take n s)"
  by (auto simp: label_prefix_def no_double_def list_all_iff hd_take successively_conv_nth dest: in_set_takeD)

lemma trim_right_split: obtains t where "s = trim_right_by P s @ t" "trim_right_by P s = [] \<or> \<not> P (last (trim_right_by P s))" "\<forall>c \<in> set t. P c"
proof -
  have "s = trim_right_by P s @ rev (takeWhile P (rev s))"
    unfolding trim_right_by_def by (metis rev_append rev_rev_ident takeWhile_dropWhile_id)
  moreover have "trim_right_by P s = [] \<or> \<not> P (last (trim_right_by P s))"
    unfolding trim_right_by_def by (metis hd_dropWhile last_rev rev_is_Nil_conv)
  moreover have "\<forall>c \<in> set (rev (takeWhile P (rev s))). P c" by (auto dest: set_takeWhileD)
  ultimately show ?thesis by (rule that)
qed

lemma label_prefix_append: "label_prefix (s @ t) \<Longrightarrow> label_prefix s"
  by (metis append_eq_conv_conj label_prefix_take)

lemma trim_valid: "label_prefix s \<Longrightarrow> valid_label (trim_right_by (\<lambda>c. c = hyphen) s)"
proof -
  assume s: "label_prefix s"
  obtain t where t: "s = trim_right_by (\<lambda>c. c = hyphen) s @ t"
      "trim_right_by (\<lambda>c. c = hyphen) s = [] \<or> \<not> last (trim_right_by (\<lambda>c. c = hyphen) s) = hyphen"
    using trim_right_split[of s "\<lambda>c. c = hyphen"] by blast
  have "label_prefix (trim_right_by (\<lambda>c. c = hyphen) s)" using s t(1) label_prefix_append by metis
  then show ?thesis using t(2) by (auto simp: valid_label_def)
qed

lemma trim_right_length: "length (trim_right_by P s) \<le> length s"
  using length_dropWhile_le[of P "rev s"] by (simp add: trim_right_by_def)

lemma dnsLabel_valid: "valid_label (dnsLabel s) \<and> length (dnsLabel s) \<le> 63"
proof -
  let ?out = "trim_right_by (\<lambda>c. c = hyphen) (label_loop False [] (to_lower (trim_space s)))"
  have "label_prefix (label_loop False [] (to_lower (trim_space s)))"
    by (rule label_loop_prefix) (simp_all add: label_prefix_def no_double_def)
  then have v: "valid_label ?out" by (rule trim_valid)
  then have "valid_label (trim_right_by (\<lambda>c. c = hyphen) (take 63 ?out))"
    by (intro trim_valid label_prefix_take) (simp add: valid_label_def)
  moreover have "length (trim_right_by (\<lambda>c. c = hyphen) (take 63 ?out)) \<le> 63"
    using trim_right_length[of "\<lambda>c. c = hyphen" "take 63 ?out"] by simp
  ultimately show ?thesis using v by (auto simp: dnsLabel_def Let_def)
qed

text \<open>A valid label goes through unchanged.\<close>

lemma label_loop_same: "label_prefix (b @ rs) \<Longrightarrow> dash = (b \<noteq> [] \<and> last b = hyphen) \<Longrightarrow> label_loop dash b rs = b @ rs"
proof (induction rs arbitrary: dash b)
  case (Cons r rs)
  have p: "label_prefix ((b @ [r]) @ rs)" using Cons.prems(1) by simp
  then have "label_prefix (b @ [r])" by (rule label_prefix_append)
  then have r: "label_char r" "r = hyphen \<longrightarrow> b \<noteq> [] \<and> last b \<noteq> hyphen" by (simp_all add: label_prefix_snoc)
  show ?case
  proof (cases "r = hyphen")
    case True
    with r Cons.prems(2) Cons.IH[OF p, of True] show ?thesis by simp
  next
    case False
    with r have "is_lower_alnum r" by (simp add: label_char_def)
    with False Cons.IH[OF p, of False] show ?thesis by simp
  qed
qed simp

lemma label_char_plain: "label_char c \<Longrightarrow> lower_char c = c \<and> \<not> is_space c"
proof -
  have "lower_char hyphen = hyphen" "\<not> is_space hyphen" by code_simp+
  then show "label_char c \<Longrightarrow> lower_char c = c \<and> \<not> is_space c"
    by (auto simp: label_char_def lower_char_alnum is_lower_alnum_nat is_space_nat)
qed

lemma dnsLabel_same:
  assumes "valid_label l" and "length l \<le> 63"
  shows "dnsLabel l = l"
proof -
  have c: "\<forall>c \<in> set l. label_char c" using assms(1) by (simp add: valid_label_def label_prefix_def list_all_iff)
  then have "trim_space l = l" unfolding trim_space_def by (intro trim_by_none) (use label_char_plain in blast)
  moreover have "to_lower l = l" unfolding to_lower_def using c by (intro map_idI) (simp add: label_char_plain)
  moreover have "label_loop False [] l = l" using label_loop_same[of "[]" l False] assms(1) by (simp add: valid_label_def)
  moreover have "trim_right_by (\<lambda>c. c = hyphen) l = l"
    using assms(1) by (cases "l = []") (auto simp: valid_label_def trim_right_by_def dropWhile_hd hd_rev)
  ultimately show ?thesis using assms(2) by (simp add: dnsLabel_def)
qed

text \<open>What is left of a name has a letter or digit exactly when the name has.\<close>

lemma label_loop_keeps: "\<exists>t. label_loop dash b rs = b @ t"
proof (induction rs arbitrary: dash b)
  case (Cons r rs)
  obtain t1 where t1: "label_loop False (b @ [r]) rs = (b @ [r]) @ t1" using Cons.IH by blast
  obtain t2 where t2: "label_loop True (b @ ''-'') rs = (b @ ''-'') @ t2" using Cons.IH by blast
  obtain t3 where t3: "label_loop dash b rs = b @ t3" using Cons.IH by blast
  have "label_loop dash b (r # rs) \<in> {label_loop False (b @ [r]) rs, label_loop True (b @ ''-'') rs, label_loop dash b rs}"
    by simp
  then show ?case unfolding t1 t2 t3 append_assoc by blast
qed simp

lemma label_loop_Nil: "label_loop dash [] rs = [] \<longleftrightarrow> (\<forall>r \<in> set rs. \<not> is_lower_alnum r)"
proof (induction rs)
  case (Cons r rs)
  show ?case
  proof (cases "is_lower_alnum r")
    case True
    with label_loop_keeps[of False "[r]" rs] show ?thesis by auto
  qed (use Cons in simp)
qed simp

lemma trim_right_hyphens: "label_prefix s \<Longrightarrow> trim_right_by (\<lambda>c. c = hyphen) s = [] \<longleftrightarrow> s = []"
proof -
  assume s: "label_prefix s"
  obtain t where t: "s = trim_right_by (\<lambda>c. c = hyphen) s @ t"
      "trim_right_by (\<lambda>c. c = hyphen) s = [] \<or> \<not> last (trim_right_by (\<lambda>c. c = hyphen) s) = hyphen" "\<forall>c \<in> set t. c = hyphen"
    by (rule trim_right_split)
  show ?thesis
  proof
    assume h: "trim_right_by (\<lambda>c. c = hyphen) s = []"
    have "s = t" using t(1) unfolding h by simp
    then have "\<forall>c \<in> set s. c = hyphen" using t(3) by simp
    with s show "s = []" by (cases s) (auto simp: label_prefix_def)
  qed (simp add: trim_right_by_def)
qed

lemma trim_space_alnum: "(\<exists>c \<in> set (trim_space s). is_lower_alnum (lower_char c)) \<longleftrightarrow> (\<exists>c \<in> set s. is_lower_alnum (lower_char c))"
proof -
  have sp: "\<not> is_lower_alnum (lower_char c)" if "is_space c" for c
    using that by (auto simp: is_space_nat is_lower_alnum_nat lower_char_nat)
  have L: "(\<exists>c \<in> set (dropWhile is_space s). is_lower_alnum (lower_char c)) \<longleftrightarrow> (\<exists>c \<in> set s. is_lower_alnum (lower_char c))" for s
    by (induction s) (auto simp: sp)
  show ?thesis unfolding trim_space_def trim_by_def trim_left_by_def trim_right_by_def using L[of "rev _"] L[of s] by simp
qed

lemma dnsLabel_Nil: "dnsLabel s = [] \<longleftrightarrow> \<not> (\<exists>c \<in> set s. is_lower_alnum (lower_char c))"
proof -
  let ?l = "label_loop False [] (to_lower (trim_space s))"
  let ?out = "trim_right_by (\<lambda>c. c = hyphen) ?l"
  have p: "label_prefix ?l" by (rule label_loop_prefix) (simp_all add: label_prefix_def no_double_def)
  have "valid_label ?out" using p by (rule trim_valid)
  then have "label_prefix (take 63 ?out)" by (intro label_prefix_take) (simp add: valid_label_def)
  then have "dnsLabel s = [] \<longleftrightarrow> ?out = []" by (auto simp: dnsLabel_def Let_def trim_right_hyphens)
  also have "\<dots> \<longleftrightarrow> ?l = []" using p by (rule trim_right_hyphens)
  also have "\<dots> \<longleftrightarrow> \<not> (\<exists>c \<in> set (trim_space s). is_lower_alnum (lower_char c))"
    by (auto simp: label_loop_Nil to_lower_def)
  finally show ?thesis by (simp only: trim_space_alnum)
qed

section \<open>Properties\<close>

text \<open>a device always registers under a name that can be typed as a DNS label: at most 63 lower-case
  letters, digits and single hyphens, none of them leading or trailing. A name that is such a label is
  kept as it is, the given name is preferred to the machine's, and there is no name at all only when
  neither has a letter or a digit.\<close>

theorem device_name_is_a_label:
  "valid_label (deviceName hostname given) \<and> length (deviceName hostname given) \<le> 63 \<and>
   (\<forall>l. valid_label l \<and> l \<noteq> [] \<and> length l \<le> 63 \<longrightarrow> deviceName hostname l = l) \<and>
   dnsLabel (deviceName hostname given) = deviceName hostname given \<and>
   (deviceName hostname given = [] \<longleftrightarrow> \<not> (\<exists>c \<in> set given \<union> set hostname. is_lower_alnum (lower_char c)))"
proof -
  have v: "valid_label (deviceName hostname given)" "length (deviceName hostname given) \<le> 63"
    using dnsLabel_valid[of given] dnsLabel_valid[of hostname]
    by (auto simp: deviceName_def valid_label_def label_prefix_def no_double_def)
  moreover have "dnsLabel (deviceName hostname given) = deviceName hostname given" using v by (rule dnsLabel_same)
  moreover have "deviceName hostname given = [] \<longleftrightarrow> dnsLabel given = [] \<and> dnsLabel hostname = []"
    by (auto simp: deviceName_def)
  ultimately show ?thesis by (auto simp: dnsLabel_Nil deviceName_def dnsLabel_same)
qed

theorem device_name_witness:
  "deviceName ''DESKTOP-7'' ''my-laptop'' = ''my-laptop'' \<and> dnsLabel (deviceName ''DESKTOP-7'' '' -- '') = deviceName ''DESKTOP-7'' '' -- ''"
proof -
  have "valid_label ''my-laptop'' \<and> ''my-laptop'' \<noteq> [] \<and> length ''my-laptop'' \<le> 63" by code_simp
  then show ?thesis using device_name_is_a_label[of "''DESKTOP-7''" "'' -- ''"] by blast
qed

end
