(* ===== verification/Checksum.thy ===== *)
theory Checksum
  imports Relay
begin

text \<open>
  The ones-complement checksum of \<open>client/vip/rewrite.go\<close>: 16-bit big-endian words, and the update of
  a checksum when part of the data it covers is replaced. The reference it is compared with is the
  plain sum of all words, of which only the residue modulo 65535 matters.
\<close>

definition be16 :: "byte \<Rightarrow> byte \<Rightarrow> u16" where
  "be16 hi lo = of_nat (256 * unat hi + unat lo)"

definition hi8 :: "u16 \<Rightarrow> byte" where "hi8 v = of_nat (unat v div 256)"
definition lo8 :: "u16 \<Rightarrow> byte" where "lo8 v = of_nat (unat v mod 256)"

definition get16 :: "bytes \<Rightarrow> nat \<Rightarrow> u16" where
  "get16 p i = be16 (p ! i) (p ! (i + 1))"

definition bytes16 :: "u16 \<Rightarrow> bytes" where
  "bytes16 v = [hi8 v, lo8 v]"

text \<open>\<open>copy(p[i:], bs)\<close> where \<open>bs\<close> fits.\<close>

definition splice :: "bytes \<Rightarrow> nat \<Rightarrow> bytes \<Rightarrow> bytes" where
  "splice p i bs = take i p @ bs @ drop (i + length bs) p"

definition put16 :: "bytes \<Rightarrow> nat \<Rightarrow> u16 \<Rightarrow> bytes" where
  "put16 p i v = splice p i (bytes16 v)"

section \<open>The update\<close>

fun csum_sum :: "bytes \<Rightarrow> bytes \<Rightarrow> u32 \<Rightarrow> u32" where
  "csum_sum (a # b # old) (c # d # updated) acc =
     csum_sum old updated (acc + ucast (NOT (be16 a b)) + ucast (be16 c d))"
| "csum_sum _ _ acc = acc"

lemma unat_low16: "unat ((s :: u32) AND 0xffff) = unat s mod 65536"
proof -
  have "s AND 0xffff = take_bit 16 s" by (simp add: take_bit_eq_mask mask_eq_exp_minus_1)
  then have "unat (s AND 0xffff) = take_bit 16 (unat s)" by (simp only: unsigned_take_bit_eq)
  then show ?thesis by (simp add: take_bit_eq_mod)
qed

lemma unat_fold_step:
  "unat (((s :: u32) AND 0xffff) + drop_bit 16 s) = unat s mod 65536 + unat s div 65536"
proof -
  let ?n = "unat s"
  have h: "unat (drop_bit 16 s) = ?n div 65536"
    by (simp only: unat_drop_bit_eq) (simp add: drop_bit_eq_div)
  have "?n = 65536 * (?n div 65536) + ?n mod 65536" by simp
  then have "?n mod 65536 + ?n div 65536 < 4294967296" using unat32_bound[of s] by linarith
  then show ?thesis unfolding unat_word_ariths unat_low16 h by simp
qed

lemma drop16_zero: "drop_bit 16 (s :: u32) = 0 \<longleftrightarrow> unat s div 65536 = 0"
proof -
  have "unat (drop_bit 16 s) = unat s div 65536"
    by (simp only: unat_drop_bit_eq) (simp add: drop_bit_eq_div)
  then show ?thesis by (metis unsigned_eq_0_iff)
qed

lemma fold16_less: "drop_bit 16 (acc :: u32) \<noteq> 0 \<Longrightarrow> unat ((acc AND 0xffff) + drop_bit 16 acc) < unat acc"
proof -
  assume "drop_bit 16 acc \<noteq> 0"
  then have "unat acc div 65536 \<noteq> 0" unfolding drop16_zero .
  moreover have "unat acc = 65536 * (unat acc div 65536) + unat acc mod 65536" by simp
  ultimately show ?thesis unfolding unat_fold_step by linarith
qed

function fold16 :: "u32 \<Rightarrow> u32" where
  "fold16 acc = (if drop_bit 16 acc \<noteq> 0 then fold16 ((acc AND 0xffff) + drop_bit 16 acc) else acc)"
  by auto
termination by (relation "measure unat") (auto simp: fold16_less)

declare fold16.simps [simp del]

definition csumUpdate :: "u16 \<Rightarrow> bytes \<Rightarrow> bytes \<Rightarrow> u16" where
  "csumUpdate cs old updated = NOT (ucast (fold16 (csum_sum old updated (ucast (NOT cs)))))"

section \<open>The reference: the sum of all words\<close>

fun sum16 :: "bytes \<Rightarrow> nat" where
  "sum16 [] = 0"
| "sum16 [a] = 256 * unat a"
| "sum16 (a # b # bs) = 256 * unat a + unat b + sum16 bs"

lemma byte_bound [simp]: "unat (b :: byte) < 256"
  using unsigned_less[of b] by simp

lemma u16_bound [simp]: "unat (v :: u16) < 65536"
  using unsigned_less[of v] by simp

lemma unat_byte_of_nat: "n < 256 \<Longrightarrow> unat (of_nat n :: byte) = n"
  by (simp add: unat_of_nat)

lemma unat_be16 [simp]: "unat (be16 a b) = 256 * unat a + unat b"
proof -
  have "256 * unat a + unat b < 65536" using byte_bound[of a] byte_bound[of b] by linarith
  then have "(256 * unat a + unat b) mod 2 ^ LENGTH(16) = 256 * unat a + unat b" by simp
  then show ?thesis unfolding be16_def unat_of_nat .
qed

lemma unat_hi8: "unat (hi8 v) = unat v div 256" and unat_lo8: "unat (lo8 v) = unat v mod 256"
proof -
  have "unat v div 256 < 256" using u16_bound[of v] by (intro less_mult_imp_div_less) simp
  then show "unat (hi8 v) = unat v div 256" unfolding hi8_def by (rule unat_byte_of_nat)
  show "unat (lo8 v) = unat v mod 256" unfolding lo8_def by (rule unat_byte_of_nat) simp
qed

lemma hi_lo: "256 * unat (hi8 v) + unat (lo8 v) = unat v"
  unfolding unat_hi8 unat_lo8 by simp

lemma be16_hi_lo [simp]: "be16 (hi8 v) (lo8 v) = v"
  by (simp only: word_unat_eq_iff unat_be16 hi_lo)

lemma sum16_bytes16 [simp]: "sum16 (bytes16 v) = unat v"
  using hi_lo[of v] by (simp add: bytes16_def)

lemma length_bytes16 [simp]: "length (bytes16 v) = 2"
  by (simp add: bytes16_def)

lemma sum16_append: "even (length xs) \<Longrightarrow> sum16 (xs @ ys) = sum16 xs + sum16 ys"
  by (induction xs rule: sum16.induct) auto

lemma unat_not16: "unat (NOT (v :: u16)) = 65535 - unat v"
proof -
  have "NOT v = - 1 - v" by (simp add: not_eq_complement)
  also have "\<dots> = of_nat (65535 - unat v)"
  proof -
    have "unat v \<le> 65535" using u16_bound[of v] by linarith
    then have "(of_nat (65535 - unat v) :: u16) = 65535 - v" by (simp add: of_nat_diff)
    moreover have "(- 1 :: u16) = 65535" by simp
    ultimately show ?thesis by simp
  qed
  finally show ?thesis by (simp add: unat_of_nat)
qed

lemma csum_sum_unat:
  assumes "length old = length updated" and "even (length old)"
    and "unat s + 65535 * length old < 2 ^ 32"
  shows "unat (csum_sum old updated s) + sum16 old = unat s + sum16 updated + 65535 * (length old div 2)"
  using assms
proof (induction old updated s rule: csum_sum.induct)
  case (1 a b old c d updated s)
  let ?s = "s + ucast (NOT (be16 a b)) + ucast (be16 c d)"
  have le: "256 * unat a + unat b \<le> 65535" "256 * unat c + unat d \<le> 65535"
    using byte_bound[of a] byte_bound[of b] byte_bound[of c] byte_bound[of d] by linarith+
  have u: "unat (ucast (NOT (be16 a b)) :: u32) = 65535 - (256 * unat a + unat b)"
    "unat (ucast (be16 c d) :: u32) = 256 * unat c + unat d"
    using le by (simp_all add: unsigned_ucast_eq unat_not16 take_bit_nat_eq_self)
  have s: "unat ?s = unat s + (65535 - (256 * unat a + unat b)) + (256 * unat c + unat d)"
    using 1(4) le unfolding unat_word_ariths u by simp
  have "unat (csum_sum old updated ?s) + sum16 old = unat ?s + sum16 updated + 65535 * (length old div 2)"
    by (rule 1(1)) (use 1(2-4) s le in \<open>simp_all\<close>)
  with s le show ?case by simp
qed auto

lemma fold16_mod: "unat (fold16 s) < 65536 \<and> (\<exists>k. unat s = unat (fold16 s) + 65535 * k)"
proof (induction s rule: fold16.induct)
  case (1 s)
  let ?n = "unat s" and ?s = "(s AND 0xffff) + drop_bit 16 s"
  show ?case
  proof (cases "drop_bit 16 s = 0")
    case True
    then have "?n < 65536" unfolding drop16_zero by (simp add: div_eq_0_iff)
    with True show ?thesis by (subst (1 2) fold16.simps) auto
  next
    case False
    have d: "?n = 65536 * (?n div 65536) + ?n mod 65536" by simp
    have s': "unat ?s = ?n mod 65536 + ?n div 65536" by (rule unat_fold_step)
    obtain k where k: "unat (fold16 ?s) < 65536" "unat ?s = unat (fold16 ?s) + 65535 * k"
      using 1[OF False] by blast
    have "n = 65536 * q + r \<Longrightarrow> m = r + q \<Longrightarrow> m = f + 65535 * k \<Longrightarrow> n = f + 65535 * (k + q)"
      for n q r m f k :: nat by (simp only: distrib_left)
    from this[OF d s' k(2)] have "?n = unat (fold16 ?s) + 65535 * (k + ?n div 65536)" .
    moreover have "fold16 s = fold16 ?s" using False by (subst fold16.simps) simp
    ultimately show ?thesis using k(1) by (intro conjI exI[of _ "k + ?n div 65536"]) simp_all
  qed
qed

text \<open>Replacing \<open>old\<close> by \<open>updated\<close> and the checksum by its update leaves the residue of the whole.\<close>

lemma csumUpdate_residue:
  assumes "length old = length updated" and "even (length old)" and "length old \<le> 60000"
  shows "(unat (csumUpdate cs old updated) + sum16 updated) mod 65535 = (unat cs + sum16 old) mod 65535"
proof -
  let ?start = "ucast (NOT cs) :: u32" and ?u = "csumUpdate cs old updated"
  let ?s = "csum_sum old updated ?start"
  have cs: "unat cs \<le> 65535" using u16_bound[of cs] by linarith
  have s0: "unat ?start = 65535 - unat cs"
    by (simp add: unsigned_ucast_eq unat_not16 take_bit_nat_eq_self)
  have s: "unat ?s + sum16 old = unat ?start + sum16 updated + 65535 * (length old div 2)"
    by (rule csum_sum_unat) (use assms s0 in simp_all)
  obtain k where k: "unat (fold16 ?s) < 65536" "unat ?s = unat (fold16 ?s) + 65535 * k"
    using fold16_mod[of ?s] by blast
  have "unat (ucast (fold16 ?s) :: u16) = unat (fold16 ?s)"
    using k(1) by (simp add: unsigned_ucast_eq take_bit_nat_eq_self)
  then have u: "unat ?u = 65535 - unat (fold16 ?s)" by (simp add: csumUpdate_def unat_not16)
  have "unat ?u + sum16 updated + 65535 * (length old div 2) = unat cs + sum16 old + 65535 * k"
    using u k s s0 cs by linarith
  then show ?thesis by (metis mod_mult_self2 mult.commute)
qed

section \<open>Sums of edited packets\<close>

lemma length_splice [simp]: "i + length bs \<le> length p \<Longrightarrow> length (splice p i bs) = length p"
  by (simp add: splice_def)

lemma length_put16 [simp]: "i + 2 \<le> length p \<Longrightarrow> length (put16 p i v) = length p"
  by (simp add: put16_def)

lemma sum16_splice:
  assumes "i + length bs \<le> length p" and "even i" and "even (length bs)"
  shows "sum16 (splice p i bs) + sum16 (slice i (i + length bs) p) = sum16 p + sum16 bs"
proof -
  let ?m = "slice i (i + length bs) p" and ?r = "drop (i + length bs) p"
  have p: "p = take i p @ ?m @ ?r"
    by (simp add: slice_def) (metis add.commute append_take_drop_id drop_drop)
  have len: "length (take i p) = i" "length ?m = length bs" using assms(1) by (simp_all add: slice_def)
  have "sum16 p = sum16 (take i p) + (sum16 ?m + sum16 ?r)"
    using assms(2,3) len by (subst p) (simp only: sum16_append)
  moreover have "sum16 (splice p i bs) = sum16 (take i p) + (sum16 bs + sum16 ?r)"
    using assms(2,3) len by (simp add: splice_def sum16_append)
  ultimately show ?thesis by simp
qed

lemma slice_get16: "i + 2 \<le> length p \<Longrightarrow> sum16 (slice i (i + 2) p) = unat (get16 p i)"
proof -
  assume "i + 2 \<le> length p"
  then have "slice i (i + 2) p = [p ! i, p ! (i + 1)]"
    by (simp add: slice_def numeral_2_eq_2 take_Suc_conv_app_nth flip: Cons_nth_drop_Suc)
  then show ?thesis by (simp add: get16_def)
qed

lemma sum16_put16:
  assumes "i + 2 \<le> length p" and "even i"
  shows "sum16 (put16 p i v) + unat (get16 p i) = sum16 p + unat v"
  using sum16_splice[of i "bytes16 v" p] slice_get16[OF assms(1)] assms by (simp add: put16_def)

end
