(* ===== verification/Rewrite.thy ===== *)
theory Rewrite
  imports Checksum
begin

text \<open>
  \<open>client/vip/rewrite.go\<close>: translating the addresses of an IPv4 packet and repairing the checksums
  that cover them. A packet is edited in place in the code; here the edited packet is returned. The
  translation may allocate (a peer's first packet), so it threads a state; both addresses are looked
  up before either result is checked, as in the code. Its results are IPv4 addresses, which is what
  \<open>As4\<close> needs; the lemma for the one translation there is stands with the device.
\<close>

definition protoICMP :: byte where "protoICMP = 1"
definition protoTCP :: byte where "protoTCP = 6"
definition protoUDP :: byte where "protoUDP = 17"

type_synonym 's translate = "'s \<Rightarrow> addr \<Rightarrow> addr option \<times> 's"

definition addrAt :: "bytes \<Rightarrow> nat \<Rightarrow> addr" where
  "addrAt p i = addr_of_bytes (slice i (i + 4) p)"

definition ihl_of :: "bytes \<Rightarrow> nat" where
  "ihl_of p = unat (p ! 0 AND 0x0f) * 4"

definition version_of :: "bytes \<Rightarrow> byte" where
  "version_of p = drop_bit 4 (p ! 0)"

definition as4_bytes :: "addr \<Rightarrow> bytes" where
  "as4_bytes a = addr_bytes (v4_of a)"

text \<open>
  \<open>rewriteQuoted\<close>, on the transport part of an ICMP packet.
\<close>

definition rewriteQuoted :: "'s translate \<Rightarrow> 's \<Rightarrow> bytes \<Rightarrow> bytes \<times> 's" where
  "rewriteQuoted tr s icmp =
     (if length icmp < 8 then (icmp, s)
      else if icmp ! 0 \<notin> {3, 11, 12} then (icmp, s)
      else let inner = drop 8 icmp in
        if length inner < 20 \<or> version_of inner \<noteq> 4 then (icmp, s)
        else let (newSrc, s) = tr s (addrAt inner 12); (newDst, s) = tr s (addrAt inner 16) in
          case (newSrc, newDst) of
            (Some src, Some dst) \<Rightarrow>
              (let old = slice 12 20 inner; updated = as4_bytes src @ as4_bytes dst in
               if old = updated then (icmp, s)
               else let inner = splice inner 12 updated;
                        icmpCS = csumUpdate (get16 icmp 2) old updated;
                        innerIHL = ihl_of inner in
                    if innerIHL \<ge> 20 \<and> length inner \<ge> innerIHL then
                      (let before = get16 inner 10; after = csumUpdate before old updated;
                           inner = put16 inner 10 after;
                           icmpCS = csumUpdate icmpCS (bytes16 before) (bytes16 after)
                       in (put16 (take 8 icmp @ inner) 2 icmpCS, s))
                    else (put16 (take 8 icmp @ inner) 2 icmpCS, s))
          | _ \<Rightarrow> (icmp, s))"

text \<open>The repair of the transport checksum: the first fragment's, by protocol.\<close>

definition fix_l4 :: "'s translate \<Rightarrow> 's \<Rightarrow> byte \<Rightarrow> bytes \<Rightarrow> bytes \<Rightarrow> bytes \<Rightarrow> bytes \<times> 's" where
  "fix_l4 tr s proto old updated l4 =
     (if proto = protoTCP then
        (if length l4 \<ge> 18 then (put16 l4 16 (csumUpdate (get16 l4 16) old updated), s) else (l4, s))
      else if proto = protoUDP then
        (if length l4 \<ge> 8 then
           (let cs = get16 l4 6 in
            if cs \<noteq> 0 then
              (let fixed = csumUpdate cs old updated in
               (put16 l4 6 (if fixed = 0 then 0xffff else fixed), s))
            else (l4, s))
         else (l4, s))
      else if proto = protoICMP then rewriteQuoted tr s l4
      else (l4, s))"

definition rewrite :: "'s translate \<Rightarrow> 's \<Rightarrow> bytes \<Rightarrow> bool \<times> bytes \<times> 's" where
  "rewrite tr s pkt =
     (if length pkt < 20 \<or> version_of pkt \<noteq> 4 then (False, pkt, s)
      else let ihl = ihl_of pkt in
        if ihl < 20 \<or> length pkt < ihl then (False, pkt, s)
        else let (newSrc, s) = tr s (addrAt pkt 12); (newDst, s) = tr s (addrAt pkt 16) in
          case (newSrc, newDst) of
            (Some src, Some dst) \<Rightarrow>
              (let old = slice 12 20 pkt; updated = as4_bytes src @ as4_bytes dst in
               if old = updated then (True, pkt, s)
               else let pkt = splice pkt 12 updated;
                        pkt = put16 pkt 10 (csumUpdate (get16 pkt 10) old updated) in
                    if pkt ! 6 AND 0x1f \<noteq> 0 \<or> pkt ! 7 \<noteq> 0 then (True, pkt, s)
                    else let (l4, s) = fix_l4 tr s (pkt ! 9) old updated (drop ihl pkt) in
                         (True, take ihl pkt @ l4, s))
          | _ \<Rightarrow> (False, pkt, s))"

section \<open>What a receiver checks\<close>

text \<open>
  The sums a receiver forms: over the header, over the transport part with the pseudo header, and
  over an ICMP message. Each is right when its residue is zero (RFC 1071); for a fragment the sum
  runs over the whole datagram, so what matters of the first fragment is its residue.
\<close>

definition header_sum :: "bytes \<Rightarrow> nat" where
  "header_sum p = sum16 (take (ihl_of p) p)"

definition pseudo_sum :: "bytes \<Rightarrow> nat" where
  "pseudo_sum p = sum16 (slice 12 20 p) + unat (p ! 9) + (length p - ihl_of p) + sum16 (drop (ihl_of p) p)"

definition icmp_sum :: "bytes \<Rightarrow> nat" where
  "icmp_sum p = sum16 (drop (ihl_of p) p)"

definition first_fragment :: "bytes \<Rightarrow> bool" where
  "first_fragment p \<longleftrightarrow> p ! 6 AND 0x1f = 0 \<and> p ! 7 = 0"

section \<open>Editing in place\<close>

lemma slice_length [simp]: "j \<le> length p \<Longrightarrow> length (slice i j p) = j - i"
  by (simp add: slice_def)

lemma as4_bytes_length [simp]: "length (as4_bytes a) = 4"
  by (simp add: as4_bytes_def)

lemma nth_splice:
  assumes "i + length bs \<le> length p"
  shows "splice p i bs ! k = (if i \<le> k \<and> k < i + length bs then bs ! (k - i) else p ! k)"
proof -
  have "length (take i p) = i" using assms by simp
  moreover have "k \<ge> i + length bs \<Longrightarrow> drop (i + length bs) p ! (k - i - length bs) = p ! k"
    using assms by (subst nth_drop) simp_all
  ultimately show ?thesis
    by (cases "k < i"; cases "k < i + length bs") (auto simp: splice_def nth_append)
qed

lemma nth_put16: "i + 2 \<le> length p \<Longrightarrow> k \<noteq> i \<Longrightarrow> k \<noteq> i + 1 \<Longrightarrow> put16 p i v ! k = p ! k"
  unfolding put16_def by (subst nth_splice) auto

lemma take_splice:
  assumes "i + length bs \<le> n" "n \<le> length p"
  shows "take n (splice p i bs) = splice (take n p) i bs"
proof -
  have "n - i \<ge> length bs" using assms by simp
  then have "take n (splice p i bs) = take i p @ bs @ take (n - i - length bs) (drop (i + length bs) p)"
    using assms by (simp add: splice_def)
  then show ?thesis using assms by (simp add: splice_def drop_take min_def)
qed

lemma drop_splice: "i + length bs \<le> n \<Longrightarrow> n \<le> length p \<Longrightarrow> drop n (splice p i bs) = drop n p"
  by (simp add: splice_def)

lemma get16_put16 [simp]: "i + 2 \<le> length p \<Longrightarrow> get16 (put16 p i v) i = v"
  unfolding get16_def put16_def by (simp add: nth_splice bytes16_def)

lemma get16_cong: "p ! i = q ! i \<Longrightarrow> p ! (i + 1) = q ! (i + 1) \<Longrightarrow> get16 p i = get16 q i"
  by (simp add: get16_def)

lemma ihl_even [simp]: "even (ihl_of p)"
  by (simp add: ihl_of_def)

text \<open>
  The one arithmetic fact behind every repair: a checksum inside the summed data, updated for what
  was replaced elsewhere, leaves the residue of the sum.
\<close>

lemma residue_cancel:
  fixes x y a b m :: nat
  assumes "x + a = y + b" and "a mod m = b mod m"
  shows "x mod m = y mod m"
proof -
  have "int m dvd int a - int b" using assms(2) by (metis mod_eq_dvd_iff zmod_int)
  moreover have "int y - int x = int a - int b" using assms(1) by linarith
  ultimately have "int y mod int m = int x mod int m" by (metis mod_eq_dvd_iff)
  then show ?thesis by (metis of_nat_eq_iff zmod_int)
qed

lemma put16_splice: "put16 p i v = splice p i (bytes16 v)"
  by (simp add: put16_def)

lemma take_put16: "i + 2 \<le> n \<Longrightarrow> n \<le> length p \<Longrightarrow> take n (put16 p i v) = put16 (take n p) i v"
  by (simp add: put16_def take_splice)

lemma drop_put16: "i + 2 \<le> n \<Longrightarrow> n \<le> length p \<Longrightarrow> drop n (put16 p i v) = drop n p"
  by (simp add: put16_def drop_splice)

lemma get16_splice: "i + length bs \<le> length p \<Longrightarrow> k + 2 \<le> i \<Longrightarrow> get16 (splice p i bs) k = get16 p k"
  by (simp add: get16_def nth_splice)

lemma get16_take: "k + 2 \<le> n \<Longrightarrow> get16 (take n p) k = get16 p k"
  by (simp add: get16_def)

lemma slice_take: "j \<le> n \<Longrightarrow> slice i j (take n p) = slice i j p"
  by (simp add: slice_def drop_take min_def)

lemma slice_splice [simp]: "i + length bs \<le> length p \<Longrightarrow> slice i (i + length bs) (splice p i bs) = bs"
  by (simp add: slice_def splice_def)

lemma slice_nth_cong:
  assumes "length p = length q" and "j \<le> length p" and "\<And>k. i \<le> k \<Longrightarrow> k < j \<Longrightarrow> p ! k = q ! k"
  shows "slice i j p = slice i j q"
  using assms by (intro nth_equalityI) (auto simp: slice_def)

text \<open>A header with other addresses and the updated header checksum.\<close>

definition edit_header :: "bytes \<Rightarrow> bytes \<Rightarrow> bytes" where
  "edit_header p updated = put16 (splice p 12 updated) 10 (csumUpdate (get16 p 10) (slice 12 20 p) updated)"

lemma edit_header_length: "length updated = 8 \<Longrightarrow> 20 \<le> length p \<Longrightarrow> length (edit_header p updated) = length p"
  by (simp add: edit_header_def)

lemma edit_header_nth:
  "length updated = 8 \<Longrightarrow> 20 \<le> length p \<Longrightarrow> k \<notin> {10..<20} \<Longrightarrow> edit_header p updated ! k = p ! k"
  unfolding edit_header_def by (subst nth_put16) (auto simp: nth_splice)

lemma edit_header_addresses:
  assumes "length updated = 8" "20 \<le> length p"
  shows "slice 12 20 (edit_header p updated) = updated"
proof -
  have "slice 12 20 (edit_header p updated) = slice 12 20 (splice p 12 updated)"
    unfolding edit_header_def using assms by (intro slice_nth_cong) (auto simp: nth_put16)
  also have "\<dots> = updated" using slice_splice[of 12 updated p] assms by simp
  finally show ?thesis .
qed

lemma edit_header_drop:
  "length updated = 8 \<Longrightarrow> 20 \<le> n \<Longrightarrow> n \<le> length p \<Longrightarrow> drop n (edit_header p updated) = drop n p"
  by (simp add: edit_header_def drop_put16 drop_splice)

lemma edit_header_take:
  "length updated = 8 \<Longrightarrow> 20 \<le> n \<Longrightarrow> n \<le> length p \<Longrightarrow> take n (edit_header p updated) = edit_header (take n p) updated"
  by (simp add: edit_header_def take_put16 take_splice get16_take slice_take)

lemma edit_header_sum:
  assumes "length updated = 8" "20 \<le> length p"
  shows "sum16 (edit_header p updated) mod 65535 = sum16 p mod 65535"
proof -
  let ?u = "csumUpdate (get16 p 10) (slice 12 20 p) updated" and ?p = "splice p 12 updated"
  have "sum16 (put16 ?p 10 ?u) + unat (get16 p 10) = sum16 ?p + unat ?u"
    using sum16_put16[of 10 ?p ?u] assms by (simp add: get16_splice)
  moreover have "sum16 ?p + sum16 (slice 12 20 p) = sum16 p + sum16 updated"
    using sum16_splice[of 12 updated p] assms by simp
  ultimately have "sum16 (edit_header p updated) + (unat (get16 p 10) + sum16 (slice 12 20 p)) =
      sum16 p + (unat ?u + sum16 updated)"
    unfolding edit_header_def by linarith
  moreover have "(unat (get16 p 10) + sum16 (slice 12 20 p)) mod 65535 = (unat ?u + sum16 updated) mod 65535"
    using csumUpdate_residue[of "slice 12 20 p" updated "get16 p 10"] assms by simp
  ultimately show ?thesis by (rule residue_cancel)
qed

section \<open>The quoted header\<close>

lemma rewriteQuoted_residue:
  assumes "rewriteQuoted tr s icmp = (icmp', s')"
  shows "length icmp' = length icmp \<and> sum16 icmp' mod 65535 = sum16 icmp mod 65535"
proof (cases "icmp' = icmp")
  case False
  define inner where "inner = drop 8 icmp"
  obtain updated inner' cs where len: "28 \<le> length icmp" "length updated = 8"
    and r: "icmp' = put16 (take 8 icmp @ inner') 2 cs"
    and c: "inner' = edit_header inner updated \<and>
        cs = csumUpdate (csumUpdate (get16 icmp 2) (slice 12 20 inner) updated)
               (bytes16 (get16 inner 10)) (bytes16 (csumUpdate (get16 inner 10) (slice 12 20 inner) updated)) \<or>
      inner' = splice inner 12 updated \<and> cs = csumUpdate (get16 icmp 2) (slice 12 20 inner) updated"
  proof -
    from assms False have l: "8 \<le> length icmp" "20 \<le> length inner"
      by (auto simp: rewriteQuoted_def inner_def Let_def split: if_splits prod.splits option.splits)
    let ?u = "\<lambda>src dst. as4_bytes src @ as4_bytes dst"
    have g: "get16 (splice inner 12 (?u src dst)) 10 = get16 inner 10" for src dst
      using l by (simp add: get16_splice)
    from assms False show thesis
      unfolding rewriteQuoted_def Let_def inner_def[symmetric]
      by (auto split: if_splits prod.splits option.splits
          intro!: that[of "?u _ _"] simp: edit_header_def g) (use l in \<open>auto simp: inner_def\<close>)
  qed
  have li: "20 \<le> length inner" using len by (simp add: inner_def)
  have icmp: "icmp = take 8 icmp @ inner" by (simp add: inner_def)
  have l': "length inner' = length inner" using c li len(2) by (auto simp: edit_header_length)
  let ?q = "take 8 icmp @ inner'"
  have lq: "length ?q = length icmp" using l' len(1) by (simp add: inner_def)
  have field: "get16 ?q 2 = get16 icmp 2" using len(1) by (simp add: get16_def nth_append)
  have head: "sum16 ?q = sum16 (take 8 icmp) + sum16 inner'" "sum16 icmp = sum16 (take 8 icmp) + sum16 inner"
    using len(1) by (simp add: sum16_append, subst icmp) (simp add: sum16_append)
  have put: "sum16 icmp' + unat (get16 icmp 2) = sum16 (take 8 icmp) + sum16 inner' + unat cs"
    using sum16_put16[of 2 ?q cs] lq len(1) field head(1) by (simp add: r)
  let ?o = "slice 12 20 inner"
  have res1: "(unat (csumUpdate (get16 icmp 2) ?o updated) + sum16 updated) mod 65535 =
      (unat (get16 icmp 2) + sum16 ?o) mod 65535"
    using li len(2) by (intro csumUpdate_residue) simp_all
  have sp: "sum16 (splice inner 12 updated) + sum16 ?o = sum16 inner + sum16 updated"
    using sum16_splice[of 12 updated inner] li len(2) by simp
  from c have "sum16 icmp' mod 65535 = sum16 icmp mod 65535"
  proof
    assume e: "inner' = splice inner 12 updated \<and> cs = csumUpdate (get16 icmp 2) ?o updated"
    then have i: "sum16 inner' = sum16 (splice inner 12 updated)" by (simp only:)
    have "sum16 icmp' + (unat (get16 icmp 2) + sum16 ?o) = sum16 icmp + (unat cs + sum16 updated)"
      using put sp head(2) i by linarith
    moreover have "(unat (get16 icmp 2) + sum16 ?o) mod 65535 = (unat cs + sum16 updated) mod 65535"
      using e res1 by (simp only:)
    ultimately show ?thesis by (rule residue_cancel)
  next
    let ?before = "get16 inner 10" and ?after = "csumUpdate (get16 inner 10) ?o updated"
    let ?cs1 = "csumUpdate (get16 icmp 2) ?o updated"
    assume e: "inner' = edit_header inner updated \<and> cs = csumUpdate ?cs1 (bytes16 ?before) (bytes16 ?after)"
    have "sum16 inner' + unat ?before = sum16 (splice inner 12 updated) + unat ?after"
      using sum16_put16[of 10 "splice inner 12 updated" ?after] e li len(2)
      by (simp add: edit_header_def get16_splice)
    with put sp head(2) have "sum16 icmp' + (unat (get16 icmp 2) + sum16 ?o + unat ?before) =
        sum16 icmp + (unat cs + unat ?after + sum16 updated)" by linarith
    moreover have "(unat cs + unat ?after) mod 65535 = (unat ?cs1 + unat ?before) mod 65535"
      using csumUpdate_residue[of "bytes16 ?before" "bytes16 ?after" ?cs1] e by simp
    then have "(unat cs + unat ?after + sum16 updated) mod 65535 = (unat ?cs1 + unat ?before + sum16 updated) mod 65535"
      by (rule mod_add_cong) simp
    then have "(unat (get16 icmp 2) + sum16 ?o + unat ?before) mod 65535 =
        (unat cs + unat ?after + sum16 updated) mod 65535"
      using mod_add_cong[OF res1 refl[of "unat ?before mod 65535"]] by (simp add: ac_simps)
    ultimately show ?thesis by (rule residue_cancel)
  qed
  moreover have "length icmp' = length icmp" using r lq len(1) by simp
  ultimately show ?thesis by blast
qed simp

section \<open>The transport checksum\<close>

text \<open>
  The repaired transport part against the pseudo header: \<open>old\<close> and \<open>updated\<close> are the two addresses
  before and after.
\<close>

lemma put16_residue:
  assumes "i + 2 \<le> length l4" "even i" "length old = 8" "length updated = 8"
    and "unat u mod 65535 = unat (csumUpdate (get16 l4 i) old updated) mod 65535"
  shows "(sum16 updated + sum16 (put16 l4 i u)) mod 65535 = (sum16 old + sum16 l4) mod 65535"
proof (rule residue_cancel)
  let ?cs = "get16 l4 i"
  show "sum16 updated + sum16 (put16 l4 i u) + (unat ?cs + sum16 old) = sum16 old + sum16 l4 + (unat u + sum16 updated)"
    using sum16_put16[OF assms(1,2), of u] by linarith
  have "(unat u + sum16 updated) mod 65535 = (unat (csumUpdate ?cs old updated) + sum16 updated) mod 65535"
    using assms(5) by (rule mod_add_cong) simp
  with csumUpdate_residue[of old updated ?cs] assms(3,4)
  show "(unat ?cs + sum16 old) mod 65535 = (unat u + sum16 updated) mod 65535" by simp
qed

definition l4_kept :: "byte \<Rightarrow> bytes \<Rightarrow> bytes \<Rightarrow> bytes \<Rightarrow> bytes \<Rightarrow> bool" where
  "l4_kept proto old updated l4 l4' \<longleftrightarrow>
     length l4' = length l4 \<and>
     (proto = protoTCP \<and> 18 \<le> length l4 \<longrightarrow>
        (sum16 updated + sum16 l4') mod 65535 = (sum16 old + sum16 l4) mod 65535) \<and>
     (proto = protoUDP \<and> 8 \<le> length l4 \<longrightarrow>
        (if get16 l4 6 = 0 then l4' = l4
         else get16 l4' 6 \<noteq> 0 \<and>
           (sum16 updated + sum16 l4') mod 65535 = (sum16 old + sum16 l4) mod 65535)) \<and>
     (proto = protoICMP \<longrightarrow> sum16 l4' mod 65535 = sum16 l4 mod 65535)"

lemma fix_l4_kept:
  assumes "fix_l4 tr s proto old updated l4 = (l4', s')" "length old = 8" "length updated = 8"
  shows "l4_kept proto old updated l4 l4'"
proof -
  consider "proto = protoTCP" | "proto = protoUDP" | "proto = protoICMP"
    | "proto \<noteq> protoTCP" "proto \<noteq> protoUDP" "proto \<noteq> protoICMP" by blast
  then show ?thesis
  proof cases
    case 1
    then have p: "proto \<noteq> protoUDP" "proto \<noteq> protoICMP" by (simp_all add: protoTCP_def protoUDP_def protoICMP_def)
    show ?thesis
    proof (cases "18 \<le> length l4")
      case True
      with 1 assms(1) have "l4' = put16 l4 16 (csumUpdate (get16 l4 16) old updated)"
        by (simp add: fix_l4_def)
      then show ?thesis using p True put16_residue[OF _ _ assms(2,3) refl, of 16 l4] by (simp add: l4_kept_def)
    next
      case False
      with 1 assms(1) p show ?thesis by (simp add: fix_l4_def l4_kept_def)
    qed
  next
    case 2
    then have p: "proto \<noteq> protoTCP" "proto \<noteq> protoICMP" by (simp_all add: protoTCP_def protoUDP_def protoICMP_def)
    show ?thesis
    proof (cases "8 \<le> length l4 \<and> get16 l4 6 \<noteq> 0")
      case True
      let ?f = "csumUpdate (get16 l4 6) old updated"
      let ?u = "if ?f = 0 then 0xffff else ?f"
      have l4': "l4' = put16 l4 6 ?u" using True 2 p assms(1) by (simp add: fix_l4_def Let_def split: if_splits)
      moreover have "?u \<noteq> 0" by simp
      moreover have "(sum16 updated + sum16 (put16 l4 6 ?u)) mod 65535 = (sum16 old + sum16 l4) mod 65535"
        by (rule put16_residue) (use True assms(2,3) in simp_all)
      ultimately show ?thesis using True p by (simp add: l4_kept_def)
    next
      case False
      with 2 p assms(1) show ?thesis by (auto simp: fix_l4_def l4_kept_def Let_def split: if_splits)
    qed
  next
    case 3
    then have p: "proto \<noteq> protoTCP" "proto \<noteq> protoUDP" by (simp_all add: protoTCP_def protoUDP_def protoICMP_def)
    with 3 assms(1) have "rewriteQuoted tr s l4 = (l4', s')" by (simp add: fix_l4_def)
    with rewriteQuoted_residue[OF this] p show ?thesis by (simp add: l4_kept_def)
  next
    case 4
    with assms(1) show ?thesis by (simp add: fix_l4_def l4_kept_def)
  qed
qed

section \<open>The whole packet\<close>

text \<open>What a forwarded packet looks like.\<close>

lemma rewrite_True:
  assumes "rewrite tr s p = (True, p', s')"
  obtains src dst s1 s2 where
    "20 \<le> ihl_of p" "ihl_of p \<le> length p" "version_of p = 4"
    "tr s (addrAt p 12) = (Some src, s1)" "tr s1 (addrAt p 16) = (Some dst, s2)"
    "slice 12 20 p = as4_bytes src @ as4_bytes dst \<and> p' = p \<and> s' = s2 \<or>
     \<not> first_fragment p \<and> p' = edit_header p (as4_bytes src @ as4_bytes dst) \<and> s' = s2 \<or>
     first_fragment p \<and> (\<exists>l4. fix_l4 tr s2 (p ! 9) (slice 12 20 p) (as4_bytes src @ as4_bytes dst) (drop (ihl_of p) p) = (l4, s') \<and>
        p' = take (ihl_of p) (edit_header p (as4_bytes src @ as4_bytes dst)) @ l4)"
proof -
  from assms have l: "20 \<le> length p" "20 \<le> ihl_of p" "ihl_of p \<le> length p" "version_of p = 4"
    by (auto simp: rewrite_def Let_def split: if_splits)
  obtain ns s1 where t1: "tr s (addrAt p 12) = (ns, s1)" by fastforce
  obtain nd s2 where t2: "tr s1 (addrAt p 16) = (nd, s2)" by fastforce
  from assms l t1 t2 obtain src dst where a: "ns = Some src" "nd = Some dst"
    by (auto simp: rewrite_def Let_def split: option.splits if_splits)
  let ?u = "as4_bytes src @ as4_bytes dst"
  have g: "get16 (splice p 12 ?u) 10 = get16 p 10" using l by (simp add: get16_splice)
  have e: "put16 (splice p 12 ?u) 10 (csumUpdate (get16 (splice p 12 ?u) 10) (slice 12 20 p) ?u) = edit_header p ?u"
    by (simp add: edit_header_def g)
  have n: "edit_header p ?u ! k = p ! k" if "k < 10" for k
    using l(1) that by (intro edit_header_nth) auto
  have d: "drop (ihl_of p) (edit_header p ?u) = drop (ihl_of p) p"
    using l by (intro edit_header_drop) simp_all
  show thesis
    by (rule that[OF l(2,3,4) t1[unfolded a] t2[unfolded a]])
      (use assms l t1 t2 a in \<open>auto simp: rewrite_def Let_def e n d first_fragment_def split: if_splits prod.splits\<close>)
qed

lemma rewrite_final_state:
  assumes "rewrite tr s p = (True, p', s')"
    and "tr s (addrAt p 12) = (Some src, s1)" "tr s1 (addrAt p 16) = (Some dst, s2)"
  shows "s' = s2 \<or> (\<exists>proto old updated l4 q. fix_l4 tr s2 proto old updated l4 = (q, s'))"
  using assms(1) by (rule rewrite_True) (use assms(2,3) in auto)

text \<open>All forwarded packets at once: a header that is the old one or its edit, and a transport part
  that is the old one or its repair.\<close>

lemma rewrite_shape:
  assumes "rewrite tr s p = (True, p', s')"
  obtains src dst s1 s2 l4 where
    "20 \<le> ihl_of p" "ihl_of p \<le> length p"
    "tr s (addrAt p 12) = (Some src, s1)" "tr s1 (addrAt p 16) = (Some dst, s2)"
    "slice 12 20 p' = as4_bytes src @ as4_bytes dst"
    "p' = take (ihl_of p) p' @ l4" "length p' = length p"
    "sum16 (take (ihl_of p) p') mod 65535 = sum16 (take (ihl_of p) p) mod 65535"
    "\<And>k. k < ihl_of p \<Longrightarrow> k \<notin> {10..<20} \<Longrightarrow> p' ! k = p ! k"
    "\<not> first_fragment p \<longrightarrow> l4 = drop (ihl_of p) p"
    "first_fragment p \<longrightarrow> l4_kept (p ! 9) (slice 12 20 p) (as4_bytes src @ as4_bytes dst) (drop (ihl_of p) p) l4"
proof (rule rewrite_True[OF assms])
  fix src dst s1 s2
  let ?u = "as4_bytes src @ as4_bytes dst" and ?i = "ihl_of p"
  let ?e = "edit_header p ?u"
  assume i: "20 \<le> ?i" "?i \<le> length p" and t: "tr s (addrAt p 12) = (Some src, s1)" "tr s1 (addrAt p 16) = (Some dst, s2)"
    and c: "slice 12 20 p = ?u \<and> p' = p \<and> s' = s2 \<or> \<not> first_fragment p \<and> p' = ?e \<and> s' = s2 \<or>
      first_fragment p \<and> (\<exists>l4. fix_l4 tr s2 (p ! 9) (slice 12 20 p) ?u (drop ?i p) = (l4, s') \<and> p' = take ?i ?e @ l4)"
  have l: "length ?u = 8" "20 \<le> length p" using i by simp_all
  have e: "length ?e = length p" "slice 12 20 ?e = ?u" "drop ?i ?e = drop ?i p"
      "sum16 (take ?i ?e) mod 65535 = sum16 (take ?i p) mod 65535"
    using l i edit_header_length edit_header_addresses edit_header_drop edit_header_take[OF l(1) i]
      edit_header_sum[OF l(1), of "take ?i p"] by simp_all
  have n: "k \<notin> {10..<20} \<Longrightarrow> ?e ! k = p ! k" for k using l by (rule edit_header_nth)
  from c consider "slice 12 20 p = ?u" "p' = p" | "\<not> first_fragment p" "p' = ?e"
    | l4 where "first_fragment p" "fix_l4 tr s2 (p ! 9) (slice 12 20 p) ?u (drop ?i p) = (l4, s')" "p' = take ?i ?e @ l4"
    by blast
  then show thesis
  proof cases
    case 1
    show thesis
      by (rule that[OF i t, of "drop ?i p"]) (use 1 in \<open>simp_all add: l4_kept_def\<close>)
  next
    case 2
    show thesis
      by (rule that[OF i t, of "drop ?i p"]) (use 2 e n in \<open>simp_all flip: e(3)\<close>)
  next
    case 3
    have k: "l4_kept (p ! 9) (slice 12 20 p) ?u (drop ?i p) l4"
      using fix_l4_kept[OF 3(2)] l by simp
    then have ll: "length l4 = length p - ?i" by (simp add: l4_kept_def)
    have tk: "take ?i p' = take ?i ?e" using 3(3) e(1) i by simp
    have "slice 12 20 p' = slice 12 20 (take ?i p')" using i by (simp add: slice_take)
    also have "\<dots> = ?u" unfolding tk using i e(2) by (simp add: slice_take)
    finally have sl: "slice 12 20 p' = ?u" .
    show thesis
    proof (rule that[OF i t sl, of l4])
      show "p' = take ?i p' @ l4" using 3(3) tk by simp
      show "length p' = length p" using 3(3) ll e(1) i by simp
      show "sum16 (take ?i p') mod 65535 = sum16 (take ?i p) mod 65535" unfolding tk by (rule e(4))
      show "p' ! k = p ! k" if "k < ?i" "k \<notin> {10..<20}" for k
        using that n 3(3) e(1) i by (simp add: nth_append)
      show "\<not> first_fragment p \<longrightarrow> l4 = drop ?i p" using 3(1) by blast
      show "first_fragment p \<longrightarrow> l4_kept (p ! 9) (slice 12 20 p) ?u (drop ?i p) l4" using k by blast
    qed
  qed
qed

lemma addrAt_pair:
  assumes "slice 12 20 p = as4_bytes src @ as4_bytes dst"
  shows "addrAt p 12 = V4 (v4_of src)" "addrAt p 16 = V4 (v4_of dst)"
proof -
  have "slice 12 16 p = take 4 (slice 12 20 p)" "slice 16 20 p = drop 4 (slice 12 20 p)"
    by (simp_all add: slice_def drop_take)
  then have "slice 12 16 p = as4_bytes src" "slice 16 20 p = as4_bytes dst" unfolding assms by simp_all
  then show "addrAt p 12 = V4 (v4_of src)" "addrAt p 16 = V4 (v4_of dst)"
    by (simp_all add: addrAt_def as4_bytes_def)
qed

text \<open>The addresses of a forwarded packet, and that it can be forwarded again.\<close>

lemma rewrite_addresses:
  assumes "rewrite tr s p = (True, p', s')"
  obtains src dst s1 s2 where "tr s (addrAt p 12) = (Some src, s1)" "tr s1 (addrAt p 16) = (Some dst, s2)"
    "addrAt p' 12 = V4 (v4_of src)" "addrAt p' 16 = V4 (v4_of dst)"
    "20 \<le> ihl_of p'" "ihl_of p' \<le> length p'" "version_of p' = 4"
  using assms
proof (rule rewrite_shape)
  fix src dst s1 s2 l4
  assume i: "20 \<le> ihl_of p" "ihl_of p \<le> length p" and t: "tr s (addrAt p 12) = (Some src, s1)" "tr s1 (addrAt p 16) = (Some dst, s2)"
    and sl: "slice 12 20 p' = as4_bytes src @ as4_bytes dst" and len: "length p' = length p"
    and n: "\<And>k. k < ihl_of p \<Longrightarrow> k \<notin> {10..<20} \<Longrightarrow> p' ! k = p ! k"
  have "p' ! 0 = p ! 0" using n[of 0] i by simp
  then have "ihl_of p' = ihl_of p" "version_of p' = version_of p" by (simp_all add: ihl_of_def version_of_def)
  moreover have "version_of p = 4" using assms by (rule rewrite_True)
  ultimately show thesis using that[OF t addrAt_pair[OF sl]] i len by simp
qed

lemma rewrite_forwards:
  assumes "20 \<le> ihl_of p" "ihl_of p \<le> length p" "version_of p = 4"
    and "tr s (addrAt p 12) = (Some src, s1)" "tr s1 (addrAt p 16) = (Some dst, s2)"
  shows "\<exists>p' s'. rewrite tr s p = (True, p', s')"
  using assms by (auto simp: rewrite_def Let_def split: prod.splits)

text \<open>A UDP packet from 100.64.0.1 to 100.64.0.2 with eight bytes of payload, and a translation
  that moves every address to another range.\<close>

definition demo_packet :: bytes where
  "demo_packet = [0x45, 0, 0, 36, 0, 0, 0, 0, 64, 17, 0xB1, 0x46] @ [100, 64, 0, 1] @ [100, 64, 0, 2] @
     [0x30, 0x39, 0, 53, 0, 16, 0x12, 0x34] @ [1, 2, 3, 4, 5, 6, 7, 8]"

fun demo_tr :: "unit translate" where
  "demo_tr s (V4 a) = (Some (V4 (a + 0x300000)), s)"
| "demo_tr s _ = (Some (V4 0), s)"

lemma demo_packet_facts:
  "ihl_of demo_packet = 20" "version_of demo_packet = 4" "length demo_packet = 36" "first_fragment demo_packet"
  "demo_packet ! 9 = protoUDP" "get16 demo_packet 26 \<noteq> 0"
proof -
  show "get16 demo_packet 26 \<noteq> 0"
    unfolding get16_def word_unat_eq_iff unat_be16 by (simp add: demo_packet_def)
qed (simp_all add: demo_packet_def ihl_of_def version_of_def first_fragment_def protoUDP_def)

lemma demo_forwards: "\<exists>p'. rewrite demo_tr () demo_packet = (True, p', ())"
proof -
  have "addrAt demo_packet 12 = V4 0x64400001" "addrAt demo_packet 16 = V4 0x64400002"
    by (simp_all add: addrAt_def addr_of_bytes_def of_octets_def slice_def demo_packet_def)
  with rewrite_forwards[of demo_packet demo_tr "()"] demo_packet_facts show ?thesis by simp
qed

section \<open>Properties\<close>

text \<open>C1: a packet that is forwarded arrives with every checksum as good as it was. Its length and
  header length are the old ones; the header sum keeps its residue; of a first fragment, so does
  the TCP sum, the UDP sum (a checksum that was not computed stays so, and a computed one never
  turns into "not computed"), and the sum of an ICMP message, whose quoted header is translated too.\<close>

theorem rewrite_keeps_checksums:
  assumes "rewrite tr s p = (True, p', s')"
  shows "length p' = length p \<and> ihl_of p' = ihl_of p \<and> header_sum p' mod 65535 = header_sum p mod 65535 \<and>
    (first_fragment p \<longrightarrow>
       (p ! 9 = protoTCP \<and> ihl_of p + 18 \<le> length p \<longrightarrow> pseudo_sum p' mod 65535 = pseudo_sum p mod 65535) \<and>
       (p ! 9 = protoUDP \<and> ihl_of p + 8 \<le> length p \<longrightarrow>
          (if get16 p (ihl_of p + 6) = 0 then get16 p' (ihl_of p + 6) = 0
           else get16 p' (ihl_of p + 6) \<noteq> 0 \<and> pseudo_sum p' mod 65535 = pseudo_sum p mod 65535)) \<and>
       (p ! 9 = protoICMP \<longrightarrow> icmp_sum p' mod 65535 = icmp_sum p mod 65535))"
  using assms
proof (rule rewrite_shape)
  fix src dst s1 s2 l4
  let ?u = "as4_bytes src @ as4_bytes dst" and ?i = "ihl_of p"
  assume i: "20 \<le> ?i" "?i \<le> length p" and sl: "slice 12 20 p' = ?u" and p': "p' = take ?i p' @ l4"
    and len: "length p' = length p" and hs: "sum16 (take ?i p') mod 65535 = sum16 (take ?i p) mod 65535"
    and n: "\<And>k. k < ?i \<Longrightarrow> k \<notin> {10..<20} \<Longrightarrow> p' ! k = p ! k"
    and k: "first_fragment p \<longrightarrow> l4_kept (p ! 9) (slice 12 20 p) ?u (drop ?i p) l4"
  have ihl: "ihl_of p' = ?i" using n[of 0] i by (simp add: ihl_of_def)
  have d: "drop ?i p' = l4" using i len by (subst p') simp
  have p9: "p' ! 9 = p ! 9" using n[of 9] i by simp
  have at: "get16 q (?i + 6) = get16 (drop ?i q) 6" if "length q = length p" for q
    using that i by (simp add: get16_def ac_simps)
  have ps: "pseudo_sum p' mod 65535 = pseudo_sum p mod 65535"
    if "(sum16 ?u + sum16 l4) mod 65535 = (sum16 (slice 12 20 p) + sum16 (drop ?i p)) mod 65535"
    using mod_add_cong[OF that refl[of "(unat (p ! 9) + (length p - ?i)) mod 65535"]]
    by (simp add: pseudo_sum_def ihl sl d p9 len ac_simps)
  show ?thesis
  proof (intro conjI impI)
    show "header_sum p' mod 65535 = header_sum p mod 65535" using hs by (simp add: header_sum_def ihl)
    show "pseudo_sum p' mod 65535 = pseudo_sum p mod 65535"
      if "first_fragment p" "p ! 9 = protoTCP \<and> ?i + 18 \<le> length p"
      using k that by (intro ps) (auto simp: l4_kept_def)
    show "if get16 p (?i + 6) = 0 then get16 p' (?i + 6) = 0
        else get16 p' (?i + 6) \<noteq> 0 \<and> pseudo_sum p' mod 65535 = pseudo_sum p mod 65535"
      if "first_fragment p" "p ! 9 = protoUDP \<and> ?i + 8 \<le> length p"
    proof -
      have "8 \<le> length (drop ?i p)" using that(2) unfolding length_drop by linarith
      then have "if get16 (drop ?i p) 6 = 0 then l4 = drop ?i p
          else get16 l4 6 \<noteq> 0 \<and> (sum16 ?u + sum16 l4) mod 65535 = (sum16 (slice 12 20 p) + sum16 (drop ?i p)) mod 65535"
        using k that unfolding l4_kept_def by blast
      then show ?thesis using ps at[OF refl] at[OF len] d by (auto split: if_splits)
    qed
    show "icmp_sum p' mod 65535 = icmp_sum p mod 65535" if "first_fragment p" "p ! 9 = protoICMP"
      using k that by (simp add: l4_kept_def icmp_sum_def ihl d)
  qed (rule len ihl)+
qed

theorem rewrite_keeps_checksums_witness:
  "\<exists>p'. rewrite demo_tr () demo_packet = (True, p', ()) \<and> length p' = 36 \<and>
     header_sum p' mod 65535 = header_sum demo_packet mod 65535 \<and>
     pseudo_sum p' mod 65535 = pseudo_sum demo_packet mod 65535"
proof -
  obtain p' where r: "rewrite demo_tr () demo_packet = (True, p', ())"
    using demo_forwards by blast
  from rewrite_keeps_checksums[OF r] r show ?thesis by (simp add: demo_packet_facts)
qed

text \<open>the translation is what it says. A forwarded packet carries the translations of its two
  addresses in their places; the rest of its header but the checksum, and all of the payload of a
  later fragment, are untouched. A packet that is refused is left exactly as it came.\<close>

theorem rewrite_translates:
  assumes "rewrite tr s p = (fwd, p', s')"
  shows "if fwd
    then \<exists>src dst s1 s2. tr s (addrAt p 12) = (Some src, s1) \<and> tr s1 (addrAt p 16) = (Some dst, s2) \<and>
      addrAt p' 12 = V4 (v4_of src) \<and> addrAt p' 16 = V4 (v4_of dst) \<and>
      (\<forall>k < ihl_of p. k \<notin> {10..<20} \<longrightarrow> p' ! k = p ! k) \<and>
      (\<not> first_fragment p \<longrightarrow> drop (ihl_of p) p' = drop (ihl_of p) p)
    else p' = p"
proof (cases fwd)
  case True
  with assms have "rewrite tr s p = (True, p', s')" by simp
  then show ?thesis
  proof (rule rewrite_shape)
    fix src dst s1 s2 l4
    let ?u = "as4_bytes src @ as4_bytes dst" and ?i = "ihl_of p"
    assume i: "20 \<le> ?i" "?i \<le> length p" and t: "tr s (addrAt p 12) = (Some src, s1)" "tr s1 (addrAt p 16) = (Some dst, s2)"
      and sl: "slice 12 20 p' = ?u" and p': "p' = take ?i p' @ l4" and len: "length p' = length p"
      and n: "\<And>k. k < ?i \<Longrightarrow> k \<notin> {10..<20} \<Longrightarrow> p' ! k = p ! k" and f: "\<not> first_fragment p \<longrightarrow> l4 = drop ?i p"
    have "addrAt p' 12 = V4 (v4_of src)" "addrAt p' 16 = V4 (v4_of dst)" using addrAt_pair[OF sl] .
    moreover have "drop ?i p' = l4" using i len by (subst p') simp
    ultimately show ?thesis using True t n f by auto
  qed
next
  case False
  with assms show ?thesis by (auto simp: rewrite_def Let_def split: if_splits option.splits prod.splits)
qed

theorem rewrite_translates_witness:
  "\<exists>p'. rewrite demo_tr () demo_packet = (True, p', ()) \<and> addrAt p' 12 = V4 0x64700001 \<and> addrAt p' 16 = V4 0x64700002"
proof -
  obtain p' where r: "rewrite demo_tr () demo_packet = (True, p', ())"
    using demo_forwards by blast
  have "addrAt demo_packet 12 = V4 0x64400001" "addrAt demo_packet 16 = V4 0x64400002"
    by (simp_all add: addrAt_def addr_of_bytes_def of_octets_def slice_def demo_packet_def)
  with rewrite_translates[OF r] r show ?thesis by simp
qed

end
