(* ===== verification/VipDevice.thy ===== *)
theory VipDevice
  imports VipTable Rewrite
begin

text \<open>
  \<open>client/vip/device.go\<close>: the layer around the TUN device. The wrapped device is an argument: what
  its read delivered, and what its write answers. The rest of the interface is passed through.
\<close>

record device =
  dv_table :: table
  dv_selfReal :: addr
  dv_selfLocal :: addr

definition Wrap :: "table \<Rightarrow> addr \<Rightarrow> string + (device \<times> addr)" where
  "Wrap t selfReal0 =
     (let selfReal = addr_unmap selfReal0 in
      case Local t selfReal of
        (None, _) \<Rightarrow> Inl (''no local address available in '' @ prefix_string (table_Prefix t))
      | (Some local, t') \<Rightarrow>
          Inr (\<lparr>dv_table = t', dv_selfReal = selfReal, dv_selfLocal = local\<rparr>, local))"

definition LocalAddr :: "device \<Rightarrow> addr" where
  "LocalAddr d = dv_selfLocal d"

definition dev_toReal :: "device translate" where
  "dev_toReal d a = (if a = dv_selfLocal d then Some (dv_selfReal d) else Real (dv_table d) a, d)"

definition dev_toLocal :: "device translate" where
  "dev_toLocal d a =
     (if a = dv_selfReal d then (Some (dv_selfLocal d), d)
      else case Local (dv_table d) a of (r, t) \<Rightarrow> (r, d\<lparr>dv_table := t\<rparr>))"

text \<open>\<open>Read\<close>: the first \<open>n\<close> buffers, each with its size; a packet nothing maps to gets size zero.\<close>

fun read_bufs :: "device \<Rightarrow> nat \<Rightarrow> nat \<Rightarrow> (bytes \<times> int) list \<Rightarrow> (bytes \<times> int) list \<times> device" where
  "read_bufs d offset 0 bs = (bs, d)"
| "read_bufs d offset n [] = ([], d)"
| "read_bufs d offset (Suc n) ((b, sz) # bs) =
     (if sz \<le> 0 then (case read_bufs d offset n bs of (bs', d') \<Rightarrow> ((b, sz) # bs', d'))
      else case rewrite dev_toReal d (slice offset (offset + nat sz) b) of
             (ok, pkt, d1) \<Rightarrow>
               (case read_bufs d1 offset n bs of
                  (bs', d') \<Rightarrow> ((splice b offset pkt, if ok then sz else 0) # bs', d')))"

definition dev_Read :: "device \<Rightarrow> nat \<Rightarrow> nat \<times> 'e option \<times> (bytes \<times> int) list \<Rightarrow> nat \<times> 'e option \<times> (bytes \<times> int) list \<times> device" where
  "dev_Read d offset inner =
     (case inner of (n, err, bs) \<Rightarrow> (case read_bufs d offset n bs of (bs', d') \<Rightarrow> (n, err, bs', d')))"

text \<open>\<open>Write\<close>: the packets that can be translated, in order; the count is the inner device's.\<close>

fun write_bufs :: "device \<Rightarrow> nat \<Rightarrow> bytes list \<Rightarrow> bytes list \<times> device" where
  "write_bufs d offset [] = ([], d)"
| "write_bufs d offset (b # bs) =
     (if length b \<le> offset then write_bufs d offset bs
      else case rewrite dev_toLocal d (drop offset b) of
             (ok, pkt, d1) \<Rightarrow>
               (case write_bufs d1 offset bs of
                  (keep, d') \<Rightarrow> (if ok then (take offset b @ pkt) # keep else keep, d')))"

definition dev_Write :: "(bytes list \<Rightarrow> int \<times> 'e option) \<Rightarrow> device \<Rightarrow> nat \<Rightarrow> bytes list \<Rightarrow> (int \<times> 'e option) \<times> bytes list \<times> device" where
  "dev_Write inner d offset bufs =
     (case write_bufs d offset bufs of
        (keep, d') \<Rightarrow> if keep = [] then ((0, None), [], d') else (inner keep, keep, d'))"

section \<open>The two translations are inverse\<close>

definition device_ok :: "u32 \<Rightarrow> nat \<Rightarrow> prefix \<Rightarrow> device \<Rightarrow> bool" where
  "device_ok base b real d \<longleftrightarrow>
     table_ok base b real (dv_table d) \<and> tb_toLocal (dv_table d) (dv_selfReal d) = Some (dv_selfLocal d)"

lemma Wrap_ok [inv_intros]:
  assumes "table_ok base b real t" and "Wrap t a = Inr (d, l)"
  shows "device_ok base b real d \<and> LocalAddr d = l"
proof -
  from assms(2) obtain t' where L: "Local t (addr_unmap a) = (Some l, t')"
      and d: "d = \<lparr>dv_table = t', dv_selfReal = addr_unmap a, dv_selfLocal = l\<rparr>"
    by (auto simp: Wrap_def Let_def split: prod.splits option.splits)
  obtain x where x: "addr_unmap (addr_unmap a) = V4 x" "tb_toLocal t' (V4 x) = Some l"
    using Local_Some[OF assms(1) L] by metis
  have "addr_unmap a = V4 x"
    using x(1) by (cases a) (auto split: if_splits)
  with x(2) Local_ok[OF assms(1), of "addr_unmap a"] L d show ?thesis
    by (simp add: device_ok_def LocalAddr_def)
qed

lemma dev_toReal_eq:
  assumes "device_ok base b real d"
  shows "fst (dev_toReal d (V4 y)) = tb_toReal (dv_table d) (V4 y)"
proof (cases "V4 y = dv_selfLocal d")
  case True
  have ok: "table_ok base b real (dv_table d)" using assms by (simp add: device_ok_def)
  have "tb_toReal (dv_table d) (dv_selfLocal d) = Some (dv_selfReal d)"
    using assms table_okD(10)[OF ok, of "dv_selfReal d" "dv_selfLocal d"] by (simp add: device_ok_def)
  with True show ?thesis by (simp add: dev_toReal_def)
next
  case False
  then show ?thesis by (simp add: dev_toReal_def Real_def)
qed

text \<open>A translation towards the operating system: where it leads, and what it leaves behind.\<close>

lemma dev_toLocal_spec:
  assumes ok: "device_ok base b real d" and tr: "dev_toLocal d (V4 x) = (r, d')"
  shows "device_ok base b real d'"
    and "r = Some l \<Longrightarrow> tb_toLocal (dv_table d') (V4 x) = Some l \<and> (\<exists>y. l = V4 y) \<and> prefix_contains real (V4 x)"
    and "tb_toLocal (dv_table d) (V4 z) = Some k \<Longrightarrow> tb_toLocal (dv_table d') (V4 z) = Some k"
proof -
  have t: "table_ok base b real (dv_table d)" and self: "tb_toLocal (dv_table d) (dv_selfReal d) = Some (dv_selfLocal d)"
    using ok by (simp_all add: device_ok_def)
  obtain s where s: "dv_selfReal d = V4 s" using table_okD(11)[OF t self] by (cases "dv_selfReal d") auto
  have keep: "tb_toLocal (dv_table d) (V4 z) = Some k \<Longrightarrow> tb_toLocal (dv_table d') (V4 z) = Some k" for z k
    using tr Local_keeps[OF t, of z k "V4 x"] by (auto simp: dev_toLocal_def split: if_splits prod.splits)
  have t': "table_ok base b real (dv_table d')"
    using tr t Local_ok[OF t, of "V4 x"] by (auto simp: dev_toLocal_def split: if_splits prod.splits)
  have same: "dv_selfReal d' = dv_selfReal d" "dv_selfLocal d' = dv_selfLocal d"
    using tr by (auto simp: dev_toLocal_def split: if_splits prod.splits)
  show "device_ok base b real d'" using t' keep[of s] self same s by (simp add: device_ok_def)
  show "tb_toLocal (dv_table d) (V4 z) = Some k \<Longrightarrow> tb_toLocal (dv_table d') (V4 z) = Some k" by (rule keep)
  show "tb_toLocal (dv_table d') (V4 x) = Some l \<and> (\<exists>y. l = V4 y) \<and> prefix_contains real (V4 x)" if r: "r = Some l"
  proof -
    have m: "tb_toLocal (dv_table d') (V4 x) = Some l"
    proof (cases "V4 x = dv_selfReal d")
      case True
      with tr r self show ?thesis by (auto simp: dev_toLocal_def)
    next
      case False
      with tr r obtain t1 where L: "Local (dv_table d) (V4 x) = (Some l, t1)" and d': "d' = d\<lparr>dv_table := t1\<rparr>"
        by (auto simp: dev_toLocal_def split: prod.splits)
      obtain z where "addr_unmap (V4 x) = V4 z" "tb_toLocal t1 (V4 z) = Some l" using Local_Some[OF t L] by metis
      with d' show ?thesis by simp
    qed
    with table_local_v4[OF t' m] table_okD(11)[OF t' m] show ?thesis by blast
  qed
qed

text \<open>Whatever every translation keeps, rewriting a packet keeps.\<close>

lemma addrAt_v4: "\<exists>x. addrAt p i = V4 x"
  by (simp add: addrAt_def addr_of_bytes_def)

lemma rewriteQuoted_keeps:
  assumes "\<And>s x. P s \<Longrightarrow> P (snd (tr s (V4 x)))" and "P s"
  shows "P (snd (rewriteQuoted tr s icmp))"
proof -
  obtain x y where xy: "addrAt (drop 8 icmp) 12 = V4 x" "addrAt (drop 8 icmp) 16 = V4 y" using addrAt_v4 by metis
  obtain r1 s1 where 1: "tr s (V4 x) = (r1, s1)" by fastforce
  obtain r2 s2 where 2: "tr s1 (V4 y) = (r2, s2)" by fastforce
  have "P s1" using assms(1)[OF assms(2), of x] 1 by simp
  then have "P s2" using assms(1)[of s1 y] 2 by simp
  with assms(2) show ?thesis by (simp add: rewriteQuoted_def Let_def xy 1 2 split: option.splits)
qed

lemma fix_l4_keeps:
  assumes "\<And>s x. P s \<Longrightarrow> P (snd (tr s (V4 x)))" and "P s"
  shows "P (snd (fix_l4 tr s proto old updated l4))"
  using assms(2) rewriteQuoted_keeps[of P tr s, OF assms] by (simp add: fix_l4_def Let_def)

lemma rewrite_keeps:
  assumes "\<And>s x. P s \<Longrightarrow> P (snd (tr s (V4 x)))" and "P s"
  shows "P (snd (snd (rewrite tr s p)))"
proof -
  obtain x y where xy: "addrAt p 12 = V4 x" "addrAt p 16 = V4 y" using addrAt_v4 by metis
  obtain r1 s1 where 1: "tr s (V4 x) = (r1, s1)" by fastforce
  obtain r2 s2 where 2: "tr s1 (V4 y) = (r2, s2)" by fastforce
  have "P s1" using assms(1)[OF assms(2), of x] 1 by simp
  then have p2: "P s2" using assms(1)[of s1 y] 2 by simp
  have "P (snd (fix_l4 tr s2 proto old updated l4))" for proto old updated l4
    using fix_l4_keeps[of P tr s2, OF assms(1) p2] .
  with assms(2) p2 show ?thesis
    by (simp add: rewrite_def Let_def xy 1 2 split: option.splits prod.splits) (metis snd_conv)
qed

definition extends :: "u32 \<Rightarrow> nat \<Rightarrow> prefix \<Rightarrow> device \<Rightarrow> device \<Rightarrow> bool" where
  "extends base b real d d' \<longleftrightarrow> device_ok base b real d' \<and>
     (\<forall>z k. tb_toLocal (dv_table d) (V4 z) = Some k \<longrightarrow> tb_toLocal (dv_table d') (V4 z) = Some k)"

lemma dev_toLocal_extends:
  "extends base b real d d1 \<Longrightarrow> extends base b real d (snd (dev_toLocal d1 (V4 x)))"
  using dev_toLocal_spec(1,3)[of base b real d1 x "fst (dev_toLocal d1 (V4 x))" "snd (dev_toLocal d1 (V4 x))"]
  unfolding extends_def by auto

lemma rewrite_toLocal_extends:
  "device_ok base b real d \<Longrightarrow> extends base b real d (snd (snd (rewrite dev_toLocal d p)))"
  by (rule rewrite_keeps[of "extends base b real d" dev_toLocal, OF dev_toLocal_extends]) (simp_all add: extends_def)

text \<open>A packet let in from the tunnel: both addresses are the network's, and both have their locals.\<close>

lemma rewrite_toLocal:
  assumes ok: "device_ok base b real d" and rw: "rewrite dev_toLocal d p = (True, p', d')"
  obtains x y l k where "addrAt p 12 = V4 x" "addrAt p 16 = V4 y" "addrAt p' 12 = V4 l" "addrAt p' 16 = V4 k"
    "tb_toLocal (dv_table d') (V4 x) = Some (V4 l)" "tb_toLocal (dv_table d') (V4 y) = Some (V4 k)"
    "prefix_contains real (V4 x)" "prefix_contains real (V4 y)"
    "20 \<le> ihl_of p'" "ihl_of p' \<le> length p'" "version_of p' = 4" "device_ok base b real d'"
  using rw
proof (rule rewrite_addresses)
  fix src dst s1 s2
  assume t: "dev_toLocal d (addrAt p 12) = (Some src, s1)" "dev_toLocal s1 (addrAt p 16) = (Some dst, s2)"
    and a: "addrAt p' 12 = V4 (v4_of src)" "addrAt p' 16 = V4 (v4_of dst)"
    and h: "20 \<le> ihl_of p'" "ihl_of p' \<le> length p'" "version_of p' = 4"
  obtain x y where xy: "addrAt p 12 = V4 x" "addrAt p 16 = V4 y" using addrAt_v4 by metis
  note 1 = dev_toLocal_spec[OF ok t(1)[unfolded xy]]
  note 2 = dev_toLocal_spec[OF 1(1) t(2)[unfolded xy]]
  obtain l k where lk: "src = V4 l" "dst = V4 k" using 1(2)[OF refl] 2(2)[OF refl] by blast
  have e: "extends base b real d d'" using rewrite_toLocal_extends[OF ok, of p] rw by simp
  then have ok': "device_ok base b real d'" by (simp add: extends_def)
  have "extends base b real s2 d'"
    using rewrite_final_state[OF rw t]
  proof
    assume "d' = s2"
    with 2(1) show ?thesis by (simp add: extends_def)
  next
    assume "\<exists>proto old updated l4 q. fix_l4 dev_toLocal s2 proto old updated l4 = (q, d')"
    then obtain proto old updated l4 q where f: "fix_l4 dev_toLocal s2 proto old updated l4 = (q, d')" by blast
    have "extends base b real s2 (snd (fix_l4 dev_toLocal s2 proto old updated l4))"
      by (rule fix_l4_keeps[of "extends base b real s2" dev_toLocal, OF dev_toLocal_extends]) (use 2(1) in \<open>simp_all add: extends_def\<close>)
    with f show ?thesis by simp
  qed
  then have "tb_toLocal (dv_table d') (V4 x) = Some (V4 l)" "tb_toLocal (dv_table d') (V4 y) = Some (V4 k)"
    using 1(2)[OF refl] 2(2)[OF refl] 2(3)[of x "V4 l"] lk by (simp_all add: extends_def)
  then show thesis using that xy a lk 1(2)[OF refl] 2(2)[OF refl] h ok' by simp
qed

lemma write_bufs_kept:
  assumes "device_ok base b real d" and "write_bufs d offset bs = (keep, d')"
  shows "extends base b real d d' \<and>
    (\<forall>k \<in> set keep. \<exists>p \<in> set bs. \<exists>x y l m. addrAt (drop offset p) 12 = V4 x \<and> addrAt (drop offset p) 16 = V4 y \<and>
       addrAt (drop offset k) 12 = V4 l \<and> addrAt (drop offset k) 16 = V4 m \<and>
       tb_toLocal (dv_table d') (V4 x) = Some (V4 l) \<and> tb_toLocal (dv_table d') (V4 y) = Some (V4 m))"
  using assms
proof (induction bs arbitrary: d keep)
  case Nil
  then show ?case by (simp add: extends_def)
next
  case (Cons p bs)
  show ?case
  proof (cases "length p \<le> offset")
    case True
    with Cons.prems have "write_bufs d offset bs = (keep, d')" by simp
    from Cons.IH[OF Cons.prems(1) this] show ?thesis by (simp add: disj_imp)
  next
    case False
    obtain ok pkt d1 where rw: "rewrite dev_toLocal d (drop offset p) = (ok, pkt, d1)" by (metis prod_cases3)
    have e1: "extends base b real d d1" using rewrite_toLocal_extends[OF Cons.prems(1), of "drop offset p"] rw by simp
    then have ok1: "device_ok base b real d1" by (simp add: extends_def)
    obtain keep' where w: "write_bufs d1 offset bs = (keep', d')" "keep = (if ok then (take offset p @ pkt) # keep' else keep')"
      using Cons.prems(2) False rw by (auto split: prod.splits)
    note ih = Cons.IH[OF ok1 w(1)]
    have e: "extends base b real d d'" using e1 ih by (auto simp: extends_def)
    show ?thesis
    proof (cases ok)
      case True
      have rwT: "rewrite dev_toLocal d (drop offset p) = (True, pkt, d1)" using rw True by simp
      from Cons.prems(1) rwT obtain x y l k where
        a: "addrAt (drop offset p) 12 = V4 x" "addrAt (drop offset p) 16 = V4 y" "addrAt pkt 12 = V4 l" "addrAt pkt 16 = V4 k"
          "tb_toLocal (dv_table d1) (V4 x) = Some (V4 l)" "tb_toLocal (dv_table d1) (V4 y) = Some (V4 k)"
        by (rule rewrite_toLocal)
      have "drop offset (take offset p @ pkt) = pkt" using False by simp
      with a ih have "\<exists>x y l m. addrAt (drop offset p) 12 = V4 x \<and> addrAt (drop offset p) 16 = V4 y \<and>
          addrAt (drop offset (take offset p @ pkt)) 12 = V4 l \<and> addrAt (drop offset (take offset p @ pkt)) 16 = V4 m \<and>
          tb_toLocal (dv_table d') (V4 x) = Some (V4 l) \<and> tb_toLocal (dv_table d') (V4 y) = Some (V4 m)"
        by (simp add: extends_def)
      with e ih w(2) True show ?thesis by (simp only: if_True list.set) blast
    next
      case False
      with e ih w(2) show ?thesis by (simp only: if_False list.set) blast
    qed
  qed
qed

text \<open>The device as the engine sets it up, after packets have come in.\<close>

lemma device_reach:
  assumes "NewTable local real = Inr t0" and "1 \<le> prefix_bits local" and "Wrap t0 self = Inr (d0, l)"
    and "write_bufs d0 offset bs = (keep, d)"
  obtains base b where "device_ok base b (prefix_masked real) d0" "device_ok base b (prefix_masked real) d"
proof -
  obtain base b where "table_ok base b (prefix_masked real) t0" using NewTable_ok[OF assms(1,2)] by blast
  then have ok0: "device_ok base b (prefix_masked real) d0" using Wrap_ok assms(3) by blast
  moreover have "device_ok base b (prefix_masked real) d"
    using write_bufs_kept[OF ok0 assms(4)] unfolding extends_def by blast
  ultimately show thesis by (rule that)
qed

section \<open>A conversation\<close>

text \<open>The packet of a buffer with its size, and an IPv4 packet that goes the way back of another.\<close>

definition packet_in :: "nat \<Rightarrow> bytes \<times> int \<Rightarrow> bytes" where
  "packet_in offset buf = slice offset (offset + nat (snd buf)) (fst buf)"

definition answers :: "bytes \<Rightarrow> bytes \<Rightarrow> bool" where
  "answers q p \<longleftrightarrow> 20 \<le> ihl_of q \<and> ihl_of q \<le> length q \<and> version_of q = 4 \<and>
     addrAt q 12 = addrAt p 16 \<and> addrAt q 16 = addrAt p 12"

text \<open>An address that is in the table is translated without changing it, in both directions.\<close>

lemma device_known:
  assumes "device_ok base b real d" and "tb_toLocal (dv_table d) (V4 x) = Some (V4 l)"
  shows "dev_toReal d (V4 l) = (Some (V4 x), d)" and "dev_toLocal d (V4 x) = (Some (V4 l), d)"
proof -
  have t: "table_ok base b real (dv_table d)" and self: "tb_toLocal (dv_table d) (dv_selfReal d) = Some (dv_selfLocal d)"
    using assms(1) by (simp_all add: device_ok_def)
  have "tb_toReal (dv_table d) (V4 l) = Some (V4 x)" using table_okD(10)[OF t] assms(2) by blast
  then have "fst (dev_toReal d (V4 l)) = Some (V4 x)" using dev_toReal_eq[OF assms(1), of l] by simp
  then show "dev_toReal d (V4 l) = (Some (V4 x), d)" by (simp add: dev_toReal_def)
  show "dev_toLocal d (V4 x) = (Some (V4 l), d)"
    using self assms(2) by (cases "V4 x = dv_selfReal d") (auto simp: dev_toLocal_def Local_known[OF t assms(2)])
qed

lemma dev_toReal_known:
  assumes "device_ok base b real d" and "dev_toReal d (V4 l) = (Some x, d1)"
  shows "\<exists>y. x = V4 y \<and> tb_toLocal (dv_table d) (V4 y) = Some (V4 l)"
proof -
  have t: "table_ok base b real (dv_table d)" using assms(1) by (simp add: device_ok_def)
  have "tb_toReal (dv_table d) (V4 l) = Some x" using dev_toReal_eq[OF assms(1), of l] assms(2) by simp
  then have m: "tb_toLocal (dv_table d) x = Some (V4 l)" using table_okD(10)[OF t] by blast
  then show ?thesis using table_okD(11)[OF t m] by (cases x) auto
qed

lemma dev_toReal_keeps: "snd (snd (rewrite dev_toReal d p)) = d"
  by (rule rewrite_keeps[of "\<lambda>s. s = d" dev_toReal]) (simp_all add: dev_toReal_def)

lemma rewrite_known:
  assumes "20 \<le> ihl_of q" "ihl_of q \<le> length q" "version_of q = 4" and "addrAt q 12 = V4 x" "addrAt q 16 = V4 y"
    and "tr d (V4 x) = (Some (V4 x'), d)" "tr d (V4 y) = (Some (V4 y'), d)"
  obtains q' d' where "rewrite tr d q = (True, q', d')" "addrAt q' 12 = V4 x'" "addrAt q' 16 = V4 y'"
    "20 \<le> ihl_of q'" "ihl_of q' \<le> length q'" "version_of q' = 4" "length q' = length q"
proof -
  have t: "tr d (addrAt q 12) = (Some (V4 x'), d)" "tr d (addrAt q 16) = (Some (V4 y'), d)" using assms(4-7) by simp_all
  obtain q' d' where r: "rewrite tr d q = (True, q', d')"
    using rewrite_forwards[where tr = tr and p = q and s = d, OF assms(1-3) t] by blast
  have l: "length q' = length q" using r by (rule rewrite_shape)
  from r obtain src dst s1 s2 where a: "tr d (addrAt q 12) = (Some src, s1)" "tr s1 (addrAt q 16) = (Some dst, s2)"
      "addrAt q' 12 = V4 (v4_of src)" "addrAt q' 16 = V4 (v4_of dst)" "20 \<le> ihl_of q'" "ihl_of q' \<le> length q'" "version_of q' = 4"
    by (rule rewrite_addresses)
  then have "src = V4 x'" "dst = V4 y'" using assms(4-7) by auto
  with a(3,4) have "addrAt q' 12 = V4 x'" "addrAt q' 16 = V4 y'" by (simp_all only: v4_of.simps)
  then show thesis using that r a(5-7) l by blast
qed

text \<open>A packet that was read went out with the overlay addresses of its two local ones.\<close>

lemma rewrite_toReal:
  assumes "device_ok base b real d" and "rewrite dev_toReal d p = (True, p1, d1)"
  obtains x y l k where "addrAt p 12 = V4 l" "addrAt p 16 = V4 k" "addrAt p1 12 = V4 x" "addrAt p1 16 = V4 y"
    "tb_toLocal (dv_table d) (V4 x) = Some (V4 l)" "tb_toLocal (dv_table d) (V4 y) = Some (V4 k)" "length p1 = length p"
proof -
  have len: "length p1 = length p" using assms(2) by (rule rewrite_shape)
  from assms(2) obtain src dst s1 s2 where a: "dev_toReal d (addrAt p 12) = (Some src, s1)" "dev_toReal s1 (addrAt p 16) = (Some dst, s2)"
      "addrAt p1 12 = V4 (v4_of src)" "addrAt p1 16 = V4 (v4_of dst)"
    by (rule rewrite_addresses)
  obtain l k where lk: "addrAt p 12 = V4 l" "addrAt p 16 = V4 k" using addrAt_v4 by metis
  have "s1 = d" using a(1) by (simp add: dev_toReal_def)
  then obtain x y where "src = V4 x" "tb_toLocal (dv_table d) (V4 x) = Some (V4 l)" "dst = V4 y" "tb_toLocal (dv_table d) (V4 y) = Some (V4 k)"
    using dev_toReal_known[OF assms(1)] a(1,2) unfolding lk by metis
  then show thesis using that[OF lk, of x y] a(3,4) len by simp
qed

text \<open>What one \<open>Read\<close> does to each of the buffers it was given.\<close>

lemma read_bufs_nth:
  "read_bufs d offset n bs = (bs', d') \<Longrightarrow> d' = d \<and> length bs' = length bs \<and>
     (\<forall>i. i < n \<longrightarrow> i < length bs \<longrightarrow> 0 < snd (bs ! i) \<longrightarrow>
        (case rewrite dev_toReal d (packet_in offset (bs ! i)) of
           (ok, pkt, _) \<Rightarrow> bs' ! i = (splice (fst (bs ! i)) offset pkt, if ok then snd (bs ! i) else 0))) \<and>
     (\<forall>i. i < n \<longrightarrow> i < length bs \<longrightarrow> snd (bs ! i) \<le> 0 \<longrightarrow> bs' ! i = bs ! i)"
proof (induction d offset n bs arbitrary: bs' d' rule: read_bufs.induct)
  case (3 d offset n b sz bs)
  show ?case
  proof (cases "sz \<le> 0")
    case True
    obtain bs1 d1 where r: "read_bufs d offset n bs = (bs1, d1)" by fastforce
    have e: "bs' = (b, sz) # bs1" "d' = d1" using 3(3) True r by simp_all
    from 3(1)[OF True r] True show ?thesis unfolding e by (auto simp: nth_Cons split: nat.splits)
  next
    case False
    obtain ok pkt d2 where w: "rewrite dev_toReal d (slice offset (offset + nat sz) b) = (ok, pkt, d2)" by (metis prod_cases3)
    have d2: "d2 = d" using dev_toReal_keeps[of d "slice offset (offset + nat sz) b"] w by simp
    obtain bs1 d1 where r: "read_bufs d2 offset n bs = (bs1, d1)" by fastforce
    have e: "bs' = (splice b offset pkt, if ok then sz else 0) # bs1" "d' = d1" using 3(3) False w r by simp_all
    from 3(2)[OF False w[symmetric] refl r] w False show ?thesis unfolding e d2
      by (auto simp: nth_Cons packet_in_def split: nat.splits)
  qed
qed simp_all

lemma packet_in_splice:
  assumes "offset + nat sz \<le> length b" and "length pkt = nat sz"
  shows "packet_in offset (splice b offset pkt, sz) = pkt"
  using assms slice_splice[of offset pkt b] by (simp add: packet_in_def)

lemma packet_in_length: "offset + nat (snd buf) \<le> length (fst buf) \<Longrightarrow> length (packet_in offset buf) = nat (snd buf)"
  by (simp add: packet_in_def)

section \<open>Properties\<close>

text \<open>C13: The two sides of a conversation reach each other through the translation, whatever is translated between a
  packet and its answer. When the host sends a packet, a packet from the tunnel that answers what went out, with
  the two overlay addresses the other way round, is let in and answers what the host sent: it comes from
  the local address the host wrote to. And when a packet from a peer was let in, a packet of the host that
  answers what the host saw goes out, and answers what the peer had sent. The addresses that are held for a
  conversation never change and no two peers share one.\<close>

theorem vip_boundary_roundtrip:
  assumes "NewTable local real = Inr t0" and "1 \<le> prefix_bits local" and "Wrap t0 self = Inr (d0, l)"
    and "write_bufs d0 offset before = (let_in, d)"
  shows "(\<forall>n err bufs bufs' d1 i later keep d' qb.
      dev_Read d offset (n, err, bufs) = (n, err, bufs', d1) \<and> i < n \<and> i < length bufs \<and> 0 < snd (bufs' ! i) \<and>
      offset + nat (snd (bufs ! i)) \<le> length (fst (bufs ! i)) \<and>
      write_bufs d1 offset later = (keep, d') \<and> offset \<le> length qb \<and> answers (drop offset qb) (packet_in offset (bufs' ! i)) \<longrightarrow>
      (\<exists>q d''. write_bufs d' offset [qb] = ([take offset qb @ q], d'') \<and> answers q (packet_in offset (bufs ! i)))) \<and>
    (\<forall>b k d1 later keep d' n err bufs bufs' d'' i.
      write_bufs d offset [b] = ([k], d1) \<and> write_bufs d1 offset later = (keep, d') \<and>
      dev_Read d' offset (n, err, bufs) = (n, err, bufs', d'') \<and> i < n \<and> i < length bufs \<and>
      offset + nat (snd (bufs ! i)) \<le> length (fst (bufs ! i)) \<and> answers (packet_in offset (bufs ! i)) (drop offset k) \<longrightarrow>
      snd (bufs' ! i) = snd (bufs ! i) \<and> answers (packet_in offset (bufs' ! i)) (drop offset b))" (is "?out \<and> ?home")
proof -
  obtain base bb where ok: "device_ok base bb (prefix_masked real) d" using device_reach[OF assms(1-4)] by metis
  have out: "\<exists>q d''. write_bufs d' offset [qb] = ([take offset qb @ q], d'') \<and> answers q (packet_in offset (bufs ! i))"
    if r: "dev_Read d offset (n, err, bufs) = (n, err, bufs', d1)" "i < n" "i < length bufs" "0 < snd (bufs' ! i)"
      "offset + nat (snd (bufs ! i)) \<le> length (fst (bufs ! i))"
      and w: "write_bufs d1 offset later = (keep, d')" and q: "offset \<le> length qb" "answers (drop offset qb) (packet_in offset (bufs' ! i))"
    for n err bufs bufs' d1 i later keep d' qb
  proof -
    let ?p = "packet_in offset (bufs ! i)"
    have rb: "read_bufs d offset n bufs = (bufs', d1)" using r(1) by (auto simp: dev_Read_def split: prod.splits)
    note nth = read_bufs_nth[OF rb]
    have sz: "0 < snd (bufs ! i)" using nth r(2-4) by force
    obtain ok1 p1 d2 where rw: "rewrite dev_toReal d ?p = (ok1, p1, d2)" by (metis prod_cases3)
    have b': "bufs' ! i = (splice (fst (bufs ! i)) offset p1, if ok1 then snd (bufs ! i) else 0)" using nth r(2,3) sz rw by auto
    have t: "ok1" using b' r(4) by (auto split: if_splits)
    from rewrite_toReal[OF ok rw[unfolded eqTrueI[OF t]]] obtain x y m k where
      a: "addrAt ?p 12 = V4 m" "addrAt ?p 16 = V4 k" "addrAt p1 12 = V4 x" "addrAt p1 16 = V4 y"
        "tb_toLocal (dv_table d) (V4 x) = Some (V4 m)" "tb_toLocal (dv_table d) (V4 y) = Some (V4 k)" "length p1 = length ?p"
      by metis
    have p1: "packet_in offset (bufs' ! i) = p1"
      using packet_in_splice[OF r(5), of p1] a(7) packet_in_length[OF r(5)] t by (simp add: b')
    have e: "extends base bb (prefix_masked real) d d'" using write_bufs_kept[OF ok] w nth by simp
    then have ok': "device_ok base bb (prefix_masked real) d'" and held: "tb_toLocal (dv_table d') (V4 x) = Some (V4 m)"
        "tb_toLocal (dv_table d') (V4 y) = Some (V4 k)" using a(5,6) by (simp_all add: extends_def)
    have ans: "20 \<le> ihl_of (drop offset qb)" "ihl_of (drop offset qb) \<le> length (drop offset qb)" "version_of (drop offset qb) = 4"
        "addrAt (drop offset qb) 12 = V4 y" "addrAt (drop offset qb) 16 = V4 x" using q(2) a(3,4) by (simp_all add: answers_def p1)
    from rewrite_known[where tr = dev_toLocal, OF ans device_known(2)[OF ok' held(2)] device_known(2)[OF ok' held(1)]]
    obtain q1 d'' where q1: "rewrite dev_toLocal d' (drop offset qb) = (True, q1, d'')" "addrAt q1 12 = V4 k" "addrAt q1 16 = V4 m"
      "20 \<le> ihl_of q1" "ihl_of q1 \<le> length q1" "version_of q1 = 4" by metis
    have "\<not> length qb \<le> offset" using ans(1,2) by auto
    then have "write_bufs d' offset [qb] = ([take offset qb @ q1], d'')" using q1(1) by simp
    moreover have "answers q1 ?p" using q1 a(1,2) by (simp add: answers_def)
    ultimately show ?thesis by blast
  qed
  have home: "snd (bufs' ! i) = snd (bufs ! i) \<and> answers (packet_in offset (bufs' ! i)) (drop offset b)"
    if w: "write_bufs d offset [b] = ([k], d1)" "write_bufs d1 offset later = (keep, d')"
      and r: "dev_Read d' offset (n, err, bufs) = (n, err, bufs', d'')" "i < n" "i < length bufs"
        "offset + nat (snd (bufs ! i)) \<le> length (fst (bufs ! i))" and q: "answers (packet_in offset (bufs ! i)) (drop offset k)"
    for b k d1 later keep d' n err bufs bufs' d'' i
  proof -
    let ?q = "packet_in offset (bufs ! i)"
    obtain x y m z where a: "addrAt (drop offset b) 12 = V4 x" "addrAt (drop offset b) 16 = V4 y"
      "addrAt (drop offset k) 12 = V4 m" "addrAt (drop offset k) 16 = V4 z"
      "tb_toLocal (dv_table d1) (V4 x) = Some (V4 m)" "tb_toLocal (dv_table d1) (V4 y) = Some (V4 z)"
      using write_bufs_kept[OF ok w(1)] by auto
    have ok1: "device_ok base bb (prefix_masked real) d1" using write_bufs_kept[OF ok w(1)] by (simp add: extends_def)
    have "extends base bb (prefix_masked real) d1 d'" using write_bufs_kept[OF ok1 w(2)] by simp
    then have ok': "device_ok base bb (prefix_masked real) d'" and held: "tb_toLocal (dv_table d') (V4 x) = Some (V4 m)"
        "tb_toLocal (dv_table d') (V4 y) = Some (V4 z)" using a(5,6) by (simp_all add: extends_def)
    have ans: "20 \<le> ihl_of ?q" "ihl_of ?q \<le> length ?q" "version_of ?q = 4" "addrAt ?q 12 = V4 z" "addrAt ?q 16 = V4 m"
      using q a(3,4) by (simp_all add: answers_def)
    from rewrite_known[where tr = dev_toReal, OF ans device_known(1)[OF ok' held(2)] device_known(1)[OF ok' held(1)]]
    obtain q1 d2 where q1: "rewrite dev_toReal d' ?q = (True, q1, d2)" "addrAt q1 12 = V4 y" "addrAt q1 16 = V4 x"
      "20 \<le> ihl_of q1" "ihl_of q1 \<le> length q1" "version_of q1 = 4" "length q1 = length ?q" by metis
    have sz: "0 < snd (bufs ! i)" using ans(1,2) packet_in_length[OF r(4)] by linarith
    have rb: "read_bufs d' offset n bufs = (bufs', d'')" using r(1) by (auto simp: dev_Read_def split: prod.splits)
    have b': "bufs' ! i = (splice (fst (bufs ! i)) offset q1, snd (bufs ! i))" using read_bufs_nth[OF rb] r(2,3) sz q1(1) by auto
    have "packet_in offset (bufs' ! i) = q1"
      using packet_in_splice[OF r(4), of q1] q1(7) packet_in_length[OF r(4)] by (simp add: b')
    then show ?thesis using q1 a(1,2) by (simp add: b' answers_def)
  qed
  show ?thesis
  proof (rule conjI)
    show ?out by (intro allI impI, elim conjE, rule out; assumption)
    show ?home by (intro allI impI, elim conjE, rule home; assumption)
  qed
qed

text \<open>C26: only traffic of the network's own range enters. Every packet handed to the operating system
  comes from one offered by the tunnel whose two addresses both lie in the overlay range, and
  carries the local addresses that stand for them in the table; so a peer cannot make traffic
  appear to come from somewhere else.\<close>

theorem only_overlay_packets_enter:
  assumes "NewTable local real = Inr t0" and "1 \<le> prefix_bits local" and "Wrap t0 self = Inr (d0, l)"
    and "write_bufs d0 offset bs = (keep, d)" and "k \<in> set keep"
  shows "\<exists>p \<in> set bs. \<forall>i \<in> {12, 16}. prefix_contains (prefix_masked real) (addrAt (drop offset p) i) \<and>
    tb_toLocal (dv_table d) (addrAt (drop offset p) i) = Some (addrAt (drop offset k) i) \<and>
    tb_toReal (dv_table d) (addrAt (drop offset k) i) = Some (addrAt (drop offset p) i)"
proof -
  obtain base b where ok: "device_ok base b (prefix_masked real) d0" "device_ok base b (prefix_masked real) d"
    using device_reach[OF assms(1-4)] by metis
  have t: "table_ok base b (prefix_masked real) (dv_table d)" using ok(2) by (simp add: device_ok_def)
  obtain p x y l m where p: "p \<in> set bs" and a: "addrAt (drop offset p) 12 = V4 x" "addrAt (drop offset p) 16 = V4 y"
      "addrAt (drop offset k) 12 = V4 l" "addrAt (drop offset k) 16 = V4 m"
      "tb_toLocal (dv_table d) (V4 x) = Some (V4 l)" "tb_toLocal (dv_table d) (V4 y) = Some (V4 m)"
    using write_bufs_kept[OF ok(1) assms(4)] assms(5) by blast
  from a(5,6) have "tb_toReal (dv_table d) (V4 l) = Some (V4 x)" "tb_toReal (dv_table d) (V4 m) = Some (V4 y)"
    "prefix_contains (prefix_masked real) (V4 x)" "prefix_contains (prefix_masked real) (V4 y)"
    using table_okD(10,11)[OF t] by blast+
  with p a show ?thesis by (intro bexI[of _ p]) simp_all
qed

text \<open>The device of a sample network, and a packet to it from a peer.\<close>

definition demo_table :: table where
  "demo_table = \<lparr>tb_prefix = Prefix (V4 0x64700000) 16, tb_real = Prefix (V4 0x64400000) 16, tb_base = 0x64700000,
     tb_size = 65536, tb_toLocal = Map.empty, tb_toReal = Map.empty, tb_used = (\<lambda>_. False), tb_next = 1\<rparr>"

lemma demo_table: "NewTable (Prefix (V4 0x64700000) 16) (Prefix (V4 0x64400000) 16) = Inr demo_table"
  by (simp add: NewTable_def demo_table_def mask4_def mask_eq_exp_minus_1)

lemma demo_wrap: "\<exists>d. Wrap demo_table (V4 0x64400002) = Inr (d, V4 0x64700002)"
  by (simp add: Wrap_def demo_table_def Local_def allocLocked_def usable_def fromUint32_def Let_def)

text \<open>A bare packet of the host to the peer of that packet, by their local addresses.\<close>

definition demo_answer :: bytes where
  "demo_answer = [0x45, 0, 0, 20, 0, 0, 0, 0, 64, 17, 0, 0] @ [100, 112, 0, 2] @ [100, 112, 0, 1]"

theorem vip_boundary_roundtrip_witness:
  "\<exists>d k d1 bufs. Wrap demo_table (V4 0x64400002) = Inr (d, V4 0x64700002) \<and> write_bufs d 0 [demo_packet] = ([k], d1) \<and>
     dev_Read d1 0 (1, None :: unit option, [(demo_answer, 20)]) = (1, None, bufs, d1) \<and>
     answers (packet_in 0 (bufs ! 0)) demo_packet \<and>
     (\<exists>q d2. write_bufs d1 0 [demo_packet] = ([q], d2) \<and> answers q demo_answer)"
proof -
  obtain d where d: "Wrap demo_table (V4 0x64400002) = Inr (d, V4 0x64700002)" using demo_wrap by blast
  then have df: "dv_selfReal d = V4 0x64400002" "dv_selfLocal d = V4 0x64700002"
      "dv_table d = snd (Local demo_table (V4 0x64400002))"
    by (auto simp: Wrap_def Let_def split: prod.splits option.splits)
  have a: "addrAt demo_packet 12 = V4 0x64400001" "addrAt demo_packet 16 = V4 0x64400002"
    by (simp_all add: addrAt_def addr_of_bytes_def of_octets_def slice_def demo_packet_def)
  obtain s1 where 1: "dev_toLocal d (V4 0x64400001) = (Some (V4 0x64700001), s1)" and s: "dv_selfReal s1 = dv_selfReal d"
      "dv_selfLocal s1 = dv_selfLocal d"
    by (auto simp: dev_toLocal_def df demo_table_def Local_def allocLocked_def usable_def fromUint32_def Let_def)
  have 2: "dev_toLocal s1 (V4 0x64400002) = (Some (V4 0x64700002), s1)" by (simp add: dev_toLocal_def s df)
  obtain k d1 where r: "rewrite dev_toLocal d demo_packet = (True, k, d1)"
    using rewrite_forwards[where tr = dev_toLocal and p = demo_packet and s = d] 1 2 a demo_packet_facts by fastforce
  have k: "addrAt k 12 = V4 0x64700001" "addrAt k 16 = V4 0x64700002"
    using r by (rule rewrite_addresses, use 1 2 a in auto)+
  have w: "write_bufs d 0 [demo_packet] = ([k], d1)" using r demo_packet_facts(3) by simp
  have n: "write_bufs x 0 [] = ([], x)" for x by simp
  obtain bufs d2 where rb: "read_bufs d1 0 1 [(demo_answer, 20)] = (bufs, d2)" by fastforce
  have rd: "dev_Read d1 0 (1, None :: unit option, [(demo_answer, 20)]) = (1, None, bufs, d2)"
    unfolding dev_Read_def split_def fst_conv snd_conv rb by simp
  have d2: "d2 = d1" using read_bufs_nth[OF rb] by blast
  have p: "packet_in 0 (demo_answer, 20) = demo_answer" by (simp add: packet_in_def slice_def demo_answer_def)
  have da: "addrAt demo_answer 12 = V4 0x64700002" "addrAt demo_answer 16 = V4 0x64700001" "ihl_of demo_answer = 20"
      "version_of demo_answer = 4" "length demo_answer = 20"
    by (simp_all add: addrAt_def addr_of_bytes_def of_octets_def slice_def demo_answer_def ihl_of_def version_of_def)
  have ans: "answers (packet_in 0 ([(demo_answer, 20)] ! 0)) (drop 0 k)" using k da p by (simp add: answers_def)
  have fits: "0 + nat (snd ([(demo_answer, 20)] ! 0)) \<le> length (fst ([(demo_answer, 20)] ! 0))" using da(5) by simp
  have i: "(0::nat) < 1" "0 < length [(demo_answer, 20::int)]" by simp_all
  have bits: "1 \<le> prefix_bits (Prefix (V4 0x64700000) 16)" by simp
  have home: "snd (bufs ! 0) = snd ([(demo_answer, 20)] ! 0) \<and> answers (packet_in 0 (bufs ! 0)) (drop 0 demo_packet)"
    using conjunct2[OF vip_boundary_roundtrip[OF demo_table bits d n]] w n rd i fits ans by blast
  have sz: "0 < snd (bufs ! 0)" using home by simp
  have ans2: "answers (drop 0 demo_packet) (packet_in 0 (bufs ! 0))"
    using home demo_packet_facts by (simp add: answers_def)
  have out: "\<exists>q d''. write_bufs d1 0 [demo_packet] = ([take 0 demo_packet @ q], d'') \<and> answers q (packet_in 0 ([(demo_answer, 20)] ! 0))"
    using conjunct1[OF vip_boundary_roundtrip[OF demo_table bits d w]] rd[unfolded d2] i sz fits n ans2 by blast
  have h2: "answers (packet_in 0 (bufs ! 0)) demo_packet" using home by simp
  have o2: "\<exists>q d2. write_bufs d1 0 [demo_packet] = ([q], d2) \<and> answers q demo_answer"
    using out unfolding take_0 append_Nil nth_Cons_0 p by blast
  show ?thesis
    by (rule exI[of _ d], rule exI[of _ k], rule exI[of _ d1], rule exI[of _ bufs]) (intro conjI d w rd[unfolded d2] h2 o2)
qed

theorem only_overlay_packets_enter_witness:
  "\<exists>d keep d'. Wrap demo_table (V4 0x64400002) = Inr (d, V4 0x64700002) \<and>
     write_bufs d 0 [demo_packet] = (keep, d') \<and>
     (\<forall>k \<in> set keep. tb_toReal (dv_table d') (addrAt k 12) = Some (V4 0x64400001))"
proof -
  obtain d where d: "Wrap demo_table (V4 0x64400002) = Inr (d, V4 0x64700002)" using demo_wrap by blast
  obtain keep d' where w: "write_bufs d 0 [demo_packet] = (keep, d')" by fastforce
  have a: "addrAt demo_packet 12 = V4 0x64400001"
    by (simp_all add: addrAt_def addr_of_bytes_def of_octets_def slice_def demo_packet_def)
  have "tb_toReal (dv_table d') (addrAt k 12) = Some (V4 0x64400001)" if "k \<in> set keep" for k
    using only_overlay_packets_enter[OF demo_table _ d w that] a by simp
  with d w show ?thesis by blast
qed

end
