(* ===== verification/Engine.thy ===== *)
theory Engine
  imports EngineSync DeviceName VipDevice Wgbind
begin

text \<open>
  One connection (\<open>Engine\<close> in \<open>client/engine/engine.go\<close>): joining, building the adapter and the tunnel, the
  state in which the refresh loop starts, and the cleanup when it ends. The adapter, the tunnel and the
  resolver a connection opens on the machine are part of the state (\<open>resource\<close>).
\<close>

record eng_config =
  ec_Server :: string
  ec_Pin :: string
  ec_Token :: string
  ec_DeviceUUID :: string
  ec_Name :: string
  ec_UseRelay :: bool
  ec_AdapterName :: string
  ec_WGPort :: nat
  ec_Endpoint :: string
  ec_DNSAddr :: string
  ec_DNS :: "resolver option"
  ec_ProductName :: string
  ec_LocalPrefix :: string
  ec_Alias :: string
  ec_Publish :: "service list"

datatype eng_error =
    EngRunning | EngServer join_error | EngJoin join_error | EngRange translate_error | EngAdapter
  | EngAssigned string | EngLocal string | EngSetIP
  | EngNoRelay | EngRelaySelf string | EngRelay bind_error | EngTunnel up_error

text \<open>Which errors are also left in the status; the relay's are not.\<close>

fun eng_reported :: "eng_error \<Rightarrow> bool" where
  "eng_reported EngRunning = False"
| "eng_reported EngNoRelay = False"
| "eng_reported (EngRelaySelf s) = False"
| "eng_reported (EngRelay b) = False"
| "eng_reported _ = True"

record eng_status =
  es_Connected :: bool
  es_Server :: string
  es_Pinned :: bool
  es_NetworkID :: string
  es_DNSSuffix :: string
  es_OverlayCIDR :: string
  es_AssignedIP :: string
  es_OverlayIP :: string
  es_LocalCIDR :: string
  es_RelayAddr :: string
  es_PublicKey :: string
  es_Via :: string
  es_LastError :: "eng_error option"

record engine =
  eg_running :: bool
  eg_cfg :: "eng_config option"
  eg_st :: eng_status

definition no_status :: eng_status where
  "no_status = \<lparr>es_Connected = False, es_Server = [], es_Pinned = False, es_NetworkID = [], es_DNSSuffix = [],
     es_OverlayCIDR = [], es_AssignedIP = [], es_OverlayIP = [], es_LocalCIDR = [], es_RelayAddr = [],
     es_PublicKey = [], es_Via = [], es_LastError = None\<rparr>"

definition eng_New :: engine where
  "eng_New = \<lparr>eg_running = False, eg_cfg = None, eg_st = no_status\<rparr>"

text \<open>What a connection holds of the machine, beside the listeners of hosted services (\<open>ru_open\<close>).\<close>

datatype resource = AdapterR string | TunnelR string | ResolverR string

text \<open>What the machine and the library answer during a start.\<close>

record start_env =
  sa_hostname :: string
  sa_sha :: "string \<Rightarrow> string"
  sa_parse :: "string \<Rightarrow> string option"
  sa_keypair :: "(string \<times> string) option"
  sa_adapter :: "string \<Rightarrow> bool"
  sa_setip :: "string \<Rightarrow> string \<Rightarrow> bool"
  sa_ipcSet :: "string \<Rightarrow> bool"
  sa_up :: bool
  sa_dns :: "string \<Rightarrow> bool"

text \<open>The defaults a start fills in.\<close>

definition start_config :: "eng_config \<Rightarrow> eng_config" where
  "start_config cfg =
     (let cfg = (if ec_WGPort cfg = 0 then cfg\<lparr>ec_WGPort := 51820\<rparr> else cfg) in
      if ec_ProductName cfg = [] then cfg\<lparr>ec_ProductName := ''zwan''\<rparr> else cfg)"

definition start_endpoint :: "eng_config \<Rightarrow> string" where
  "start_endpoint cfg = (if ec_Endpoint cfg = [] then ''127.0.0.1:'' @ nat_str (ec_WGPort cfg) else ec_Endpoint cfg)"

definition start_adapter :: "eng_config \<Rightarrow> register_response \<Rightarrow> string" where
  "start_adapter cfg reg = (if ec_AdapterName cfg = [] then ec_ProductName cfg @ ''-'' @ rs_network reg else ec_AdapterName cfg)"

definition start_suffix :: "eng_config \<Rightarrow> register_response \<Rightarrow> string" where
  "start_suffix cfg reg =
     (let suffix = to_lower (trim_dots (trim_space (ec_Alias cfg))) in if suffix = [] then rs_suffix reg else suffix)"

text \<open>The address the device holds: its overlay address, or the local one that stands for it.\<close>

definition start_address :: "translator \<Rightarrow> string \<Rightarrow> eng_error + (translator \<times> string)" where
  "start_address t assigned =
     (case t of
        None \<Rightarrow> Inr (None, assigned)
      | Some tb \<Rightarrow>
          (case parse_addr assigned of
             None \<Rightarrow> Inl (EngAssigned assigned)
           | Some self \<Rightarrow>
               (case Wrap tb self of
                  Inl msg \<Rightarrow> Inl (EngLocal msg)
                | Inr (d, local) \<Rightarrow> Inr (Some (dv_table d), addr_string local))))"

text \<open>The tunnel, over the relay or directly; the result names the transport.\<close>

definition start_tunnel :: "start_env \<Rightarrow> eng_config \<Rightarrow> register_response \<Rightarrow> string \<Rightarrow> eng_error + string" where
  "start_tunnel e cfg reg privKey =
     (let up = wg_Up (sa_ipcSet e) (sa_up e) (hex_encode privKey) (ec_WGPort cfg) in
      if ec_UseRelay cfg then
        (if rs_relay reg = [] then Inl EngNoRelay
         else (case parse_addr (rs_ip reg) of
           None \<Rightarrow> Inl (EngRelaySelf (rs_ip reg))
         | Some self \<Rightarrow>
             (case NewRelay (rs_relay reg) self of
                Inl b \<Rightarrow> Inl (EngRelay b)
              | Inr bd \<Rightarrow> (case up of Inl u \<Rightarrow> Inl (EngTunnel u) | Inr _ \<Rightarrow> Inr ''relay''))))
      else (case up of Inl u \<Rightarrow> Inl (EngTunnel u) | Inr _ \<Rightarrow> Inr ''direct''))"

text \<open>The resolver: the shared one, else one of its own when it can listen, else none.\<close>

definition start_zone :: "start_env \<Rightarrow> eng_config \<Rightarrow> resolver option \<times> string option" where
  "start_zone e cfg =
     (case ec_DNS cfg of
        Some r \<Rightarrow> (Some r, None)
      | None \<Rightarrow> if ec_DNSAddr cfg \<noteq> [] \<and> sa_dns e (ec_DNSAddr cfg) then (Some resolver_New, Some (ec_DNSAddr cfg)) else (None, None))"

text \<open>A started connection: what the refresh loop is given.\<close>

record 'd started =
  sd_client :: client
  sd_conn :: connection
  sd_run :: "'d run_state"
  sd_adapter :: string
  sd_owned :: "string option"

definition run_start :: "translator \<Rightarrow> 'd \<Rightarrow> resolver option \<Rightarrow> hosted set \<Rightarrow> 'd run_state" where
  "run_start t d zone opened = \<lparr>ru_routed = {}, ru_proxies = Map.empty, ru_access = \<lparr>ac_groups = Map.empty, ac_allow = Map.empty\<rparr>,
     ru_lastSig = [], ru_curPeers = [], ru_xlate = t, ru_device = d, ru_zone = zone, ru_open = opened, ru_peers = [],
     ru_services = [], ru_handshakes = Map.empty\<rparr>"

definition fail :: "engine \<Rightarrow> eng_error \<Rightarrow> engine" where
  "fail eng err = (if eng_reported err then eng\<lparr>eg_st := (eg_st eng)\<lparr>es_LastError := Some err\<rparr>\<rparr> else eng)"

text \<open>
  The part of a start after the join: everything that is opened is closed again when a later step fails.
\<close>

definition start_device :: "start_env \<Rightarrow> 'd \<Rightarrow> hosted set \<Rightarrow> eng_config \<Rightarrow> client \<Rightarrow> result \<Rightarrow> engine \<times> resource set \<Rightarrow>
    (eng_error + 'd started) \<times> engine \<times> resource set" where
  "start_device e d opened cfg cl res st =
     (case st of (eng, rs) \<Rightarrow>
      (let reg = jr_register res; name = start_adapter cfg reg in
       case newTranslator (ec_LocalPrefix cfg) (rs_cidr reg) of
         Inl t \<Rightarrow> (Inl (EngRange t), fail eng (EngRange t), rs)
       | Inr t0 \<Rightarrow>
           if \<not> sa_adapter e name then (Inl EngAdapter, fail eng EngAdapter, rs)
           else (let rs1 = insert (AdapterR name) rs in
             case start_address t0 (rs_ip reg) of
               Inl err \<Rightarrow> (Inl err, fail eng err, rs1 - {AdapterR name})
             | Inr (t, deviceIP) \<Rightarrow>
                 if \<not> sa_setip e name deviceIP then (Inl EngSetIP, fail eng EngSetIP, rs1 - {AdapterR name})
                 else (case start_tunnel e cfg reg (jr_private res) of
                     Inl err \<Rightarrow> (Inl err, fail eng err, rs1 - {AdapterR name})
                   | Inr via \<Rightarrow>
                       (case start_zone e cfg of (zone, owned) \<Rightarrow>
                          (Inr \<lparr>sd_client = cl,
                                sd_conn = \<lparr>cn_self = rs_ip reg, cn_device = deviceIP, cn_suffix = start_suffix cfg reg,
                                           cn_relay = ec_UseRelay cfg, cn_publish = ec_Publish cfg\<rparr>,
                                sd_run = run_start t d zone opened, sd_adapter = name, sd_owned = owned\<rparr>,
                           eng\<lparr>eg_running := True,
                               eg_st := \<lparr>es_Connected = True, es_Server = cl_base cl, es_Pinned = (cl_pin cl \<noteq> []),
                                 es_NetworkID = rs_network reg, es_DNSSuffix = start_suffix cfg reg, es_OverlayCIDR = rs_cidr reg,
                                 es_AssignedIP = deviceIP, es_OverlayIP = rs_ip reg, es_LocalCIDR = xl_cidr t,
                                 es_RelayAddr = rs_relay reg, es_PublicKey = jr_public res, es_Via = via, es_LastError = None\<rparr>\<rparr>,
                           insert (TunnelR name) rs1 \<union> ResolverR ` set_option owned))))))"

text \<open>
  A start as one step: between the check and the moment the engine counts as running the code does not hold the
  mutex, so two starts of one engine that overlap would both go through. The manager makes a new engine for each start.
\<close>

definition eng_Start :: "'w exchange \<Rightarrow> start_env \<Rightarrow> 'd \<Rightarrow> hosted set \<Rightarrow> eng_config \<Rightarrow> engine \<times> resource set \<Rightarrow> 'w \<Rightarrow>
    ((eng_error + 'd started) \<times> engine \<times> resource set) \<times> 'w" where
  "eng_Start http e d opened cfg0 st w =
     (case st of (eng0, rs) \<Rightarrow>
      if eg_running eng0 then ((Inl EngRunning, eng0, rs), w)
      else (let cfg = start_config cfg0; eng = eng0\<lparr>eg_cfg := Some cfg, eg_st := no_status\<rparr> in
        case NewClient (sa_sha e) (sa_parse e) (ec_Server cfg) (ec_Pin cfg) of
          Inl err \<Rightarrow> ((Inl (EngServer err), fail eng (EngServer err), rs), w)
        | Inr cl \<Rightarrow>
            (case Join http (sa_keypair e) (ec_Token cfg) (ec_DeviceUUID cfg) (deviceName (sa_hostname e) (ec_Name cfg))
                (start_endpoint cfg) (cl, w) of
               (Inl err, (cl', w')) \<Rightarrow> ((Inl (EngJoin err), fail eng (EngJoin err), rs), w')
             | (Inr res, (cl', w')) \<Rightarrow> (start_device e d opened cfg cl' res (eng, rs), w'))))"

text \<open>
  The end of a connection, \<open>Stop\<close> together with the cleanup of \<open>run\<close>: the zone is taken out, the own
  resolver, the tunnel and the adapter are closed. The listeners of hosted services are not touched.
\<close>

definition run_end :: "'d started \<Rightarrow> 'd run_state \<Rightarrow> 'd run_state" where
  "run_end sd st = st\<lparr>ru_zone := map_option (\<lambda>r. RemoveZone r (cn_suffix (sd_conn sd))) (ru_zone st)\<rparr>"

definition eng_Stop :: "'d started \<Rightarrow> 'd run_state \<times> engine \<times> resource set \<Rightarrow> 'd run_state \<times> engine \<times> resource set" where
  "eng_Stop sd all =
     (case all of (st, eng, rs) \<Rightarrow>
      if \<not> eg_running eng then (st, eng, rs)
      else (run_end sd st, eng\<lparr>eg_running := False, eg_st := (eg_st eng)\<lparr>es_Connected := False\<rparr>\<rparr>,
            rs - ResolverR ` set_option (sd_owned sd) - {TunnelR (sd_adapter sd)} - {AdapterR (sd_adapter sd)}))"

section \<open>Resources\<close>

text \<open>An adapter, its tunnel and a resolver's address can be taken once.\<close>

definition machine_fresh :: "start_env \<Rightarrow> resource set \<Rightarrow> bool" where
  "machine_fresh e rs \<longleftrightarrow> (\<forall>n. sa_adapter e n \<longrightarrow> AdapterR n \<notin> rs \<and> TunnelR n \<notin> rs) \<and> (\<forall>a. sa_dns e a \<longrightarrow> ResolverR a \<notin> rs)"

lemma fail_not_running: "eg_running (fail eng err) = eg_running eng"
  by (simp add: fail_def)

lemma start_device_error:
  assumes "start_device e d opened cfg cl res (eng, rs) = (Inl err, eng', rs')" and "machine_fresh e rs"
  shows "rs' = rs \<and> eng' = fail eng err"
  using assms by (auto simp: start_device_def machine_fresh_def Let_def split: sum.splits prod.splits if_splits)

lemma start_device_success:
  assumes "start_device e d opened cfg cl res (eng, rs) = (Inr sd, eng', rs')" and "machine_fresh e rs"
  shows "eg_running eng' \<and> es_Connected (eg_st eng') \<and>
    rs' - ResolverR ` set_option (sd_owned sd) - {TunnelR (sd_adapter sd)} - {AdapterR (sd_adapter sd)} = rs"
proof -
  obtain t t0 deviceIP via zone owned where s:
    "sa_adapter e (start_adapter cfg (jr_register res))" "start_zone e cfg = (zone, owned)"
    "sd_adapter sd = start_adapter cfg (jr_register res)" "sd_owned sd = owned" "eg_running eng'" "es_Connected (eg_st eng')"
    "rs' = insert (TunnelR (sd_adapter sd)) (insert (AdapterR (sd_adapter sd)) rs) \<union> ResolverR ` set_option owned"
    using assms(1) by (auto simp: start_device_def Let_def split: sum.splits prod.splits if_splits)
  have "\<forall>a \<in> set_option owned. sa_dns e a" using s(2) by (auto simp: start_zone_def split: option.splits if_splits)
  then have "ResolverR ` set_option owned \<inter> rs = {}" using assms(2) by (auto simp: machine_fresh_def)
  moreover have "AdapterR (sd_adapter sd) \<notin> rs" "TunnelR (sd_adapter sd) \<notin> rs" using s(1,3) assms(2) by (auto simp: machine_fresh_def)
  ultimately show ?thesis using s(4-7) by auto
qed

section \<open>Listeners of hosted services\<close>

lemma manage_Cons:
  obtains (skip) "manageHostProxies a l self (s # ss) (running, opened) = manageHostProxies a l self ss (running, opened)"
    | (serve) h where "h = listen_of (if sv_vip s = [] then self else sv_vip s) s" "h \<notin> opened" "running (sv_name s) = None"
        "manageHostProxies a l self (s # ss) (running, opened) =
           manageHostProxies a l self ss (running(sv_name s \<mapsto> h), insert h opened)"
proof -
  let ?h = "listen_of (if sv_vip s = [] then self else sv_vip s) s"
  show thesis
  proof (cases "sv_node s \<noteq> self \<or> sv_backend s = 0 \<or> running (sv_name s) \<noteq> None \<or> sv_vip s \<noteq> [] \<and> \<not> a (sv_vip s) \<or> ?h \<in> opened \<or> \<not> l ?h")
    case True
    then show thesis by (intro skip) (auto simp: Let_def)
  next
    case False
    then show thesis by (intro serve[of ?h]) (auto simp: Let_def)
  qed
qed

lemma manage_open:
  "manageHostProxies a l self ss (running, opened) = (running', opened') \<Longrightarrow> ran running \<subseteq> opened \<Longrightarrow>
   opened \<subseteq> opened' \<and> ran running' \<subseteq> opened'"
proof (induction ss arbitrary: running opened)
  case (Cons s ss)
  show ?case
  proof (rule manage_Cons[of a l self s ss running opened])
    assume "manageHostProxies a l self (s # ss) (running, opened) = manageHostProxies a l self ss (running, opened)"
    with Cons show ?thesis by metis
  next
    fix h
    assume h: "manageHostProxies a l self (s # ss) (running, opened) =
           manageHostProxies a l self ss (running(sv_name s \<mapsto> h), insert h opened)"
    have "ran (running(sv_name s \<mapsto> h)) \<subseteq> insert h opened" using Cons.prems(2) by (auto simp: ran_def)
    from Cons.IH[OF h[symmetric, THEN trans, OF Cons.prems(1)] this] show ?thesis by blast
  qed
qed simp

text \<open>A service whose listener is taken is not served.\<close>

lemma manage_taken:
  "manageHostProxies a l self ss (running, opened) = (running', opened') \<Longrightarrow> running n = None \<Longrightarrow>
   \<forall>s \<in> set ss. sv_name s = n \<longrightarrow> listen_of (if sv_vip s = [] then self else sv_vip s) s \<in> opened \<Longrightarrow> running' n = None"
proof (induction ss arbitrary: running opened)
  case (Cons s ss)
  show ?case
  proof (rule manage_Cons[of a l self s ss running opened])
    assume "manageHostProxies a l self (s # ss) (running, opened) = manageHostProxies a l self ss (running, opened)"
    with Cons show ?thesis by (metis list.set_intros(2))
  next
    fix h
    assume h: "h = listen_of (if sv_vip s = [] then self else sv_vip s) s" "h \<notin> opened"
      "manageHostProxies a l self (s # ss) (running, opened) =
           manageHostProxies a l self ss (running(sv_name s \<mapsto> h), insert h opened)"
    have "sv_name s \<noteq> n" using Cons.prems(3) h(1,2) by auto
    then have "(running(sv_name s \<mapsto> h)) n = None" using Cons.prems(2) by simp
    moreover have "\<forall>x \<in> set ss. sv_name x = n \<longrightarrow> listen_of (if sv_vip x = [] then self else sv_vip x) x \<in> insert h opened"
      using Cons.prems(3) by simp
    ultimately show ?thesis using Cons.IH[OF h(3)[symmetric, THEN trans, OF Cons.prems(1)]] by blast
  qed
qed simp

lemma peer_loop_untranslated: "snd (snd (peer_loop addRoute useRelay selfIP svcs (r, None) ps)) = None"
proof (induction ps arbitrary: r)
  case (Cons p ps)
  obtain l where l: "xl_local None (pe_ip p) = (l, None)" by (simp add: xl_local_def)
  show ?case
  proof (cases "pe_ip p = selfIP \<or> pe_key p = [] \<or> PublicHexFromBase64 (pe_key p) = None")
    case True
    then show ?thesis using Cons.IH by auto
  next
    case False
    then obtain h where "PublicHexFromBase64 (pe_key p) = Some h" by auto
    with False l show ?thesis using Cons.IH by (simp add: Let_def case_prod_beta)
  qed
qed simp

text \<open>A refresh either ends early, with the hosted services as they were, or goes over the services shown.\<close>

lemma apply_lists_cases:
  obtains (refused) "ru_proxies (apply_lists ipcSet e cn ps svcs st) = ru_proxies st" "ru_open (apply_lists ipcSet e cn ps svcs st) = ru_open st"
    | (applied) t1 t2 shown where "xl_services t1 svcs = (shown, t2)" "ru_xlate st = None \<Longrightarrow> t1 = None"
        "manageHostProxies (tk_serviceIP e) (tk_listen e) (cn_device cn) shown (ru_proxies st, ru_open st) =
           (ru_proxies (apply_lists ipcSet e cn ps svcs st), ru_open (apply_lists ipcSet e cn ps svcs st))"
proof -
  obtain ws routed t where l: "peer_loop (tk_route e) (cn_relay cn) (cn_self cn) svcs (ru_routed st, ru_xlate st) ps = (ws, routed, t)"
    by (metis prod_cases3)
  obtain shownP t1 where p: "xl_peers t ps = (shownP, t1)" by fastforce
  obtain shown t2 where s: "xl_services t1 svcs = (shown, t2)" by fastforce
  obtain running opened where m: "manageHostProxies (tk_serviceIP e) (tk_listen e) (cn_device cn) shown (ru_proxies st, ru_open st) = (running, opened)"
    by fastforce
  have t1: "t1 = None" if "ru_xlate st = None"
    using peer_loop_untranslated[of "tk_route e" "cn_relay cn" "cn_self cn" svcs "ru_routed st" ps] l p that
    by (simp add: xl_peers_def xl_on_def)
  obtain ok d where sp: "SetPeers ipcSet ws (ru_device st) = (ok, d)" by fastforce
  show thesis
  proof (cases "peerSig ws \<noteq> ru_lastSig st \<and> \<not> ok")
    case True
    then show thesis using l sp by (intro refused) (simp_all add: apply_lists_def Let_def)
  next
    case False
    obtain hs t3 where h: "xl_handshakes (tk_states e) t2 (handshakeMap (tk_ipcGet e) (if peerSig ws \<noteq> ru_lastSig st then ws else ru_curPeers st)) = (hs, t3)"
      by fastforce
    have "ru_proxies (apply_lists ipcSet e cn ps svcs st) = running \<and> ru_open (apply_lists ipcSet e cn ps svcs st) = opened"
      using False l sp p s m h by (cases "peerSig ws = ru_lastSig st") (simp_all add: apply_lists_def Let_def)
    then show thesis using applied[OF s t1] m by simp
  qed
qed

lemma refresh_open:
  assumes "ran (ru_proxies st) \<subseteq> ru_open st"
  shows "ran (ru_proxies (refresh_all ipcSet cn ts st)) \<subseteq> ru_open (refresh_all ipcSet cn ts st)"
  using assms
proof (induction ts arbitrary: st)
  case (Cons t ts)
  obtain e ps svcs where t: "t = (e, ps, svcs)" by (cases t)
  have "ran (ru_proxies (apply_lists ipcSet e cn ps svcs st)) \<subseteq> ru_open (apply_lists ipcSet e cn ps svcs st)"
    by (rule apply_lists_cases[of ipcSet e cn ps svcs st]) (use Cons.prems manage_open in auto)
  with Cons.IH t show ?case by (simp add: refresh_all_def)
qed (simp add: refresh_all_def)

section \<open>Properties\<close>

lemma eng_Start_running: "eg_running eng \<Longrightarrow> eng_Start http e d opened cfg (eng, rs) w = ((Inl EngRunning, eng, rs), w)"
  by (simp add: eng_Start_def)

lemma eng_Start_cases:
  assumes "\<not> eg_running eng"
  obtains (early) err w' where "eng_Start http e d opened cfg (eng, rs) w =
        ((Inl err, fail (eng\<lparr>eg_cfg := Some (start_config cfg), eg_st := no_status\<rparr>) err, rs), w')"
    | (joined) cl res w' where "eng_Start http e d opened cfg (eng, rs) w =
        (start_device e d opened (start_config cfg) cl res (eng\<lparr>eg_cfg := Some (start_config cfg), eg_st := no_status\<rparr>, rs), w')"
proof (cases "NewClient (sa_sha e) (sa_parse e) (ec_Server (start_config cfg)) (ec_Pin (start_config cfg))")
  case (Inl err)
  then show thesis using assms by (intro early) (simp add: eng_Start_def Let_def)
next
  case (Inr cl)
  obtain r cl' w' where j: "Join http (sa_keypair e) (ec_Token (start_config cfg)) (ec_DeviceUUID (start_config cfg))
      (deviceName (sa_hostname e) (ec_Name (start_config cfg))) (start_endpoint (start_config cfg)) (cl, w) = (r, cl', w')"
    by (metis prod_cases3)
  show thesis
  proof (cases r)
    case (Inl err)
    then show thesis using assms Inr j by (intro early) (simp add: eng_Start_def Let_def)
  next
    case (Inr res)
    then show thesis using assms \<open>NewClient _ _ _ _ = _\<close> j by (intro joined) (simp add: eng_Start_def Let_def)
  qed
qed


text \<open>A refresh of a connection without translation keeps what is open and serves nothing whose listener is taken.\<close>

definition taken_in :: "hosted set \<Rightarrow> string \<Rightarrow> string \<Rightarrow> service list \<Rightarrow> bool" where
  "taken_in opened self n svcs \<longleftrightarrow>
     (\<forall>s \<in> set svcs. sv_name s = n \<longrightarrow> listen_of (if sv_vip s = [] then self else sv_vip s) s \<in> opened)"

lemma xl_services_None: "xl_services None svcs = (svcs, None)"
  by (simp add: xl_services_def xl_on_def)

lemma apply_lists_untranslated:
  assumes "ru_xlate st = None"
  shows "ru_xlate (apply_lists ipcSet e cn ps svcs st) = None"
proof -
  obtain ws routed where l: "peer_loop (tk_route e) (cn_relay cn) (cn_self cn) svcs (ru_routed st, ru_xlate st) ps = (ws, routed, None)"
    using assms peer_loop_untranslated[of "tk_route e" "cn_relay cn" "cn_self cn" svcs "ru_routed st" ps]
    by (metis prod.collapse)
  obtain ok d where sp: "SetPeers ipcSet ws (ru_device st) = (ok, d)" by fastforce
  show ?thesis using l sp
    by (cases ok) (simp_all add: apply_lists_def Let_def xl_services_None xl_peers_def xl_handshakes_def xl_on_def case_prod_beta)
qed

lemma apply_lists_taken:
  assumes "ru_xlate st = None" and "ran (ru_proxies st) \<subseteq> ru_open st" and "ru_proxies st n = None"
    and "taken_in (ru_open st) (cn_device cn) n svcs"
  shows "ru_proxies (apply_lists ipcSet e cn ps svcs st) n = None \<and> ru_open st \<subseteq> ru_open (apply_lists ipcSet e cn ps svcs st) \<and>
    ran (ru_proxies (apply_lists ipcSet e cn ps svcs st)) \<subseteq> ru_open (apply_lists ipcSet e cn ps svcs st)"
proof (rule apply_lists_cases[of ipcSet e cn ps svcs st])
  fix t1 t2 shown
  assume x: "xl_services t1 svcs = (shown, t2)" "ru_xlate st = None \<Longrightarrow> t1 = None"
    and m: "manageHostProxies (tk_serviceIP e) (tk_listen e) (cn_device cn) shown (ru_proxies st, ru_open st) =
      (ru_proxies (apply_lists ipcSet e cn ps svcs st), ru_open (apply_lists ipcSet e cn ps svcs st))"
  have "shown = svcs" using x assms(1) xl_services_None by simp
  then show ?thesis using manage_taken[OF m assms(3)] manage_open[OF m assms(2)] assms(4) by (simp add: taken_in_def)
qed (use assms in simp)

lemma refresh_taken:
  assumes "ru_xlate st = None" and "ran (ru_proxies st) \<subseteq> ru_open st" and "ru_proxies st n = None"
    and "\<forall>(e, ps, svcs) \<in> set ts. taken_in (ru_open st) (cn_device cn) n svcs"
  shows "ru_proxies (refresh_all ipcSet cn ts st) n = None"
  using assms
proof (induction ts arbitrary: st)
  case (Cons t ts)
  obtain e ps svcs where t: "t = (e, ps, svcs)" by (cases t)
  let ?st = "apply_lists ipcSet e cn ps svcs st"
  have k: "ru_proxies ?st n = None" "ru_open st \<subseteq> ru_open ?st" "ran (ru_proxies ?st) \<subseteq> ru_open ?st"
    using apply_lists_taken[OF Cons.prems(1-3)] Cons.prems(4) t by auto
  have "\<forall>(e, ps, svcs) \<in> set ts. taken_in (ru_open ?st) (cn_device cn) n svcs"
    using Cons.prems(4) k(2) unfolding taken_in_def by fastforce
  from Cons.IH[OF apply_lists_untranslated[OF Cons.prems(1)] k(3,1) this] show ?case by (simp add: refresh_all_def t)
qed (simp add: refresh_all_def)

text \<open>The listeners of hosted services outlive their connection. When a connection that served the service
  \<open>n\<close> ends, its listener stays open; a later connection without translation whose device is offered the
  service at the same address never serves it, however often it refreshes: listening fails every time.
\<close>

theorem hosted_listeners_outlive_the_connection:
  assumes st_def: "st = refresh_all ipcSet cn ts (run_start t d zone opened)" and "ru_proxies st n = Some h"
    and "\<forall>(e, ps, svcs) \<in> set ts'. \<forall>s \<in> set svcs. sv_name s = n \<longrightarrow> listen_of (if sv_vip s = [] then cn_device cn' else sv_vip s) s = h"
  shows "h \<in> ru_open (run_end sd st) \<and>
    ru_proxies (refresh_all ipcSet' cn' ts' (run_start None d' zone' (ru_open (run_end sd st)))) n = None"
proof -
  have "ran (ru_proxies st) \<subseteq> ru_open st" unfolding st_def by (rule refresh_open) (simp add: run_start_def)
  then have h: "h \<in> ru_open (run_end sd st)" using assms(2) by (auto simp: run_end_def ran_def)
  then have "\<forall>(e, ps, svcs) \<in> set ts'. taken_in (ru_open (run_end sd st)) (cn_device cn') n svcs"
    using assms(3) unfolding taken_in_def by fastforce
  then show ?thesis using h by (intro conjI refresh_taken) (simp_all add: run_start_def)
qed

section \<open>Witnesses\<close>

text \<open>A server that admits everybody.\<close>

definition demo_reg :: register_response where
  "demo_reg = \<lparr>rs_network = ''net'', rs_suffix = ''home'', rs_cidr = [], rs_ip = ''100.64.0.1'', rs_relay = [], rs_node_token = ''ab''\<rparr>"

definition demo_exchange :: "unit exchange" where
  "demo_exchange base path r w =
     (Some (200, [], Some (if path = ''/v1/register'' then enc_register_response demo_reg else enc_peers [])), w)"

definition demo_start_env :: start_env where
  "demo_start_env = \<lparr>sa_hostname = ''laptop'', sa_sha = (\<lambda>x. x), sa_parse = (\<lambda>x. None), sa_keypair = Some (''priv'', ''pub''),
     sa_adapter = (\<lambda>n. n = ''zwan-net''), sa_setip = (\<lambda>n ip. True), sa_ipcSet = (\<lambda>c. True), sa_up = True, sa_dns = (\<lambda>a. a = ''127.0.0.1:53'')\<rparr>"

definition demo_config :: eng_config where
  "demo_config = \<lparr>ec_Server = ''http://h'', ec_Pin = [], ec_Token = [], ec_DeviceUUID = ''laptop'', ec_Name = [], ec_UseRelay = False,
     ec_AdapterName = [], ec_WGPort = 0, ec_Endpoint = [], ec_DNSAddr = ''127.0.0.1:53'', ec_DNS = None, ec_ProductName = [],
     ec_LocalPrefix = [], ec_Alias = [], ec_Publish = []\<rparr>"

lemma demo_fresh: "machine_fresh demo_start_env {AdapterR ''zwan-other''}"
  by (simp add: machine_fresh_def demo_start_env_def)

lemma demo_NewClient: "isl (NewClient (sa_sha demo_start_env) (sa_parse demo_start_env) ''http://h'' []) = False"
  by code_simp

lemma demo_engine_start:
  "\<exists>sd eng' rs' w'. eng_Start demo_exchange demo_start_env () {} demo_config (eng_New, {AdapterR ''zwan-other''}) () = ((Inr sd, eng', rs'), w') \<and>
     es_DNSSuffix (eg_st eng') = ''home''"
proof -
  have "to_lower (trim_dots (trim_space [])) = []" by code_simp
  then have suffix: "start_suffix (start_config demo_config) demo_reg = ''home''"
    by (simp add: start_suffix_def start_config_def demo_config_def demo_reg_def)
  have cfg: "ec_Server (start_config demo_config) = ''http://h''" "ec_Pin (start_config demo_config) = []"
    "ec_UseRelay (start_config demo_config) = False" "ec_LocalPrefix (start_config demo_config) = []"
    by (simp_all add: start_config_def demo_config_def)
  obtain cl where cl: "NewClient (sa_sha demo_start_env) (sa_parse demo_start_env) ''http://h'' [] = Inr cl"
    using demo_NewClient by (cases "NewClient (sa_sha demo_start_env) (sa_parse demo_start_env) ''http://h'' []") auto
  have reg: "roundTrip demo_exchange c w m ''/v1/register'' b dec_register_response = (Inr demo_reg, w)" for c w m b
    by (simp add: roundTrip_def demo_exchange_def decode_def)
  have peers: "roundTrip demo_exchange c w m ''/v1/peers'' b dec_peers = (Inr [], w)" for c w m b
    by (simp add: roundTrip_def demo_exchange_def decode_def)
  have tok: "rs_node_token demo_reg \<noteq> []" "start_adapter (start_config demo_config) demo_reg = ''zwan-net''"
    by (simp_all add: demo_reg_def start_adapter_def start_config_def demo_config_def)
  have "\<exists>res cl'. Join demo_exchange (sa_keypair demo_start_env) tk u hn ep (cl, ()) = (Inr res, cl', ()) \<and> jr_register res = demo_reg \<and> jr_private res = ''priv''"
    for tk u hn ep
    by (simp add: Join_def demo_start_env_def client_register_def reg tok client_Peers_def client_do_def peers)
  then obtain res cl' where j: "Join demo_exchange (sa_keypair demo_start_env) (ec_Token (start_config demo_config))
      (ec_DeviceUUID (start_config demo_config)) (deviceName (sa_hostname demo_start_env) (ec_Name (start_config demo_config)))
      (start_endpoint (start_config demo_config)) (cl, ()) = (Inr res, cl', ())" "jr_register res = demo_reg" "jr_private res = ''priv''"
    by blast
  have up: "wg_Up (sa_ipcSet demo_start_env) (sa_up demo_start_env) k p = Inr ()" for k p
    by (simp add: wg_Up_def demo_start_env_def)
  have env: "sa_adapter demo_start_env ''zwan-net''" "sa_setip demo_start_env a b" for a b by (simp_all add: demo_start_env_def)
  have "\<exists>sd eng' rs'. start_device demo_start_env () {} (start_config demo_config) cl' res (eng, rs) = (Inr sd, eng', rs') \<and>
      es_DNSSuffix (eg_st eng') = ''home''" for eng rs
    by (simp add: start_device_def j tok env Let_def newTranslator_def cfg start_address_def start_tunnel_def up suffix split: prod.split)
  then show ?thesis by (simp add: eng_Start_def eng_New_def cfg cl j Let_def)
qed


definition demo_wiki :: service where
  "demo_wiki = \<lparr>sv_name = ''wiki'', sv_proto = ''tcp'', sv_port = 80, sv_backend = 8080, sv_node = ''100.64.0.1'', sv_vip = [], sv_allow = []\<rparr>"

definition demo_served :: "unit run_state" where
  "demo_served = refresh_all demo_ipcSet demo_connection [(demo_tick, [], [demo_wiki])] (run_start None () None {})"

lemma demo_listener: "listen_of (if sv_vip demo_wiki = [] then cn_device demo_connection else sv_vip demo_wiki) demo_wiki =
    HostedTCP ''100.64.0.1:80''"
  by code_simp

lemma demo_served_wiki: "ru_proxies demo_served ''wiki'' = Some (HostedTCP ''100.64.0.1:80'')"
proof -
  have m: "manageHostProxies (tk_serviceIP demo_tick) (tk_listen demo_tick) (cn_device demo_connection) [demo_wiki] (Map.empty, {}) =
      ([''wiki'' \<mapsto> HostedTCP ''100.64.0.1:80''], {HostedTCP ''100.64.0.1:80''})"
  proof -
    have "sv_node demo_wiki = cn_device demo_connection" "sv_backend demo_wiki = 8080" "sv_vip demo_wiki = []"
      "sv_name demo_wiki = ''wiki''" "tk_listen demo_tick h" for h
      by (simp_all add: demo_wiki_def demo_connection_def demo_tick_def)
    then show ?thesis using demo_listener by (simp add: Let_def)
  qed
  show ?thesis
    by (simp add: demo_served_def refresh_all_def apply_lists_def run_start_def peerSig_def Let_def xl_peers_def
        xl_services_None xl_handshakes_def xl_on_def m del: manageHostProxies.simps)
qed

theorem hosted_listeners_witness:
  "ru_proxies demo_served ''wiki'' \<noteq> None \<and>
   (\<forall>sd. ru_proxies (refresh_all demo_ipcSet demo_connection (replicate 3 (demo_tick, [], [demo_wiki]))
     (run_start None () None (ru_open (run_end sd demo_served)))) ''wiki'' = None)"
proof (intro conjI allI)
  show "ru_proxies demo_served ''wiki'' \<noteq> None" by (simp add: demo_served_wiki)
  fix sd :: "unit started"
  have "\<forall>(e, ps, svcs) \<in> set (replicate 3 (demo_tick, [] :: peer list, [demo_wiki])). \<forall>s \<in> set svcs. sv_name s = ''wiki'' \<longrightarrow>
      listen_of (if sv_vip s = [] then cn_device demo_connection else sv_vip s) s = HostedTCP ''100.64.0.1:80''"
    using demo_listener by (auto simp: if_split)
  from conjunct2[OF hosted_listeners_outlive_the_connection[OF demo_served_def demo_served_wiki this]]
  show "ru_proxies (refresh_all demo_ipcSet demo_connection (replicate 3 (demo_tick, [], [demo_wiki]))
      (run_start None () None (ru_open (run_end sd demo_served)))) ''wiki'' = None" .
qed

end
