(* ===== verification/Manager.thy ===== *)
theory Manager
  imports LocalPool Profile Engine Nrpt
begin

text \<open>
  The networks of one device (\<open>client/manager/manager.go\<close>). Every operation is a sequence of sections that
  hold the mutex, with the engine's start and stop and the writing of the list between them; a section is one
  definition here, and what an operation does between two sections is a \<open>job\<close>. An engine is named by the
  number it was made with.
\<close>

record entry =
  en_eng :: "nat option"
  en_port :: nat
  en_prefix :: prefix

record manager =
  mg_cfg :: mg_config
  mg_dns :: "resolver option"
  mg_nets :: "(string, entry) gomap"
  mg_saved :: "joined list"
  mg_bind :: "nrpt_binder option"

definition manager_New :: "mg_config \<Rightarrow> manager" where
  "manager_New cfg =
     (let cfg = (if mc_BasePort cfg = 0 then cfg\<lparr>mc_BasePort := DefaultBasePort\<rparr> else cfg);
          cfg = (if mc_ProductName cfg = [] then cfg\<lparr>mc_ProductName := ''zwan''\<rparr> else cfg);
          cfg = (if mc_LocalPool cfg = [] then cfg\<lparr>mc_LocalPool := DefaultLocalPool\<rparr> else cfg);
          cfg = (if mc_LocalBits cfg = 0 then cfg\<lparr>mc_LocalBits := DefaultLocalBits\<rparr> else cfg)
      in \<lparr>mg_cfg = cfg, mg_dns = None, mg_nets = [], mg_saved = [], mg_bind = None\<rparr>)"

text \<open>\<open>supported\<close>: whether the system has a name resolution policy.\<close>

definition startBindingLocked :: "bool \<Rightarrow> manager \<Rightarrow> manager" where
  "startBindingLocked supported m =
     (if mg_bind m \<noteq> None then m
      else if \<not> supported then m
      else (case nrpt_New (mc_DNSAddr (mg_cfg m)) of Inl err \<Rightarrow> m | Inr b \<Rightarrow> m\<lparr>mg_bind := Some b\<rparr>))"

text \<open>The section of \<open>Start\<close>, and the networks that are connected after it.\<close>

definition manager_Start :: "(string \<Rightarrow> bool) \<Rightarrow> bool \<Rightarrow> load_error + joined list \<Rightarrow> manager \<Rightarrow> manager \<times> joined list" where
  "manager_Start listens supported loaded m =
     (let m1 = (if mc_DNSAddr (mg_cfg m) \<noteq> [] \<and> mg_dns m = None
                then (if listens (mc_DNSAddr (mg_cfg m))
                      then startBindingLocked supported (m\<lparr>mg_dns := Some resolver_New\<rparr>) else m)
                else m);
          saved = (case loaded of Inl err \<Rightarrow> [] | Inr ns \<Rightarrow> ns)
      in (m1\<lparr>mg_saved := saved\<rparr>, filter jn_auto saved))"

section \<open>The sections of the operations\<close>

definition connect_begin :: "manager \<Rightarrow> joined \<Rightarrow> profile_error + joined \<times> entry option \<times> manager" where
  "connect_begin m n0 =
     (let n = n0\<lparr>jn_alias := NormalizeAlias (jn_alias n0), jn_publish := NormalizePublish (jn_publish n0)\<rparr> in
      case Validate n of
        Some err \<Rightarrow> Inl err
      | None \<Rightarrow>
          (let n = n\<lparr>jn_auto := True\<rparr> in
           Inr (n, map_of (mg_nets m) (jn_alias n), m\<lparr>mg_nets := AList.delete (jn_alias n) (mg_nets m)\<rparr>)))"

definition reserve :: "(nat \<Rightarrow> bool) \<Rightarrow> manager \<Rightarrow> nat \<times> (pool_error + prefix)" where
  "reserve udpFree m =
     (freePortLocked (mg_cfg m) ((\<lambda>x. en_port (snd x)) ` set (mg_nets m)) udpFree,
      freePrefixLocked (mg_cfg m) ((\<lambda>x. en_prefix (snd x)) ` set (mg_nets m)))"

definition zoneOf :: "resolver option \<Rightarrow> resolver option" where
  "zoneOf r = (case r of None \<Rightarrow> None | Some r \<Rightarrow> Some r)"

definition network_config :: "mg_config \<Rightarrow> joined \<Rightarrow> nat \<Rightarrow> prefix \<Rightarrow> resolver option \<Rightarrow> eng_config" where
  "network_config cfg n port p dns =
     \<lparr>ec_Server = jn_server n, ec_Pin = jn_pin n, ec_Token = jn_token n, ec_DeviceUUID = mc_DeviceUUID cfg, ec_Name = jn_name n,
      ec_UseRelay = jn_relay n, ec_AdapterName = mc_ProductName cfg @ ''-'' @ jn_alias n, ec_WGPort = port, ec_Endpoint = [],
      ec_DNSAddr = [], ec_DNS = zoneOf dns, ec_ProductName = mc_ProductName cfg, ec_LocalPrefix = prefixString p,
      ec_Alias = jn_alias n, ec_Publish = jn_publish n\<rparr>"

definition connect_commit :: "joined \<Rightarrow> entry \<Rightarrow> manager \<Rightarrow> manager" where
  "connect_commit n e m = m\<lparr>mg_nets := AList.update (jn_alias n) e (mg_nets m)\<rparr>"

fun replace_network :: "joined \<Rightarrow> joined list \<Rightarrow> joined list" where
  "replace_network n [] = [n]"
| "replace_network n (s # ss) = (if jn_alias s = jn_alias n then n # ss else s # replace_network n ss)"

definition remember :: "joined \<Rightarrow> manager \<Rightarrow> manager" where
  "remember n m = m\<lparr>mg_saved := replace_network n (mg_saved m)\<rparr>"

definition disconnect_begin :: "string \<Rightarrow> manager \<Rightarrow> entry option \<times> manager" where
  "disconnect_begin alias m = (map_of (mg_nets m) alias, m\<lparr>mg_nets := AList.delete alias (mg_nets m)\<rparr>)"

definition disconnect_end :: "string \<Rightarrow> manager \<Rightarrow> manager" where
  "disconnect_end alias m = m\<lparr>mg_saved := map (\<lambda>n. if jn_alias n = alias then n\<lparr>jn_auto := False\<rparr> else n) (mg_saved m)\<rparr>"

definition forget_end :: "string \<Rightarrow> manager \<Rightarrow> manager" where
  "forget_end alias m = m\<lparr>mg_saved := filter (\<lambda>n. jn_alias n \<noteq> alias) (mg_saved m)\<rparr>"

definition stop_begin :: "manager \<Rightarrow> entry list \<times> manager" where
  "stop_begin m = (map snd (mg_nets m), m\<lparr>mg_nets := [], mg_dns := None, mg_bind := None\<rparr>)"

section \<open>Operations as interleaved sections\<close>

text \<open>
  What a running operation does next. \<open>Leaving\<close> and \<open>Saving\<close> carry the alias to forget when the disconnect
  is part of \<open>Forget\<close>.
\<close>

datatype job =
    Replacing joined entry
  | Starting joined nat prefix "resolver option"
  | Started joined entry
  | Remembering joined
  | Leaving string "entry option" "string option"
  | Saving "joined list" "string option"
  | Forgetting string
  | Halting "entry list"

datatype call = CallConnect joined | CallDisconnect string | CallForget string | CallStop

record world =
  wo_mgr :: manager
  wo_jobs :: "job list"
  wo_live :: "nat \<rightharpoonup> eng_config"
  wo_next :: nat
  wo_file :: state_file

record world_env =
  we_udpFree :: "nat \<Rightarrow> bool"
  we_start :: "eng_config \<Rightarrow> bool"
  we_path :: bool
  we_write :: bool

definition world_New :: "mg_config \<Rightarrow> state_file \<Rightarrow> world" where
  "world_New cfg f = \<lparr>wo_mgr = manager_New cfg, wo_jobs = [], wo_live = Map.empty, wo_next = 0, wo_file = f\<rparr>"

definition stop_entry :: "entry \<Rightarrow> (nat \<rightharpoonup> eng_config) \<Rightarrow> nat \<rightharpoonup> eng_config" where
  "stop_entry e live = (case en_eng e of None \<Rightarrow> live | Some k \<Rightarrow> live(k := None))"

text \<open>Choosing a port and a slice; none is the panic of an IPv6 pool.\<close>

definition reserve_job :: "world_env \<Rightarrow> joined \<Rightarrow> manager \<Rightarrow> job option" where
  "reserve_job e n m =
     (case reserve (we_udpFree e) m of
        (port, Inl err) \<Rightarrow> if err = PoolPanic then None else Some (Remembering n)
      | (port, Inr p) \<Rightarrow> Some (Starting n port p (mg_dns m)))"

definition spawn :: "job \<Rightarrow> world \<Rightarrow> world" where
  "spawn j w = w\<lparr>wo_jobs := wo_jobs w @ [j]\<rparr>"

fun begin_call :: "world_env \<Rightarrow> call \<Rightarrow> world \<Rightarrow> world option" where
  "begin_call e (CallConnect n) w =
     (case connect_begin (wo_mgr w) n of
        Inl err \<Rightarrow> Some w
      | Inr (n', Some prev, m) \<Rightarrow> Some (spawn (Replacing n' prev) (w\<lparr>wo_mgr := m\<rparr>))
      | Inr (n', None, m) \<Rightarrow> map_option (\<lambda>j. spawn j (w\<lparr>wo_mgr := m\<rparr>)) (reserve_job e n' m))"
| "begin_call e (CallDisconnect alias) w =
     (case disconnect_begin (NormalizeAlias alias) (wo_mgr w) of
        (prev, m) \<Rightarrow> Some (spawn (Leaving (NormalizeAlias alias) prev None) (w\<lparr>wo_mgr := m\<rparr>)))"
| "begin_call e (CallForget alias) w =
     (case disconnect_begin (NormalizeAlias (NormalizeAlias alias)) (wo_mgr w) of
        (prev, m) \<Rightarrow> Some (spawn (Leaving (NormalizeAlias (NormalizeAlias alias)) prev (Some (NormalizeAlias alias))) (w\<lparr>wo_mgr := m\<rparr>)))"
| "begin_call e CallStop w = (case stop_begin (wo_mgr w) of (es, m) \<Rightarrow> Some (spawn (Halting es) (w\<lparr>wo_mgr := m\<rparr>)))"

fun work :: "world_env \<Rightarrow> job \<Rightarrow> world \<Rightarrow> world option" where
  "work e (Replacing n prev) w =
     map_option (\<lambda>j. spawn j (w\<lparr>wo_live := stop_entry prev (wo_live w)\<rparr>)) (reserve_job e n (wo_mgr w))"
| "work e (Starting n port p dns) w =
     (let cfg = network_config (mg_cfg (wo_mgr w)) n port p dns in
      Some (if \<not> we_start e cfg then spawn (Remembering n) w
            else spawn (Started n \<lparr>en_eng = Some (wo_next w), en_port = port, en_prefix = p\<rparr>)
                   (w\<lparr>wo_live := (wo_live w)(wo_next w \<mapsto> cfg), wo_next := wo_next w + 1\<rparr>)))"
| "work e (Started n en) w = Some (spawn (Remembering n) (w\<lparr>wo_mgr := connect_commit n en (wo_mgr w)\<rparr>))"
| "work e (Remembering n) w =
     (let m = remember n (wo_mgr w) in Some (spawn (Saving (mg_saved m) None) (w\<lparr>wo_mgr := m\<rparr>)))"
| "work e (Leaving alias prev k) w =
     (let m = disconnect_end alias (wo_mgr w) in
      Some (spawn (Saving (mg_saved m) k)
        (w\<lparr>wo_mgr := m, wo_live := (case prev of None \<Rightarrow> wo_live w | Some en \<Rightarrow> stop_entry en (wo_live w))\<rparr>)))"
| "work e (Saving ns k) w =
     (let w' = w\<lparr>wo_file := snd (SaveNetworks (we_path e) (we_write e) ns (wo_file w))\<rparr> in
      Some (case k of None \<Rightarrow> w' | Some alias \<Rightarrow> spawn (Forgetting alias) w'))"
| "work e (Forgetting alias) w =
     (let m = forget_end alias (wo_mgr w) in Some (spawn (Saving (mg_saved m) None) (w\<lparr>wo_mgr := m\<rparr>)))"
| "work e (Halting es) w = Some (w\<lparr>wo_live := foldl (\<lambda>l en. stop_entry en l) (wo_live w) es\<rparr>)"

text \<open>
  \<open>Start\<close>: its section, with the list of networks read from the file as it is. The connects it makes afterwards,
  of the networks that ask for it, are calls like any other.
\<close>

definition begin_start :: "(string \<Rightarrow> bool) \<Rightarrow> bool \<Rightarrow> bool \<Rightarrow> world \<Rightarrow> world" where
  "begin_start listens supported pathOk w =
     w\<lparr>wo_mgr := fst (manager_Start listens supported (LoadNetworks pathOk (wo_file w)) (wo_mgr w))\<rparr>"

text \<open>Calls at any time, in any interleaving; and one call after the other.\<close>

inductive mg_step :: "world \<Rightarrow> world \<Rightarrow> bool" where
  start: "mg_step w (begin_start listens supported pathOk w)"
| call: "begin_call e c w = Some w' \<Longrightarrow> mg_step w w'"
| work: "i < length (wo_jobs w) \<Longrightarrow>
    work e (wo_jobs w ! i) (w\<lparr>wo_jobs := take i (wo_jobs w) @ drop (Suc i) (wo_jobs w)\<rparr>) = Some w' \<Longrightarrow> mg_step w w'"

inductive mg_seq :: "world \<Rightarrow> world \<Rightarrow> bool" where
  start: "wo_jobs w = [] \<Longrightarrow> mg_seq w (begin_start listens supported pathOk w)"
| call: "wo_jobs w = [] \<Longrightarrow> begin_call e c w = Some w' \<Longrightarrow> mg_seq w w'"
| work: "wo_jobs w = [j] \<Longrightarrow> work e j (w\<lparr>wo_jobs := []\<rparr>) = Some w' \<Longrightarrow> mg_seq w w'"

inductive_cases mg_seqE: "mg_seq w w'"

section \<open>Networks are kept apart\<close>

text \<open>What an entry holds, and that two entries have nothing in common.\<close>

definition entry_ok :: "mg_config \<Rightarrow> entry \<Rightarrow> bool" where
  "entry_ok cfg e \<longleftrightarrow> en_eng e \<noteq> None \<and>
     (en_port e = 0 \<or> mc_BasePort cfg \<le> en_port e \<and> en_port e < mc_BasePort cfg + 64) \<and>
     (case pool_of cfg of None \<Rightarrow> True
      | Some (base, pb) \<Rightarrow> mc_NoTranslate cfg \<or> (\<exists>i < 2 ^ (mc_LocalBits cfg - pb). en_prefix e = pool_slice base (mc_LocalBits cfg) i))"

definition apart :: "mg_config \<Rightarrow> entry \<Rightarrow> entry \<Rightarrow> bool" where
  "apart cfg e f \<longleftrightarrow> en_eng e \<noteq> en_eng f \<and> (en_port e = en_port f \<longrightarrow> en_port e = 0) \<and>
     (mc_NoTranslate cfg \<or> pool_of cfg = None \<or> en_prefix e \<noteq> en_prefix f)"

definition apart_from :: "mg_config \<Rightarrow> string \<Rightarrow> entry \<Rightarrow> (string, entry) gomap \<Rightarrow> bool" where
  "apart_from cfg a e nets \<longleftrightarrow> (\<forall>b f. b \<noteq> a \<longrightarrow> map_of nets b = Some f \<longrightarrow> apart cfg e f)"

definition nets_ok :: "mg_config \<Rightarrow> (string, entry) gomap \<Rightarrow> bool" where
  "nets_ok cfg nets \<longleftrightarrow> gomap_ok nets \<and> (\<forall>a e. map_of nets a = Some e \<longrightarrow> entry_ok cfg e \<and> apart_from cfg a e nets)"

definition engines :: "(string, entry) gomap \<Rightarrow> nat set" where
  "engines nets = {k. \<exists>a e. map_of nets a = Some e \<and> en_eng e = Some k}"

lemma apart_sym: "apart cfg e f \<longleftrightarrow> apart cfg f e"
  by (auto simp: apart_def)

lemma nets_okD:
  assumes "nets_ok cfg nets" and "map_of nets a = Some e"
  shows "entry_ok cfg e" and "map_of nets b = Some f \<Longrightarrow> b \<noteq> a \<Longrightarrow> apart cfg e f"
  using assms by (simp_all add: nets_ok_def apart_from_def)

lemma nets_ok_update [inv_intros]:
  assumes "nets_ok cfg nets" and "entry_ok cfg e" and "apart_from cfg a e nets"
  shows "nets_ok cfg (AList.update a e nets)"
  using assms by (auto simp: nets_ok_def apart_from_def apart_sym)

lemma nets_ok_delete [inv_intros]: "nets_ok cfg nets \<Longrightarrow> nets_ok cfg (AList.delete a nets)"
  by (auto simp: nets_ok_def apart_from_def)

lemma nets_ok_Nil [simp]: "nets_ok cfg []"
  by (simp add: nets_ok_def)

lemma engines_Nil [simp]: "engines [] = {}"
  by (simp add: engines_def)

lemma engines_update:
  assumes "map_of nets a = None"
  shows "engines (AList.update a e nets) = set_option (en_eng e) \<union> engines nets"
proof (intro set_eqI iffI)
  fix k
  assume "k \<in> set_option (en_eng e) \<union> engines nets"
  then consider "en_eng e = Some k" | b f where "map_of nets b = Some f" "en_eng f = Some k" by (auto simp: engines_def)
  then show "k \<in> engines (AList.update a e nets)"
  proof cases
    case 1
    then have "map_of (AList.update a e nets) a = Some e \<and> en_eng e = Some k" by simp
    then show ?thesis unfolding engines_def by blast
  next
    case 2
    then have "map_of (AList.update a e nets) b = Some f \<and> en_eng f = Some k" using assms by auto
    then show ?thesis unfolding engines_def by blast
  qed
qed (auto simp: engines_def split: if_splits)

lemma engines_delete:
  assumes "nets_ok cfg nets"
  shows "engines nets = engines (AList.delete a nets) \<union> (case map_of nets a of None \<Rightarrow> {} | Some e \<Rightarrow> set_option (en_eng e))"
    and "engines (AList.delete a nets) \<inter> (case map_of nets a of None \<Rightarrow> {} | Some e \<Rightarrow> set_option (en_eng e)) = {}"
proof -
  show "engines nets = engines (AList.delete a nets) \<union> (case map_of nets a of None \<Rightarrow> {} | Some e \<Rightarrow> set_option (en_eng e))"
  proof (intro set_eqI iffI)
    fix k
    assume "k \<in> engines nets"
    then obtain b f where f: "map_of nets b = Some f" "en_eng f = Some k" by (auto simp: engines_def)
    then show "k \<in> engines (AList.delete a nets) \<union> (case map_of nets a of None \<Rightarrow> {} | Some e \<Rightarrow> set_option (en_eng e))"
      by (cases "b = a") (auto simp: engines_def)
  qed (auto simp: engines_def split: option.splits if_splits)
  show "engines (AList.delete a nets) \<inter> (case map_of nets a of None \<Rightarrow> {} | Some e \<Rightarrow> set_option (en_eng e)) = {}"
  proof (cases "map_of nets a")
    case (Some e)
    have "en_eng f \<noteq> en_eng e" if "b \<noteq> a" "map_of nets b = Some f" for b f
    proof -
      have "apart cfg e f" using assms Some that unfolding nets_ok_def apart_from_def by blast
      then show ?thesis by (auto simp: apart_def)
    qed
    then show ?thesis using Some by (auto simp: engines_def split: if_splits)
  qed simp
qed

text \<open>The engines a job still has to stop or to put down, and what a job knows.\<close>

fun job_engines :: "job \<Rightarrow> nat set" where
  "job_engines (Replacing n e) = set_option (en_eng e)"
| "job_engines (Started n e) = set_option (en_eng e)"
| "job_engines (Leaving a (Some e) k) = set_option (en_eng e)"
| "job_engines (Halting es) = (\<Union>e \<in> set es. set_option (en_eng e))"
| "job_engines _ = {}"

text \<open>An entry that takes these is apart from all others, whichever engine it gets.\<close>

definition free_for :: "mg_config \<Rightarrow> nat \<Rightarrow> prefix \<Rightarrow> (string, entry) gomap \<Rightarrow> bool" where
  "free_for cfg port p nets \<longleftrightarrow>
     (\<forall>k. k \<notin> engines nets \<longrightarrow> entry_ok cfg \<lparr>en_eng = Some k, en_port = port, en_prefix = p\<rparr> \<and>
        (\<forall>a f. map_of nets a = Some f \<longrightarrow> apart cfg \<lparr>en_eng = Some k, en_port = port, en_prefix = p\<rparr> f))"

fun job_ok :: "manager \<Rightarrow> job \<Rightarrow> bool" where
  "job_ok m (Replacing n e) = (map_of (mg_nets m) (jn_alias n) = None)"
| "job_ok m (Starting n port p dns) = (map_of (mg_nets m) (jn_alias n) = None \<and> free_for (mg_cfg m) port p (mg_nets m))"
| "job_ok m (Started n e) = (map_of (mg_nets m) (jn_alias n) = None \<and> entry_ok (mg_cfg m) e \<and>
     (\<forall>a f. map_of (mg_nets m) a = Some f \<longrightarrow> apart (mg_cfg m) e f))"
| "job_ok m _ = True"

definition seq_ok :: "mg_config \<Rightarrow> world \<Rightarrow> bool" where
  "seq_ok cfg w \<longleftrightarrow> mg_cfg (wo_mgr w) = cfg \<and> nets_ok cfg (mg_nets (wo_mgr w)) \<and>
     (\<forall>k y. wo_live w k = Some y \<longrightarrow> k < wo_next w) \<and>
     (case wo_jobs w of
        [] \<Rightarrow> dom (wo_live w) = engines (mg_nets (wo_mgr w))
      | [j] \<Rightarrow> dom (wo_live w) = engines (mg_nets (wo_mgr w)) \<union> job_engines j \<and>
          engines (mg_nets (wo_mgr w)) \<inter> job_engines j = {} \<and> job_ok (wo_mgr w) j
      | _ \<Rightarrow> False)"

lemma reserve_free:
  assumes "nets_ok (mg_cfg m) (mg_nets m)" and "0 < mc_BasePort (mg_cfg m)" and "reserve udpFree m = (port, Inr p)"
  shows "free_for (mg_cfg m) port p (mg_nets m)"
proof -
  let ?cfg = "mg_cfg m" and ?nets = "mg_nets m"
  have port: "freePortLocked ?cfg ((\<lambda>x. en_port (snd x)) ` set ?nets) udpFree = port"
    and pre: "freePrefixLocked ?cfg ((\<lambda>x. en_prefix (snd x)) ` set ?nets) = Inr p"
    using assms(3) by (simp_all add: reserve_def)
  have held: "en_port f \<in> (\<lambda>x. en_port (snd x)) ` set ?nets \<and> en_prefix f \<in> (\<lambda>x. en_prefix (snd x)) ` set ?nets"
    if "map_of ?nets a = Some f" for a f using map_of_SomeD[OF that] by force
  have p: "port = 0 \<or> mc_BasePort ?cfg \<le> port \<and> port < mc_BasePort ?cfg + 64 \<and> port \<notin> (\<lambda>x. en_port (snd x)) ` set ?nets"
    using freePort_spec[OF port _ assms(2)] by blast
  have q: "p \<notin> (\<lambda>x. en_prefix (snd x)) ` set ?nets \<and> (\<exists>i < 2 ^ (mc_LocalBits ?cfg - pb). p = pool_slice base (mc_LocalBits ?cfg) i)"
    if "\<not> mc_NoTranslate ?cfg" "pool_of ?cfg = Some (base, pb)" for base pb
    by (rule freePrefix_Inr[OF that pre])
  show ?thesis unfolding free_for_def
  proof (intro allI impI conjI)
    fix k
    assume k: "k \<notin> engines ?nets"
    show "entry_ok ?cfg \<lparr>en_eng = Some k, en_port = port, en_prefix = p\<rparr>"
      using p q by (auto simp: entry_ok_def split: option.splits)
    fix a f
    assume f: "map_of ?nets a = Some f"
    then have "en_eng f \<noteq> Some k" using k by (auto simp: engines_def)
    moreover have "en_port f = port \<longrightarrow> port = 0" using p held[OF f] by auto
    moreover have "mc_NoTranslate ?cfg \<or> pool_of ?cfg = None \<or> p \<noteq> en_prefix f" using q held[OF f] by auto
    ultimately show "apart ?cfg \<lparr>en_eng = Some k, en_port = port, en_prefix = p\<rparr> f" by (auto simp: apart_def)
  qed
qed

lemma reserve_job_ok:
  assumes "nets_ok (mg_cfg m) (mg_nets m)" and "0 < mc_BasePort (mg_cfg m)" and "reserve_job e n m = Some j"
    and "map_of (mg_nets m) (jn_alias n) = None"
  shows "job_ok m j \<and> job_engines j = {}"
  using assms reserve_free[OF assms(1,2)] by (auto simp: reserve_job_def split: prod.splits sum.splits if_splits)

lemma stop_entry_dom [simp]: "dom (stop_entry e live) = dom live - set_option (en_eng e)"
  by (auto simp: stop_entry_def split: option.splits)

lemma stop_entry_Some: "stop_entry e live k = Some y \<Longrightarrow> live k = Some y"
  by (auto simp: stop_entry_def split: option.splits if_splits)

lemma stop_all_Some: "foldl (\<lambda>l en. stop_entry en l) live es k = Some y \<Longrightarrow> live k = Some y"
  by (induction es arbitrary: live) (auto dest: stop_entry_Some)

lemma stop_all_dom: "dom (foldl (\<lambda>l en. stop_entry en l) live es) = dom live - (\<Union>e \<in> set es. set_option (en_eng e))"
  by (induction es arbitrary: live) auto

lemma engines_stop: "gomap_ok nets \<Longrightarrow> (\<Union>e \<in> set (map snd nets). set_option (en_eng e)) = engines nets"
  by (force simp: engines_def gomap_in_iff[symmetric])

lemma seq_ok_call:
  assumes "seq_ok cfg w" and "0 < mc_BasePort cfg" and "wo_jobs w = []" and "begin_call e c w = Some w'"
  shows "seq_ok cfg w'"
proof -
  let ?m = "wo_mgr w"
  let ?nets = "mg_nets ?m"
  have cfg: "mg_cfg ?m = cfg" and nets: "nets_ok cfg ?nets" and live: "dom (wo_live w) = engines ?nets"
    and nxt: "\<forall>k y. wo_live w k = Some y \<longrightarrow> k < wo_next w"
    using assms(1,3) by (auto simp: seq_ok_def)
  have del: "nets_ok cfg (AList.delete a ?nets)" for a by (rule nets_ok_delete[OF nets])
  have leave: "seq_ok cfg (spawn (Leaving a (map_of ?nets a) k) (w\<lparr>wo_mgr := ?m\<lparr>mg_nets := AList.delete a ?nets\<rparr>\<rparr>))" for a k
    using engines_delete[OF nets, of a] assms(3) cfg del live nxt
    by (cases "map_of ?nets a") (simp_all add: seq_ok_def spawn_def)
  show ?thesis
  proof (cases c)
    case (CallConnect n0)
    show ?thesis
    proof (cases "connect_begin ?m n0")
      case (Inl err)
      then show ?thesis using CallConnect assms by simp
    next
      case (Inr r)
      obtain n prev m where r: "r = (n, prev, m)" by (cases r)
      have b: "prev = map_of ?nets (jn_alias n)" "m = ?m\<lparr>mg_nets := AList.delete (jn_alias n) ?nets\<rparr>"
        using Inr r by (auto simp: connect_begin_def Let_def split: option.splits)
      have free: "map_of (mg_nets m) (jn_alias n) = None" "mg_cfg m = cfg" "nets_ok (mg_cfg m) (mg_nets m)" using b cfg del by simp_all
      show ?thesis
      proof (cases prev)
        case None
        then obtain j where j: "reserve_job e n m = Some j" "w' = spawn j (w\<lparr>wo_mgr := m\<rparr>)"
          using assms(4) CallConnect Inr r by auto
        have k: "job_ok m j \<and> job_engines j = {}" by (rule reserve_job_ok[OF free(3) _ j(1) free(1)]) (use free(2) assms(2) in simp)
        have "engines (mg_nets m) = engines ?nets" using engines_delete(1)[OF nets, of "jn_alias n"] None b by simp
        then show ?thesis using k free live nxt assms(3) unfolding j(2) by (simp add: seq_ok_def spawn_def)
      next
        case (Some en)
        then have w': "w' = spawn (Replacing n en) (w\<lparr>wo_mgr := m\<rparr>)" using assms(4) CallConnect Inr r by simp
        show ?thesis using engines_delete[OF nets, of "jn_alias n"] Some b free live nxt assms(3)
          unfolding w' by (simp add: seq_ok_def spawn_def)
      qed
    qed
  next
    case CallStop
    have "gomap_ok ?nets" using nets by (simp add: nets_ok_def)
    from engines_stop[OF this] show ?thesis using assms(3,4) CallStop cfg live nxt
      by (auto simp: stop_begin_def seq_ok_def spawn_def)
  qed (use assms(4) leave in \<open>auto simp: disconnect_begin_def\<close>)
qed

lemma seq_ok_work:
  assumes "seq_ok cfg w" and "0 < mc_BasePort cfg" and "wo_jobs w = [j]" and "work e j (w\<lparr>wo_jobs := []\<rparr>) = Some w'"
  shows "seq_ok cfg w'"
proof -
  let ?m = "wo_mgr w"
  let ?nets = "mg_nets ?m"
  have cfg: "mg_cfg ?m = cfg" and nets: "nets_ok cfg ?nets" and live: "dom (wo_live w) = engines ?nets \<union> job_engines j"
    and dis: "engines ?nets \<inter> job_engines j = {}" and jok: "job_ok ?m j" and nxt: "\<forall>k y. wo_live w k = Some y \<longrightarrow> k < wo_next w"
    using assms(1,3) by (auto simp: seq_ok_def)
  show ?thesis
  proof (cases j)
    case (Replacing n prev)
    then obtain j' where j': "reserve_job e n ?m = Some j'"
        "w' = spawn j' (w\<lparr>wo_jobs := [], wo_live := stop_entry prev (wo_live w)\<rparr>)"
      using assms(4) by auto
    have "job_ok ?m j' \<and> job_engines j' = {}"
      by (rule reserve_job_ok[OF _ _ j'(1)]) (use nets cfg assms(2) jok Replacing in simp_all)
    moreover have "dom (stop_entry prev (wo_live w)) = engines ?nets" using live dis Replacing by auto
    ultimately show ?thesis using cfg nets nxt unfolding j'(2) by (auto simp: seq_ok_def spawn_def dest: stop_entry_Some)
  next
    case (Starting n port p dns)
    have fresh: "wo_next w \<notin> engines ?nets" using live nxt by auto
    have "entry_ok cfg \<lparr>en_eng = Some (wo_next w), en_port = port, en_prefix = p\<rparr>"
      "\<forall>a f. map_of ?nets a = Some f \<longrightarrow> apart cfg \<lparr>en_eng = Some (wo_next w), en_port = port, en_prefix = p\<rparr> f"
      using jok Starting cfg fresh by (auto simp: free_for_def)
    moreover have "\<forall>k y. wo_live w k = Some y \<longrightarrow> k < Suc (wo_next w)" using nxt less_SucI by blast
    ultimately show ?thesis using assms(4) Starting cfg nets live dis jok fresh nxt
      by (cases "we_start e (network_config cfg n port p dns)") (auto simp: seq_ok_def spawn_def Let_def)
  next
    case (Started n en)
    have free: "map_of ?nets (jn_alias n) = None" using jok Started by simp
    have "nets_ok cfg (AList.update (jn_alias n) en ?nets)"
      by (rule nets_ok_update[OF nets]) (use jok Started cfg in \<open>auto simp: apart_from_def\<close>)
    then show ?thesis using assms(4) Started cfg live nxt engines_update[OF free, of en]
      by (auto simp: seq_ok_def spawn_def connect_commit_def)
  next
    case (Leaving a prev k)
    then show ?thesis using assms(4) cfg nets live dis nxt
      by (cases prev) (auto simp: seq_ok_def spawn_def disconnect_end_def Let_def dest!: stop_entry_Some)
  next
    case (Halting es)
    have "dom (foldl (\<lambda>l en. stop_entry en l) (wo_live w) es) = engines ?nets"
      unfolding stop_all_dom using live dis Halting by auto
    then show ?thesis using assms(4) Halting cfg nets nxt live by (auto simp: seq_ok_def dest!: stop_all_Some)
  qed (use assms(4) cfg nets live nxt in \<open>auto simp: seq_ok_def spawn_def remember_def forget_end_def Let_def split: option.splits\<close>)
qed

lemma Start_keeps:
  "mg_cfg (fst (manager_Start listens supported loaded m)) = mg_cfg m \<and> mg_nets (fst (manager_Start listens supported loaded m)) = mg_nets m"
  by (simp add: manager_Start_def startBindingLocked_def Let_def split: sum.splits)

lemma seq_ok_start: "seq_ok cfg w \<Longrightarrow> wo_jobs w = [] \<Longrightarrow> seq_ok cfg (begin_start listens supported pathOk w)"
  by (simp add: seq_ok_def begin_start_def Start_keeps)

interpretation sequential: step_invariant mg_seq "\<lambda>w. seq_ok cfg w \<and> 0 < mc_BasePort cfg" for cfg
proof
  fix w w'
  assume ok: "seq_ok cfg w \<and> 0 < mc_BasePort cfg" and "mg_seq w w'"
  from this(2) show "seq_ok cfg w' \<and> 0 < mc_BasePort cfg"
    by cases (use ok seq_ok_start seq_ok_call seq_ok_work in blast)+
qed

lemma manager_New_fields: "mg_nets (manager_New cfg) = []" "0 < mc_BasePort (mg_cfg (manager_New cfg))"
  by (simp_all add: manager_New_def Let_def DefaultBasePort_def)

lemma seq_reach_ok:
  assumes "mg_seq\<^sup>*\<^sup>* (world_New cfg0 f) w"
  shows "seq_ok (mg_cfg (manager_New cfg0)) w"
proof -
  have "seq_ok (mg_cfg (manager_New cfg0)) (world_New cfg0 f)" by (simp add: seq_ok_def world_New_def manager_New_fields)
  then show ?thesis using sequential.steps_inv[OF assms] manager_New_fields(2) by blast
qed

lemma table_addresses:
  assumes "newTranslator (prefixString (pool_slice base bits i)) cidr = Inr (Some t)" and "1 \<le> bits" and "bits \<le> 30"
    and "v4_block base pb" and "pb < bits" and "i < 2 ^ (bits - pb)" and "Local (local_all t as) r = (Some x, t')"
  shows "prefix_contains (pool_slice base bits i) x"
proof -
  let ?b = "base + of_nat i * 2 ^ (32 - bits)"
  have sl: "pool_slice base bits i = Prefix (V4 ?b) bits" by (simp add: pool_slice_def)
  have ps: "prefixString (pool_slice base bits i) \<noteq> []" "parse_prefix (prefixString (pool_slice base bits i)) = Some (pool_slice base bits i)"
    using assms(3) parse_prefix_string[of bits ?b]
    by (simp_all add: sl prefixString_def prefix_valid_def) (simp add: prefix_string_def)
  obtain o' where t: "NewTable (pool_slice base bits i) o' = Inr t"
    using assms(1) ps by (auto simp: newTranslator_def split: option.splits sum.splits)
  obtain base' b' where ok: "table_ok base' b' (prefix_masked o') t" and m: "prefix_masked (pool_slice base bits i) = Prefix (V4 base') b'"
    using NewTable_ok[OF t] assms(2) by (auto simp: sl)
  have blk: "v4_block base' b'" using table_okD(1)[OF ok] .
  have "unat ?b mod 2 ^ (32 - bits) = 0" by (rule slice_block[OF assms(4,5,3,6)])
  then have "v4_block ?b bits" using assms(3) by (simp add: v4_block_def)
  then have b: "b' = bits \<and> base' = ?b" using m mask4_block_id by (auto simp: sl)
  obtain y where y: "tb_toLocal t' (V4 y) = Some x" and ok': "table_ok base' b' (prefix_masked o') t'"
    using Local_Some[OF local_all_ok[OF ok] assms(7)] Local_ok[OF local_all_ok[OF ok], of as r] assms(7) by (metis snd_conv)
  from table_local_v4[OF ok' y] obtain z where z: "x = V4 z" "unat ?b < unat z" "unat z < unat ?b + 2 ^ (32 - bits) - 1"
    unfolding b[THEN conjunct1] b[THEN conjunct2] by blast
  show ?thesis unfolding z(1) slice_contains[OF assms(4,5,3,6)] using z(2,3) slice_unat(1)[OF assms(4,5,3,6)] by linarith
qed

section \<open>Properties of sequential use\<close>

text \<open>C4: As long as operations are called one after the other, the networks of a device are kept apart, in
  every state: two connected networks never have the same port (unless none was free) or overlapping local
  ranges, every range lies in the pool, and an address one network's translator hands out is never one of
  another's. When no operation is running, the engines that are up are exactly those of the connected networks.
\<close>

theorem networks_are_kept_apart:
  assumes "mg_seq\<^sup>*\<^sup>* (world_New cfg0 f) w" and "cfg = mg_cfg (manager_New cfg0)"
    and "\<not> mc_NoTranslate cfg" and "pool_of cfg = Some (base, pb)"
  shows "(\<forall>a b e g. a \<noteq> b \<and> map_of (mg_nets (wo_mgr w)) a = Some e \<and> map_of (mg_nets (wo_mgr w)) b = Some g \<longrightarrow>
      (en_port e = en_port g \<longrightarrow> en_port e = 0) \<and>
      (\<forall>x. \<not> (prefix_contains (en_prefix e) x \<and> prefix_contains (en_prefix g) x)) \<and>
      (\<forall>x. prefix_contains (en_prefix e) x \<longrightarrow> prefix_contains (Prefix (V4 base) pb) x) \<and>
      (\<forall>c t as r x t' c2 t2 as2 r2 t2'.
         newTranslator (prefixString (en_prefix e)) c = Inr (Some t) \<and> Local (local_all t as) r = (Some x, t') \<and>
         newTranslator (prefixString (en_prefix g)) c2 = Inr (Some t2) \<longrightarrow> Local (local_all t2 as2) r2 \<noteq> (Some x, t2'))) \<and>
    (wo_jobs w = [] \<longrightarrow> dom (wo_live w) = engines (mg_nets (wo_mgr w)))"
proof -
  have ok: "seq_ok cfg w" using seq_reach_ok[OF assms(1)] unfolding assms(2) .
  have P: "v4_block base pb" "pb < mc_LocalBits cfg" "mc_LocalBits cfg \<le> 30" using pool_of_block[OF assms(4)] by simp_all
  let ?B = "mc_LocalBits cfg"
  have pair: "(en_port e = en_port g \<longrightarrow> en_port e = 0) \<and>
      (\<exists>i j. i \<noteq> j \<and> i < 2 ^ (?B - pb) \<and> j < 2 ^ (?B - pb) \<and> en_prefix e = pool_slice base ?B i \<and> en_prefix g = pool_slice base ?B j)"
    if "a \<noteq> b" "map_of (mg_nets (wo_mgr w)) a = Some e" "map_of (mg_nets (wo_mgr w)) b = Some g" for a b e g
  proof -
    have n: "nets_ok cfg (mg_nets (wo_mgr w))" using ok by (simp add: seq_ok_def)
    have ok: "entry_ok cfg e" "entry_ok cfg g" "apart cfg e g" using nets_okD[OF n that(2)] nets_okD[OF n that(3)] that(1,3) by auto
    obtain i where i: "i < 2 ^ (?B - pb)" "en_prefix e = pool_slice base ?B i"
      using ok(1) assms(3) unfolding entry_ok_def assms(4) option.case prod.case by blast
    obtain j where j: "j < 2 ^ (?B - pb)" "en_prefix g = pool_slice base ?B j"
      using ok(2) assms(3) unfolding entry_ok_def assms(4) option.case prod.case by blast
    have "i \<noteq> j" using ok(3) assms(3,4) unfolding apart_def i(2) j(2) by auto
    then show ?thesis using ok(3) i j unfolding apart_def by blast
  qed
  have disjoint: "\<not> (prefix_contains (en_prefix e) x \<and> prefix_contains (en_prefix g) x)"
    if m: "a \<noteq> b" "map_of (mg_nets (wo_mgr w)) a = Some e" "map_of (mg_nets (wo_mgr w)) b = Some g" for a b e g x
  proof -
    obtain i j where ij: "i \<noteq> j" "i < 2 ^ (?B - pb)" "j < 2 ^ (?B - pb)" "en_prefix e = pool_slice base ?B i" "en_prefix g = pool_slice base ?B j"
      using pair[OF m] by blast
    show ?thesis using slices_disjoint[OF P ij(2,3)] ij(1) unfolding ij(4,5) by blast
  qed
  have inside: "prefix_contains (en_prefix e) x" if m: "a \<noteq> b" "map_of (mg_nets (wo_mgr w)) a = Some e"
      "map_of (mg_nets (wo_mgr w)) b = Some g" "newTranslator (prefixString (en_prefix e)) c = Inr (Some t)" "Local (local_all t as) r = (Some x, t')"
    for a b e g x c t as r t'
  proof -
    obtain i where i: "i < 2 ^ (?B - pb)" "en_prefix e = pool_slice base ?B i" using pair[OF m(1-3)] by blast
    have "1 \<le> ?B" using P(2) by simp
    from table_addresses[OF m(4)[unfolded i(2)] this P(3,1,2) i(1) m(5)] show ?thesis unfolding i(2) .
  qed
  show ?thesis
  proof (intro conjI allI impI)
    fix a b e g x c t as r t' c2 t2 as2 r2 t2'
    assume ab: "a \<noteq> b \<and> map_of (mg_nets (wo_mgr w)) a = Some e \<and> map_of (mg_nets (wo_mgr w)) b = Some g"
    show "en_port e = en_port g \<Longrightarrow> en_port e = 0" using pair ab by blast
    show "\<not> (prefix_contains (en_prefix e) x \<and> prefix_contains (en_prefix g) x)" using disjoint ab by blast
    show "prefix_contains (en_prefix e) x \<Longrightarrow> prefix_contains (Prefix (V4 base) pb) x"
      using pair[of a b e g] ab slice_in_pool[OF P] by (metis (no_types, lifting))
    assume t: "newTranslator (prefixString (en_prefix e)) c = Inr (Some t) \<and> Local (local_all t as) r = (Some x, t') \<and>
         newTranslator (prefixString (en_prefix g)) c2 = Inr (Some t2)"
    show "Local (local_all t2 as2) r2 \<noteq> (Some x, t2')"
    proof
      assume "Local (local_all t2 as2) r2 = (Some x, t2')"
      then have "prefix_contains (en_prefix g) x" using inside[of b a g e c2 t2] ab t by blast
      moreover have "prefix_contains (en_prefix e) x" using inside[of a b e g c t] ab t by blast
      ultimately show False using disjoint ab by blast
    qed
  next
    show "wo_jobs w = [] \<Longrightarrow> dom (wo_live w) = engines (mg_nets (wo_mgr w))" using ok by (simp add: seq_ok_def)
  qed
qed

section \<open>Operations that overlap\<close>

lemma mg_step_work:
  assumes "wo_jobs w = xs @ j # ys" and "work e j (w\<lparr>wo_jobs := xs @ ys\<rparr>) = Some w'"
  shows "mg_step w w'"
  by (rule mg_step.work[of "length xs" w e]) (use assms in simp_all)

lemma steps_trans: "mg_step w w1 \<Longrightarrow> mg_step\<^sup>*\<^sup>* w1 w2 \<Longrightarrow> mg_step\<^sup>*\<^sup>* w w2"
  by (rule converse_rtranclp_into_rtranclp)

lemma seq_trans: "mg_seq w w1 \<Longrightarrow> mg_seq\<^sup>*\<^sup>* w1 w2 \<Longrightarrow> mg_seq\<^sup>*\<^sup>* w w2"
  by (rule converse_rtranclp_into_rtranclp)

lemma seq_is_step: "mg_seq w w' \<Longrightarrow> mg_step w w'"
  by (cases rule: mg_seq.cases) (auto intro: mg_step.start mg_step.call mg_step_work[of _ "[]" _ "[]"])

lemma connect_begin_fresh:
  assumes "connect_begin m n0 = Inr (n, None, m')"
  shows "m' = m" "map_of (mg_nets m) (jn_alias n) = None"
proof -
  show f: "map_of (mg_nets m) (jn_alias n) = None"
    using assms by (auto simp: connect_begin_def Let_def split: option.splits)
  have "AList.delete (jn_alias n) (mg_nets m) = mg_nets m" using f by (simp add: delete_id map_of_eq_None_iff)
  then show "m' = m" using assms by (auto simp: connect_begin_def Let_def split: option.splits)
qed

text \<open>The world in which two connects have both started their engines.\<close>

lemma both_started:
  fixes e :: world_env and w :: world
  assumes jobs: "wo_jobs w = []"
    and begin1: "connect_begin (wo_mgr w) n1 = Inr (n1', None, m1)" and begin2: "connect_begin (wo_mgr w) n2 = Inr (n2', None, m2)"
    and free: "reserve (we_udpFree e) (wo_mgr w) = (port, Inr p)"
    and up1: "we_start e (network_config (mg_cfg (wo_mgr w)) n1' port p (mg_dns (wo_mgr w)))"
    and up2: "we_start e (network_config (mg_cfg (wo_mgr w)) n2' port p (mg_dns (wo_mgr w)))"
  shows "mg_step\<^sup>*\<^sup>* w (w\<lparr>wo_jobs := [Started n1' \<lparr>en_eng = Some (wo_next w), en_port = port, en_prefix = p\<rparr>,
      Started n2' \<lparr>en_eng = Some (wo_next w + 1), en_port = port, en_prefix = p\<rparr>],
    wo_live := (wo_live w)(wo_next w \<mapsto> network_config (mg_cfg (wo_mgr w)) n1' port p (mg_dns (wo_mgr w)),
      wo_next w + 1 \<mapsto> network_config (mg_cfg (wo_mgr w)) n2' port p (mg_dns (wo_mgr w))), wo_next := wo_next w + 2\<rparr>)"
proof -
  let ?m = "wo_mgr w"
  let ?s1 = "Starting n1' port p (mg_dns ?m)" and ?s2 = "Starting n2' port p (mg_dns ?m)"
  let ?d1 = "Started n1' \<lparr>en_eng = Some (wo_next w), en_port = port, en_prefix = p\<rparr>"
  let ?c1 = "network_config (mg_cfg ?m) n1' port p (mg_dns ?m)"
  have m: "m1 = ?m" "m2 = ?m" using connect_begin_fresh(1) begin1 begin2 by blast+
  have rj: "reserve_job e n ?m = Some (Starting n port p (mg_dns ?m))" for n by (simp add: reserve_job_def free)
  have s1: "mg_step w (w\<lparr>wo_jobs := [?s1]\<rparr>)"
    by (rule mg_step.call[of e "CallConnect n1"]) (simp add: begin1 m rj spawn_def jobs)
  have s2: "mg_step (w\<lparr>wo_jobs := [?s1]\<rparr>) (w\<lparr>wo_jobs := [?s1, ?s2]\<rparr>)"
    by (rule mg_step.call[of e "CallConnect n2"]) (simp add: begin2 m rj spawn_def)
  have s3: "mg_step (w\<lparr>wo_jobs := [?s1, ?s2]\<rparr>)
      (w\<lparr>wo_jobs := [?s2, ?d1], wo_live := (wo_live w)(wo_next w \<mapsto> ?c1), wo_next := wo_next w + 1\<rparr>)"
    by (rule mg_step_work[of _ "[]" ?s1 "[?s2]" e]) (simp_all add: up1 spawn_def Let_def)
  have s4: "mg_step (w\<lparr>wo_jobs := [?s2, ?d1], wo_live := (wo_live w)(wo_next w \<mapsto> ?c1), wo_next := wo_next w + 1\<rparr>)
      (w\<lparr>wo_jobs := [?d1, Started n2' \<lparr>en_eng = Some (wo_next w + 1), en_port = port, en_prefix = p\<rparr>],
         wo_live := (wo_live w)(wo_next w \<mapsto> ?c1, wo_next w + 1 \<mapsto> network_config (mg_cfg ?m) n2' port p (mg_dns ?m)), wo_next := wo_next w + 2\<rparr>)"
    by (rule mg_step_work[of _ "[]" ?s2 "[?d1]" e]) (simp_all add: up2 spawn_def Let_def)
  show ?thesis by (rule steps_trans[OF s1 steps_trans[OF s2 steps_trans[OF s3 steps_trans[OF s4 rtranclp.rtrancl_refl]]]])
qed

text \<open>Both engines are put down, the first one first, and the rest of the two calls is done.\<close>

lemma commits:
  assumes "wo_jobs w = [Started n1 e1, Started n2 e2]"
  shows "\<exists>w'. mg_step\<^sup>*\<^sup>* w w' \<and> wo_jobs w' = [] \<and> wo_live w' = wo_live w \<and> mg_cfg (wo_mgr w') = mg_cfg (wo_mgr w) \<and>
    mg_nets (wo_mgr w') = AList.update (jn_alias n2) e2 (AList.update (jn_alias n1) e1 (mg_nets (wo_mgr w)))"
proof -
  let ?e = "\<lparr>we_udpFree = \<lambda>p. True, we_start = \<lambda>c. True, we_path = False, we_write = False\<rparr>"
  define m2 where "m2 = connect_commit n2 e2 (connect_commit n1 e1 (wo_mgr w))"
  define m3 where "m3 = remember n1 m2"
  define m4 where "m4 = remember n2 m3"
  have s1: "mg_step w (w\<lparr>wo_jobs := [Started n2 e2, Remembering n1], wo_mgr := connect_commit n1 e1 (wo_mgr w)\<rparr>)"
    by (rule mg_step_work[of _ "[]" "Started n1 e1" "[Started n2 e2]" ?e]) (simp_all add: assms spawn_def)
  have s2: "mg_step (w\<lparr>wo_jobs := [Started n2 e2, Remembering n1], wo_mgr := connect_commit n1 e1 (wo_mgr w)\<rparr>)
      (w\<lparr>wo_jobs := [Remembering n1, Remembering n2], wo_mgr := m2\<rparr>)"
    by (rule mg_step_work[of _ "[]" "Started n2 e2" "[Remembering n1]" ?e]) (simp_all add: spawn_def m2_def)
  have s3: "mg_step (w\<lparr>wo_jobs := [Remembering n1, Remembering n2], wo_mgr := m2\<rparr>)
      (w\<lparr>wo_jobs := [Remembering n2, Saving (mg_saved m3) None], wo_mgr := m3\<rparr>)"
    by (rule mg_step_work[of _ "[]" "Remembering n1" "[Remembering n2]" ?e]) (simp_all add: spawn_def m3_def Let_def)
  have s4: "mg_step (w\<lparr>wo_jobs := [Remembering n2, Saving (mg_saved m3) None], wo_mgr := m3\<rparr>)
      (w\<lparr>wo_jobs := [Saving (mg_saved m3) None, Saving (mg_saved m4) None], wo_mgr := m4\<rparr>)"
    by (rule mg_step_work[of _ "[]" "Remembering n2" "[Saving (mg_saved m3) None]" ?e]) (simp_all add: spawn_def m4_def Let_def)
  have s5: "mg_step (w\<lparr>wo_jobs := [Saving (mg_saved m3) None, Saving (mg_saved m4) None], wo_mgr := m4\<rparr>)
      (w\<lparr>wo_jobs := [Saving (mg_saved m4) None], wo_mgr := m4\<rparr>)"
    by (rule mg_step_work[of _ "[]" "Saving (mg_saved m3) None" "[Saving (mg_saved m4) None]" ?e]) (simp_all add: SaveNetworks_def Let_def)
  have s6: "mg_step (w\<lparr>wo_jobs := [Saving (mg_saved m4) None], wo_mgr := m4\<rparr>) (w\<lparr>wo_jobs := [], wo_mgr := m4\<rparr>)"
    by (rule mg_step_work[of _ "[]" "Saving (mg_saved m4) None" "[]" ?e]) (simp_all add: SaveNetworks_def Let_def)
  have "mg_step\<^sup>*\<^sup>* w (w\<lparr>wo_jobs := [], wo_mgr := m4\<rparr>)"
    by (rule steps_trans[OF s1 steps_trans[OF s2 steps_trans[OF s3 steps_trans[OF s4 steps_trans[OF s5 steps_trans[OF s6 rtranclp.rtrancl_refl]]]]]])
  then show ?thesis
    by (intro exI[of _ "w\<lparr>wo_jobs := [], wo_mgr := m4\<rparr>"]) (simp add: m4_def m3_def m2_def remember_def connect_commit_def)
qed

text \<open>C18: The port and the range are chosen in one section and put down in a later one. Two connects that
  overlap, in any state, both come through with the same port and the same local range when both
  engines start (which over the relay, where the port is not used, nothing prevents); and two
  overlapping connects of one alias leave an engine running that no network refers to any more, so that
  nothing will stop it.
\<close>

theorem overlapping_connects_collide:
  fixes e :: world_env
  assumes "mg_seq\<^sup>*\<^sup>* (world_New cfg0 f) w" and jobs: "wo_jobs w = []"
    and begin1: "connect_begin (wo_mgr w) n1 = Inr (n1', None, m1)" and begin2: "connect_begin (wo_mgr w) n2 = Inr (n2', None, m2)"
    and free: "reserve (we_udpFree e) (wo_mgr w) = (port, Inr p)"
    and up1: "we_start e (network_config (mg_cfg (wo_mgr w)) n1' port p (mg_dns (wo_mgr w)))"
    and up2: "we_start e (network_config (mg_cfg (wo_mgr w)) n2' port p (mg_dns (wo_mgr w)))"
  shows "\<exists>w'. mg_step\<^sup>*\<^sup>* w w' \<and> wo_jobs w' = [] \<and>
    (if jn_alias n1' \<noteq> jn_alias n2'
     then (\<exists>e1 e2. map_of (mg_nets (wo_mgr w')) (jn_alias n1') = Some e1 \<and> map_of (mg_nets (wo_mgr w')) (jn_alias n2') = Some e2 \<and>
        en_port e1 = port \<and> en_port e2 = port \<and> en_prefix e1 = p \<and> en_prefix e2 = p)
     else (\<exists>k. wo_live w' k \<noteq> None \<and> k \<notin> engines (mg_nets (wo_mgr w'))))"
proof -
  let ?e1 = "\<lparr>en_eng = Some (wo_next w), en_port = port, en_prefix = p\<rparr>" and ?e2 = "\<lparr>en_eng = Some (wo_next w + 1), en_port = port, en_prefix = p\<rparr>"
  let ?live = "(wo_live w)(wo_next w \<mapsto> network_config (mg_cfg (wo_mgr w)) n1' port p (mg_dns (wo_mgr w)),
      wo_next w + 1 \<mapsto> network_config (mg_cfg (wo_mgr w)) n2' port p (mg_dns (wo_mgr w)))"
  define w1 where "w1 = w\<lparr>wo_jobs := [Started n1' ?e1, Started n2' ?e2], wo_live := ?live, wo_next := wo_next w + 2\<rparr>"
  have s1: "mg_step\<^sup>*\<^sup>* w w1" unfolding w1_def by (rule both_started[OF jobs begin1 begin2 free up1 up2])
  have "wo_jobs w1 = [Started n1' ?e1, Started n2' ?e2]" by (simp add: w1_def)
  from commits[OF this] obtain w' where w': "mg_step\<^sup>*\<^sup>* w1 w'" "wo_jobs w' = []" "wo_live w' = wo_live w1"
    "mg_nets (wo_mgr w') = AList.update (jn_alias n2') ?e2 (AList.update (jn_alias n1') ?e1 (mg_nets (wo_mgr w1)))" by blast
  have nets: "mg_nets (wo_mgr w') = AList.update (jn_alias n2') ?e2 (AList.update (jn_alias n1') ?e1 (mg_nets (wo_mgr w)))"
    using w'(4) by (simp add: w1_def)
  have fresh: "wo_next w \<notin> engines (mg_nets (wo_mgr w))"
  proof -
    have "wo_next w \<notin> dom (wo_live w)" using seq_reach_ok[OF assms(1)] by (auto simp: seq_ok_def)
    then show ?thesis using seq_reach_ok[OF assms(1)] jobs by (simp add: seq_ok_def)
  qed
  have reach: "mg_step\<^sup>*\<^sup>* w w'" using s1 w'(1) by (rule rtranclp_trans)
  show ?thesis
  proof (cases "jn_alias n1' = jn_alias n2'")
    case True
    have "wo_next w \<notin> engines (mg_nets (wo_mgr w'))" using fresh unfolding nets True
      by (auto simp: engines_def split: if_splits)
    moreover have "wo_live w' (wo_next w) \<noteq> None" using w'(3) by (simp add: w1_def)
    ultimately show ?thesis using reach w'(2) True by auto
  next
    case False
    then show ?thesis using reach w'(2) by (intro exI[of _ w']) (simp add: nets)
  qed
qed

text \<open>When none of the ports is free the manager asks for port 0, to let the system choose, but the engine
  takes 0 for "not set" and uses 51820; with the default configuration that is one of the ports that are not free.
\<close>

theorem no_free_port_means_a_taken_one:
  assumes "0 < mc_BasePort (mg_cfg m)"
    and "\<forall>q. mc_BasePort (mg_cfg m) \<le> q \<and> q < mc_BasePort (mg_cfg m) + 64 \<longrightarrow>
      (\<exists>a e. (a, e) \<in> set (mg_nets m) \<and> en_port e = q) \<or> \<not> udpFree q"
  shows "fst (reserve udpFree m) = 0 \<and> ec_WGPort (start_config (network_config (mg_cfg m) n 0 p dns)) = 51820 \<and>
    (mc_BasePort (mg_cfg m) = DefaultBasePort \<longrightarrow> (\<exists>a e. (a, e) \<in> set (mg_nets m) \<and> en_port e = 51820) \<or> \<not> udpFree 51820)"
proof (intro conjI impI)
  have "\<forall>q. mc_BasePort (mg_cfg m) \<le> q \<and> q < mc_BasePort (mg_cfg m) + 64 \<longrightarrow> q \<in> (\<lambda>x. en_port (snd x)) ` set (mg_nets m) \<or> \<not> udpFree q"
    using assms(2) by force
  then show "fst (reserve udpFree m) = 0" using freePort_none[OF assms(1)] by (simp add: reserve_def)
  show "ec_WGPort (start_config (network_config (mg_cfg m) n 0 p dns)) = 51820"
    by (simp add: start_config_def network_config_def Let_def)
  assume "mc_BasePort (mg_cfg m) = DefaultBasePort"
  then show "(\<exists>a e. (a, e) \<in> set (mg_nets m) \<and> en_port e = 51820) \<or> \<not> udpFree 51820"
    using assms(2) by (simp add: DefaultBasePort_def)
qed

text \<open>A list of networks that cannot be read at the start is lost: the manager goes on with an empty list,
  and the next change of any network, even a disconnect, writes that list over the file.
\<close>

theorem a_failed_load_loses_the_networks:
  fixes e :: world_env and w :: world
  assumes "LoadNetworks True f = Inl err" and "wo_file w = f" and "wo_jobs w = []" and "we_path e" and "we_write e"
    and "wo_mgr w = fst (manager_Start listens supported (LoadNetworks True f) m)"
  shows "\<exists>w'. mg_seq\<^sup>*\<^sup>* w w' \<and> wo_jobs w' = [] \<and> wo_file w' = File (Some (enc_networks [])) \<and> LoadNetworks True (wo_file w') = Inr []"
proof -
  have sv: "mg_saved (wo_mgr w) = []" using assms(1,6) by (simp add: manager_Start_def Let_def)
  let ?a = "NormalizeAlias ''x''"
  define m1 where "m1 = snd (disconnect_begin ?a (wo_mgr w))"
  define prev where "prev = fst (disconnect_begin ?a (wo_mgr w))"
  define m2 where "m2 = disconnect_end ?a m1"
  define live where "live = (case prev of None \<Rightarrow> wo_live w | Some en \<Rightarrow> stop_entry en (wo_live w))"
  have m2: "mg_saved m2 = []" using sv by (simp add: m2_def m1_def disconnect_end_def disconnect_begin_def)
  have s1: "mg_seq w (w\<lparr>wo_jobs := [Leaving ?a prev None], wo_mgr := m1\<rparr>)"
    by (rule mg_seq.call[of _ e "CallDisconnect ''x''"]) (simp_all add: assms(3) prev_def m1_def spawn_def case_prod_beta)
  have s2: "mg_seq (w\<lparr>wo_jobs := [Leaving ?a prev None], wo_mgr := m1\<rparr>)
      (w\<lparr>wo_jobs := [Saving [] None], wo_mgr := m2, wo_live := live\<rparr>)"
    by (rule mg_seq.work[of _ "Leaving ?a prev None" e]) (simp_all add: spawn_def Let_def live_def m2 m2_def[symmetric] split: option.split)
  have s3: "mg_seq (w\<lparr>wo_jobs := [Saving [] None], wo_mgr := m2, wo_live := live\<rparr>)
      (w\<lparr>wo_jobs := [], wo_mgr := m2, wo_live := live, wo_file := File (Some (enc_networks []))\<rparr>)"
    by (rule mg_seq.work[of _ "Saving [] None" e]) (simp_all add: SaveNetworks_def assms(4,5) Let_def)
  have "mg_seq\<^sup>*\<^sup>* w (w\<lparr>wo_jobs := [], wo_mgr := m2, wo_live := live, wo_file := File (Some (enc_networks []))\<rparr>)"
    by (rule seq_trans[OF s1 seq_trans[OF s2 seq_trans[OF s3 rtranclp.rtrancl_refl]]])
  moreover have "LoadNetworks True (File (Some (enc_networks []))) = Inr []"
    using saved_networks_load[of "[]" f] by (simp add: SaveNetworks_def)
  ultimately show ?thesis
    by (intro exI[of _ "w\<lparr>wo_jobs := [], wo_mgr := m2, wo_live := live, wo_file := File (Some (enc_networks []))\<rparr>"]) simp
qed

section \<open>Witnesses\<close>

text \<open>One connect that runs alone and succeeds.\<close>

lemma connect_run:
  fixes e :: world_env and w :: world
  assumes jobs: "wo_jobs w = []" and b: "connect_begin (wo_mgr w) n0 = Inr (n, None, m)"
    and free: "reserve (we_udpFree e) (wo_mgr w) = (port, Inr p)" and up: "\<forall>c. we_start e c"
  shows "\<exists>w'. mg_seq\<^sup>*\<^sup>* w w' \<and> wo_jobs w' = [] \<and> mg_cfg (wo_mgr w') = mg_cfg (wo_mgr w) \<and>
    mg_nets (wo_mgr w') = AList.update (jn_alias n) \<lparr>en_eng = Some (wo_next w), en_port = port, en_prefix = p\<rparr> (mg_nets (wo_mgr w)) \<and>
    mg_saved (wo_mgr w') = replace_network n (mg_saved (wo_mgr w))"
proof -
  let ?m = "wo_mgr w"
  let ?en = "\<lparr>en_eng = Some (wo_next w), en_port = port, en_prefix = p\<rparr>"
  let ?live = "(wo_live w)(wo_next w \<mapsto> network_config (mg_cfg ?m) n port p (mg_dns ?m))"
  define m2 where "m2 = remember n (connect_commit n ?en ?m)"
  define f where "f = snd (SaveNetworks (we_path e) (we_write e) (mg_saved m2) (wo_file w))"
  have m: "m = ?m" by (rule connect_begin_fresh(1)[OF b])
  have s1: "mg_seq w (w\<lparr>wo_jobs := [Starting n port p (mg_dns ?m)]\<rparr>)"
    by (rule mg_seq.call[of _ e "CallConnect n0"]) (simp_all add: jobs b m reserve_job_def free spawn_def)
  have s2: "mg_seq (w\<lparr>wo_jobs := [Starting n port p (mg_dns ?m)]\<rparr>) (w\<lparr>wo_jobs := [Started n ?en], wo_live := ?live, wo_next := wo_next w + 1\<rparr>)"
    by (rule mg_seq.work[of _ "Starting n port p (mg_dns ?m)" e]) (simp_all add: up spawn_def Let_def)
  have s3: "mg_seq (w\<lparr>wo_jobs := [Started n ?en], wo_live := ?live, wo_next := wo_next w + 1\<rparr>)
      (w\<lparr>wo_jobs := [Remembering n], wo_live := ?live, wo_next := wo_next w + 1, wo_mgr := connect_commit n ?en ?m\<rparr>)"
    by (rule mg_seq.work[of _ "Started n ?en" e]) (simp_all add: spawn_def)
  have s4: "mg_seq (w\<lparr>wo_jobs := [Remembering n], wo_live := ?live, wo_next := wo_next w + 1, wo_mgr := connect_commit n ?en ?m\<rparr>)
      (w\<lparr>wo_jobs := [Saving (mg_saved m2) None], wo_live := ?live, wo_next := wo_next w + 1, wo_mgr := m2\<rparr>)"
    by (rule mg_seq.work[of _ "Remembering n" e]) (simp_all add: spawn_def Let_def m2_def)
  have s5: "mg_seq (w\<lparr>wo_jobs := [Saving (mg_saved m2) None], wo_live := ?live, wo_next := wo_next w + 1, wo_mgr := m2\<rparr>)
      (w\<lparr>wo_jobs := [], wo_live := ?live, wo_next := wo_next w + 1, wo_mgr := m2, wo_file := f\<rparr>)"
    by (rule mg_seq.work[of _ "Saving (mg_saved m2) None" e]) (simp_all add: Let_def f_def)
  have "mg_seq\<^sup>*\<^sup>* w (w\<lparr>wo_jobs := [], wo_live := ?live, wo_next := wo_next w + 1, wo_mgr := m2, wo_file := f\<rparr>)"
    by (rule seq_trans[OF s1 seq_trans[OF s2 seq_trans[OF s3 seq_trans[OF s4 seq_trans[OF s5 rtranclp.rtrancl_refl]]]]])
  then show ?thesis
    by (intro exI[of _ "w\<lparr>wo_jobs := [], wo_live := ?live, wo_next := wo_next w + 1, wo_mgr := m2, wo_file := f\<rparr>"])
      (simp add: m2_def remember_def connect_commit_def)
qed

definition demo_mg_config :: mg_config where
  "demo_mg_config = \<lparr>mc_DNSAddr = [], mc_ProductName = [], mc_DeviceUUID = ''id'', mc_BasePort = 0, mc_LocalPool = [], mc_LocalBits = 0, mc_NoTranslate = False\<rparr>"

definition demo_net :: "string \<Rightarrow> joined" where
  "demo_net a = \<lparr>jn_alias = a, jn_server = ''h'', jn_pin = [], jn_token = ''t'', jn_name = [], jn_relay = True, jn_auto = False, jn_publish = []\<rparr>"

definition demo_world_env :: world_env where
  "demo_world_env = \<lparr>we_udpFree = \<lambda>p. True, we_start = \<lambda>c. True, we_path = True, we_write = True\<rparr>"

lemma demo_mg_cfg: "mg_cfg (manager_New demo_mg_config) = demo_mg_config\<lparr>mc_BasePort := 51820, mc_ProductName := ''zwan'',
    mc_LocalPool := ''100.112.0.0/12'', mc_LocalBits := 16\<rparr>"
  by (simp add: manager_New_def demo_mg_config_def Let_def DefaultBasePort_def DefaultLocalPool_def DefaultLocalBits_def)

lemma demo_pool: "pool_of (mg_cfg (manager_New demo_mg_config)) = Some (mask4 0x64700000 12, 12)"
proof -
  have "string4 0x64700000 = ''100.112.0.0''" by (simp add: string4_def) code_simp
  moreover have "nat_str 12 = ''12''" by code_simp
  ultimately have "prefix_string (Prefix (V4 0x64700000) 12) = ''100.112.0.0/12''" unfolding prefix_string_def prefix.case addr_string.simps by simp
  then have "parse_prefix ''100.112.0.0/12'' = Some (Prefix (V4 0x64700000) 12)" using parse_prefix_string[of 12 "0x64700000"] by simp
  then show ?thesis by (simp add: demo_mg_cfg pool_of_def)
qed

lemma demo_begin:
  assumes "a \<in> {''home'', ''work''}" and "map_of (mg_nets m) a = None"
  shows "\<exists>m'. connect_begin m (demo_net a) = Inr ((demo_net a)\<lparr>jn_auto := True\<rparr>, None, m')"
proof -
  have al: "NormalizeAlias ''home'' = ''home''" "NormalizeAlias ''work'' = ''work''" "ValidAlias ''home'' = None" "ValidAlias ''work'' = None"
    "trim_space ''h'' = ''h''" "trim_space ''t'' = ''t''" by code_simp+
  have "NormalizeAlias a = a" "Validate (demo_net a) = None" using al assms(1) by (auto simp: Validate_def demo_net_def)
  moreover have "(demo_net a)\<lparr>jn_alias := a, jn_publish := NormalizePublish (jn_publish (demo_net a))\<rparr> = demo_net a"
    by (simp add: demo_net_def NormalizePublish_def)
  ultimately show ?thesis using assms(2) by (simp add: connect_begin_def Let_def) (simp add: demo_net_def)
qed

lemma demo_reserve:
  assumes "mg_cfg m = mg_cfg (manager_New demo_mg_config)" and "finite T" and "T = (\<lambda>x. en_prefix (snd x)) ` set (mg_nets m)"
    and "card T < 16"
  shows "\<exists>port p. reserve (we_udpFree demo_world_env) m = (port, Inr p)"
proof -
  let ?c = "mg_cfg (manager_New demo_mg_config)"
  have B: "mc_LocalBits ?c = 16" "\<not> mc_NoTranslate ?c" unfolding demo_mg_cfg by (simp_all add: demo_mg_config_def)
  have "freePrefixLocked ?c T \<noteq> Inl x" for x
  proof
    assume f: "freePrefixLocked ?c T = Inl x"
    have P: "v4_block (mask4 0x64700000 12) 12" using pool_of_block[OF demo_pool] by blast
    have "\<forall>j. 0 \<le> j \<and> j < 0 + 16 \<longrightarrow> pool_slice (mask4 0x64700000 12) 16 j \<in> T"
      using f slice_loop_spec[where bits = 16 and taken = T and base = "mask4 0x64700000 12" and i = 0 and n = 16]
      unfolding freePrefix_pool[OF B(2) demo_pool] B(1) by (simp split: option.splits)
    then have sub: "pool_slice (mask4 0x64700000 12) 16 ` {..<16} \<subseteq> T" by auto
    have "inj_on (pool_slice (mask4 0x64700000 12) 16) {..<16}"
      by (rule inj_onI) (rule slice_inj[OF P, of 16], simp_all)
    then have "card (pool_slice (mask4 0x64700000 12) 16 ` {..<16}) = 16" by (simp add: card_image)
    then show False using card_mono[OF assms(2) sub] assms(4) by simp
  qed
  then obtain p where "freePrefixLocked ?c T = Inr p" by (cases "freePrefixLocked ?c T") auto
  then show ?thesis using assms(1,3) by (simp add: reserve_def)
qed

text \<open>Two networks, connected one after the other.\<close>

lemma demo_two:
  "\<exists>w e1 e2. mg_seq\<^sup>*\<^sup>* (world_New demo_mg_config NoFile) w \<and> mg_nets (wo_mgr w) = [(''home'', e1), (''work'', e2)] \<and>
     en_eng e1 \<noteq> None \<and> en_eng e2 \<noteq> None \<and> map jn_alias (mg_saved (wo_mgr w)) = [''home'', ''work'']"
proof -
  let ?w0 = "world_New demo_mg_config NoFile"
  let ?home = "(demo_net ''home'')\<lparr>jn_auto := True\<rparr>" and ?work = "(demo_net ''work'')\<lparr>jn_auto := True\<rparr>"
  have up: "\<forall>c. we_start demo_world_env c" by (simp add: demo_world_env_def)
  have al: "jn_alias ?home = ''home''" "jn_alias ?work = ''work''" by (simp_all add: demo_net_def)
  have "mg_saved (manager_New demo_mg_config) = []" by (simp add: manager_New_def Let_def)
  then have w0: "wo_jobs ?w0 = []" "mg_nets (wo_mgr ?w0) = []" "mg_cfg (wo_mgr ?w0) = mg_cfg (manager_New demo_mg_config)" "mg_saved (wo_mgr ?w0) = []"
    by (simp_all add: world_New_def manager_New_fields)
  obtain m1 where b1: "connect_begin (wo_mgr ?w0) (demo_net ''home'') = Inr (?home, None, m1)"
    using demo_begin[of "''home''" "wo_mgr ?w0"] w0 by auto
  obtain port1 p1 where r1: "reserve (we_udpFree demo_world_env) (wo_mgr ?w0) = (port1, Inr p1)"
    using demo_reserve[OF w0(3), of "{}"] w0(2) by auto
  let ?e1 = "\<lparr>en_eng = Some (wo_next ?w0), en_port = port1, en_prefix = p1\<rparr>"
  obtain w1 where w1: "mg_seq\<^sup>*\<^sup>* ?w0 w1" "wo_jobs w1 = []" "mg_cfg (wo_mgr w1) = mg_cfg (wo_mgr ?w0)"
      "mg_nets (wo_mgr w1) = [(''home'', ?e1)]" "mg_saved (wo_mgr w1) = [?home]"
    using connect_run[OF w0(1) b1 r1 up] unfolding al w0(2,4) update.simps replace_network.simps by blast
  obtain m2 where b2: "connect_begin (wo_mgr w1) (demo_net ''work'') = Inr (?work, None, m2)"
    using demo_begin[of "''work''" "wo_mgr w1"] w1(4) by auto
  have T: "finite {p1}" "{p1} = (\<lambda>x. en_prefix (snd x)) ` set (mg_nets (wo_mgr w1))" "card {p1} < 16" unfolding w1(4) by simp_all
  obtain port2 p2 where r2: "reserve (we_udpFree demo_world_env) (wo_mgr w1) = (port2, Inr p2)"
    using demo_reserve[OF w1(3)[unfolded w0(3)] T] by blast
  let ?e2 = "\<lparr>en_eng = Some (wo_next w1), en_port = port2, en_prefix = p2\<rparr>"
  obtain w2 where w2: "mg_seq\<^sup>*\<^sup>* w1 w2" "mg_nets (wo_mgr w2) = AList.update ''work'' ?e2 [(''home'', ?e1)]"
      "mg_saved (wo_mgr w2) = replace_network ?work [?home]"
    using connect_run[OF w1(2) b2 r2 up] unfolding al w1(4,5) by blast
  have n: "mg_nets (wo_mgr w2) = [(''home'', ?e1), (''work'', ?e2)]" unfolding w2(2) by simp
  have s: "map jn_alias (mg_saved (wo_mgr w2)) = [''home'', ''work'']" unfolding w2(3) by (simp add: demo_net_def)
  have e: "en_eng ?e1 \<noteq> None" "en_eng ?e2 \<noteq> None" by simp_all
  show ?thesis by (intro exI conjI, rule rtranclp_trans[OF w1(1) w2(1)], rule n, rule e(1), rule e(2), rule s)
qed

theorem networks_are_kept_apart_witness:
  "\<exists>w e g. mg_seq\<^sup>*\<^sup>* (world_New demo_mg_config NoFile) w \<and> map_of (mg_nets (wo_mgr w)) ''home'' = Some e \<and>
     map_of (mg_nets (wo_mgr w)) ''work'' = Some g \<and> (\<forall>x. \<not> (prefix_contains (en_prefix e) x \<and> prefix_contains (en_prefix g) x))"
proof -
  obtain w e g where w: "mg_seq\<^sup>*\<^sup>* (world_New demo_mg_config NoFile) w" "map_of (mg_nets (wo_mgr w)) ''home'' = Some e"
    "map_of (mg_nets (wo_mgr w)) ''work'' = Some g"
  proof -
    obtain w e1 e2 where w: "mg_seq\<^sup>*\<^sup>* (world_New demo_mg_config NoFile) w" "mg_nets (wo_mgr w) = [(''home'', e1), (''work'', e2)]"
      using demo_two by blast
    have "map_of (mg_nets (wo_mgr w)) ''home'' = Some e1" "map_of (mg_nets (wo_mgr w)) ''work'' = Some e2" unfolding w(2) by simp_all
    then show thesis by (rule that[OF w(1)])
  qed
  have "\<not> mc_NoTranslate (mg_cfg (manager_New demo_mg_config))" unfolding demo_mg_cfg by (simp add: demo_mg_config_def)
  from conjunct1[OF networks_are_kept_apart[OF w(1) refl this demo_pool], rule_format, of "''home''" "''work''" e g] w(2,3)
  have "\<forall>x. \<not> (prefix_contains (en_prefix e) x \<and> prefix_contains (en_prefix g) x)" by simp
  then show ?thesis using w by blast
qed

theorem overlapping_connects_witness:
  "\<exists>w' e1 e2. mg_step\<^sup>*\<^sup>* (world_New demo_mg_config NoFile) w' \<and> map_of (mg_nets (wo_mgr w')) ''home'' = Some e1 \<and>
     map_of (mg_nets (wo_mgr w')) ''work'' = Some e2 \<and> en_prefix e1 = en_prefix e2"
proof -
  let ?w0 = "world_New demo_mg_config NoFile"
  have w0: "wo_jobs ?w0 = []" "mg_nets (wo_mgr ?w0) = []" "mg_cfg (wo_mgr ?w0) = mg_cfg (manager_New demo_mg_config)"
    by (simp_all add: world_New_def manager_New_fields)
  obtain m1 where b1: "connect_begin (wo_mgr ?w0) (demo_net ''home'') = Inr ((demo_net ''home'')\<lparr>jn_auto := True\<rparr>, None, m1)"
    using demo_begin[of "''home''" "wo_mgr ?w0"] w0 by auto
  obtain m2 where b2: "connect_begin (wo_mgr ?w0) (demo_net ''work'') = Inr ((demo_net ''work'')\<lparr>jn_auto := True\<rparr>, None, m2)"
    using demo_begin[of "''work''" "wo_mgr ?w0"] w0 by auto
  obtain port p where r: "reserve (we_udpFree demo_world_env) (wo_mgr ?w0) = (port, Inr p)"
    using demo_reserve[OF w0(3), of "{}"] w0(2) by auto
  have up: "we_start demo_world_env c" for c by (simp add: demo_world_env_def)
  show ?thesis using overlapping_connects_collide[OF rtranclp.rtrancl_refl w0(1) b1 b2 r up up] by (auto simp: demo_net_def)
qed

theorem no_free_port_witness:
  "fst (reserve (\<lambda>q. False) (manager_New demo_mg_config)) = 0 \<and>
   ec_WGPort (start_config (network_config (mg_cfg (manager_New demo_mg_config)) (demo_net ''home'') 0 NoPrefix None)) = 51820"
  using no_free_port_means_a_taken_one[OF manager_New_fields(2), of demo_mg_config "\<lambda>q. False" "demo_net ''home''" NoPrefix None] by simp

theorem a_failed_load_witness:
  "\<exists>w'. mg_seq\<^sup>*\<^sup>* ((world_New demo_mg_config Unreadable)\<lparr>wo_mgr := fst (manager_Start (\<lambda>a. True) False (LoadNetworks True Unreadable) (manager_New demo_mg_config))\<rparr>) w' \<and>
     LoadNetworks True (wo_file w') = Inr []"
  using a_failed_load_loses_the_networks[of Unreadable load_error.ReadFailed
      "(world_New demo_mg_config Unreadable)\<lparr>wo_mgr := fst (manager_Start (\<lambda>a. True) False (LoadNetworks True Unreadable) (manager_New demo_mg_config))\<rparr>"
      demo_world_env "\<lambda>a. True" False "manager_New demo_mg_config"]
  by (auto simp: LoadNetworks_def world_New_def demo_world_env_def)

end
