(* ===== verification/ManagerView.thy ===== *)
theory ManagerView
  imports Manager
begin

text \<open>
  What the manager shows (\<open>Statuses\<close> and the warnings about overlapping ranges) and how it keeps the system's
  name resolution policy in step with the resolver (\<open>followZones\<close>, and the end of \<open>Stop\<close>), both from
  \<open>client/manager/manager.go\<close>.
\<close>

record status =
  ss_network :: joined
  ss_engine :: eng_status
  ss_warning :: string

text \<open>The ranges that are on the host's routing table, with their network's alias.\<close>

fun spans :: "status list \<Rightarrow> (string \<times> prefix) list" where
  "spans [] = []"
| "spans (s # ss) =
     (if \<not> es_Connected (ss_engine s) \<or> es_OverlayCIDR (ss_engine s) = [] \<or> es_LocalCIDR (ss_engine s) \<noteq> [] then spans ss
      else (case parse_prefix (es_OverlayCIDR (ss_engine s)) of
              None \<Rightarrow> spans ss
            | Some p \<Rightarrow> (jn_alias (ss_network s), p) # spans ss))"

fun clash_inner :: "string \<times> prefix \<Rightarrow> (string \<times> prefix) list \<Rightarrow> (string \<Rightarrow> string list) \<Rightarrow> string \<Rightarrow> string list" where
  "clash_inner (a, p) [] clash = clash"
| "clash_inner (a, p) ((b, q) # rest) clash =
     clash_inner (a, p) rest
       (if prefix_overlaps p q
        then (let clash = clash(a := clash a @ [b]) in clash(b := clash b @ [a])) else clash)"

fun clash_outer :: "(string \<times> prefix) list \<Rightarrow> (string \<Rightarrow> string list) \<Rightarrow> string \<Rightarrow> string list" where
  "clash_outer [] clash = clash"
| "clash_outer (s # rest) clash = clash_outer rest (clash_inner s rest clash)"

definition warning_text :: "string \<Rightarrow> string list \<Rightarrow> string" where
  "warning_text cidr others = ''overlay range '' @ cidr @ '' overlaps '' @ join_with '', '' (sort others) @
     '', and address translation is off, so one of them will lose peers''"

definition addOverlapWarnings :: "status list \<Rightarrow> status list" where
  "addOverlapWarnings ss =
     (let clash = clash_outer (spans ss) (\<lambda>a. []) in
      map (\<lambda>s. let others = clash (jn_alias (ss_network s)) in
             if others = [] then s else s\<lparr>ss_warning := warning_text (es_OverlayCIDR (ss_engine s)) others\<rparr>) ss)"

text \<open>
  \<open>st k\<close> is what the engine \<open>k\<close> reports. \<open>sort.Slice\<close> leaves the order of equal aliases open; \<open>sort_key\<close> keeps
  the order of the list.
\<close>

definition Statuses :: "(nat \<Rightarrow> eng_status) \<Rightarrow> manager \<Rightarrow> status list" where
  "Statuses st m =
     (let out = map (\<lambda>n. \<lparr>ss_network = n,
            ss_engine = (case map_of (mg_nets m) (jn_alias n) of
                None \<Rightarrow> no_status
              | Some e \<Rightarrow> (case en_eng e of None \<Rightarrow> no_status | Some k \<Rightarrow> st k)),
            ss_warning = []\<rparr>) (mg_saved m)
      in addOverlapWarnings (sort_key (\<lambda>s. jn_alias (ss_network s)) out))"

section \<open>Following the zones\<close>

text \<open>What the follower waits for between two passes.\<close>

datatype follow_event = FollowTick | FollowResync | FollowStop

text \<open>The loop of \<open>followZones\<close>: each turn sees the resolver as it is, and the event that ends its wait.\<close>

fun followZones :: "('t \<Rightarrow> nrpt_rule list option) \<Rightarrow> (string list \<Rightarrow> string list \<Rightarrow> string \<Rightarrow> 't \<Rightarrow> bool \<times> 't) \<Rightarrow>
    ((string \<times> zone) list \<Rightarrow> (string \<times> zone) list) \<Rightarrow> (resolver option \<times> follow_event) list \<Rightarrow> nrpt_binder \<times> 't \<Rightarrow> nrpt_binder \<times> 't" where
  "followZones list_rules mutate iter [] bt = bt"
| "followZones list_rules mutate iter ((dns, ev) # turns) bt =
     (let suffixes = (case dns of None \<Rightarrow> [] | Some r \<Rightarrow> Suffixes iter r);
          bt1 = snd (Apply list_rules mutate suffixes bt) in
      case ev of
        FollowStop \<Rightarrow> bt1
      | FollowResync \<Rightarrow> followZones list_rules mutate iter turns (Resync (fst bt1), snd bt1)
      | FollowTick \<Rightarrow> followZones list_rules mutate iter turns bt1)"

text \<open>The end of \<open>Stop\<close>, after the follower has returned.\<close>

definition stop_policy :: "('t \<Rightarrow> nrpt_rule list option) \<Rightarrow> (string list \<Rightarrow> string list \<Rightarrow> string \<Rightarrow> 't \<Rightarrow> bool \<times> 't) \<Rightarrow>
    nrpt_binder option \<Rightarrow> 't \<Rightarrow> bool \<times> 't" where
  "stop_policy list_rules mutate bind t =
     (case bind of
        None \<Rightarrow> (True, t)
      | Some b \<Rightarrow> (case Clear list_rules mutate (b, t) of (r, b', t') \<Rightarrow> (\<not> isl r, t')))"

section \<open>Overlaps\<close>

lemma prefix_overlaps_sym: "prefix_overlaps p q \<longleftrightarrow> prefix_overlaps q p"
  by (cases p; cases q) (auto simp: min.commute)

lemma clash_inner_set:
  "set (clash_inner (a, p) rest clash x) = set (clash x) \<union>
     {b. x = a \<and> (\<exists>q. (b, q) \<in> set rest \<and> prefix_overlaps p q)} \<union> {b. b = a \<and> (\<exists>q. (x, q) \<in> set rest \<and> prefix_overlaps p q)}"
proof (induction rest arbitrary: clash)
  case (Cons s rest)
  obtain b q where s: "s = (b, q)" by (cases s)
  show ?case unfolding s clash_inner.simps Cons.IH by (auto simp: Let_def)
qed simp

text \<open>Each pair of two ranges of the list counts, also when the two have the same alias.\<close>

lemma clash_outer_set:
  "set (clash_outer ss clash x) = set (clash x) \<union>
     {b. \<exists>p q. (x, p) \<in> set ss \<and> (b, q) \<in># mset ss - {#(x, p)#} \<and> prefix_overlaps p q}"
proof (induction ss arbitrary: clash)
  case (Cons s ss)
  obtain a r where s: "s = (a, r)" by (cases s)
  have rest: "(b, q) \<in># mset (s # ss) - {#(x, p)#} \<longleftrightarrow>
      (if (x, p) = s then (b, q) \<in> set ss else (b, q) = s \<or> (b, q) \<in># mset ss - {#(x, p)#})" if "(x, p) \<in> set (s # ss)" for b p q
    using that by (auto simp: add_mset_diff_bothsides)
  have sub: "(b, q) \<in># mset ss - {#(x, p)#} \<Longrightarrow> (b, q) \<in> set ss" for b p q by (drule in_diffD) simp
  have "(\<exists>p q. (x, p) \<in> set (s # ss) \<and> (b, q) \<in># mset (s # ss) - {#(x, p)#} \<and> prefix_overlaps p q) \<longleftrightarrow>
      (\<exists>p q. (x, p) \<in> set ss \<and> (b, q) \<in># mset ss - {#(x, p)#} \<and> prefix_overlaps p q) \<or>
      (x = a \<and> (\<exists>q. (b, q) \<in> set ss \<and> prefix_overlaps r q)) \<or> (b = a \<and> (\<exists>q. (x, q) \<in> set ss \<and> prefix_overlaps r q))" (is "?l = ?r") for b
  proof
    assume ?l
    then obtain p q where pq: "(x, p) \<in> set (s # ss)" "(b, q) \<in># mset (s # ss) - {#(x, p)#}" "prefix_overlaps p q" by blast
    then show ?r using rest[OF pq(1)] prefix_overlaps_sym[of p q] by (cases "(x, p) = s") (auto simp: s)
  next
    assume ?r
    then consider p q where "(x, p) \<in> set ss" "(b, q) \<in># mset ss - {#(x, p)#}" "prefix_overlaps p q"
      | q where "x = a" "(b, q) \<in> set ss" "prefix_overlaps r q" | q where "b = a" "(x, q) \<in> set ss" "prefix_overlaps r q" by blast
    then show ?l
    proof cases
      case (1 p q)
      then show ?thesis using rest[of p b q] sub[of b q p] by (intro exI[of _ p] exI[of _ q]) auto
    next
      case (2 q)
      then show ?thesis using rest[of r b q] by (intro exI[of _ r] exI[of _ q]) (simp add: s)
    next
      case (3 q)
      then show ?thesis using rest[of q b r] prefix_overlaps_sym[of q r] by (intro exI[of _ q] exI[of _ r]) (auto simp: s)
    qed
  qed
  then show ?case unfolding s clash_outer.simps Cons.IH clash_inner_set by auto
qed simp

text \<open>A network that is connected without translation, over a range.\<close>

definition untranslated :: "status \<Rightarrow> prefix \<Rightarrow> bool" where
  "untranslated s p \<longleftrightarrow> es_Connected (ss_engine s) \<and> es_OverlayCIDR (ss_engine s) \<noteq> [] \<and> es_LocalCIDR (ss_engine s) = [] \<and>
     parse_prefix (es_OverlayCIDR (ss_engine s)) = Some p"

lemma spans_iff: "(a, p) \<in> set (spans ss) \<longleftrightarrow> (\<exists>s \<in> set ss. jn_alias (ss_network s) = a \<and> untranslated s p)"
  by (induction ss) (auto simp: untranslated_def split: option.splits)

definition reported :: "status \<Rightarrow> string \<times> prefix" where
  "reported s = (jn_alias (ss_network s), the (parse_prefix (es_OverlayCIDR (ss_engine s))))"

lemma untranslated_reported: "untranslated s p \<Longrightarrow> reported s = (jn_alias (ss_network s), p)"
  by (simp add: untranslated_def reported_def)

lemma mset_spans: "mset (spans ss) = image_mset reported (filter_mset (\<lambda>s. \<exists>p. untranslated s p) (mset ss))"
  by (induction ss) (auto simp: untranslated_def reported_def split: option.splits)

lemma reported_of:
  "(b, q) \<in> reported ` {t. t \<in># A \<and> (\<exists>p. untranslated t p)} \<longleftrightarrow> (\<exists>t. t \<in># A \<and> b = jn_alias (ss_network t) \<and> untranslated t q)"
proof
  assume "(b, q) \<in> reported ` {t. t \<in># A \<and> (\<exists>p. untranslated t p)}"
  then obtain t p where "t \<in># A" "untranslated t p" "(b, q) = reported t" by blast
  then show "\<exists>t. t \<in># A \<and> b = jn_alias (ss_network t) \<and> untranslated t q" using untranslated_reported[of t p] by auto
next
  assume "\<exists>t. t \<in># A \<and> b = jn_alias (ss_network t) \<and> untranslated t q"
  then obtain t where "t \<in># A" "b = jn_alias (ss_network t)" "untranslated t q" by blast
  then show "(b, q) \<in> reported ` {t. t \<in># A \<and> (\<exists>p. untranslated t p)}" using untranslated_reported[of t q] by force
qed

text \<open>When entries of one alias report the same engine, the others named for an entry are those of the other entries.\<close>

lemma clash_others:
  assumes "s \<in> set ss" and same: "\<And>t. t \<in> set ss \<Longrightarrow> jn_alias (ss_network t) = jn_alias (ss_network s) \<Longrightarrow> ss_engine t = ss_engine s"
  shows "set (clash_outer (spans ss) (\<lambda>a. []) (jn_alias (ss_network s))) =
    {jn_alias (ss_network t) | t p q. t \<in># mset ss - {#s#} \<and> untranslated s p \<and> untranslated t q \<and> prefix_overlaps p q}"
proof -
  have own: "(jn_alias (ss_network s), p) \<in> set (spans ss) \<longleftrightarrow> untranslated s p" for p
  proof -
    have "untranslated t p = untranslated s p" if "t \<in> set ss" "jn_alias (ss_network t) = jn_alias (ss_network s)" for t
      using same[OF that] by (simp add: untranslated_def)
    then show ?thesis unfolding spans_iff using assms(1) by blast
  qed
  have others: "mset (spans ss) - {#(jn_alias (ss_network s), p)#} =
      image_mset reported (filter_mset (\<lambda>s. \<exists>p. untranslated s p) (mset ss - {#s#}))" if "untranslated s p" for p
  proof -
    have "{#s#} \<subseteq># filter_mset (\<lambda>s. \<exists>p. untranslated s p) (mset ss)" using assms(1) that by (auto simp: mset_subset_eq_single)
    then show ?thesis using untranslated_reported[OF that] that unfolding mset_spans by (auto simp: image_mset_Diff)
  qed
  have other: "(b, q) \<in># mset (spans ss) - {#(jn_alias (ss_network s), p)#} \<longleftrightarrow>
      (\<exists>t. t \<in># mset ss - {#s#} \<and> b = jn_alias (ss_network t) \<and> untranslated t q)" if "untranslated s p" for b p q
    unfolding others[OF that] set_image_mset set_mset_filter by (rule reported_of)
  have "(\<exists>p q. untranslated s p \<and> (b, q) \<in># mset (spans ss) - {#(jn_alias (ss_network s), p)#} \<and> prefix_overlaps p q) \<longleftrightarrow>
      (\<exists>t p q. b = jn_alias (ss_network t) \<and> t \<in># mset ss - {#s#} \<and> untranslated s p \<and> untranslated t q \<and> prefix_overlaps p q)" (is "?l = ?r") for b
  proof
    assume ?l
    then obtain p q where pq: "untranslated s p" "(b, q) \<in># mset (spans ss) - {#(jn_alias (ss_network s), p)#}" "prefix_overlaps p q" by blast
    then show ?r using other[OF pq(1), THEN iffD1, OF pq(2)] by blast
  next
    assume ?r
    then obtain t p q where t: "b = jn_alias (ss_network t)" "t \<in># mset ss - {#s#}" "untranslated s p" "untranslated t q" "prefix_overlaps p q" by blast
    then have "(b, q) \<in># mset (spans ss) - {#(jn_alias (ss_network s), p)#}" using other[OF t(3)] by blast
    then show ?l using t by blast
  qed
  then show ?thesis unfolding clash_outer_set own by simp
qed

section \<open>The list of networks, however operations interleave\<close>

definition aliases :: "joined list \<Rightarrow> string list" where
  "aliases ns = map jn_alias ns"

lemma replace_network_aliases: "set (aliases (replace_network n ns)) = insert (jn_alias n) (set (aliases ns))"
  by (induction ns) (auto simp: aliases_def)

lemma replace_network_distinct: "distinct (aliases ns) \<Longrightarrow> distinct (aliases (replace_network n ns))"
proof (induction ns)
  case (Cons s ns)
  then show ?case using replace_network_aliases[of n ns] by (auto simp: aliases_def)
qed (simp add: aliases_def)

lemma aliases_disconnect: "aliases (mg_saved (disconnect_end a m)) = aliases (mg_saved m)"
  by (simp add: aliases_def disconnect_end_def comp_def if_distrib)

lemma call_saved: "begin_call e c w = Some w' \<Longrightarrow> mg_saved (wo_mgr w') = mg_saved (wo_mgr w)"
  by (cases c) (auto simp: connect_begin_def disconnect_begin_def stop_begin_def spawn_def Let_def split: sum.splits option.splits)

lemma Start_saved:
  "mg_saved (fst (manager_Start listens supported loaded m)) = (case loaded of Inl err \<Rightarrow> [] | Inr ns \<Rightarrow> ns)"
  by (simp add: manager_Start_def Let_def)

text \<open>The names of a list survive the file, whatever else of it does.\<close>

lemma decoded_names: "those (map dec_joined (map enc_joined ns)) = Some ms \<Longrightarrow> aliases ms = aliases ns"
proof (induction ns arbitrary: ms)
  case (Cons n ns)
  have "jn_alias n' = jn_alias n" if "dec_joined (enc_joined n) = Some n'" for n'
    using that by (auto simp: dec_joined_def enc_joined_def wire_defs split: option.splits)
  with Cons show ?case by (auto simp: aliases_def split: option.splits)
qed (simp add: aliases_def)

lemma saved_names:
  "LoadNetworks pathOk (File (Some (enc_networks ns))) = Inr ns' \<Longrightarrow> aliases ns' = aliases ns"
  using decoded_names[of ns]
  by (auto simp: LoadNetworks_def dec_networks_def enc_networks_def wire_defs rd_list_def split: if_splits option.splits)

text \<open>No alias twice: in the list, in the file, and in the lists about to be written.\<close>

definition file_apart :: "state_file \<Rightarrow> bool" where
  "file_apart f \<longleftrightarrow> (\<forall>pathOk ns. LoadNetworks pathOk f = Inr ns \<longrightarrow> distinct (aliases ns))"

fun job_apart :: "job \<Rightarrow> bool" where
  "job_apart (Saving ns k) = distinct (aliases ns)"
| "job_apart _ = True"

definition names_apart :: "world \<Rightarrow> bool" where
  "names_apart w \<longleftrightarrow> distinct (aliases (mg_saved (wo_mgr w))) \<and> file_apart (wo_file w) \<and> list_all job_apart (wo_jobs w)"

lemma call_apart:
  assumes "begin_call e c w = Some w'" and "names_apart w"
  shows "names_apart w'"
proof -
  have r: "reserve_job e n m = Some j \<Longrightarrow> job_apart j" for n m j
    by (auto simp: reserve_job_def split: prod.splits sum.splits if_splits)
  show ?thesis using assms r
    by (cases c) (auto simp: names_apart_def connect_begin_def disconnect_begin_def stop_begin_def spawn_def Let_def split: sum.splits option.splits)
qed

lemma file_apart_save: "file_apart f \<Longrightarrow> distinct (aliases ns) \<Longrightarrow> file_apart (snd (SaveNetworks p wr ns f))"
  using saved_names[of _ ns] by (auto simp: file_apart_def SaveNetworks_def)

lemma work_apart:
  assumes "work e j w = Some w'" and "names_apart w" and "job_apart j"
  shows "names_apart w'"
proof -
  have r: "reserve_job e n m = Some j \<Longrightarrow> job_apart j" for n m j
    by (auto simp: reserve_job_def split: prod.splits sum.splits if_splits)
  show ?thesis
  proof (cases j)
    case (Replacing n prev)
    then show ?thesis using assms r by (auto simp: names_apart_def spawn_def)
  next
    case (Remembering n)
    then show ?thesis using assms replace_network_distinct by (auto simp: names_apart_def spawn_def Let_def remember_def)
  next
    case (Leaving a prev k)
    then show ?thesis using assms aliases_disconnect by (auto simp: names_apart_def spawn_def Let_def)
  next
    case (Saving ns k)
    then show ?thesis using assms file_apart_save by (auto simp: names_apart_def spawn_def Let_def split: option.splits)
  next
    case (Forgetting a)
    have "distinct (aliases (filter (\<lambda>n. jn_alias n \<noteq> a) (mg_saved (wo_mgr w))))"
      using assms(2) by (simp add: names_apart_def aliases_def distinct_map_filter)
    then show ?thesis using assms Forgetting by (auto simp: names_apart_def spawn_def Let_def forget_end_def)
  qed (use assms in \<open>auto simp: names_apart_def spawn_def Let_def connect_commit_def split: if_splits\<close>)
qed

interpretation interleaved: step_invariant mg_step names_apart
proof
  fix w w'
  assume d: "names_apart w" and "mg_step w w'"
  from this(2) show "names_apart w'"
  proof cases
    case (start listens supported pathOk)
    then show ?thesis using d by (auto simp: begin_start_def names_apart_def Start_saved file_apart_def aliases_def split: sum.splits)
  next
    case (call e c)
    then show ?thesis using d call_apart by simp
  next
    case (work i e)
    let ?w = "w\<lparr>wo_jobs := take i (wo_jobs w) @ drop (Suc i) (wo_jobs w)\<rparr>"
    have "names_apart ?w" "job_apart (wo_jobs w ! i)"
      using d work(1) by (auto simp: names_apart_def list_all_iff dest: in_set_takeD in_set_dropD)
    then show ?thesis using work(2) work_apart by blast
  qed
qed

lemma saved_distinct:
  assumes "mg_step\<^sup>*\<^sup>* (world_New cfg f) w" and "file_apart f"
  shows "distinct (aliases (mg_saved (wo_mgr w)))"
proof -
  have "mg_saved (manager_New cfg) = []" by (simp add: manager_New_def Let_def)
  then have "names_apart (world_New cfg f)" using assms(2) by (simp add: world_New_def names_apart_def aliases_def)
  then show ?thesis using interleaved.steps_inv[OF assms(1)] by (simp add: names_apart_def)
qed

text \<open>C28: In every interleaving of starts and calls, the list that is shown has exactly the known networks, by
  alias; and if the file the device began with lists no alias twice, no alias is shown twice (the list is taken
  from the file as it is). A shown network carries a warning exactly when it is connected without translation
  over a range that overlaps that of another such network of the list, and then the warning names those
  networks and no others.
\<close>

theorem statuses_warn_of_exactly_the_overlaps:
  fixes ss :: "status list"
  assumes "mg_step\<^sup>*\<^sup>* (world_New cfg f) w" and "ss = Statuses st (wo_mgr w)"
  shows "mset (map ss_network ss) = mset (mg_saved (wo_mgr w)) \<and> sorted (map (\<lambda>s. jn_alias (ss_network s)) ss) \<and>
    (file_apart f \<longrightarrow> distinct (map (\<lambda>s. jn_alias (ss_network s)) ss)) \<and>
    (\<forall>s \<in> set ss. \<exists>others.
       set others = {jn_alias (ss_network t) | t p q. t \<in># mset ss - {#s#} \<and>
                       untranslated s p \<and> untranslated t q \<and> prefix_overlaps p q} \<and>
       ss_warning s = (if others = [] then [] else warning_text (es_OverlayCIDR (ss_engine s)) others))"
proof -
  define eng where "eng = (\<lambda>a. case map_of (mg_nets (wo_mgr w)) a of None \<Rightarrow> no_status
              | Some e \<Rightarrow> (case en_eng e of None \<Rightarrow> no_status | Some k \<Rightarrow> st k))"
  define raw where "raw = sort_key (\<lambda>s. jn_alias (ss_network s)) (map (\<lambda>n. \<lparr>ss_network = n,
            ss_engine = eng (jn_alias n), ss_warning = []\<rparr>) (mg_saved (wo_mgr w)))"
  define clash where "clash = clash_outer (spans raw) (\<lambda>a. [])"
  define mark :: "status \<Rightarrow> status" where "mark = (\<lambda>s. let others = clash (jn_alias (ss_network s)) in
      if others = [] then s else s\<lparr>ss_warning := warning_text (es_OverlayCIDR (ss_engine s)) others\<rparr>)"
  have ss: "ss = map mark raw"
    unfolding assms(2) Statuses_def addOverlapWarnings_def raw_def eng_def clash_def mark_def Let_def ..
  have keep: "ss_network (mark s) = ss_network s" "ss_engine (mark s) = ss_engine s" for s by (simp_all add: mark_def Let_def)
  then have un: "untranslated (mark s) = untranslated s" for s by (simp add: untranslated_def fun_eq_iff)
  have nets: "mset (map ss_network raw) = mset (mg_saved (wo_mgr w))"
    unfolding raw_def mset_map mset_sort by (simp add: image_mset.compositionality comp_def)
  have "mset (map jn_alias (map ss_network raw)) = mset (aliases (mg_saved (wo_mgr w)))"
    unfolding mset_map[of jn_alias] nets aliases_def by simp
  then have dist: "file_apart f \<Longrightarrow> distinct (map (\<lambda>s. jn_alias (ss_network s)) raw)"
    using saved_distinct[OF assms(1)] by (metis (no_types, lifting) list.map_comp comp_apply map_eq_conv mset_eq_imp_distinct_iff)
  have fresh: "ss_warning s = [] \<and> ss_engine s = eng (jn_alias (ss_network s))" if "s \<in> set raw" for s using that by (auto simp: raw_def)
  have names: "map (\<lambda>s. jn_alias (ss_network s)) ss = map (\<lambda>s. jn_alias (ss_network s)) raw" by (simp add: ss keep comp_def)
  have warn: "\<exists>others. set others = {jn_alias (ss_network t) | t p q. t \<in># mset ss - {#s#} \<and>
                       untranslated s p \<and> untranslated t q \<and> prefix_overlaps p q} \<and>
       ss_warning s = (if others = [] then [] else warning_text (es_OverlayCIDR (ss_engine s)) others)" if s: "s \<in> set ss" for s
  proof -
    obtain r where r: "r \<in> set raw" "s = mark r" using s ss by auto
    let ?os = "clash (jn_alias (ss_network r))"
    have "set ?os = {jn_alias (ss_network t) | t p q. t \<in># mset raw - {#r#} \<and> untranslated r p \<and> untranslated t q \<and> prefix_overlaps p q}"
      unfolding clash_def by (rule clash_others) (use r(1) fresh in auto)
    moreover from r(1) have "mset ss - {#s#} = image_mset mark (mset raw - {#r#})" by (simp add: ss r(2) image_mset_Diff)
    then have m: "t \<in># mset ss - {#s#} \<longleftrightarrow> (\<exists>x. x \<in># mset raw - {#r#} \<and> t = mark x)" for t by auto
    have "(\<exists>t p q. b = jn_alias (ss_network t) \<and> t \<in># mset ss - {#s#} \<and> untranslated s p \<and> untranslated t q \<and> prefix_overlaps p q) \<longleftrightarrow>
        (\<exists>t p q. b = jn_alias (ss_network t) \<and> t \<in># mset raw - {#r#} \<and> untranslated r p \<and> untranslated t q \<and> prefix_overlaps p q)" (is "?l = ?r") for b
    proof
      assume ?l
      then obtain t p q where t: "b = jn_alias (ss_network t)" "t \<in># mset ss - {#s#}" "untranslated s p" "untranslated t q" "prefix_overlaps p q" by blast
      then obtain x where "x \<in># mset raw - {#r#}" "t = mark x" using m by blast
      with t show ?r unfolding r(2) by (intro exI[of _ x] exI[of _ p] exI[of _ q]) (simp add: keep un)
    next
      assume ?r
      then obtain t p q where t: "b = jn_alias (ss_network t)" "t \<in># mset raw - {#r#}" "untranslated r p" "untranslated t q" "prefix_overlaps p q" by blast
      then have "mark t \<in># mset ss - {#s#}" using m by blast
      with t show ?l unfolding r(2) by (intro exI[of _ "mark t"] exI[of _ p] exI[of _ q]) (simp add: keep un)
    qed
    ultimately have "set ?os = {jn_alias (ss_network t) | t p q. t \<in># mset ss - {#s#} \<and> untranslated s p \<and> untranslated t q \<and> prefix_overlaps p q}"
      by simp
    moreover have "ss_warning s = (if ?os = [] then [] else warning_text (es_OverlayCIDR (ss_engine s)) ?os)"
      using fresh[OF r(1)] by (simp add: r(2) keep mark_def Let_def)
    ultimately show ?thesis by blast
  qed
  have "mset (map ss_network ss) = mset (mg_saved (wo_mgr w))" using nets by (simp add: ss keep comp_def)
  moreover have "sorted (map (\<lambda>s. jn_alias (ss_network s)) ss)" unfolding names raw_def by (rule sorted_sort_key)
  ultimately show ?thesis using dist warn unfolding names by blast
qed

section \<open>The policy of the system\<close>

text \<open>What the applications of a follower's run answered, one for each turn it took.\<close>

fun follow_results :: "('t \<Rightarrow> nrpt_rule list option) \<Rightarrow> (string list \<Rightarrow> string list \<Rightarrow> string \<Rightarrow> 't \<Rightarrow> bool \<times> 't) \<Rightarrow>
    ((string \<times> zone) list \<Rightarrow> (string \<times> zone) list) \<Rightarrow> (resolver option \<times> follow_event) list \<Rightarrow> nrpt_binder \<times> 't \<Rightarrow>
    (nrpt_error + unit) list" where
  "follow_results list_rules mutate iter [] bt = []"
| "follow_results list_rules mutate iter ((dns, ev) # turns) bt =
     (case Apply list_rules mutate (case dns of None \<Rightarrow> [] | Some r \<Rightarrow> Suffixes iter r) bt of
        (res, b, t) \<Rightarrow> res # (case ev of
            FollowStop \<Rightarrow> []
          | FollowResync \<Rightarrow> follow_results list_rules mutate iter turns (Resync b, t)
          | FollowTick \<Rightarrow> follow_results list_rules mutate iter turns (b, t)))"

lemma followZones_server:
  "bd_server (fst (followZones list_rules mutate iter turns bt)) = bd_server (fst bt)"
proof (induction turns arbitrary: bt)
  case (Cons turn turns)
  obtain dns ev b t where turn: "turn = (dns, ev)" "bt = (b, t)" by (cases turn; cases bt)
  obtain res b1 t1 where a: "Apply list_rules mutate (case dns of None \<Rightarrow> [] | Some r \<Rightarrow> Suffixes iter r) (b, t) = (res, b1, t1)"
    by (metis prod_cases3)
  show ?case using Cons.IH Apply_server[OF a] by (cases ev) (simp_all add: turn a Resync_def)
qed simp

lemma followZones_policy:
  assumes "policy_system list_rules mutate table" and "ps_plain server"
  shows "policy_ok table server bt \<Longrightarrow> Inl MutateFailed \<notin> set (follow_results list_rules mutate iter turns bt) \<Longrightarrow>
    policy_ok table server (followZones list_rules mutate iter turns bt)"
proof (induction turns arbitrary: bt)
  case (Cons turn turns)
  obtain dns ev where turn: "turn = (dns, ev)" by (cases turn)
  obtain res b t where a: "Apply list_rules mutate (case dns of None \<Rightarrow> [] | Some r \<Rightarrow> Suffixes iter r) bt = (res, b, t)"
    by (metis prod_cases3)
  have "res \<noteq> Inl MutateFailed" using Cons.prems(2) by (auto simp: turn a)
  then have ok: "policy_ok table server (b, t)" by (rule Apply_policy[OF assms Cons.prems(1) a])
  then have "policy_ok table server (Resync b, t)" by (simp add: policy_ok_def Resync_def)
  then show ?case using ok Cons.IH Cons.prems(2) by (cases ev) (simp_all add: turn a)
qed simp

text \<open>Clearing either takes everything out or, when the binder remembers that nothing is installed, looks at nothing.\<close>

lemma Clear_cases:
  assumes "policy_system list_rules mutate table" and "Apply list_rules mutate [] (b, t) = (Inr (), b', t')"
  shows "table t' = [] \<or> bd_synced b \<and> bd_last b = [] \<and> t' = t"
proof (cases "remembered b []")
  case True
  then show ?thesis using assms(2) by (simp add: Apply_idle) (simp add: remembered_def)
next
  case False
  from Apply_looks[OF assms(1) disjI1[OF namespaces_Nil] False assms(2)] show ?thesis by (simp add: exact_none)
qed

lemma remembers_none:
  assumes "policy_ok table server (b, t)" and "bd_synced b" and "bd_last b = []"
  shows "table t = []"
proof -
  obtain ss where ss: "bd_last b = join_with '','' (namespaces ss)" "exact (namespaces ss) server (table t)"
    using assms(1,2) by (auto simp: policy_ok_def)
  from ss(1) have "namespaces ss = []" unfolding assms(3) by (metis join_namespaces_Nil)
  then show ?thesis using ss(2) by (simp add: exact_none)
qed

text \<open>C29: The rules of the name resolution policy and the end of the manager. Whatever the follower did, with whichever
  zones it saw and however often listing or changing the table failed and at whichever statement, a cleanup
  of \<open>Stop\<close> that succeeds leaves no rule of ours in the Windows table, with one exception: when the follower's last
  success was for no network at all, the cleanup takes the table to be empty and looks at nothing. Then too
  none is left if no change had failed in the run. PowerShell is assumed to do what its cmdlets document, and
  the table to change only by it.
\<close>

theorem stop_leaves_no_rules:
  assumes "powershell_ok powershell table" and "nrpt_New addr = Inr b" and "ps_plain (bd_server b)"
    and "followZones (ps_list powershell) (ps_mutate powershell) iter turns (b, t) = (b', t')"
    and "stop_policy (ps_list powershell) (ps_mutate powershell) (Some b') t' = (True, t'')"
  shows "(table t'' = [] \<or> bd_synced b' \<and> bd_last b' = [] \<and> t'' = t') \<and>
    (Inl MutateFailed \<notin> set (follow_results (ps_list powershell) (ps_mutate powershell) iter turns (b, t)) \<longrightarrow> table t'' = [])"
proof -
  note sys = windows_policy_system[OF assms(1)]
  obtain r b'' where c: "Apply (ps_list powershell) (ps_mutate powershell) [] (b', t') = (r, b'', t'')" "\<not> isl r"
    using assms(5) by (cases "Apply (ps_list powershell) (ps_mutate powershell) [] (b', t')") (auto simp: stop_policy_def Clear_def)
  have "r = Inr ()" using c(2) by (cases r) auto
  then have cases: "table t'' = [] \<or> bd_synced b' \<and> bd_last b' = [] \<and> t'' = t'" using Clear_cases[OF sys] c(1) by blast
  have start: "policy_ok table (bd_server b) (b, t)"
    using assms(2) by (auto simp: policy_ok_def nrpt_New_def split: option.splits prod.splits if_splits)
  have none: "table t'' = []" if "Inl MutateFailed \<notin> set (follow_results (ps_list powershell) (ps_mutate powershell) iter turns (b, t))"
  proof -
    have "policy_ok table (bd_server b) (b', t')" using followZones_policy[OF sys assms(3) start that] unfolding assms(4) .
    note empty = remembers_none[OF this]
    from cases show ?thesis by (elim disjE conjE) (simp_all add: empty)
  qed
  show ?thesis using cases none by (intro conjI impI)
qed

section \<open>Witnesses\<close>

definition demo_up :: eng_status where
  "demo_up = no_status\<lparr>es_Connected := True, es_OverlayCIDR := ''10.0.0.0/8''\<rparr>"

lemma parse_10: "parse_prefix ''10.0.0.0/8'' = Some (Prefix (V4 0x0a000000) 8)"
  by (simp add: parse_prefix_def parse_addr_def parse_ipv4_def parse_octet_def parse_digits_def
      of_octets_def digit_val_def is_digit_def less_eq_char_def)

theorem statuses_witness:
  "\<exists>w s. mg_step\<^sup>*\<^sup>* (world_New demo_mg_config NoFile) w \<and> s \<in> set (Statuses (\<lambda>k. demo_up) (wo_mgr w)) \<and>
     distinct (map (\<lambda>s. jn_alias (ss_network s)) (Statuses (\<lambda>k. demo_up) (wo_mgr w))) \<and>
     jn_alias (ss_network s) = ''home'' \<and> (\<exists>others. ''work'' \<in> set others \<and> ss_warning s = warning_text ''10.0.0.0/8'' others)"
proof -
  obtain w e1 e2 where w: "mg_seq\<^sup>*\<^sup>* (world_New demo_mg_config NoFile) w" "mg_nets (wo_mgr w) = [(''home'', e1), (''work'', e2)]"
    "en_eng e1 \<noteq> None" "en_eng e2 \<noteq> None" "map jn_alias (mg_saved (wo_mgr w)) = [''home'', ''work'']"
    by (atomize_elim) (rule demo_two)
  have r: "mg_step\<^sup>*\<^sup>* (world_New demo_mg_config NoFile) w"
    using w(1) by (rule mono_rtranclp[rule_format, rotated]) (rule seq_is_step)
  let ?ss = "Statuses (\<lambda>k. demo_up) (wo_mgr w)"
  note th = statuses_warn_of_exactly_the_overlaps[OF r refl, of "\<lambda>k. demo_up"]
  have "LoadNetworks p NoFile = Inr ns \<Longrightarrow> ns = []" for p ns by (simp add: LoadNetworks_def split: if_splits)
  then have "file_apart NoFile" unfolding file_apart_def aliases_def by (metis distinct.simps(1) list.map(1))
  then have dist: "distinct (map (\<lambda>s. jn_alias (ss_network s)) ?ss)" using th by blast
  have entry: "\<exists>e k. map_of (mg_nets (wo_mgr w)) (jn_alias n) = Some e \<and> en_eng e = Some k" if n: "n \<in> set (mg_saved (wo_mgr w))" for n
  proof -
    have "jn_alias n \<in> set (map jn_alias (mg_saved (wo_mgr w)))" using n by simp
    then have "jn_alias n = ''home'' \<or> jn_alias n = ''work''" unfolding w(5) by simp
    then show ?thesis unfolding w(2) using w(3,4) by auto
  qed
  have eng: "ss_engine s = demo_up" if s: "s \<in> set ?ss" for s
    using s unfolding Statuses_def addOverlapWarnings_def Let_def by (auto dest!: entry)
  have un: "untranslated s (Prefix (V4 0x0a000000) 8)" if "s \<in> set ?ss" for s
    using eng[OF that] parse_10 by (simp add: untranslated_def demo_up_def no_status_def)
  have "set (map ss_network ?ss) = set (mg_saved (wo_mgr w))" using mset_eq_setD[OF conjunct1[OF th]] .
  then have "jn_alias ` set (map ss_network ?ss) = set (map jn_alias (mg_saved (wo_mgr w)))" by (simp only: set_map)
  then have al: "jn_alias ` ss_network ` set ?ss = {''home'', ''work''}" unfolding w(5) set_map by simp
  have "''home'' \<in> jn_alias ` ss_network ` set ?ss" "''work'' \<in> jn_alias ` ss_network ` set ?ss" unfolding al by simp_all
  moreover have "\<exists>s. s \<in> A \<and> jn_alias (ss_network s) = z" if "z \<in> jn_alias ` ss_network ` A" for z and A :: "status set" using that by blast
  ultimately obtain s t where st: "s \<in> set ?ss" "jn_alias (ss_network s) = ''home''" "t \<in> set ?ss" "jn_alias (ss_network t) = ''work''"
    by meson
  have other: "t \<in># mset ?ss - {#s#}" using st by (auto simp: in_diff_count count_list_0_iff)
  obtain others where o: "set others = {jn_alias (ss_network t) | t p q. t \<in># mset ?ss - {#s#} \<and>
                       untranslated s p \<and> untranslated t q \<and> prefix_overlaps p q}"
      "ss_warning s = (if others = [] then [] else warning_text (es_OverlayCIDR (ss_engine s)) others)"
    using th st(1) by blast
  have "prefix_overlaps (Prefix (V4 0x0a000000) 8) (Prefix (V4 0x0a000000) 8)" by simp
  then have k: "''work'' \<in> set others" unfolding o(1) using un[OF st(1)] un[OF st(3)] st other
    by (intro CollectI exI[of _ t] exI[of _ "Prefix (V4 0x0a000000) 8"]) auto
  then have "ss_warning s = warning_text ''10.0.0.0/8'' others" using o(2) eng[OF st(1)] by (auto simp: demo_up_def)
  then show ?thesis using r st(1,2) k dist by blast
qed

lemma demo_New: "nrpt_New ''127.0.0.1:53'' = Inr \<lparr>bd_server = ''127.0.0.1'', bd_synced = False, bd_last = []\<rparr>"
proof -
  have a: "string4 0x7f000001 = ''127.0.0.1''" by (simp add: string4_def) code_simp
  moreover have "nat_str 53 = ''53''" by code_simp
  ultimately have "addrport_string (V4 0x7f000001, 53) = ''127.0.0.1:53''"
    unfolding addrport_string_def fst_conv snd_conv addr.case by simp
  then have "parse_addrport ''127.0.0.1:53'' = Some (V4 0x7f000001, 53)" using parse_addrport_string[of 53 "0x7f000001"] by simp
  then show ?thesis by (simp add: nrpt_New_def a)
qed

theorem stop_leaves_no_rules_witness:
  "\<exists>b b' t' t''. nrpt_New ''127.0.0.1:53'' = Inr b \<and>
     followZones (ps_list (demo_ps 3)) (ps_mutate (demo_ps 3)) (\<lambda>z. z)
       [(Some (resolver_New\<lparr>rv_zones := [(''home'', Map.empty)]\<rparr>), FollowStop)] (b, []) = (b', t') \<and>
     length t' = 1 \<and> stop_policy (ps_list (demo_ps 3)) (ps_mutate (demo_ps 3)) (Some b') t' = (True, t'') \<and> demo_nrpt t'' = []"
proof -
  let ?b = "\<lparr>bd_server = ''127.0.0.1'', bd_synced = False, bd_last = []\<rparr>"
  let ?z = "[(Some (resolver_New\<lparr>rv_zones := [(''home'', Map.empty)]\<rparr>), FollowStop)]"
  have pl: "ps_plain (bd_server ?b)" using demo_binder_plain by (simp add: demo_binder_def)
  let ?f = "followZones (ps_list (demo_ps 3)) (ps_mutate (demo_ps 3)) (\<lambda>z. z) ?z (?b, [])"
  obtain b' t' where f: "?f = (b', t')" by fastforce
  have "length (snd ?f) = 1 \<and> bd_last (fst ?f) \<noteq> []" by code_simp
  then have one: "length t' = 1" "bd_last b' \<noteq> []" unfolding f by simp_all
  have "fst (stop_policy (ps_list (demo_ps 3)) (ps_mutate (demo_ps 3)) (Some (fst ?f)) (snd ?f)) = True" by code_simp
  then obtain t'' where s: "stop_policy (ps_list (demo_ps 3)) (ps_mutate (demo_ps 3)) (Some b') t' = (True, t'')"
    unfolding f fst_conv snd_conv by (metis prod.collapse)
  have e: "demo_nrpt t'' = []" using conjunct1[OF stop_leaves_no_rules[OF demo_powershell demo_New pl f s]] one(2) by blast
  show ?thesis by (rule exI[of _ ?b], rule exI[of _ b'], rule exI[of _ t'], rule exI[of _ t'']) (intro conjI demo_New f one(1) s e)
qed

end
