(* ===== verification/ServerConfig.thy ===== *)
theory ServerConfig
  imports Host Profile
begin

text \<open>
  The hosted network behind the service and the desktop app: its saved settings (\<open>server/config/config.go\<close>),
  the supervisor that starts and stops it (\<open>server/supervisor/supervisor.go\<close>) and the requests of the pipe
  (\<open>server/ipc\<close>). Every operation of the supervisor holds its mutex from begin to end, except the automatic
  start, which reads the settings first and then starts; and a request of the pipe runs two operations.
\<close>

section \<open>Saved settings\<close>

record srv_config =
  sc_NetworkID :: string
  sc_DNSSuffix :: string
  sc_CIDR :: string
  sc_Token :: string
  sc_ControlAddr :: string
  sc_RelayAddr :: string
  sc_RelayPublic :: string
  sc_TLSMode :: string
  sc_Domains :: "string list"
  sc_PublicHost :: string
  sc_GroupTokens :: "(string, string) gomap"
  sc_ACL :: "rule list"
  sc_AutoStart :: bool

definition config_Default :: srv_config where
  "config_Default = \<lparr>sc_NetworkID = ''home'', sc_DNSSuffix = ''home.zwan'', sc_CIDR = ''100.64.0.0/16'', sc_Token = [],
     sc_ControlAddr = ''0.0.0.0:8787'', sc_RelayAddr = ''0.0.0.0:3478'', sc_RelayPublic = [], sc_TLSMode = ''auto'', sc_Domains = [],
     sc_PublicHost = [], sc_GroupTokens = [], sc_ACL = [], sc_AutoStart = False\<rparr>"

text \<open>A map of strings as JSON: the keys are written in order, and reading adds to the map there is.\<close>

definition enc_map :: "(string, string) gomap \<Rightarrow> json" where
  "enc_map m = JObj (map (\<lambda>(k, v). (k, JStr v)) (sort_key fst m))"

fun rd_entries :: "(string \<times> json) list \<Rightarrow> (string, string) gomap \<Rightarrow> (string, string) gomap option" where
  "rd_entries [] m = Some m"
| "rd_entries ((k, v) # kvs) m = (case rd_string [] v of None \<Rightarrow> None | Some s \<Rightarrow> rd_entries kvs (AList.update k s m))"

definition rd_map :: "(string, string) gomap \<Rightarrow> json \<Rightarrow> (string, string) gomap option" where
  "rd_map old v = (case v of JNull \<Rightarrow> Some [] | JObj kvs \<Rightarrow> rd_entries kvs old | _ \<Rightarrow> None)"

definition enc_rule :: "rule \<Rightarrow> json" where
  "enc_rule r = JObj (always ''src'' (to_strings (r_src r)) @ always ''dst'' (to_strings (r_dst r)))"

definition dec_rule :: "json \<Rightarrow> rule option" where
  "dec_rule j = (case (field ''src'' rd_strings [] j, field ''dst'' rd_strings [] j) of
     (Some s, Some d) \<Rightarrow> Some \<lparr>r_src = s, r_dst = d\<rparr> | _ \<Rightarrow> None)"

definition enc_config :: "srv_config \<Rightarrow> json" where
  "enc_config c = JObj (always ''networkId'' (JStr (sc_NetworkID c)) @ always ''dnsSuffix'' (JStr (sc_DNSSuffix c)) @
     always ''cidr'' (JStr (sc_CIDR c)) @ always ''token'' (JStr (sc_Token c)) @ always ''controlAddr'' (JStr (sc_ControlAddr c)) @
     always ''relayAddr'' (JStr (sc_RelayAddr c)) @ always ''relayPublic'' (JStr (sc_RelayPublic c)) @
     always ''tlsMode'' (JStr (sc_TLSMode c)) @ omit_empty ''domains'' (to_strings (sc_Domains c)) @
     always ''publicHost'' (JStr (sc_PublicHost c)) @
     (if sc_GroupTokens c = [] then [] else [(''groupTokens'', enc_map (sc_GroupTokens c))]) @
     omit_empty ''acl'' (JArr (map enc_rule (sc_ACL c))) @ always ''autoStart'' (JBool (sc_AutoStart c)))"

text \<open>\<open>json.Unmarshal\<close> into the settings \<open>c\<close>: what the document does not have stays.\<close>

definition dec_config :: "srv_config \<Rightarrow> json \<Rightarrow> srv_config option" where
  "dec_config c j =
     (case (field ''networkId'' rd_string (sc_NetworkID c) j, field ''dnsSuffix'' rd_string (sc_DNSSuffix c) j,
            field ''cidr'' rd_string (sc_CIDR c) j, field ''token'' rd_string (sc_Token c) j,
            field ''controlAddr'' rd_string (sc_ControlAddr c) j, field ''relayAddr'' rd_string (sc_RelayAddr c) j,
            field ''relayPublic'' rd_string (sc_RelayPublic c) j, field ''tlsMode'' rd_string (sc_TLSMode c) j) of
        (Some n, Some s, Some ci, Some t, Some ca, Some ra, Some rp, Some tm) \<Rightarrow>
          (case (field ''domains'' rd_strings (sc_Domains c) j, field ''publicHost'' rd_string (sc_PublicHost c) j,
                 field ''groupTokens'' rd_map (sc_GroupTokens c) j, field ''acl'' (rd_list dec_rule) (sc_ACL c) j,
                 field ''autoStart'' rd_bool (sc_AutoStart c) j) of
             (Some d, Some p, Some g, Some a, Some au) \<Rightarrow>
               Some \<lparr>sc_NetworkID = n, sc_DNSSuffix = s, sc_CIDR = ci, sc_Token = t, sc_ControlAddr = ca, sc_RelayAddr = ra,
                     sc_RelayPublic = rp, sc_TLSMode = tm, sc_Domains = d, sc_PublicHost = p, sc_GroupTokens = g, sc_ACL = a, sc_AutoStart = au\<rparr>
           | _ \<Rightarrow> None)
      | _ \<Rightarrow> None)"

definition config_Load :: "bool \<Rightarrow> state_file \<Rightarrow> srv_config \<times> load_error option" where
  "config_Load pathOk f =
     (if \<not> pathOk then (config_Default, Some NoStateDir)
      else case f of
          NoFile \<Rightarrow> (config_Default, None)
        | Unreadable \<Rightarrow> (config_Default, Some load_error.ReadFailed)
        | File None \<Rightarrow> (config_Default, Some NotParsed)
        | File (Some j) \<Rightarrow> (case dec_config config_Default j of
              None \<Rightarrow> (config_Default, Some NotParsed)
            | Some c \<Rightarrow> (c, None)))"

definition config_Save :: "bool \<Rightarrow> bool \<Rightarrow> srv_config \<Rightarrow> state_file \<Rightarrow> bool \<times> state_file" where
  "config_Save pathOk writeOk c f = (if pathOk \<and> writeOk then (True, File (Some (enc_config c))) else (False, f))"

datatype config_error = TokenMissing | NetworkMissing | CIDRMissing | ControlAddrMissing

definition config_Valid :: "srv_config \<Rightarrow> config_error option" where
  "config_Valid c =
     (if trim_space (sc_Token c) = [] then Some TokenMissing
      else if trim_space (sc_NetworkID c) = [] then Some NetworkMissing
      else if trim_space (sc_CIDR c) = [] then Some CIDRMissing
      else if trim_space (sc_ControlAddr c) = [] then Some ControlAddrMissing else None)"

definition config_Host :: "srv_config \<Rightarrow> host_config" where
  "config_Host c = \<lparr>hc_NetworkID = sc_NetworkID c, hc_DNSSuffix = sc_DNSSuffix c, hc_CIDR = sc_CIDR c, hc_Token = sc_Token c,
     hc_ControlAddr = sc_ControlAddr c, hc_RelayAddr = sc_RelayAddr c, hc_RelayPublic = sc_RelayPublic c, hc_PublicHost = sc_PublicHost c,
     hc_TLSMode = sc_TLSMode c, hc_TLSDomains = sc_Domains c, hc_TLSExtraSANs = [], hc_TLSDir = [], hc_ACMEEmail = [],
     hc_ACMEDirectory = [], hc_ACMEHTTPAddr = [], hc_GroupTokens = sc_GroupTokens c, hc_ACL = sc_ACL c\<rparr>"

section \<open>The supervisor\<close>

datatype sup_error = InConfig config_error | InHost host_error

record supervisor =
  sp_mac :: machine
  sp_cfg :: srv_config
  sp_lastErr :: "sup_error option"
  sp_file :: state_file

text \<open>What the machine answers to one operation.\<close>

record sup_env =
  sn_host :: host_env
  sn_path :: bool
  sn_write :: bool

definition supervisor_New :: "bool \<Rightarrow> files \<Rightarrow> state_file \<Rightarrow> supervisor" where
  "supervisor_New pathOk fs f = \<lparr>sp_mac = (host_New, fs, {}), sp_cfg = fst (config_Load pathOk f), sp_lastErr = None, sp_file = f\<rparr>"

definition sup_save :: "sup_env \<Rightarrow> supervisor \<Rightarrow> supervisor" where
  "sup_save e s = s\<lparr>sp_file := snd (config_Save (sn_path e) (sn_write e) (sp_cfg s) (sp_file s))\<rparr>"

definition sup_Start :: "sup_env \<Rightarrow> srv_config \<Rightarrow> supervisor \<Rightarrow> sup_error option \<times> supervisor" where
  "sup_Start e c0 s =
     (case config_Valid c0 of
        Some err \<Rightarrow> (Some (InConfig err), s\<lparr>sp_lastErr := Some (InConfig err)\<rparr>)
      | None \<Rightarrow>
          (let c = c0\<lparr>sc_AutoStart := True\<rparr> in
           case Start (sn_host e) (config_Host c) (Stop (sp_mac s)) of
             (Inl err, mac) \<Rightarrow> (Some (InHost err), s\<lparr>sp_mac := mac, sp_cfg := c, sp_lastErr := Some (InHost err)\<rparr>)
           | (Inr _, mac) \<Rightarrow> (None, sup_save e (s\<lparr>sp_mac := mac, sp_cfg := c, sp_lastErr := None\<rparr>))))"

definition sup_Stop :: "sup_env \<Rightarrow> supervisor \<Rightarrow> supervisor" where
  "sup_Stop e s = sup_save e (s\<lparr>sp_mac := Stop (sp_mac s), sp_cfg := (sp_cfg s)\<lparr>sc_AutoStart := False\<rparr>, sp_lastErr := None\<rparr>)"

definition sup_Shutdown :: "supervisor \<Rightarrow> supervisor" where
  "sup_Shutdown s = s\<lparr>sp_mac := Stop (sp_mac s)\<rparr>"

definition sup_AutoStart :: "sup_env \<Rightarrow> supervisor \<Rightarrow> supervisor" where
  "sup_AutoStart e s = (if \<not> sc_AutoStart (sp_cfg s) then s else snd (sup_Start e (sp_cfg s) s))"

record sup_state =
  st_Running :: bool
  st_Config :: srv_config
  st_TLSMode :: string
  st_Pin :: string
  st_JoinURL :: string
  st_RelayPublic :: string
  st_Peers :: "peer list"
  st_Services :: "service list"
  st_LastError :: "sup_error option"

definition sup_State :: "member order \<Rightarrow> store_service order \<Rightarrow> supervisor \<Rightarrow> sup_state" where
  "sup_State iterM iterS s =
     (let h = fst (sp_mac s);
          st = \<lparr>st_Running = Running h, st_Config = sp_cfg s, st_TLSMode = [], st_Pin = [], st_JoinURL = [], st_RelayPublic = [],
                st_Peers = [], st_Services = [], st_LastError = sp_lastErr s\<rparr> in
      if Running h then st\<lparr>st_TLSMode := host_TLSMode h, st_Pin := host_Pin h, st_JoinURL := JoinURL h (sc_PublicHost (sp_cfg s)),
                           st_RelayPublic := h_relayPub h, st_Peers := host_Members iterM h, st_Services := host_Services iterS h\<rparr>
      else st)"

section \<open>Requests of the pipe\<close>

record sup_request =
  rq_Op :: string
  rq_Config :: "srv_config option"

datatype request_error = ConfigurationMissing | UnknownOperation string | NotStarted sup_error

record sup_response =
  rs_OK :: bool
  rs_Error :: "request_error option"
  rs_State :: "sup_state option"

text \<open>A request is carried out, and then the state is read for the answer; requests of other connections may come between.\<close>

definition request_act :: "sup_env \<Rightarrow> sup_request \<Rightarrow> supervisor \<Rightarrow> request_error option \<times> supervisor" where
  "request_act e rq s =
     (if rq_Op rq = ''start'' then
        (case rq_Config rq of
           None \<Rightarrow> (Some ConfigurationMissing, s)
         | Some c \<Rightarrow> (case sup_Start e c s of (err, s') \<Rightarrow> (map_option NotStarted err, s')))
      else if rq_Op rq = ''stop'' then (None, sup_Stop e s)
      else if rq_Op rq = ''status'' then (None, s)
      else (Some (UnknownOperation (rq_Op rq)), s))"

definition request_answer :: "request_error option \<Rightarrow> sup_state \<Rightarrow> sup_response" where
  "request_answer err st =
     (case err of
        None \<Rightarrow> \<lparr>rs_OK = True, rs_Error = None, rs_State = Some st\<rparr>
      | Some (NotStarted x) \<Rightarrow> \<lparr>rs_OK = False, rs_Error = err, rs_State = Some st\<rparr>
      | Some _ \<Rightarrow> \<lparr>rs_OK = False, rs_Error = err, rs_State = None\<rparr>)"

definition sup_dispatch :: "sup_env \<Rightarrow> member order \<Rightarrow> store_service order \<Rightarrow> sup_request \<Rightarrow> supervisor \<Rightarrow> sup_response \<times> supervisor" where
  "sup_dispatch e iterM iterS rq s =
     (case request_act e rq s of (err, s') \<Rightarrow> (request_answer err (sup_State iterM iterS s'), s'))"

section \<open>Reading back what was saved\<close>

definition saved_form :: "srv_config \<Rightarrow> srv_config" where
  "saved_form c = c\<lparr>sc_GroupTokens := sort_key fst (sc_GroupTokens c)\<rparr>"

lemma rd_entries_enc:
  "distinct (map fst (acc @ m)) \<Longrightarrow> rd_entries (map (\<lambda>(k, v). (k, JStr v)) m) acc = Some (acc @ m)"
proof (induction m arbitrary: acc)
  case (Cons kv m)
  obtain k v where kv: "kv = (k, v)" by (cases kv)
  have "AList.update k v acc = acc @ [(k, v)]" using Cons.prems kv by (induction acc) auto
  then show ?case using Cons.IH[of "acc @ [(k, v)]"] Cons.prems by (simp add: kv)
qed simp

lemma rd_map_enc [simp]: "gomap_ok m \<Longrightarrow> rd_map [] (enc_map m) = Some (sort_key fst m)"
  using rd_entries_enc[of "[]" "sort_key fst m"]
  by (simp add: rd_map_def enc_map_def gomap_ok_def distinct_map inj_on_def)

lemma dec_enc_rule [simp]: "dec_rule (enc_rule r) = Some r"
  by (simp add: dec_rule_def enc_rule_def wire_defs)

lemma rd_rules_enc [simp]: "rd_list dec_rule z (JArr (map enc_rule rs)) = Some rs"
  by (rule rd_list_JArr) simp

lemma sort_key_Nil_iff [simp]: "sort_key f xs = [] \<longleftrightarrow> xs = []"
  by (metis length_sort length_0_conv)

text \<open>The defaults have no domains, tokens and rules, so what an encoding leaves out is empty when read back.\<close>

lemma dec_enc_config [simp]: "gomap_ok (sc_GroupTokens c) \<Longrightarrow> dec_config config_Default (enc_config c) = Some (saved_form c)"
  by (simp add: dec_config_def enc_config_def config_Default_def saved_form_def wire_defs)

lemma saved_form_idem [simp]: "saved_form (saved_form c) = saved_form c"
  by (simp add: saved_form_def sort_key_id_if_sorted)

section \<open>The network that is running is the one saved\<close>

text \<open>
  Reading a document into settings with distinct group names gives distinct group names, so the settings of a
  supervisor are always a proper map.
\<close>

lemma rd_entries_ok: "gomap_ok m \<Longrightarrow> rd_entries kvs m = Some m' \<Longrightarrow> gomap_ok m'"
  by (induction kvs m rule: rd_entries.induct) (auto split: option.splits)

lemma rd_map_ok: "gomap_ok m \<Longrightarrow> rd_map m v = Some m' \<Longrightarrow> gomap_ok m'"
  by (auto simp: rd_map_def split: json.splits intro: rd_entries_ok)

lemma field_in_preserves:
  "(\<And>z v z'. P z \<Longrightarrow> rd z v = Some z' \<Longrightarrow> P z') \<Longrightarrow> P z \<Longrightarrow> field_in n rd z kvs = Some z' \<Longrightarrow> P z'"
  by (induction n rd z kvs rule: field_in.induct) (auto split: if_splits option.splits)

lemma field_map_ok: "gomap_ok m \<Longrightarrow> field n rd_map m j = Some m' \<Longrightarrow> gomap_ok m'"
  using field_in_preserves[of gomap_ok rd_map m n _ m', OF rd_map_ok] by (simp add: field_def split: json.split_asm)

lemma dec_config_ok: "gomap_ok (sc_GroupTokens c) \<Longrightarrow> dec_config c j = Some c' \<Longrightarrow> gomap_ok (sc_GroupTokens c')"
proof -
  assume ok: "gomap_ok (sc_GroupTokens c)" and d: "dec_config c j = Some c'"
  then have "field ''groupTokens'' rd_map (sc_GroupTokens c) j = Some (sc_GroupTokens c')"
    unfolding dec_config_def by (clarsimp split: option.split_asm)
  with ok show ?thesis by (rule field_map_ok)
qed

lemma config_Load_ok: "gomap_ok (sc_GroupTokens (fst (config_Load p f)))"
proof -
  have d: "gomap_ok (sc_GroupTokens config_Default)" by (simp add: config_Default_def)
  then show ?thesis using dec_config_ok[OF d] by (auto simp: config_Load_def split: state_file.splits option.splits)
qed

text \<open>
  The steps of a supervisor on a machine whose state directory can be written. An automatic start is a start
  with settings read earlier, whatever happened in between.
\<close>

inductive sup_step :: "supervisor \<Rightarrow> supervisor \<Rightarrow> bool" where
  step_start: "sn_path e \<Longrightarrow> sn_write e \<Longrightarrow> gomap_ok (sc_GroupTokens c) \<Longrightarrow> sup_step s (snd (sup_Start e c s))"
| step_stop: "sn_path e \<Longrightarrow> sn_write e \<Longrightarrow> sup_step s (sup_Stop e s)"
| step_shutdown: "sup_step s (sup_Shutdown s)"

inductive_cases sup_stepE: "sup_step s s'"

definition sup_ok :: "supervisor \<Rightarrow> bool" where
  "sup_ok s \<longleftrightarrow> machine_ok (sp_mac s) \<and> gomap_ok (sc_GroupTokens (sp_cfg s)) \<and>
     (Running (fst (sp_mac s)) \<longrightarrow> config_Valid (sp_cfg s) = None \<and> sc_AutoStart (sp_cfg s) \<and>
        h_cfg (fst (sp_mac s)) = Some (config_Host (sp_cfg s)) \<and> sp_file s = File (Some (enc_config (sp_cfg s))))"

text \<open>A start that is reached runs on a stopped host, and ends running or with nothing left open.\<close>

lemma Start_after_Stop:
  assumes "machine_ok mac" and "Start e cfg (Stop mac) = (res, mac')"
  shows "machine_ok mac' \<and> (case res of Inr _ \<Rightarrow> Running (fst mac') \<and> h_cfg (fst mac') = Some cfg
    | Inl err \<Rightarrow> \<not> Running (fst mac') \<and> snd (snd mac') = {} \<and> err \<noteq> AlreadyRunning)"
proof -
  obtain h fs socks where m: "Stop mac = (h, fs, socks)" by (cases "Stop mac")
  obtain h' fs' socks' where m': "mac' = (h', fs', socks')" by (cases mac')
  have st: "machine_ok (h, fs, socks)" "\<not> Running h" "socks = {}" using Stop_ok[OF assms(1)] m by auto
  have ok: "machine_ok mac'" using Start_ok[OF st(1), of e cfg] assms(2) m by simp
  show ?thesis
  proof (cases res)
    case (Inl err)
    then have "h' = h \<and> socks' = socks" using Start_error[of e cfg h fs socks err h' fs' socks'] assms(2) m m' st(1) by simp
    moreover have "err \<noteq> AlreadyRunning" using assms(2) st(2) m Inl
      by (auto simp: Start_def Running_def start_tls_def Let_def split: sum.splits prod.splits option.splits if_splits)
    ultimately show ?thesis using Inl m' ok st by simp
  next
    case (Inr u)
    have "Start e cfg (h, fs, socks) = (Inr u, (h', fs', socks'))" using assms(2) m m' Inr by simp
    then obtain r bound ctrl srv acme where
      "h' = \<lparr>h_cfg = Some cfg, h_ctrlAddr = ctrl, h_relayPub = relayPublic cfg (addrport_string bound), h_httpSrv = Some srv,
           h_acmeSrv = acme, h_rly = Some bound, h_tlsRes = Some r\<rparr>"
      by (rule Start_success)
    then show ?thesis using Inr m' ok by (simp add: Running_def)
  qed
qed

text \<open>Whether settings can be started does not depend on the automatic start.\<close>

lemma Valid_auto [simp]: "config_Valid (c\<lparr>sc_AutoStart := b\<rparr>) = config_Valid c"
  by (simp add: config_Valid_def)

lemma Host_auto [simp]: "config_Host (c\<lparr>sc_AutoStart := b\<rparr>) = config_Host c"
  by (simp add: config_Host_def)

lemma Valid_saved [simp]: "config_Valid (saved_form c) = config_Valid c"
  by (simp add: config_Valid_def saved_form_def)

lemma sup_Start_cases:
  assumes "machine_ok (sp_mac s)" and "sup_Start e c s = (err, s')"
  obtains (invalid) x where "config_Valid c = Some x" "err = Some (InConfig x)" "s' = s\<lparr>sp_lastErr := err\<rparr>"
  | (failed) x mac where "config_Valid c = None" "err = Some (InHost x)" "x \<noteq> AlreadyRunning"
      "Start (sn_host e) (config_Host c) (Stop (sp_mac s)) = (Inl x, mac)"
      "s' = s\<lparr>sp_mac := mac, sp_cfg := c\<lparr>sc_AutoStart := True\<rparr>, sp_lastErr := err\<rparr>"
      "machine_ok mac" "\<not> Running (fst mac)" "snd (snd mac) = {}"
  | (started) mac where "config_Valid c = None" "err = None" "Start (sn_host e) (config_Host c) (Stop (sp_mac s)) = (Inr (), mac)"
      "s' = sup_save e (s\<lparr>sp_mac := mac, sp_cfg := c\<lparr>sc_AutoStart := True\<rparr>, sp_lastErr := None\<rparr>)"
      "machine_ok mac" "Running (fst mac)" "h_cfg (fst mac) = Some (config_Host c)"
proof (cases "config_Valid c")
  case None
  obtain res mac where st: "Start (sn_host e) (config_Host c) (Stop (sp_mac s)) = (res, mac)" by (cases "Start (sn_host e) (config_Host c) (Stop (sp_mac s))")
  note facts = Start_after_Stop[OF assms(1) st]
  show ?thesis
  proof (cases res)
    case (Inl x)
    then have "err = Some (InHost x)" "s' = s\<lparr>sp_mac := mac, sp_cfg := c\<lparr>sc_AutoStart := True\<rparr>, sp_lastErr := err\<rparr>"
      using None st assms(2) by (auto simp: sup_Start_def Let_def)
    then show ?thesis using failed[of x mac] None facts Inl st by simp
  next
    case (Inr u)
    then have "err = None" "s' = sup_save e (s\<lparr>sp_mac := mac, sp_cfg := c\<lparr>sc_AutoStart := True\<rparr>, sp_lastErr := None\<rparr>)"
      using None st assms(2) by (auto simp: sup_Start_def Let_def)
    then show ?thesis using started[of mac] None st facts Inr by simp
  qed
next
  case (Some x)
  then have "err = Some (InConfig x)" "s' = s\<lparr>sp_lastErr := err\<rparr>" using assms(2) by (auto simp: sup_Start_def)
  then show ?thesis using invalid[of x] Some by simp
qed

lemma sup_save_fields [simp]: "sp_mac (sup_save e s) = sp_mac s" "sp_cfg (sup_save e s) = sp_cfg s" "sp_lastErr (sup_save e s) = sp_lastErr s"
  by (simp_all add: sup_save_def)

lemma sup_save_file [simp]: "sn_path e \<Longrightarrow> sn_write e \<Longrightarrow> sp_file (sup_save e s) = File (Some (enc_config (sp_cfg s)))"
  by (simp add: sup_save_def config_Save_def)

lemma sup_step_ok: "sup_step s s' \<Longrightarrow> sup_ok s \<Longrightarrow> sup_ok s'"
proof (induction rule: sup_step.induct)
  case (step_start e c s)
  obtain err s' where st: "sup_Start e c s = (err, s')" by (cases "sup_Start e c s")
  have m: "machine_ok (sp_mac s)" using step_start.prems by (simp add: sup_ok_def)
  show ?case using m st
  proof (cases rule: sup_Start_cases)
    case invalid
    then show ?thesis using step_start st by (simp add: sup_ok_def)
  next
    case failed
    then show ?thesis using step_start st by (simp add: sup_ok_def)
  next
    case started
    then show ?thesis using step_start st by (simp add: sup_ok_def)
  qed
qed (auto simp: sup_ok_def sup_Stop_def sup_Shutdown_def Stop_ok)

interpretation hosting: step_invariant sup_step sup_ok
  by unfold_locales (rule sup_step_ok)

lemma New_ok: "sup_ok (supervisor_New p fs f)"
  by (simp add: sup_ok_def supervisor_New_def config_Load_ok machine_ok_def host_New_def held_sockets_def Running_def)

text \<open>C19: What runs comes back. In every state that a hosted network's operations reach on a machine whose state
  directory can be written, if the network is running then the saved settings are exactly its settings, every
  group with its token included; a restart (after a shutdown, or without one) finds them and starts that
  network with them, which runs whenever the host can start. A network that was stopped stays down.
\<close>

theorem running_network_comes_back:
  assumes "sup_step\<^sup>*\<^sup>* (supervisor_New pathOk fs f) s"
  defines "boot \<equiv> \<lambda>s. supervisor_New True (fst (snd (sp_mac s))) (sp_file s)"
  shows "(Running (fst (sp_mac s)) \<longrightarrow>
       (let c = sp_cfg (boot s) in
        h_cfg (fst (sp_mac s)) = Some (config_Host (sp_cfg s)) \<and> c = saved_form (sp_cfg s) \<and>
        map_of (sc_GroupTokens c) = map_of (sc_GroupTokens (sp_cfg s)) \<and>
        sp_file (sup_Shutdown s) = sp_file s \<and> \<not> Running (fst (sp_mac (sup_Shutdown s))) \<and>
        (\<forall>e. sup_AutoStart e (boot s) = snd (sup_Start e c (boot s)) \<and>
           (Running (fst (sp_mac (sup_AutoStart e (boot s)))) \<longleftrightarrow>
              (\<exists>mac. Start (sn_host e) (config_Host c) (host_New, fst (snd (sp_mac s)), {}) = (Inr (), mac))))))
   \<and> (\<forall>e e'. sn_path e \<and> sn_write e \<longrightarrow> \<not> Running (fst (sp_mac (sup_Stop e s))) \<and>
        sup_AutoStart e' (boot (sup_Stop e s)) = boot (sup_Stop e s))"
proof -
  have ok: "sup_ok s" using assms(1) New_ok by (rule hosting.steps_inv)
  then have g: "gomap_ok (sc_GroupTokens (sp_cfg s))" and m: "machine_ok (sp_mac s)" by (simp_all add: sup_ok_def)
  have boot_cfg: "sp_file t = File (Some (enc_config c)) \<Longrightarrow> gomap_ok (sc_GroupTokens c) \<Longrightarrow> sp_cfg (boot t) = saved_form c" for t c
    by (simp add: boot_def supervisor_New_def config_Load_def)
  have auto: "sup_AutoStart e (boot t) = snd (sup_Start e (saved_form c) (boot t)) \<and>
      (Running (fst (sp_mac (sup_AutoStart e (boot t)))) \<longleftrightarrow>
         (\<exists>mac. Start (sn_host e) (config_Host (saved_form c)) (host_New, fst (snd (sp_mac t)), {}) = (Inr (), mac)))"
    if c: "sp_cfg (boot t) = saved_form c" "sc_AutoStart c" "config_Valid c = None" for e t c
  proof -
    have st: "sup_AutoStart e (boot t) = snd (sup_Start e (saved_form c) (boot t))"
      using c by (simp add: sup_AutoStart_def saved_form_def)
    have b: "machine_ok (sp_mac (boot t))" "Stop (sp_mac (boot t)) = (host_New, fst (snd (sp_mac t)), {})"
      using New_ok by (auto simp: boot_def supervisor_New_def sup_ok_def Stop_def host_New_def)
    obtain err s' where s': "sup_Start e (saved_form c) (boot t) = (err, s')" by (cases "sup_Start e (saved_form c) (boot t)")
    have v: "config_Valid (saved_form c) = None" using c(3) by simp
    show ?thesis using b(1) s'
    proof (cases rule: sup_Start_cases)
      case (failed x mac)
      then show ?thesis using st s' b(2) by simp
    qed (use v st s' b(2) in auto)
  qed
  have run: "h_cfg (fst (sp_mac s)) = Some (config_Host (sp_cfg s))" "sp_cfg (boot s) = saved_form (sp_cfg s)"
    "sc_AutoStart (sp_cfg s)" "config_Valid (sp_cfg s) = None" if "Running (fst (sp_mac s))"
    using ok that boot_cfg g by (auto simp: sup_ok_def)
  have tokens: "map_of (sc_GroupTokens (saved_form (sp_cfg s))) = map_of (sc_GroupTokens (sp_cfg s))"
    using g unfolding saved_form_def by (intro map_of_inject_set[THEN iffD2]) (auto simp: gomap_ok_def distinct_map inj_on_def)
  have down: "\<not> Running (fst (sp_mac (sup_Shutdown s)))" "sp_file (sup_Shutdown s) = sp_file s"
    "\<not> Running (fst (sp_mac (sup_Stop e s)))" for e using Stop_ok[OF m] by (simp_all add: sup_Shutdown_def sup_Stop_def)
  have stays: "sup_AutoStart e' (boot (sup_Stop e s)) = boot (sup_Stop e s)" if "sn_path e \<and> sn_write e" for e e'
    using boot_cfg[of "sup_Stop e s" "(sp_cfg s)\<lparr>sc_AutoStart := False\<rparr>"] that g by (simp add: sup_Stop_def sup_AutoStart_def saved_form_def)
  show ?thesis
  proof (intro conjI impI allI)
    assume r: "Running (fst (sp_mac s))"
    show "let c = sp_cfg (boot s) in
        h_cfg (fst (sp_mac s)) = Some (config_Host (sp_cfg s)) \<and> c = saved_form (sp_cfg s) \<and>
        map_of (sc_GroupTokens c) = map_of (sc_GroupTokens (sp_cfg s)) \<and>
        sp_file (sup_Shutdown s) = sp_file s \<and> \<not> Running (fst (sp_mac (sup_Shutdown s))) \<and>
        (\<forall>e. sup_AutoStart e (boot s) = snd (sup_Start e c (boot s)) \<and>
           (Running (fst (sp_mac (sup_AutoStart e (boot s)))) \<longleftrightarrow>
              (\<exists>mac. Start (sn_host e) (config_Host c) (host_New, fst (snd (sp_mac s)), {}) = (Inr (), mac))))"
      unfolding Let_def run(2)[OF r] using run[OF r] tokens down auto[OF run(2,3,4)[OF r]] by blast
  qed (use down stays in blast)+
qed

text \<open>C36: A start that fails says why and leaves nothing half open: settings that cannot be started change nothing
  but the last error, and a host that does not start ends with no socket and no network. Neither is saved, so a
  restart does what it would have done before.
\<close>

theorem failed_hosting_leaves_nothing_open:
  assumes "sup_step\<^sup>*\<^sup>* (supervisor_New pathOk fs f) s" and "sup_Start e c s = (Some err, s')"
  shows "sp_lastErr s' = Some err \<and> sp_file s' = sp_file s \<and>
    (case err of
       InConfig x \<Rightarrow> config_Valid c = Some x \<and> sp_mac s' = sp_mac s \<and> sp_cfg s' = sp_cfg s
     | InHost x \<Rightarrow> config_Valid c = None \<and> x \<noteq> AlreadyRunning \<and> \<not> Running (fst (sp_mac s')) \<and> snd (snd (sp_mac s')) = {} \<and>
         sp_cfg s' = c\<lparr>sc_AutoStart := True\<rparr>)"
proof -
  have "machine_ok (sp_mac s)" using hosting.steps_inv[OF assms(1) New_ok] by (simp add: sup_ok_def)
  then show ?thesis using assms(2) by (cases rule: sup_Start_cases) auto
qed

section \<open>What a request is answered\<close>

text \<open>
  The interface the pipe works on (\<open>Handler\<close>): a start either runs the network it was given and gives no error,
  or fails and the network does not run with it; a stop leaves nothing running; and the state tells which.
\<close>

locale network_handler =
  fixes good :: "'s \<Rightarrow> bool"
    and start :: "'c \<Rightarrow> 's \<Rightarrow> 'e option \<times> 's"
    and stop :: "'s \<Rightarrow> 's"
    and runs :: "'s \<Rightarrow> bool"
    and settings :: "'s \<Rightarrow> 'c"
    and wanted :: "'c \<Rightarrow> 'c"
  assumes start_ok: "good s \<Longrightarrow> start c s = (None, s') \<Longrightarrow> runs s' \<and> settings s' = wanted c"
    and start_good: "good s \<Longrightarrow> good (snd (start c s))"
    and stop_good: "good s \<Longrightarrow> good (stop s) \<and> \<not> runs (stop s)"
begin

lemma restart_takes_over:
  assumes "good s" and "start c s = (None, s1)" and "start d s1 = (None, s2)"
  shows "runs s2 \<and> settings s2 = wanted d"
  using start_ok[OF _ assms(3)] start_good[OF assms(1), of c] assms(2) by simp

lemma stop_then_start:
  assumes "good s" and "start c (stop s) = (None, s')"
  shows "runs s' \<and> settings s' = wanted c"
  using start_ok[OF _ assms(2)] stop_good[OF assms(1)] by simp

end

lemma sup_Start_machine_ok: "machine_ok (sp_mac s) \<Longrightarrow> machine_ok (sp_mac (snd (sup_Start e c s)))"
proof -
  assume m: "machine_ok (sp_mac s)"
  obtain err s' where st: "sup_Start e c s = (err, s')" by (cases "sup_Start e c s")
  from m st show ?thesis by (cases rule: sup_Start_cases) (auto simp: m st)
qed

interpretation pipe: network_handler "\<lambda>s. machine_ok (sp_mac s)" "sup_Start e" "sup_Stop e'" "\<lambda>s. Running (fst (sp_mac s))"
    sp_cfg "\<lambda>c. c\<lparr>sc_AutoStart := True\<rparr>" for e e'
proof unfold_locales
  show "machine_ok (sp_mac s) \<Longrightarrow> sup_Start e c s = (None, s') \<Longrightarrow> Running (fst (sp_mac s')) \<and> sp_cfg s' = c\<lparr>sc_AutoStart := True\<rparr>" for s c s'
    by (cases rule: sup_Start_cases) auto
qed (auto simp: sup_Stop_def Stop_ok sup_Start_machine_ok)

text \<open>What the pipe answers is what happened. When no other request comes between, \<open>OK\<close> to a start means the
  network runs with the settings sent, \<open>OK\<close> to a stop that nothing runs and no socket is open; a request that is
  not understood or has no settings changes nothing; and an answer with a state shows the state there is.
\<close>

theorem pipe_answers_what_happened:
  assumes "sup_step\<^sup>*\<^sup>* (supervisor_New pathOk fs f) s" and "sup_dispatch e iterM iterS rq s = (rsp, s')"
  shows "(rs_OK rsp \<longleftrightarrow> rs_Error rsp = None) \<and> (rs_OK rsp \<longrightarrow> rs_State rsp = Some (sup_State iterM iterS s')) \<and>
    (rs_OK rsp \<and> rq_Op rq = ''start'' \<longrightarrow> Running (fst (sp_mac s')) \<and>
       (\<exists>c. rq_Config rq = Some c \<and> sp_cfg s' = c\<lparr>sc_AutoStart := True\<rparr>)) \<and>
    (rq_Op rq = ''stop'' \<longrightarrow> rs_OK rsp \<and> \<not> Running (fst (sp_mac s')) \<and> snd (snd (sp_mac s')) = {}) \<and>
    (rq_Op rq = ''status'' \<longrightarrow> rs_OK rsp \<and> s' = s) \<and>
    (\<forall>x. rs_Error rsp = Some x \<longrightarrow> (case x of
        NotStarted err \<Rightarrow> rs_State rsp = Some (sup_State iterM iterS s') \<and> sp_lastErr s' = Some err
      | ConfigurationMissing \<Rightarrow> rs_State rsp = None \<and> s' = s
      | UnknownOperation op \<Rightarrow> rs_State rsp = None \<and> s' = s \<and> op = rq_Op rq \<and> op \<notin> {''start'', ''stop'', ''status''}))"
proof -
  have m: "machine_ok (sp_mac s)" using hosting.steps_inv[OF assms(1) New_ok] by (simp add: sup_ok_def)
  have started: "sup_Start e c s = (None, t) \<Longrightarrow> Running (fst (sp_mac t)) \<and> sp_cfg t = c\<lparr>sc_AutoStart := True\<rparr>" for c t
    using m by (rule pipe.start_ok)
  have err: "sup_Start e c s = (Some x, t) \<Longrightarrow> sp_lastErr t = Some x" for c x t
    by (erule sup_Start_cases[OF m]) auto
  have stopped: "\<not> Running (fst (sp_mac (sup_Stop e s))) \<and> snd (snd (sp_mac (sup_Stop e s))) = {}"
    using Stop_ok[OF m] by (simp add: sup_Stop_def)
  show ?thesis using assms(2) started err stopped
    by (auto simp: sup_dispatch_def request_act_def request_answer_def split: prod.splits option.splits if_splits)
qed

section \<open>Witnesses\<close>

definition demo_srv_config :: srv_config where
  "demo_srv_config = config_Default\<lparr>sc_Token := ''secret'', sc_ControlAddr := '':8787'', sc_RelayAddr := '':3478'', sc_TLSMode := ''self''\<rparr>"

definition demo_sup_env :: sup_env where
  "demo_sup_env = \<lparr>sn_host = demo_host_env\<lparr>he_stateDir := Some ''/var/lib/zwan/tls''\<rparr>, sn_path = True, sn_write = True\<rparr>"

definition demo_supervisor :: supervisor where
  "demo_supervisor = supervisor_New True (\<lambda>p. None) NoFile"

lemma demo_hosting:
  obtains s where "sup_Start demo_sup_env demo_srv_config demo_supervisor = (None, s)"
    "sup_step\<^sup>*\<^sup>* demo_supervisor s" "Running (fst (sp_mac s))"
proof -
  obtain h' fs' socks' where "Start demo_host_env demo_host_config (host_New, (\<lambda>p. None), {}) = (Inr (), (h', fs', socks'))"
    by (rule demo_Start)
  then obtain r where "start_tls demo_host_env demo_host_config (\<lambda>p. None) = (Inr r, fs')" by (rule Start_success)
  moreover have "ParseMode ''self'' = Inr ModeSelf" "ModeSelf \<noteq> ModeOff" by code_simp+
  ultimately have tls: "start_tls (sn_host demo_sup_env) (config_Host demo_srv_config) (\<lambda>p. None) = (Inr r, fs')"
    by (simp add: start_tls_def demo_sup_env_def demo_host_env_def demo_host_config_def demo_srv_config_def config_Host_def config_Default_def)
  have "\<exists>t. BuildJoinTokens (\<lambda>xs. xs) ''secret'' [] = Inr t" by (simp add: BuildJoinTokens_def build_add_def Let_def)
  with tls Split_16 have "\<exists>mac. Start (sn_host demo_sup_env) (config_Host demo_srv_config) (host_New, (\<lambda>p. None), {}) = (Inr (), mac)"
    by (auto simp: Start_def host_New_def demo_sup_env_def demo_host_env_def demo_srv_config_def config_Host_def config_Default_def Let_def)
  then obtain mac where st: "Start (sn_host demo_sup_env) (config_Host demo_srv_config) (host_New, (\<lambda>p. None), {}) = (Inr (), mac)" by blast
  have v: "config_Valid demo_srv_config = None" by code_simp
  have b: "machine_ok (sp_mac demo_supervisor)" "Stop (sp_mac demo_supervisor) = (host_New, (\<lambda>p. None), {})"
    using New_ok by (auto simp: demo_supervisor_def supervisor_New_def sup_ok_def Stop_def host_New_def)
  obtain err s where s: "sup_Start demo_sup_env demo_srv_config demo_supervisor = (err, s)" by (cases "sup_Start demo_sup_env demo_srv_config demo_supervisor")
  have "err = None \<and> Running (fst (sp_mac s))" using b(1) s
    by (cases rule: sup_Start_cases) (use st v b(2) in auto)
  moreover have "sup_step demo_supervisor s"
    using step_start[of demo_sup_env demo_srv_config demo_supervisor] s
    by (simp add: demo_sup_env_def demo_srv_config_def config_Default_def)
  ultimately show ?thesis using that[of s] s by blast
qed

theorem running_network_witness:
  "\<exists>s. sup_Start demo_sup_env demo_srv_config demo_supervisor = (None, s) \<and> Running (fst (sp_mac s)) \<and>
     sp_cfg (supervisor_New True (fst (snd (sp_mac s))) (sp_file s)) = saved_form (sp_cfg s) \<and>
     \<not> Running (fst (sp_mac (sup_Stop demo_sup_env s)))"
proof -
  obtain s where s: "sup_Start demo_sup_env demo_srv_config demo_supervisor = (None, s)" "sup_step\<^sup>*\<^sup>* demo_supervisor s"
    "Running (fst (sp_mac s))" by (rule demo_hosting)
  have "sn_path demo_sup_env \<and> sn_write demo_sup_env" by (simp add: demo_sup_env_def)
  with running_network_comes_back[OF s(2)[unfolded demo_supervisor_def]] s show ?thesis unfolding Let_def by blast
qed

text \<open>The control address is taken: the relay's socket is closed again.\<close>

definition demo_taken_env :: sup_env where
  "demo_taken_env = demo_sup_env\<lparr>sn_host := (sn_host demo_sup_env)\<lparr>he_tcp := (\<lambda>a. None)\<rparr>\<rparr>"

theorem failed_hosting_witness:
  "\<exists>s. sup_Start demo_taken_env demo_srv_config demo_supervisor = (Some (InHost ControlNotBound), s) \<and> snd (snd (sp_mac s)) = {} \<and>
     sp_file s = sp_file demo_supervisor"
proof -
  obtain t where "sup_Start demo_sup_env demo_srv_config demo_supervisor = (None, t)" by (rule demo_hosting)
  then obtain u mac where "Start (sn_host demo_sup_env) (config_Host demo_srv_config) (Stop (sp_mac demo_supervisor)) = (Inr u, mac)"
    by (auto simp: sup_Start_def Let_def split: option.splits sum.splits prod.splits)
  moreover obtain h fs socks where st: "Stop (sp_mac demo_supervisor) = (h, fs, socks)" by (cases "Stop (sp_mac demo_supervisor)")
  ultimately have "\<exists>mac. Start (sn_host demo_taken_env) (config_Host demo_srv_config) (Stop (sp_mac demo_supervisor)) = (Inl ControlNotBound, mac)"
    by (auto simp: Start_def demo_taken_env_def start_tls_def Let_def split: sum.splits prod.splits option.splits if_splits)
  then obtain mac' where f: "Start (sn_host demo_taken_env) (config_Host demo_srv_config) (Stop (sp_mac demo_supervisor)) = (Inl ControlNotBound, mac')" by blast
  have v: "config_Valid demo_srv_config = None" by code_simp
  obtain s where s: "sup_Start demo_taken_env demo_srv_config demo_supervisor = (Some (InHost ControlNotBound), s)"
    using f v by (simp add: sup_Start_def)
  show ?thesis using s failed_hosting_leaves_nothing_open[OF rtranclp.rtrancl_refl s[unfolded demo_supervisor_def]]
    unfolding demo_supervisor_def[symmetric] by auto
qed

theorem pipe_answers_witness:
  "\<exists>rsp s. sup_dispatch demo_sup_env (\<lambda>xs. xs) (\<lambda>xs. xs) \<lparr>rq_Op = ''start'', rq_Config = Some demo_srv_config\<rparr> demo_supervisor = (rsp, s) \<and>
     rs_OK rsp \<and> Running (fst (sp_mac s))"
proof -
  obtain s where s: "sup_Start demo_sup_env demo_srv_config demo_supervisor = (None, s)" by (rule demo_hosting)
  then obtain rsp where d: "sup_dispatch demo_sup_env (\<lambda>xs. xs) (\<lambda>xs. xs) \<lparr>rq_Op = ''start'', rq_Config = Some demo_srv_config\<rparr> demo_supervisor = (rsp, s)"
    "rs_OK rsp" by (simp add: sup_dispatch_def request_act_def request_answer_def)
  show ?thesis using d pipe_answers_what_happened[OF rtranclp.rtrancl_refl d(1)[unfolded demo_supervisor_def]] by auto
qed

end
