(* ===== verification/WinService.thy ===== *)
theory WinService
  imports Netsh ManagerView ServerConfig
begin

text \<open>
  The two Windows services: the engine (\<open>cmd/zwan-service/service_windows.go\<close>) and the control server
  (\<open>cmd/zwan-server/service_windows.go\<close>). The service manager of Windows is an argument: what it answers to each
  call. An operation gives the fatal error it ends with, if any, the calls it made of the service manager in
  their order, the errors it only logs, and the machine with its firewall and name resolution rules.
\<close>

section \<open>Installing and removing\<close>

datatype scm_call = OpenService string | StartService string | CreateService string string | StopService string | DeleteService string

datatype start_answer = StartedNow | RunningAlready | WontStart

record scm =
  sm_exe :: "string option"
  sm_connect :: bool
  sm_open :: bool
  sm_start :: start_answer
  sm_create :: bool
  sm_stop :: bool
  sm_delete :: bool

datatype service_error = NoExecutable | NoManager | StartRefused | CreateRefused | NotInstalled | DeleteRefused | StopRefused

definition alreadyRunning :: "start_answer \<Rightarrow> bool" where
  "alreadyRunning a \<longleftrightarrow> a = RunningAlready"

definition start_ok :: "start_answer \<Rightarrow> bool" where
  "start_ok a \<longleftrightarrow> a = StartedNow"

definition engine_firewallRule :: "string \<Rightarrow> fw_rule" where
  "engine_firewallRule exe = \<lparr>fw_Name = ''zwan overlay engine'', fw_Exe = exe,
     fw_Description = ''Inbound for the '' @ ProductName @ '' overlay engine.''\<rparr>"

definition server_firewallRule :: "string \<Rightarrow> fw_rule" where
  "server_firewallRule exe = \<lparr>fw_Name = ''zwan control server'', fw_Exe = exe,
     fw_Description = ''Inbound for the '' @ ProductName @ '' control server and relay.''\<rparr>"

text \<open>The error of the firewall is logged, not returned.\<close>

definition ensureFirewall :: "'m netsh \<Rightarrow> fw_rule \<Rightarrow> 'm \<Rightarrow> netsh_error option \<times> 'm" where
  "ensureFirewall run r m = firewall_Allow run r m"

text \<open>
  A service that runs is left running: a new program is in use from its next start. \<open>svc.Stop\<close>, on removal, only asks
  for the stop; what the service does until it has ended is not part of the model of a removal.
\<close>

definition service_install :: "'m netsh \<Rightarrow> string \<Rightarrow> (string \<Rightarrow> fw_rule) \<Rightarrow> scm \<Rightarrow> 'm \<Rightarrow>
    service_error option \<times> scm_call list \<times> netsh_error option \<times> 'm" where
  "service_install run name rule e m =
     (case sm_exe e of
        None \<Rightarrow> (Some NoExecutable, [], None, m)
      | Some exe \<Rightarrow>
          if \<not> sm_connect e then (Some NoManager, [], None, m)
          else if sm_open e then
            (if \<not> start_ok (sm_start e) \<and> \<not> alreadyRunning (sm_start e)
             then (Some StartRefused, [OpenService name, StartService name], None, m)
             else (None, [OpenService name, StartService name], ensureFirewall run (rule exe) m))
          else if \<not> sm_create e then (Some CreateRefused, [OpenService name, CreateService name exe], None, m)
          else (None, [OpenService name, CreateService name exe, StartService name], ensureFirewall run (rule exe) m))"

definition engine_install :: "'m netsh \<Rightarrow> scm \<Rightarrow> 'm \<Rightarrow> service_error option \<times> scm_call list \<times> netsh_error option \<times> 'm" where
  "engine_install run e m = service_install run ''zwanEngine'' engine_firewallRule e m"

definition installService :: "'m netsh \<Rightarrow> scm \<Rightarrow> 'm \<Rightarrow> service_error option \<times> scm_call list \<times> netsh_error option \<times> 'm" where
  "installService run e m = service_install run ''zwanServer'' server_firewallRule e m"

text \<open>
  Removing: the stop is tried and its outcome not looked at. The control server takes its firewall rule out; the
  engine its rule and every rule of name resolution that carries its tag.
\<close>

definition service_uninstall :: "string \<Rightarrow> scm \<Rightarrow> service_error option \<times> scm_call list" where
  "service_uninstall name e =
     (if \<not> sm_connect e then (Some NoManager, [])
      else if \<not> sm_open e then (Some NotInstalled, [OpenService name])
      else (if sm_delete e then None else Some DeleteRefused, [OpenService name, StopService name, DeleteService name]))"

definition uninstallService :: "'m netsh \<Rightarrow> scm \<Rightarrow> 'm \<Rightarrow> service_error option \<times> scm_call list \<times> netsh_error option \<times> 'm" where
  "uninstallService run e m =
     (case service_uninstall ''zwanServer'' e of
        (Some err, calls) \<Rightarrow> (Some err, calls, None, m)
      | (None, calls) \<Rightarrow> (None, calls, firewall_Remove run ''zwan control server'' m))"

definition engine_uninstall :: "'m netsh \<Rightarrow> ('t \<Rightarrow> nrpt_rule list option) \<Rightarrow> (string list \<Rightarrow> string list \<Rightarrow> string \<Rightarrow> 't \<Rightarrow> bool \<times> 't) \<Rightarrow>
    scm \<Rightarrow> 'm \<times> 't \<Rightarrow> service_error option \<times> scm_call list \<times> netsh_error option \<times> nrpt_error option \<times> 'm \<times> 't" where
  "engine_uninstall run list_rules mutate e mt =
     (case mt of (m, t) \<Rightarrow>
      (case service_uninstall ''zwanEngine'' e of
         (Some err, calls) \<Rightarrow> (Some err, calls, None, None, m, t)
       | (None, calls) \<Rightarrow>
           (case firewall_Remove run ''zwan overlay engine'' m of
              (ferr, m') \<Rightarrow>
                (case Purge list_rules mutate t of
                   (res, t') \<Rightarrow> (None, calls, ferr, (case res of Inl x \<Rightarrow> Some x | Inr _ \<Rightarrow> None), m', t')))))"

definition service_control :: "string \<Rightarrow> string \<Rightarrow> scm \<Rightarrow> service_error option \<times> scm_call list" where
  "service_control name action e =
     (if \<not> sm_connect e then (Some NoManager, [])
      else if \<not> sm_open e then (Some NotInstalled, [OpenService name])
      else if action = ''start'' then (if start_ok (sm_start e) then None else Some StartRefused, [OpenService name, StartService name])
      else (if sm_stop e then None else Some StopRefused, [OpenService name, StopService name]))"

definition controlService :: "string \<Rightarrow> scm \<Rightarrow> service_error option \<times> scm_call list" where
  "controlService action e = service_control ''zwanServer'' action e"

definition engine_control :: "string \<Rightarrow> scm \<Rightarrow> service_error option \<times> scm_call list" where
  "engine_control action e = service_control ''zwanEngine'' action e"

section \<open>Running as a service\<close>

datatype svc_cmd = Interrogate | SvcStop | SvcShutdown | SvcOther
datatype svc_status = StartPending | SvcRunning | CurrentStatus | StopPending

text \<open>
  The loop over the commands of the service manager. Between two commands the other goroutines act: the pipe's
  requests and the automatic start are the function that comes with each command.
\<close>

fun execute_loop :: "('s \<Rightarrow> 's) \<Rightarrow> (('s \<Rightarrow> 's) \<times> svc_cmd) list \<Rightarrow> 's \<Rightarrow> svc_status list \<times> 's" where
  "execute_loop shutdown [] s = ([], s)"
| "execute_loop shutdown ((other, c) # cs) s =
     (case c of
        Interrogate \<Rightarrow> (case execute_loop shutdown cs (other s) of (out, s') \<Rightarrow> (CurrentStatus # out, s'))
      | SvcOther \<Rightarrow> execute_loop shutdown cs (other s)
      | _ \<Rightarrow> ([StopPending], shutdown (other s)))"

definition service_Execute :: "('s \<Rightarrow> 's) \<Rightarrow> (('s \<Rightarrow> 's) \<times> svc_cmd) list \<Rightarrow> 's \<Rightarrow> svc_status list \<times> 's" where
  "service_Execute stop cs s = (case execute_loop stop cs s of (out, s') \<Rightarrow> (StartPending # SvcRunning # out, s'))"

text \<open>The control server's service ends with a shutdown, which keeps the network wanted.\<close>

definition server_Execute :: "((supervisor \<Rightarrow> supervisor) \<times> svc_cmd) list \<Rightarrow> supervisor \<Rightarrow> svc_status list \<times> supervisor" where
  "server_Execute cs s = service_Execute sup_Shutdown cs s"

section \<open>What a command line means\<close>

datatype program_mode =
    AsService | Usage | InstallMode | UninstallMode | StartMode | StopMode | ConsoleMode | DriverInstall
  | UnknownCommand string | SelfUpdate | Headless | FatalMode

text \<open>The engine's arguments; \<open>isSvc\<close> is what the system answers to whether it was started as a service.\<close>

definition engine_main :: "bool option \<Rightarrow> string list \<Rightarrow> program_mode" where
  "engine_main isSvc args =
     (case isSvc of
        None \<Rightarrow> FatalMode
      | Some True \<Rightarrow> AsService
      | Some False \<Rightarrow>
          (case args of
             [] \<Rightarrow> Usage
           | a # _ \<Rightarrow>
               if a = ''install'' then InstallMode else if a = ''uninstall'' then UninstallMode
               else if a = ''start'' then StartMode else if a = ''stop'' then StopMode
               else if a = ''run'' then ConsoleMode else if a = ''driver-install'' then DriverInstall
               else UnknownCommand a))"

definition handleServiceCommand :: "string list \<Rightarrow> program_mode option" where
  "handleServiceCommand args =
     (case args of
        [] \<Rightarrow> None
      | a # rest \<Rightarrow>
          if a \<noteq> ''service'' then None
          else (case rest of
              [] \<Rightarrow> Some Usage
            | c # _ \<Rightarrow>
                Some (if c = ''install'' then InstallMode else if c = ''uninstall'' then UninstallMode
                      else if c = ''start'' then StartMode else if c = ''stop'' then StopMode
                      else if c = ''run'' then ConsoleMode else UnknownCommand c)))"

definition runAsService :: "bool option \<Rightarrow> bool" where
  "runAsService isSvc \<longleftrightarrow> isSvc = Some True"

definition server_main :: "bool option \<Rightarrow> string list \<Rightarrow> program_mode" where
  "server_main isSvc args =
     (if args \<noteq> [] \<and> hd args = ''update'' then SelfUpdate
      else case handleServiceCommand args of
          Some m \<Rightarrow> m
        | None \<Rightarrow> if runAsService isSvc then AsService else Headless)"

text \<open>The engine's manager, once the device's identity is known.\<close>

definition newManager :: "string option \<Rightarrow> manager option" where
  "newManager device = map_option (\<lambda>d. manager_New \<lparr>mc_DNSAddr = ''127.0.0.1:53'', mc_ProductName = ProductName, mc_DeviceUUID = d,
     mc_BasePort = 0, mc_LocalPool = [], mc_LocalBits = 0, mc_NoTranslate = False\<rparr>) device"

section \<open>What the services leave on the machine\<close>

text \<open>\<open>Purge\<close> uses a binder that remembers nothing, so it always looks at the system.\<close>

lemma Purge_empties:
  assumes "policy_system list_rules mutate table" and "Purge list_rules mutate t = (Inr u, t')"
  shows "table t' = []"
proof -
  let ?b = "\<lparr>bd_server = [], bd_synced = False, bd_last = []\<rparr>"
  obtain b' where "Apply list_rules mutate [] (?b, t) = (Inr (), b', t')"
    using assms(2) by (cases "Apply list_rules mutate [] (?b, t)") (auto simp: Purge_def)
  from Clear_cases[OF assms(1) this] show ?thesis by simp
qed

lemma install_allows:
  "service_install run name rule e m = (None, calls, ferr, m') \<Longrightarrow>
     \<exists>exe. sm_exe e = Some exe \<and> sm_connect e \<and> StartService name \<in> set calls \<and> firewall_Allow run (rule exe) m = (ferr, m')"
  by (auto simp: service_install_def ensureFirewall_def split: option.splits if_splits)

lemma install_fatal: "service_install run name rule e m = (Some err, calls, ferr, m') \<Longrightarrow> m' = m \<and> ferr = None"
  by (auto simp: service_install_def split: option.splits if_splits)

lemma uninstall_parts:
  assumes "engine_uninstall run list_rules mutate e (m, t) = (None, calls, ferr, nerr, m', t')"
  shows "firewall_Remove run ''zwan overlay engine'' m = (ferr, m') \<and> (nerr = None \<longrightarrow> Purge list_rules mutate t = (Inr (), t')) \<and>
    DeleteService ''zwanEngine'' \<in> set calls"
proof -
  obtain err cs where u: "service_uninstall ''zwanEngine'' e = (err, cs)" by (cases "service_uninstall ''zwanEngine'' e")
  obtain f m1 where f: "firewall_Remove run ''zwan overlay engine'' m = (f, m1)" by (cases "firewall_Remove run ''zwan overlay engine'' m")
  obtain res t1 where p: "Purge list_rules mutate t = (res, t1)" by (cases "Purge list_rules mutate t")
  have "err = None \<Longrightarrow> DeleteService ''zwanEngine'' \<in> set cs" using u by (auto simp: service_uninstall_def split: if_splits)
  then show ?thesis using assms u f p by (cases err; cases res) (auto simp: engine_uninstall_def)
qed

lemma uninstall_fatal:
  assumes "engine_uninstall run list_rules mutate e (m, t) = (Some err, calls, ferr, nerr, m', t')"
  shows "m' = m \<and> t' = t"
proof -
  obtain x cs where u: "service_uninstall ''zwanEngine'' e = (x, cs)" by (cases "service_uninstall ''zwanEngine'' e")
  then show ?thesis using assms by (cases x) (auto simp: engine_uninstall_def split: prod.splits)
qed

text \<open>The rules of other programs stay as they are, however the commands of the firewall end.\<close>

lemma Allow_others:
  assumes "firewall_ok run rules" and "firewall_Allow run r m = (err, m')"
  shows "filter (\<lambda>x. fst x \<noteq> fw_Name r) (rules m') = filter (\<lambda>x. fst x \<noteq> fw_Name r) (rules m)"
proof (cases "fw_Name r = [] \<or> fw_Exe r = []")
  case True
  then show ?thesis using assms(2) by (auto simp: firewall_Allow_def)
next
  case False
  obtain e m1 where rm: "firewall_Remove run (fw_Name r) m = (e, m1)" by (cases "firewall_Remove run (fw_Name r) m")
  obtain out ok where "run (addArgs r) m1 = ((out, ok), m')"
    using assms(2) rm False by (auto simp: firewall_Allow_def firewall_run_def split: prod.splits if_splits)
  then have "rules m' = (if ok then rules m1 @ [(fw_Name r, fw_Exe r)] else rules m1)" using assms(1) unfolding firewall_ok_def by blast
  then show ?thesis using Remove_rules[OF assms(1) rm] by (auto split: if_splits)
qed

text \<open>C39: What installing and removing the engine's service leave on the machine. An installation that gets through
  asks for the service to be started and leaves the firewall rules of other programs alone; when the firewall
  reported no error there is a rule of the engine's name for the program that is installed now, and it is the only
  one unless the old ones could not be taken out, which is not reported: then they stay beside it. An installation
  that fails touches no rule. A removal that gets through deletes the service; whatever was there, when the
  firewall reported no error no rule of the engine's name is left, when the cleanup of name resolution reported none no
  rule of ours is left in the table, also none of a run that was killed, and the firewall rules of other programs are as
  they were. One that does not get through changes nothing.
\<close>

theorem a_removed_service_leaves_nothing:
  assumes "firewall_ok run rules" and "powershell_ok powershell table"
  shows "(engine_install run e m = (None, calls, ferr, m1) \<longrightarrow>
      StartService ''zwanEngine'' \<in> set calls \<and>
      filter (\<lambda>x. fst x \<noteq> ''zwan overlay engine'') (rules m1) = filter (\<lambda>x. fst x \<noteq> ''zwan overlay engine'') (rules m) \<and>
      (ferr = None \<longrightarrow> (\<exists>exe. sm_exe e = Some exe \<and> filter (\<lambda>x. fst x = ''zwan overlay engine'') (rules m1) =
         (if fst (firewall_Remove run ''zwan overlay engine'' m) = None then []
          else filter (\<lambda>x. fst x = ''zwan overlay engine'') (rules m)) @ [(''zwan overlay engine'', exe)]))) \<and>
    (engine_install run e m = (Some err, calls, ferr, m1) \<longrightarrow> m1 = m) \<and>
    (engine_uninstall run (ps_list powershell) (ps_mutate powershell) e' (m', t) = (None, calls', ferr', nerr, m2, t2) \<longrightarrow>
      DeleteService ''zwanEngine'' \<in> set calls' \<and>
      (ferr' = None \<longrightarrow> ''zwan overlay engine'' \<notin> fst ` set (rules m2)) \<and> (nerr = None \<longrightarrow> table t2 = []) \<and>
      filter (\<lambda>x. fst x \<noteq> ''zwan overlay engine'') (rules m2) = filter (\<lambda>x. fst x \<noteq> ''zwan overlay engine'') (rules m')) \<and>
    (engine_uninstall run (ps_list powershell) (ps_mutate powershell) e' (m', t) = (Some err', calls', ferr', nerr, m2, t2) \<longrightarrow>
      m2 = m' \<and> t2 = t)"
proof (intro conjI impI)
  let ?n = "''zwan overlay engine''"
  assume i: "engine_install run e m = (None, calls, ferr, m1)"
  obtain exe where exe: "sm_exe e = Some exe" "StartService ''zwanEngine'' \<in> set calls"
    "firewall_Allow run (engine_firewallRule exe) m = (ferr, m1)"
    using install_allows[OF i[unfolded engine_install_def]] by (elim exE conjE)
  have f: "fw_Name (engine_firewallRule exe) = ?n" "fw_Exe (engine_firewallRule exe) = exe" by (simp_all add: engine_firewallRule_def)
  show "StartService ''zwanEngine'' \<in> set calls" by (rule exe(2))
  show "filter (\<lambda>x. fst x \<noteq> ?n) (rules m1) = filter (\<lambda>x. fst x \<noteq> ?n) (rules m)" using Allow_others[OF assms(1) exe(3)] unfolding f .
  assume "ferr = None"
  with exe(3) have allow: "firewall_Allow run (engine_firewallRule exe) m = (None, m1)" by simp
  have "filter (\<lambda>x. fst x = ?n) (rules m1) = (if fst (firewall_Remove run ?n m) = None then []
          else filter (\<lambda>x. fst x = ?n) (rules m)) @ [(?n, exe)]"
    using Allow_rules[OF assms(1) allow] unfolding f by (simp add: filter_empty_conv)
  with exe(1) show "\<exists>exe. sm_exe e = Some exe \<and> filter (\<lambda>x. fst x = ?n) (rules m1) =
         (if fst (firewall_Remove run ?n m) = None then [] else filter (\<lambda>x. fst x = ?n) (rules m)) @ [(?n, exe)]"
    by (intro exI conjI)
next
  assume "engine_install run e m = (Some err, calls, ferr, m1)"
  then show "m1 = m" unfolding engine_install_def by (rule install_fatal[THEN conjunct1])
next
  let ?n = "''zwan overlay engine''"
  assume u: "engine_uninstall run (ps_list powershell) (ps_mutate powershell) e' (m', t) = (None, calls', ferr', nerr, m2, t2)"
  note parts = uninstall_parts[OF u]
  have rm: "firewall_Remove run ?n m' = (ferr', m2)" and calls: "DeleteService ''zwanEngine'' \<in> set calls'" using parts by simp_all
  note r = Remove_rules[OF assms(1) rm]
  show "filter (\<lambda>x. fst x \<noteq> ?n) (rules m2) = filter (\<lambda>x. fst x \<noteq> ?n) (rules m')" using r by (simp split: if_splits)
  show "DeleteService ''zwanEngine'' \<in> set calls'" by (rule calls)
  show "?n \<notin> fst ` set (rules m2)" if "ferr' = None" using r that by auto
  show "table t2 = []" if "nerr = None"
    using Purge_empties[OF windows_policy_system[OF assms(2)]] parts that by blast
next
  assume "engine_uninstall run (ps_list powershell) (ps_mutate powershell) e' (m', t) = (Some err', calls', ferr', nerr, m2, t2)"
  note kept = uninstall_fatal[OF this]
  show "m2 = m'" using kept by (rule conjunct1)
  show "t2 = t" using kept by (rule conjunct2)
qed

section \<open>A service that is stopped\<close>

text \<open>The state when the commands run out or one of them ends the service.\<close>

definition ends :: "(('s \<Rightarrow> 's) \<times> svc_cmd) list \<Rightarrow> bool" where
  "ends cs = list_ex (\<lambda>x. snd x = SvcStop \<or> snd x = SvcShutdown) cs"

fun before_stop :: "(('s \<Rightarrow> 's) \<times> svc_cmd) list \<Rightarrow> 's \<Rightarrow> 's" where
  "before_stop [] s = s"
| "before_stop ((other, c) # cs) s = (if c = SvcStop \<or> c = SvcShutdown then other s else before_stop cs (other s))"

lemma execute_end:
  "snd (execute_loop shutdown cs s) =
     (if ends cs then shutdown (before_stop cs s) else before_stop cs s)"
  by (induction shutdown cs s rule: execute_loop.induct) (auto simp: ends_def split: svc_cmd.splits prod.splits)

lemma execute_reports:
  "ends cs \<Longrightarrow> fst (execute_loop shutdown cs s) \<noteq> [] \<and> last (fst (execute_loop shutdown cs s)) = StopPending"
  by (induction shutdown cs s rule: execute_loop.induct) (auto simp: ends_def split: svc_cmd.splits prod.splits)

lemma saved_auto [simp]: "sc_AutoStart (saved_form c) = sc_AutoStart c"
  by (simp add: saved_form_def)

lemma before_stop_reach:
  "(\<And>other c s. (other, c) \<in> set cs \<Longrightarrow> R\<^sup>*\<^sup>* s (other s)) \<Longrightarrow> R\<^sup>*\<^sup>* s0 s \<Longrightarrow> R\<^sup>*\<^sup>* s0 (before_stop cs s)"
proof (induction cs s rule: before_stop.induct)
  case (2 other c cs s)
  have "R\<^sup>*\<^sup>* s0 (other s)" using 2(2)[of other c s] 2(3) by (auto intro: rtranclp_trans)
  then show ?case using 2(1) 2(2) by auto
qed simp

text \<open>C38: Stopping the control server's service, or the machine, is not stopping the network. Whatever requests were
  served meanwhile, when the service ends nothing runs and no socket is open; and if the network was running at that
  moment, the settings that the next start of the service reads are that network's and ask for it to be started.
\<close>

theorem a_stopped_service_comes_back:
  assumes "\<forall>(other, c) \<in> set cs. \<forall>s. sup_step\<^sup>*\<^sup>* s (other s)" and "ends cs"
    and "server_Execute cs (supervisor_New p fs f) = (out, s')"
  defines "s \<equiv> before_stop cs (supervisor_New p fs f)"
  shows "last out = StopPending \<and> \<not> Running (fst (sp_mac s')) \<and> snd (snd (sp_mac s')) = {} \<and>
    (Running (fst (sp_mac s)) \<longrightarrow>
       (let c = sp_cfg (supervisor_New True (fst (snd (sp_mac s'))) (sp_file s')) in
        c = saved_form (sp_cfg s) \<and> sc_AutoStart c \<and> config_Valid c = None))"
proof -
  have reach: "sup_step\<^sup>*\<^sup>* (supervisor_New p fs f) s" unfolding s_def using assms(1) by (intro before_stop_reach) auto
  then have ok: "sup_ok s" using New_ok by (rule hosting.steps_inv)
  have s': "s' = sup_Shutdown s" using assms(2,3) execute_end[of sup_Shutdown cs "supervisor_New p fs f"]
    by (auto simp: server_Execute_def service_Execute_def s_def split: prod.splits)
  have m: "machine_ok (sp_mac s)" using ok by (simp add: sup_ok_def)
  have "last out = StopPending" using assms(3) execute_reports[OF assms(2), of sup_Shutdown "supervisor_New p fs f"]
    by (auto simp: server_Execute_def service_Execute_def split: prod.splits)
  then show ?thesis using ok Stop_ok[OF m]
    by (auto simp: s' sup_ok_def sup_Shutdown_def Let_def supervisor_New_def config_Load_def)
qed

section \<open>Witnesses\<close>

definition demo_scm :: scm where
  "demo_scm = \<lparr>sm_exe = Some ''C:/zwan/new.exe'', sm_connect = True, sm_open = True, sm_start = RunningAlready, sm_create = False,
     sm_stop = True, sm_delete = True\<rparr>"

text \<open>The engine is installed over an old rule, a run leaves a name resolution rule behind, and both are taken out again.\<close>

theorem a_removed_service_witness:
  "\<exists>m m2 t2. engine_install demo_netsh demo_scm [(''zwan overlay engine'', ''old.exe''), (''other'', ''o.exe'')] =
       (None, [OpenService ''zwanEngine'', StartService ''zwanEngine''], None, m) \<and>
     filter (\<lambda>x. fst x = ''zwan overlay engine'') m = [(''zwan overlay engine'', ''C:/zwan/new.exe'')] \<and>
     engine_uninstall demo_netsh (ps_list (demo_ps 9)) (ps_mutate (demo_ps 9)) demo_scm
       (m, [\<lparr>nr_id = ''7'', nr_namespace = ''.home'', nr_servers = [''127.0.0.1'']\<rparr>]) =
       (None, [OpenService ''zwanEngine'', StopService ''zwanEngine'', DeleteService ''zwanEngine''], None, None, m2, t2) \<and>
     ''zwan overlay engine'' \<notin> fst ` set m2 \<and> demo_nrpt t2 = [] \<and> filter (\<lambda>x. fst x \<noteq> ''zwan overlay engine'') m2 = [(''other'', ''o.exe'')]"
proof -
  let ?n = "''zwan overlay engine''"
  let ?m = "[(?n, ''old.exe''), (''other'', ''o.exe'')]" and ?m1 = "[(''other'', ''o.exe''), (?n, ''C:/zwan/new.exe'')]"
  let ?calls = "[OpenService ''zwanEngine'', StartService ''zwanEngine'']"
  let ?calls' = "[OpenService ''zwanEngine'', StopService ''zwanEngine'', DeleteService ''zwanEngine'']"
  let ?t = "[\<lparr>nr_id = ''7'', nr_namespace = ''.home'', nr_servers = [''127.0.0.1'']\<rparr>]"
  have run: "engine_install demo_netsh demo_scm ?m = (None, ?calls, None, ?m1)" by code_simp
  have rm: "fst (firewall_Remove demo_netsh ?n ?m) = None" by code_simp
  have exe: "sm_exe demo_scm = Some ''C:/zwan/new.exe''" by (simp add: demo_scm_def)
  have un: "engine_uninstall demo_netsh (ps_list (demo_ps 9)) (ps_mutate (demo_ps 9)) demo_scm (?m1, ?t) =
      (None, ?calls', None, None, [(''other'', ''o.exe'')], [])" by code_simp
  note th = a_removed_service_leaves_nothing[OF demo_firewall_ok demo_powershell]
  from conjunct1[OF th, rule_format, OF run, THEN conjunct2, THEN conjunct2, rule_format, OF refl]
  have one: "filter (\<lambda>x. fst x = ?n) ?m1 = [(?n, ''C:/zwan/new.exe'')]"
    unfolding rm exe option.inject by (elim exE conjE) (simp only: if_True append_Nil simp_thms refl)
  note gone = th[THEN conjunct2, THEN conjunct2, THEN conjunct1, rule_format, OF un]
  have "?n \<notin> fst ` set [(''other'', ''o.exe'')]" by (rule gone[THEN conjunct2, THEN conjunct1, THEN mp, OF refl])
  moreover have "demo_nrpt [] = []" by (rule gone[THEN conjunct2, THEN conjunct2, THEN conjunct1, THEN mp, OF refl])
  moreover have "filter (\<lambda>x. fst x \<noteq> ?n) [(''other'', ''o.exe'')] = [(''other'', ''o.exe'')]" by simp
  ultimately show ?thesis using run one un by (intro exI conjI)
qed

theorem a_stopped_service_witness:
  "\<exists>out s'. server_Execute [(\<lambda>s. snd (sup_Start demo_sup_env demo_srv_config s), SvcShutdown)] demo_supervisor = (out, s') \<and>
     \<not> Running (fst (sp_mac s')) \<and> sc_AutoStart (sp_cfg (supervisor_New True (fst (snd (sp_mac s'))) (sp_file s')))"
proof -
  let ?cs = "[(\<lambda>s. snd (sup_Start demo_sup_env demo_srv_config s), SvcShutdown)]"
  have "sup_step s (snd (sup_Start demo_sup_env demo_srv_config s))" for s
    by (rule step_start) (simp_all add: demo_sup_env_def demo_srv_config_def config_Default_def)
  then have step: "\<forall>(other, c) \<in> set ?cs. \<forall>s. sup_step\<^sup>*\<^sup>* s (other s)" by auto
  have ends: "ends ?cs" by (simp add: ends_def)
  obtain out s' where run: "server_Execute ?cs (supervisor_New True (\<lambda>p. None) NoFile) = (out, s')"
    by (cases "server_Execute ?cs (supervisor_New True (\<lambda>p. None) NoFile)")
  obtain s where s: "sup_Start demo_sup_env demo_srv_config demo_supervisor = (None, s)" "Running (fst (sp_mac s))"
    by (rule demo_hosting)
  have "before_stop ?cs (supervisor_New True (\<lambda>p. None) NoFile) = s" using s(1) by (simp add: demo_supervisor_def)
  with a_stopped_service_comes_back[OF step ends run] s(2) run show ?thesis
    unfolding Let_def demo_supervisor_def by auto
qed

end
