(* ===== verification/Agent.thy ===== *)
theory Agent
  imports WinService
begin

text \<open>
  The command line client, \<open>cmd/zwan-agent/main.go\<close>: what its flags come to, the three modes (join only, adapter only,
  full data plane), the name resolution rule it sets up and takes out, and the status it prints. Parsing the flags is
  the library's; ports are numbers, so a negative one on the command line is left out.
\<close>

section \<open>Flags\<close>

record agent_flags =
  ag_server :: string
  ag_pin :: string
  ag_token :: string
  ag_device :: string
  ag_name :: string
  ag_tun :: bool
  ag_up :: bool
  ag_relay :: bool
  ag_adapter :: string
  ag_wg_port :: nat
  ag_endpoint :: string
  ag_dns_addr :: string
  ag_publish_name :: string
  ag_publish_port :: int
  ag_publish_proto :: string
  ag_publish_backend :: int
  ag_publish_allow :: string

definition default_agent_flags :: agent_flags where
  "default_agent_flags = \<lparr>ag_server = ''https://127.0.0.1:8787'', ag_pin = [], ag_token = [], ag_device = [], ag_name = [],
     ag_tun = False, ag_up = False, ag_relay = False, ag_adapter = [], ag_wg_port = 51820, ag_endpoint = [],
     ag_dns_addr = ''127.0.0.1:53'', ag_publish_name = [], ag_publish_port = 0, ag_publish_proto = ''tcp'',
     ag_publish_backend = 0, ag_publish_allow = []\<rparr>"

fun group_loop :: "string list \<Rightarrow> string list" where
  "group_loop [] = []"
| "group_loop (g # gs) = (let h = trim_space g in if h \<noteq> [] then h # group_loop gs else group_loop gs)"

definition agent_splitGroups :: "string \<Rightarrow> string list" where
  "agent_splitGroups s = group_loop (split_on CHR '','' s)"

definition allowLabel :: "string list \<Rightarrow> string" where
  "allowLabel groups = (if groups = [] then ''any group that can reach this node'' else join_with '','' groups)"

definition agent_adapterName :: "string \<Rightarrow> string \<Rightarrow> string" where
  "agent_adapterName override networkID = (if override \<noteq> [] then override else ProductName @ ''-'' @ networkID)"

definition agent_trustLabel :: "client \<Rightarrow> string" where
  "agent_trustLabel cl =
     (if has_prefix (cl_base cl) ''http://'' then ''plaintext - no server authentication''
      else if cl_pin cl \<noteq> [] then ''TLS, pinned '' @ cl_pin cl
      else ''TLS, CA-verified'')"

definition trustLabelOf :: "eng_status \<Rightarrow> string" where
  "trustLabelOf st =
     (if has_prefix (es_Server st) ''http://'' then ''plaintext - no server authentication''
      else if es_Pinned st then ''TLS, pinned''
      else ''TLS, CA-verified'')"

datatype agent_error = TokenOrDeviceMissing | PublishPortMissing | BadServer join_error | JoinFailed join_error
  | PublishFailed join_error | AdapterFailed netsh_error | AddressFailed netsh_error

text \<open>What is published: at most one service.\<close>

definition agent_publish :: "agent_flags \<Rightarrow> agent_error + service list" where
  "agent_publish fl =
     (if ag_publish_name fl = [] then Inr []
      else if ag_publish_port fl = 0 then Inl PublishPortMissing
      else Inr [\<lparr>sv_name = ag_publish_name fl, sv_proto = ag_publish_proto fl, sv_port = ag_publish_port fl,
                 sv_backend = ag_publish_backend fl, sv_node = [], sv_vip = [], sv_allow = agent_splitGroups (ag_publish_allow fl)\<rparr>])"

definition agent_hostname :: "string \<Rightarrow> agent_flags \<Rightarrow> string" where
  "agent_hostname os fl = (if ag_name fl = [] then os else ag_name fl)"

definition agent_endpoint :: "agent_flags \<Rightarrow> string" where
  "agent_endpoint fl = (if ag_endpoint fl = [] then ''127.0.0.1:'' @ nat_str (ag_wg_port fl) else ag_endpoint fl)"

text \<open>The configuration of the engine, the same one the service runs.\<close>

definition agent_config :: "string \<Rightarrow> agent_flags \<Rightarrow> service list \<Rightarrow> eng_config" where
  "agent_config os fl publish =
     \<lparr>ec_Server = ag_server fl, ec_Pin = ag_pin fl, ec_Token = ag_token fl, ec_DeviceUUID = ag_device fl,
      ec_Name = agent_hostname os fl, ec_UseRelay = ag_relay fl, ec_AdapterName = ag_adapter fl, ec_WGPort = ag_wg_port fl,
      ec_Endpoint = agent_endpoint fl, ec_DNSAddr = ag_dns_addr fl, ec_DNS = None, ec_ProductName = ProductName,
      ec_LocalPrefix = [], ec_Alias = [], ec_Publish = publish\<rparr>"

section \<open>The modes without an engine\<close>

text \<open>The services are published one after the other, on the address the device was given; the first error ends the program.\<close>

fun publish_all :: "'w exchange \<Rightarrow> string \<Rightarrow> string \<Rightarrow> service list \<Rightarrow> client \<times> 'w \<Rightarrow> (join_error + string list) \<times> client \<times> 'w" where
  "publish_all http ip suffix [] cw = (Inr [], cw)"
| "publish_all http ip suffix (svc # svcs) cw =
     (case PublishService http (svc\<lparr>sv_node := ip\<rparr>) cw of
        (Inl e, cw') \<Rightarrow> (Inl e, cw')
      | (Inr stored, cw') \<Rightarrow>
          (let addr = (if sv_vip stored = [] then sv_node stored else sv_vip stored);
               line = ''published service '' @ sv_name stored @ ''.'' @ suffix @ '' at '' @ addr @ '':'' @ int_str (sv_port stored) @
                 ''/'' @ sv_proto stored @ '' (backend 127.0.0.1:'' @ int_str (sv_backend stored) @ '', allowed: '' @
                 allowLabel (sv_allow stored) @ '')'' in
           (case publish_all http ip suffix svcs cw' of
              (Inl e, cw'') \<Rightarrow> (Inl e, cw'')
            | (Inr ls, cw'') \<Rightarrow> (Inr (line # ls), cw''))))"

definition pad_right :: "nat \<Rightarrow> string \<Rightarrow> string" where
  "pad_right n s = s @ replicate (n - length s) CHR '' ''"

definition printPeers :: "peer list \<Rightarrow> string list" where
  "printPeers ps = (''peers ('' @ nat_str (length ps) @ ''):'') #
     map (\<lambda>p. ''  '' @ pad_right 15 (pe_ip p) @ '' '' @ pad_right 12 (pe_hostname p) @ '' '' @ pad_right 8 (pe_group p) @
        '' ep='' @ pad_right 21 (pe_endpoint p) @ '' '' @ pe_key p) ps"

text \<open>
  The adapter only: it stays until the program is interrupted and is then removed; an error of its address ends
  the process on the spot, before anything deferred runs.
\<close>

definition bringUpAdapter :: "(string \<Rightarrow> int \<Rightarrow> bool) \<Rightarrow> 'm netsh \<Rightarrow> string \<Rightarrow> string \<Rightarrow> 'm \<Rightarrow>
    (agent_error option \<times> adapter option) \<times> 'm" where
  "bringUpAdapter create run ip name m =
     (case adapter_Create create name DefaultMTU of
        Inl e \<Rightarrow> ((Some (AdapterFailed e), None), m)
      | Inr ad \<Rightarrow>
          (case SetNodeIP run ad ip m of
             (Some e, m') \<Rightarrow> ((Some (AddressFailed e), Some ad), m')
           | (None, m') \<Rightarrow> ((None, Some (ad\<lparr>ad_open := False\<rparr>)), m')))"

text \<open>\<open>main\<close> up to the choice of the mode, and the modes that join themselves.\<close>

datatype agent_mode = RunEngine eng_config | JoinOnly "service list"

definition agent_main :: "string \<Rightarrow> agent_flags \<Rightarrow> agent_error + agent_mode" where
  "agent_main os fl =
     (if ag_token fl = [] \<or> ag_device fl = [] then Inl TokenOrDeviceMissing
      else (case agent_publish fl of
          Inl e \<Rightarrow> Inl e
        | Inr publish \<Rightarrow> Inr (if ag_up fl then RunEngine (agent_config os fl publish) else JoinOnly publish)))"

definition agent_join :: "(string \<Rightarrow> string) \<Rightarrow> (string \<Rightarrow> string option) \<Rightarrow> 'w exchange \<Rightarrow> (string \<times> string) option \<Rightarrow>
    string \<Rightarrow> agent_flags \<Rightarrow> service list \<Rightarrow> 'w \<Rightarrow> (agent_error + result \<times> string list) \<times> 'w" where
  "agent_join sha parse http keypair os fl publish w =
     (case NewClient sha parse (ag_server fl) (ag_pin fl) of
        Inl e \<Rightarrow> (Inl (BadServer e), w)
      | Inr cl \<Rightarrow>
          (case Join http keypair (ag_token fl) (ag_device fl) (agent_hostname os fl) (agent_endpoint fl) (cl, w) of
             (Inl e, (c, w')) \<Rightarrow> (Inl (JoinFailed e), w')
           | (Inr res, cw') \<Rightarrow>
               (case publish_all http (rs_ip (jr_register res)) (rs_suffix (jr_register res)) publish cw' of
                  (Inl e, (c, w'')) \<Rightarrow> (Inl (PublishFailed e), w'')
                | (Inr ls, (c, w'')) \<Rightarrow> (Inr (res, printPeers (jr_peers res) @ ls), w''))))"

section \<open>Name resolution\<close>

text \<open>
  The rule for the network's suffix: the binder whose rules have to be taken out again, none when nothing was set
  up; and the function that takes them out.
\<close>

definition bindSystemDNS :: "bool \<Rightarrow> ('t \<Rightarrow> nrpt_rule list option) \<Rightarrow> (string list \<Rightarrow> string list \<Rightarrow> string \<Rightarrow> 't \<Rightarrow> bool \<times> 't) \<Rightarrow>
    string \<Rightarrow> string \<Rightarrow> 't \<Rightarrow> nrpt_binder option \<times> 't" where
  "bindSystemDNS supported list_rules mutate dnsAddr suffix t =
     (if dnsAddr = [] \<or> suffix = [] then (None, t)
      else if \<not> supported then (None, t)
      else (case nrpt_New dnsAddr of
          Inl e \<Rightarrow> (None, t)
        | Inr b \<Rightarrow>
            (case Apply list_rules mutate [suffix] (b, t) of
               (Inl e, b', t') \<Rightarrow> (None, t')
             | (Inr _, b', t') \<Rightarrow> (Some b', t'))))"

definition unbindSystemDNS :: "('t \<Rightarrow> nrpt_rule list option) \<Rightarrow> (string list \<Rightarrow> string list \<Rightarrow> string \<Rightarrow> 't \<Rightarrow> bool \<times> 't) \<Rightarrow>
    nrpt_binder option \<Rightarrow> 't \<Rightarrow> nrpt_error option \<times> 't" where
  "unbindSystemDNS list_rules mutate bound t =
     (case bound of
        None \<Rightarrow> (None, t)
      | Some b \<Rightarrow> (case Clear list_rules mutate (b, t) of (Inl e, _, t') \<Rightarrow> (Some e, t') | (Inr _, _, t') \<Rightarrow> (None, t')))"

section \<open>The full data plane\<close>

text \<open>
  The engine, and with it the name resolution rule; on the interrupt they are taken out in the reverse order. The
  status is read when the engine has just started.
\<close>

definition runEngine :: "'w exchange \<Rightarrow> start_env \<Rightarrow> 'd \<Rightarrow> hosted set \<Rightarrow> bool \<Rightarrow> ('t \<Rightarrow> nrpt_rule list option) \<Rightarrow>
    (string list \<Rightarrow> string list \<Rightarrow> string \<Rightarrow> 't \<Rightarrow> bool \<times> 't) \<Rightarrow> eng_config \<Rightarrow> engine \<times> resource set \<Rightarrow> 'w \<times> 't \<Rightarrow>
    (eng_error + 'd started \<times> nrpt_binder option) \<times> (engine \<times> resource set) \<times> 'w \<times> 't" where
  "runEngine http e d opened supported list_rules mutate cfg er wt =
     (case eng_Start http e d opened cfg er (fst wt) of
        ((Inl err, er'), w') \<Rightarrow> (Inl err, er', w', snd wt)
      | ((Inr sd, er'), w') \<Rightarrow>
          (case bindSystemDNS supported list_rules mutate (ec_DNSAddr cfg) (es_DNSSuffix (eg_st (fst er'))) (snd wt) of
             (bound, t') \<Rightarrow> (Inr (sd, bound), er', w', t')))"

definition interrupted :: "('t \<Rightarrow> nrpt_rule list option) \<Rightarrow> (string list \<Rightarrow> string list \<Rightarrow> string \<Rightarrow> 't \<Rightarrow> bool \<times> 't) \<Rightarrow>
    'd started \<times> nrpt_binder option \<Rightarrow> 'd run_state \<times> engine \<times> resource set \<Rightarrow> 't \<Rightarrow>
    nrpt_error option \<times> ('d run_state \<times> engine \<times> resource set) \<times> 't" where
  "interrupted list_rules mutate up all t =
     (case unbindSystemDNS list_rules mutate (snd up) t of (err, t') \<Rightarrow> (err, eng_Stop (fst up) all, t'))"

section \<open>Status\<close>

record status_view =
  vw_self :: string
  vw_peers :: "peer list"
  vw_handshake :: "string \<Rightarrow> bool"
  vw_error :: string

fun status_lines :: "string \<Rightarrow> (string \<Rightarrow> bool) \<Rightarrow> peer list \<Rightarrow> string list" where
  "status_lines self up [] = []"
| "status_lines self up (p # ps) =
     (if pe_ip p = self then status_lines self up ps
      else (let state = (if up (pe_ip p) then ''handshake OK'' else ''connecting'');
                label = (if pe_group p \<noteq> [] then pe_hostname p @ '' ['' @ pe_group p @ '']'' else pe_hostname p) in
            (pe_ip p @ '' '' @ label @ '' ('' @ state @ '')'') # status_lines self up ps))"

definition summary :: "status_view \<Rightarrow> string" where
  "summary v = join_with '' | '' (sort (status_lines (vw_self v) (vw_handshake v) (vw_peers v)))"

text \<open>One tick: what is printed, and what is remembered as printed.\<close>

definition report_tick :: "string \<times> string \<Rightarrow> status_view \<Rightarrow> string list \<times> string \<times> string" where
  "report_tick printed v =
     (case printed of (lastPeers, lastErr) \<Rightarrow>
       (let s = summary v;
            peers = (if s \<noteq> lastPeers then [if s = [] then ''peers: none'' else ''peers: '' @ s] else []);
            err = vw_error v \<noteq> [] \<and> vw_error v \<noteq> lastErr in
        (peers @ (if err then [''engine: '' @ vw_error v] else []), s, if err then vw_error v else lastErr)))"

fun reportStatus :: "string \<times> string \<Rightarrow> status_view list \<Rightarrow> string list" where
  "reportStatus printed [] = []"
| "reportStatus printed (v # vs) = (case report_tick printed v of (out, printed') \<Rightarrow> out @ reportStatus printed' vs)"

section \<open>What a run leaves behind\<close>

text \<open>The adapter of the command line has the name the engine gives it, and so would the service's.\<close>

lemma adapter_names_agree:
  "agent_adapterName (ag_adapter fl) (rs_network reg) = start_adapter (start_config (agent_config os fl publish)) reg"
  by (simp add: agent_adapterName_def start_adapter_def start_config_def agent_config_def ProductName_def)

lemma New_unsynced: "nrpt_New a = Inr b \<Longrightarrow> \<not> bd_synced b"
  by (auto simp: nrpt_New_def split: option.splits prod.splits if_splits)

text \<open>
  What setting the rule up did. Without a binder to take it out again the table is as it was, unless the change
  itself failed: then it is as the statements that ran have left it.
\<close>

lemma bind_cases:
  assumes "policy_system list_rules mutate table" and "\<forall>b. nrpt_New a = Inr b \<longrightarrow> ps_plain (bd_server b)"
    and "bindSystemDNS supported list_rules mutate a suffix t = (bound, t')"
  shows "case bound of
      None \<Rightarrow> t' = t \<or> (\<exists>b b'. nrpt_New a = Inr b \<and> Apply list_rules mutate [suffix] (b, t) = (Inl MutateFailed, b', t'))
    | Some b \<Rightarrow> exact (namespaces [suffix]) (bd_server b) (table t') \<and> bd_last b = join_with '','' (namespaces [suffix])"
proof (cases "a = [] \<or> suffix = [] \<or> \<not> supported \<or> isl (nrpt_New a)")
  case True
  then have "bound = None \<and> t' = t" using assms(3) by (cases "nrpt_New a") (auto simp: bindSystemDNS_def split: if_splits)
  then show ?thesis by simp
next
  case False
  then obtain b where b: "nrpt_New a = Inr b" by (cases "nrpt_New a") auto
  obtain res b' t1 where r: "Apply list_rules mutate [suffix] (b, t) = (res, b', t1)" by (metis prod_cases3)
  show ?thesis
  proof (cases res)
    case (Inl err)
    then have none: "bound = None \<and> t' = t1" using assms(3) False b r by (auto simp: bindSystemDNS_def)
    have "t1 = t \<or> err = MutateFailed"
      using r Inl by (auto simp: Apply_def Let_def split: if_splits option.splits prod.splits bool.splits)
    then show ?thesis using none b r Inl by auto
  next
    case (Inr u)
    then have some: "bound = Some b' \<and> t' = t1" using assms(3) False b r by (auto simp: bindSystemDNS_def)
    have "\<not> remembered b [suffix]" using New_unsynced[OF b] by (simp add: remembered_def)
    from Apply_looks[OF assms(1) disjI2[OF assms(2)[rule_format, OF b]] this] r Inr
    have "exact (namespaces [suffix]) (bd_server b) (table t1) \<and> b' = b\<lparr>bd_synced := True, bd_last := join_with '','' (namespaces [suffix])\<rparr>"
      by simp
    then show ?thesis using some by simp
  qed
qed

lemma unbind_cases:
  assumes "policy_system list_rules mutate table" and "bd_last b = join_with '','' (namespaces [suffix])"
    and "unbindSystemDNS list_rules mutate (Some b) t = (None, t')"
  shows "table t' = [] \<or> namespaces [suffix] = [] \<and> t' = t"
proof -
  obtain res b' t1 where c: "Apply list_rules mutate [] (b, t) = (res, b', t1)" by (metis prod_cases3)
  have r: "res = Inr ()" "t1 = t'" using assms(3) c by (cases res; simp add: unbindSystemDNS_def Clear_def)+
  from Clear_cases[OF assms(1), of b t b' t1] c r have "table t' = [] \<or> bd_last b = [] \<and> t' = t" by auto
  then show ?thesis unfolding assms(2) join_namespaces_Nil .
qed

text \<open>C37: What a run of the command line client leaves on the machine. If the engine does not start, no adapter, tunnel or
  resolver of it stays open and no rule of name resolution is touched. If it starts and a rule is set up, the
  table holds exactly the rule of this network, served by the resolver of this run, and no other rule of ours;
  if none is set up, the table is as it was unless the change itself failed. On the interrupt, whatever the engine
  did and whatever became of the table meanwhile, the adapter, the tunnel and the resolver are given back; when
  a rule had been set up and the cleanup reports no error, every rule of ours is out of the table, also those a
  service running beside it had set up (if the network's suffix is no name a rule can be made of, there was
  nothing to set up and nothing is done); when none had been set up, the table is left alone.
\<close>

theorem a_command_line_run_leaves_nothing:
  assumes "powershell_ok powershell table" and "machine_fresh e rs" and "\<not> eg_running eng"
    and "\<forall>b. nrpt_New (ec_DNSAddr cfg) = Inr b \<longrightarrow> ps_plain (bd_server b)"
    and "runEngine http e d opened supported (ps_list powershell) (ps_mutate powershell) cfg (eng, rs) (w, t) = (r, (eng', rs'), w', t')"
  shows "(\<forall>err. r = Inl err \<longrightarrow> rs' = rs \<and> \<not> eg_running eng' \<and> t' = t) \<and>
    (\<forall>sd bound. r = Inr (sd, bound) \<longrightarrow> eg_running eng' \<and>
       (case bound of
          None \<Rightarrow> t' = t \<or> (\<exists>b b'. nrpt_New (ec_DNSAddr cfg) = Inr b \<and>
            Apply (ps_list powershell) (ps_mutate powershell) [es_DNSSuffix (eg_st eng')] (b, t) = (Inl MutateFailed, b', t'))
        | Some b \<Rightarrow> exact (namespaces [es_DNSSuffix (eg_st eng')]) (bd_server b) (table t')) \<and>
       (\<forall>st t1. case interrupted (ps_list powershell) (ps_mutate powershell) (sd, bound) (st, eng', rs') t1 of
          (err, (st', eng'', rs''), t'') \<Rightarrow>
            rs'' = rs \<and> \<not> eg_running eng'' \<and> (bound = None \<longrightarrow> t'' = t1) \<and>
            (bound \<noteq> None \<and> err = None \<longrightarrow> table t'' = [] \<or> namespaces [es_DNSSuffix (eg_st eng')] = [] \<and> t'' = t1)))"
proof (rule eng_Start_cases[OF assms(3), of http e d opened cfg rs w])
  fix err w1
  assume "eng_Start http e d opened cfg (eng, rs) w =
    ((Inl err, fail (eng\<lparr>eg_cfg := Some (start_config cfg), eg_st := no_status\<rparr>) err, rs), w1)"
  then show ?thesis using assms(3,5) by (auto simp: runEngine_def fail_not_running)
next
  fix cl res w1
  note sys = windows_policy_system[OF assms(1)]
  let ?eng = "eng\<lparr>eg_cfg := Some (start_config cfg), eg_st := no_status\<rparr>"
  assume s: "eng_Start http e d opened cfg (eng, rs) w = (start_device e d opened (start_config cfg) cl res (?eng, rs), w1)"
  obtain r1 eng1 rs1 where dev: "start_device e d opened (start_config cfg) cl res (?eng, rs) = (r1, eng1, rs1)" by (metis prod_cases3)
  show ?thesis
  proof (cases r1)
    case (Inl err)
    with dev start_device_error[of e d opened "start_config cfg" cl res ?eng rs err] assms(2)
    have "rs1 = rs \<and> eng1 = fail ?eng err" by simp
    then show ?thesis using s dev Inl assms(3,5) by (auto simp: runEngine_def fail_not_running)
  next
    case (Inr sd)
    let ?suffix = "es_DNSSuffix (eg_st eng1)"
    obtain bound t1 where b: "bindSystemDNS supported (ps_list powershell) (ps_mutate powershell) (ec_DNSAddr cfg) ?suffix t = (bound, t1)"
      by fastforce
    have e: "r = Inr (sd, bound)" "eng' = eng1" "rs' = rs1" "t' = t1" using assms(5) s dev Inr b by (simp_all add: runEngine_def)
    have d: "eg_running eng1 \<and> rs1 - ResolverR ` set_option (sd_owned sd) - {TunnelR (sd_adapter sd)} - {AdapterR (sd_adapter sd)} = rs"
      using dev start_device_success[of e d opened "start_config cfg" cl res ?eng rs sd] assms(2) Inr by simp
    note c = bind_cases[OF sys assms(4) b]
    have cleared: "(bound = None \<longrightarrow> t3 = t2) \<and> (bound \<noteq> None \<and> err = None \<longrightarrow> table t3 = [] \<or> namespaces [?suffix] = [] \<and> t3 = t2)"
      if u: "unbindSystemDNS (ps_list powershell) (ps_mutate powershell) bound t2 = (err, t3)" for err t2 t3
    proof (cases bound)
      case None
      then show ?thesis using u by (simp add: unbindSystemDNS_def)
    next
      case (Some b)
      then show ?thesis using c u unbind_cases[OF sys, of b ?suffix t2 t3] by auto
    qed
    have stop: "case interrupted (ps_list powershell) (ps_mutate powershell) (sd, bound) (st, eng1, rs1) t2 of (err, (st', eng'', rs''), t'') \<Rightarrow>
          rs'' = rs \<and> \<not> eg_running eng'' \<and> (bound = None \<longrightarrow> t'' = t2) \<and>
          (bound \<noteq> None \<and> err = None \<longrightarrow> table t'' = [] \<or> namespaces [?suffix] = [] \<and> t'' = t2)" for st t2
      using d cleared by (auto simp: interrupted_def eng_Stop_def split: prod.splits)
    have made: "case bound of
          None \<Rightarrow> t1 = t \<or> (\<exists>b b'. nrpt_New (ec_DNSAddr cfg) = Inr b \<and>
            Apply (ps_list powershell) (ps_mutate powershell) [?suffix] (b, t) = (Inl MutateFailed, b', t1))
        | Some b \<Rightarrow> exact (namespaces [?suffix]) (bd_server b) (table t1)" using c by (cases bound) simp_all
    show ?thesis unfolding e
    proof (intro conjI allI impI)
      fix sd' bound'
      assume i: "Inr (sd, bound) = Inr (sd', bound')"
      show "eg_running eng1" using d by simp
      show "case bound' of None \<Rightarrow> t1 = t \<or> (\<exists>b b'. nrpt_New (ec_DNSAddr cfg) = Inr b \<and>
            Apply (ps_list powershell) (ps_mutate powershell) [?suffix] (b, t) = (Inl MutateFailed, b', t1))
        | Some b \<Rightarrow> exact (namespaces [?suffix]) (bd_server b) (table t1)" using made i by simp
      show "case interrupted (ps_list powershell) (ps_mutate powershell) (sd', bound') (st, eng1, rs1) t2 of (err, (st', eng'', rs''), t'') \<Rightarrow>
          rs'' = rs \<and> \<not> eg_running eng'' \<and> (bound' = None \<longrightarrow> t'' = t2) \<and>
          (bound' \<noteq> None \<and> err = None \<longrightarrow> table t'' = [] \<or> namespaces [?suffix] = [] \<and> t'' = t2)" for st t2
        using stop i by simp
    qed simp_all
  qed
qed

theorem a_command_line_run_witness:
  "\<exists>sd bound er' rs' w' t' st err all t''.
     runEngine demo_exchange demo_start_env () {} True (ps_list (demo_ps 9)) (ps_mutate (demo_ps 9)) demo_config
       (eng_New, {AdapterR ''zwan-other''}) ((), []) = (Inr (sd, bound), (er', rs'), w', t') \<and> bound \<noteq> None \<and>
     interrupted (ps_list (demo_ps 9)) (ps_mutate (demo_ps 9)) (sd, bound) (run_start None () None {}, er', rs') t' =
       (err, (st, all, {AdapterR ''zwan-other''}), t'')"
proof -
  let ?l = "ps_list (demo_ps 9)" and ?c = "ps_mutate (demo_ps 9)"
  obtain sd eng' rs' w' where s: "eng_Start demo_exchange demo_start_env () {} demo_config (eng_New, {AdapterR ''zwan-other''}) () = ((Inr sd, eng', rs'), w')"
      and suffix: "es_DNSSuffix (eg_st eng') = ''home''"
    using demo_engine_start by blast
  let ?b = "bindSystemDNS True ?l ?c (ec_DNSAddr demo_config) (es_DNSSuffix (eg_st eng')) []"
  obtain bound t' where b: "?b = (bound, t')" by fastforce
  have up: "runEngine demo_exchange demo_start_env () {} True ?l ?c demo_config (eng_New, {AdapterR ''zwan-other''}) ((), []) =
      (Inr (sd, bound), (eng', rs'), w', t')" using s b by (simp add: runEngine_def)
  have stopped: "\<not> eg_running eng_New" by (simp add: eng_New_def)
  have dns: "ec_DNSAddr demo_config = ''127.0.0.1:53''" by (simp add: demo_config_def)
  have "ps_plain ''127.0.0.1''" using demo_binder_plain by (simp add: demo_binder_def)
  then have tr: "\<forall>b. nrpt_New (ec_DNSAddr demo_config) = Inr b \<longrightarrow> ps_plain (bd_server b)"
    unfolding dns demo_New by auto
  note th = a_command_line_run_leaves_nothing[OF demo_powershell demo_fresh stopped tr up]
  obtain err all t'' where i: "interrupted ?l ?c (sd, bound) (run_start None () None {}, eng', rs') t' = (err, all, t'')"
    by (metis prod_cases3)
  obtain st en rs'' where a: "all = (st, en, rs'')" by (metis prod_cases3)
  have "rs'' = {AdapterR ''zwan-other''}"
    using conjunct2[OF th, rule_format, OF refl, THEN conjunct2, THEN conjunct2, rule_format, of t' "run_start None () None {}"] unfolding i a by simp
  moreover have "bound \<noteq> None"
  proof -
    have "isl (fst (Apply ?l ?c [''home''] (\<lparr>bd_server = ''127.0.0.1'', bd_synced = False, bd_last = []\<rparr>, []))) = False"
      by code_simp
    then show ?thesis using b unfolding suffix dns bindSystemDNS_def demo_New by (auto split: sum.splits prod.splits if_splits)
  qed
  ultimately show ?thesis using up i unfolding a by blast
qed

section \<open>The status that is printed\<close>

text \<open>Two views that show the same: the peers may come in any order.\<close>

definition same_view :: "status_view \<Rightarrow> status_view \<Rightarrow> bool" where
  "same_view u v \<longleftrightarrow> vw_self u = vw_self v \<and> mset (vw_peers u) = mset (vw_peers v) \<and> vw_handshake u = vw_handshake v \<and> vw_error u = vw_error v"

lemma status_lines_filter:
  "status_lines self up ps = map (\<lambda>p. hd (status_lines self up [p])) (filter (\<lambda>p. pe_ip p \<noteq> self) ps)"
  by (induction ps) (auto simp: Let_def)

lemma summary_same: "same_view u v \<Longrightarrow> summary u = summary v"
proof -
  assume s: "same_view u v"
  have "mset (status_lines self up ps) = mset (status_lines self up qs)" if m: "mset ps = mset qs" for self up and ps qs :: "peer list"
    unfolding status_lines_filter[of self up ps] status_lines_filter[of self up qs] using m by (simp del: status_lines.simps)
  then have "sort (status_lines (vw_self u) (vw_handshake u) (vw_peers u)) = sort (status_lines (vw_self v) (vw_handshake v) (vw_peers v))"
    using s unfolding same_view_def by (metis sorted_list_of_multiset_mset)
  then show ?thesis by (simp add: summary_def)
qed

text \<open>A steady tunnel stays quiet, in whichever order the server lists the peers.\<close>

lemma steady_status_is_quiet:
  "\<forall>v \<in> set vs. same_view u v \<Longrightarrow> reportStatus printed (u # vs) = fst (report_tick printed u)"
proof (induction vs arbitrary: u printed)
  case (Cons v vs)
  obtain p e where pr: "printed = (p, e)" by (cases printed)
  let ?pr = "(summary u, if vw_error u \<noteq> [] \<and> vw_error u \<noteq> e then vw_error u else e)"
  have tick: "snd (report_tick printed u) = ?pr" by (simp add: report_tick_def pr Let_def)
  have sv: "summary v = summary u" "vw_error v = vw_error u" using Cons.prems summary_same[of u v] by (simp_all add: same_view_def)
  have "\<forall>x \<in> set vs. same_view v x"
  proof
    fix x
    assume "x \<in> set vs"
    then have "same_view u x" "same_view u v" using Cons.prems by simp_all
    then show "same_view v x" unfolding same_view_def by metis
  qed
  note rest = Cons.IH[OF this]
  have "reportStatus printed (u # v # vs) = fst (report_tick printed u) @ reportStatus ?pr (v # vs)"
    using tick by (cases "report_tick printed u") simp
  also have "reportStatus ?pr (v # vs) = []" unfolding rest[of ?pr] by (simp add: report_tick_def sv Let_def)
  finally show ?case by simp
qed (simp add: case_prod_beta)

text \<open>What changes is printed, except an error that comes back after it had gone.\<close>

lemma returning_error_is_not_printed:
  assumes "vw_error ok = []" and "summary ok = s" and "vw_error bad = e" and "summary bad = s"
  shows "reportStatus (s, e) [ok, bad] = []"
  using assms by (simp add: report_tick_def Let_def)

end
