(* ===== verification/ClientIpc.thy ===== *)
theory ClientIpc
  imports ManagerView
begin

text \<open>
  The pipe between the desktop and the engine's service (\<open>client/ipc/types.go\<close>, \<open>client/ipc/transport_windows.go\<close>) on
  top of the manager. The operations of the manager are here as one caller at a time sees them: the sections of
  \<open>Manager\<close> run to the end, with the error the caller is told. The pipe itself and the encoding of what goes
  over it are not modelled: a request arrives as it was sent, or not at all.
\<close>

section \<open>Whole calls of the manager\<close>

datatype mgr_error = InvalidNetwork profile_error | NoPrefix pool_error | EngineFailed | NotSaved

definition remember_save :: "world_env \<Rightarrow> joined \<Rightarrow> world \<Rightarrow> world" where
  "remember_save e n w =
     (let m = remember n (wo_mgr w) in
      w\<lparr>wo_mgr := m, wo_file := snd (SaveNetworks (we_path e) (we_write e) (mg_saved m) (wo_file w))\<rparr>)"

text \<open>\<open>Connect\<close>: none is the panic that ends the service. An error of saving is only logged.\<close>

definition manager_Connect :: "world_env \<Rightarrow> joined \<Rightarrow> world \<Rightarrow> (mgr_error option \<times> world) option" where
  "manager_Connect e n0 w =
     (case connect_begin (wo_mgr w) n0 of
        Inl err \<Rightarrow> Some (Some (InvalidNetwork err), w)
      | Inr (n, prev, m) \<Rightarrow>
          (let w1 = w\<lparr>wo_mgr := m, wo_live := (case prev of None \<Rightarrow> wo_live w | Some en \<Rightarrow> stop_entry en (wo_live w))\<rparr> in
           case reserve (we_udpFree e) m of
             (port, Inl err) \<Rightarrow> if err = PoolPanic then None else Some (Some (NoPrefix err), remember_save e n w1)
           | (port, Inr p) \<Rightarrow>
               (let cfg = network_config (mg_cfg m) n port p (mg_dns m) in
                if \<not> we_start e cfg then Some (Some EngineFailed, remember_save e n w1)
                else Some (None, remember_save e n
                       (w1\<lparr>wo_live := (wo_live w1)(wo_next w1 \<mapsto> cfg), wo_next := wo_next w1 + 1,
                           wo_mgr := connect_commit n \<lparr>en_eng = Some (wo_next w1), en_port = port, en_prefix = p\<rparr> m\<rparr>)))))"

definition saving_error :: "bool \<Rightarrow> mgr_error option" where
  "saving_error ok = (if ok then None else Some NotSaved)"

definition manager_Disconnect :: "world_env \<Rightarrow> string \<Rightarrow> world \<Rightarrow> mgr_error option \<times> world" where
  "manager_Disconnect e alias0 w =
     (let alias = NormalizeAlias alias0 in
      case disconnect_begin alias (wo_mgr w) of
        (prev, m) \<Rightarrow>
          (let m' = disconnect_end alias m;
               saved = SaveNetworks (we_path e) (we_write e) (mg_saved m') (wo_file w) in
           (saving_error (fst saved),
            w\<lparr>wo_mgr := m', wo_live := (case prev of None \<Rightarrow> wo_live w | Some en \<Rightarrow> stop_entry en (wo_live w)), wo_file := snd saved\<rparr>)))"

definition manager_Forget :: "world_env \<Rightarrow> string \<Rightarrow> world \<Rightarrow> mgr_error option \<times> world" where
  "manager_Forget e alias0 w =
     (let alias = NormalizeAlias alias0; w1 = snd (manager_Disconnect e alias w); m = forget_end alias (wo_mgr w1);
          saved = SaveNetworks (we_path e) (we_write e) (mg_saved m) (wo_file w1) in
      (saving_error (fst saved), w1\<lparr>wo_mgr := m, wo_file := snd saved\<rparr>))"

section \<open>Requests\<close>

record eng_request =
  er_Op :: string
  er_Network :: "joined option"
  er_Alias :: string

datatype eng_request_error = NetworkMissingInRequest | UnknownOp string | InManager mgr_error

record eng_response =
  rp_OK :: bool
  rp_Error :: "eng_request_error option"
  rp_Networks :: "status list"

text \<open>The error a request ends with and the world after it; the reply is made from the list at that moment.\<close>

definition eng_act :: "world_env \<Rightarrow> eng_request \<Rightarrow> world \<Rightarrow> (eng_request_error option \<times> world) option" where
  "eng_act e rq w =
     (if er_Op rq = ''connect'' then
        (case er_Network rq of
           None \<Rightarrow> Some (Some NetworkMissingInRequest, w)
         | Some n \<Rightarrow> map_option (\<lambda>(err, w'). (map_option InManager err, w')) (manager_Connect e n w))
      else if er_Op rq = ''disconnect'' then (case manager_Disconnect e (er_Alias rq) w of (err, w') \<Rightarrow> Some (map_option InManager err, w'))
      else if er_Op rq = ''forget'' then (case manager_Forget e (er_Alias rq) w of (err, w') \<Rightarrow> Some (map_option InManager err, w'))
      else if er_Op rq = ''status'' then Some (None, w)
      else Some (Some (UnknownOp (er_Op rq)), w))"

definition eng_answer :: "eng_request_error option \<Rightarrow> status list \<Rightarrow> eng_response" where
  "eng_answer err ss =
     (case err of
        Some NetworkMissingInRequest \<Rightarrow> \<lparr>rp_OK = False, rp_Error = err, rp_Networks = []\<rparr>
      | Some (UnknownOp op) \<Rightarrow> \<lparr>rp_OK = False, rp_Error = err, rp_Networks = []\<rparr>
      | _ \<Rightarrow> \<lparr>rp_OK = (err = None), rp_Error = err, rp_Networks = ss\<rparr>)"

definition eng_dispatch :: "world_env \<Rightarrow> (nat \<Rightarrow> eng_status) \<Rightarrow> eng_request \<Rightarrow> world \<Rightarrow> (eng_response \<times> world) option" where
  "eng_dispatch e st rq w = map_option (\<lambda>(err, w'). (eng_answer err (Statuses st (wo_mgr w')), w')) (eng_act e rq w)"

text \<open>
  The caller's side. A call has no reply when the pipe cannot be dialled, written or read; the request may then have been
  carried out or not.
\<close>

definition connect_request :: "joined \<Rightarrow> eng_request" where
  "connect_request n = \<lparr>er_Op = ''connect'', er_Network = Some n, er_Alias = []\<rparr>"

definition disconnect_request :: "string \<Rightarrow> eng_request" where
  "disconnect_request alias = \<lparr>er_Op = ''disconnect'', er_Network = None, er_Alias = alias\<rparr>"

definition forget_request :: "string \<Rightarrow> eng_request" where
  "forget_request alias = \<lparr>er_Op = ''forget'', er_Network = None, er_Alias = alias\<rparr>"

definition status_request :: eng_request where
  "status_request = \<lparr>er_Op = ''status'', er_Network = None, er_Alias = []\<rparr>"

section \<open>Whole calls are runs of the sections\<close>

lemma one_call: "wo_jobs w = [] \<Longrightarrow> begin_call e c w = Some w' \<Longrightarrow> mg_seq w w'"
  by (rule mg_seq.call)

lemma one_job: "wo_jobs w = [j] \<Longrightarrow> work e j (w\<lparr>wo_jobs := []\<rparr>) = Some w' \<Longrightarrow> mg_seq w w'"
  by (rule mg_seq.work)

lemma spawn_jobs [simp]: "wo_jobs w = [] \<Longrightarrow> wo_jobs (spawn j w) = [j]" "(spawn j w)\<lparr>wo_jobs := []\<rparr> = w\<lparr>wo_jobs := []\<rparr>"
  by (simp_all add: spawn_def)

lemma jobs_id: "wo_jobs w = [] \<Longrightarrow> w\<lparr>wo_jobs := []\<rparr> = w"
  by (cases w) simp

lemma spawned: "wo_jobs w = [] \<Longrightarrow> work e j w = Some w' \<Longrightarrow> mg_seq (spawn j w) w'"
  by (rule one_job) (simp_all add: jobs_id)

lemma remembering_runs:
  assumes "wo_jobs w = []"
  shows "mg_seq\<^sup>*\<^sup>* (spawn (Remembering n) w) (remember_save e n w)"
proof -
  let ?m = "remember n (wo_mgr w)"
  have "mg_seq (spawn (Remembering n) w) (spawn (Saving (mg_saved ?m) None) (w\<lparr>wo_mgr := ?m\<rparr>))"
    using assms by (intro spawned[where e = e]) (simp_all add: Let_def)
  moreover have "mg_seq (spawn (Saving (mg_saved ?m) None) (w\<lparr>wo_mgr := ?m\<rparr>)) (remember_save e n w)"
    using assms by (intro spawned[where e = e]) (simp_all add: remember_save_def Let_def)
  ultimately show ?thesis by auto
qed

lemma starting_runs:
  fixes n :: joined and e :: world_env
  assumes "wo_jobs w = []" and "reserve (we_udpFree e) (wo_mgr w) = (port, Inr p)"
  defines "cfg \<equiv> network_config (mg_cfg (wo_mgr w)) n port p (mg_dns (wo_mgr w))"
  shows "mg_seq\<^sup>*\<^sup>* (spawn (Starting n port p (mg_dns (wo_mgr w))) w)
    (remember_save e n (if \<not> we_start e cfg then w
       else w\<lparr>wo_live := (wo_live w)(wo_next w \<mapsto> cfg), wo_next := wo_next w + 1,
              wo_mgr := connect_commit n \<lparr>en_eng = Some (wo_next w), en_port = port, en_prefix = p\<rparr> (wo_mgr w)\<rparr>))"
proof (cases "we_start e cfg")
  case False
  then have "mg_seq (spawn (Starting n port p (mg_dns (wo_mgr w))) w) (spawn (Remembering n) w)"
    using assms(1) by (intro spawned[where e = e]) (simp_all add: cfg_def Let_def)
  then show ?thesis using remembering_runs[OF assms(1)] False by (simp add: converse_rtranclp_into_rtranclp)
next
  case True
  let ?en = "\<lparr>en_eng = Some (wo_next w), en_port = port, en_prefix = p\<rparr>"
  let ?w1 = "w\<lparr>wo_live := (wo_live w)(wo_next w \<mapsto> cfg), wo_next := wo_next w + 1\<rparr>"
  let ?w2 = "?w1\<lparr>wo_mgr := connect_commit n ?en (wo_mgr w)\<rparr>"
  have "mg_seq (spawn (Starting n port p (mg_dns (wo_mgr w))) w) (spawn (Started n ?en) ?w1)"
    using assms(1) True by (intro spawned[where e = e]) (simp_all add: cfg_def Let_def)
  moreover have "mg_seq (spawn (Started n ?en) ?w1) (spawn (Remembering n) ?w2)"
    using assms(1) by (intro spawned[where e = e]) simp_all
  moreover have "mg_seq\<^sup>*\<^sup>* (spawn (Remembering n) ?w2) (remember_save e n ?w2)" using assms(1) by (intro remembering_runs) simp
  ultimately show ?thesis using True by (simp add: converse_rtranclp_into_rtranclp)
qed

lemma remember_save_jobs [simp]: "wo_jobs (remember_save e n w) = wo_jobs w"
  by (simp add: remember_save_def Let_def)

lemma Connect_runs:
  assumes "wo_jobs w = []" and "manager_Connect e n0 w = Some (err, w')"
  shows "mg_seq\<^sup>*\<^sup>* w w' \<and> wo_jobs w' = []"
proof (cases "connect_begin (wo_mgr w) n0")
  case (Inl x)
  then show ?thesis using assms by (auto simp: manager_Connect_def)
next
  case (Inr b)
  obtain n prev m where b: "connect_begin (wo_mgr w) n0 = Inr (n, prev, m)" using Inr by (cases b) auto
  let ?w1 = "w\<lparr>wo_mgr := m, wo_live := (case prev of None \<Rightarrow> wo_live w | Some en \<Rightarrow> stop_entry en (wo_live w))\<rparr>"
  obtain port q where r: "reserve (we_udpFree e) m = (port, q)" by (cases "reserve (we_udpFree e) m")
  have first: "mg_seq\<^sup>*\<^sup>* w (spawn j ?w1)" if j: "reserve_job e n m = Some j" for j
  proof (cases prev)
    case None
    have "begin_call e (CallConnect n0) w = Some (spawn j (w\<lparr>wo_mgr := m\<rparr>))" using b None j by simp
    moreover have "?w1 = w\<lparr>wo_mgr := m\<rparr>" using None by simp
    ultimately show ?thesis using one_call[OF assms(1), of e "CallConnect n0"] by simp
  next
    case (Some en)
    have "mg_seq w (spawn (Replacing n en) (w\<lparr>wo_mgr := m\<rparr>))"
      by (rule one_call[OF assms(1), of e "CallConnect n0"]) (simp add: b Some)
    moreover have "mg_seq (spawn (Replacing n en) (w\<lparr>wo_mgr := m\<rparr>)) (spawn j ?w1)"
      using assms(1) j Some by (intro spawned[where e = e]) simp_all
    ultimately show ?thesis by auto
  qed
  show ?thesis
  proof (cases q)
    case (Inl x)
    then have "reserve_job e n m = Some (Remembering n)" "w' = remember_save e n ?w1"
      using assms(2) b r by (auto simp: manager_Connect_def reserve_job_def Let_def split: if_splits)
    then show ?thesis using first remembering_runs[of ?w1 n e] assms(1) by (auto intro: rtranclp_trans)
  next
    case (Inr p)
    then have j: "reserve_job e n m = Some (Starting n port p (mg_dns m))" using r by (simp add: reserve_job_def)
    have "mg_seq\<^sup>*\<^sup>* (spawn (Starting n port p (mg_dns m)) ?w1) w' \<and> wo_jobs w' = []"
      using starting_runs[of ?w1 e port p n] assms b r Inr by (auto simp: manager_Connect_def Let_def split: if_splits)
    then show ?thesis using first[OF j] by (auto intro: rtranclp_trans)
  qed
qed

lemma leaving_runs:
  fixes e :: world_env
  assumes "wo_jobs w = []" and "disconnect_begin alias (wo_mgr w) = (prev, m)"
  defines "m' \<equiv> disconnect_end alias m"
  defines "f \<equiv> snd (SaveNetworks (we_path e) (we_write e) (mg_saved m') (wo_file w))"
  defines "w' \<equiv> w\<lparr>wo_mgr := m', wo_live := (case prev of None \<Rightarrow> wo_live w | Some en \<Rightarrow> stop_entry en (wo_live w)), wo_file := f\<rparr>"
  shows "mg_seq\<^sup>*\<^sup>* (spawn (Leaving alias prev k) (w\<lparr>wo_mgr := m\<rparr>)) (case k of None \<Rightarrow> w' | Some a \<Rightarrow> spawn (Forgetting a) w')"
proof -
  let ?w1 = "w\<lparr>wo_mgr := m', wo_live := (case prev of None \<Rightarrow> wo_live w | Some en \<Rightarrow> stop_entry en (wo_live w))\<rparr>"
  have "mg_seq (spawn (Leaving alias prev k) (w\<lparr>wo_mgr := m\<rparr>)) (spawn (Saving (mg_saved m') k) ?w1)"
    using assms(1) by (intro spawned[where e = e]; cases prev) (simp_all add: m'_def Let_def)
  moreover have "mg_seq (spawn (Saving (mg_saved m') k) ?w1) (case k of None \<Rightarrow> w' | Some a \<Rightarrow> spawn (Forgetting a) w')"
    using assms(1) by (intro spawned[where e = e]; cases k) (simp_all add: w'_def f_def Let_def)
  ultimately show ?thesis by auto
qed

lemma Disconnect_runs:
  assumes "wo_jobs w = []" and "manager_Disconnect e alias w = (err, w')"
  shows "mg_seq\<^sup>*\<^sup>* w w' \<and> wo_jobs w' = []"
proof -
  obtain prev m where b: "disconnect_begin (NormalizeAlias alias) (wo_mgr w) = (prev, m)" by fastforce
  have "mg_seq w (spawn (Leaving (NormalizeAlias alias) prev None) (w\<lparr>wo_mgr := m\<rparr>))"
    by (rule one_call[OF assms(1), of _ "CallDisconnect alias"]) (simp add: b)
  then show ?thesis using leaving_runs[OF assms(1) b, of None e] assms b
    by (auto simp: manager_Disconnect_def Let_def intro: converse_rtranclp_into_rtranclp)
qed

lemma Forget_runs:
  assumes "wo_jobs w = []" and "manager_Forget e alias w = (err, w')"
  shows "mg_seq\<^sup>*\<^sup>* w w' \<and> wo_jobs w' = []"
proof -
  let ?a = "NormalizeAlias alias"
  obtain prev m where b: "disconnect_begin (NormalizeAlias ?a) (wo_mgr w) = (prev, m)" by fastforce
  define w1 where "w1 = snd (manager_Disconnect e ?a w)"
  have j: "wo_jobs w1 = []" using assms(1) b by (simp add: w1_def manager_Disconnect_def Let_def)
  have "mg_seq w (spawn (Leaving (NormalizeAlias ?a) prev (Some ?a)) (w\<lparr>wo_mgr := m\<rparr>))"
    by (rule one_call[OF assms(1), of _ "CallForget alias"]) (simp add: b)
  moreover have "mg_seq\<^sup>*\<^sup>* (spawn (Leaving (NormalizeAlias ?a) prev (Some ?a)) (w\<lparr>wo_mgr := m\<rparr>)) (spawn (Forgetting ?a) w1)"
    using leaving_runs[OF assms(1) b, of "Some ?a" e] b by (simp add: w1_def manager_Disconnect_def Let_def)
  moreover have "mg_seq (spawn (Forgetting ?a) w1) (spawn (Saving (mg_saved (forget_end ?a (wo_mgr w1))) None) (w1\<lparr>wo_mgr := forget_end ?a (wo_mgr w1)\<rparr>))"
    using j by (intro spawned[where e = e]) (simp_all add: Let_def)
  moreover have "mg_seq (spawn (Saving (mg_saved (forget_end ?a (wo_mgr w1))) None) (w1\<lparr>wo_mgr := forget_end ?a (wo_mgr w1)\<rparr>)) w'"
    using j assms(2) by (intro spawned[where e = e]) (auto simp: manager_Forget_def w1_def Let_def)
  ultimately have "mg_seq\<^sup>*\<^sup>* w w'" by (meson converse_rtranclp_into_rtranclp rtranclp.rtrancl_into_rtrancl rtranclp_trans)
  moreover have "wo_jobs w' = []" using assms(2) j by (auto simp: manager_Forget_def w1_def Let_def)
  ultimately show ?thesis ..
qed

section \<open>The contract of the handler\<close>

text \<open>The networks a device knows and those that are up, by alias.\<close>

definition known :: "world \<Rightarrow> string set" where
  "known w = set (aliases (mg_saved (wo_mgr w)))"

definition up_nets :: "world \<Rightarrow> string set" where
  "up_nets w = dom (map_of (mg_nets (wo_mgr w)))"

definition net_name :: "joined \<Rightarrow> string" where
  "net_name n = NormalizeAlias (jn_alias n)"

text \<open>
  What the dispatcher relies on: which networks are known and up after each operation, and that an operation
  leaves the other networks alone.
\<close>

locale eng_handler =
  fixes connect :: "'n \<Rightarrow> 's \<Rightarrow> ('e option \<times> 's) option"
    and disconnect :: "string \<Rightarrow> 's \<Rightarrow> 'e option \<times> 's"
    and forget :: "string \<Rightarrow> 's \<Rightarrow> 'e option \<times> 's"
    and norm :: "string \<Rightarrow> string"
    and name :: "'n \<Rightarrow> string"
    and listed :: "'s \<Rightarrow> string set"
    and up :: "'s \<Rightarrow> string set"
  assumes connect_ok: "connect n s = Some (None, s') \<Longrightarrow> up s' = insert (name n) (up s) \<and> listed s' = insert (name n) (listed s)"
    and connect_error: "connect n s = Some (Some err, s') \<Longrightarrow>
      s' = s \<or> up s' = up s - {name n} \<and> listed s' = insert (name n) (listed s)"
    and disconnect_up: "up (snd (disconnect a s)) = up s - {norm a}"
    and disconnect_listed: "listed (snd (disconnect a s)) = listed s"
    and forget_up: "up (snd (forget a s)) = up s - {norm (norm a)}"
    and forget_listed: "listed (snd (forget a s)) = listed s - {norm a}"
begin

text \<open>Every operation speaks of one network.\<close>

lemma connect_others: "connect n s = Some (r, s') \<Longrightarrow> a \<noteq> name n \<Longrightarrow> (a \<in> up s' \<longleftrightarrow> a \<in> up s) \<and> (a \<in> listed s' \<longleftrightarrow> a \<in> listed s)"
  using connect_ok connect_error by (cases r) fastforce+

lemma disconnect_others: "disconnect b s = (r, s') \<Longrightarrow> a \<noteq> norm b \<Longrightarrow> (a \<in> up s' \<longleftrightarrow> a \<in> up s) \<and> (a \<in> listed s' \<longleftrightarrow> a \<in> listed s)"
  using disconnect_up[of b s] disconnect_listed[of b s] by simp

lemma forget_others:
  "forget b s = (r, s') \<Longrightarrow> a \<noteq> norm b \<Longrightarrow> a \<noteq> norm (norm b) \<Longrightarrow> (a \<in> up s' \<longleftrightarrow> a \<in> up s) \<and> (a \<in> listed s' \<longleftrightarrow> a \<in> listed s)"
  using forget_up[of b s] forget_listed[of b s] by simp

text \<open>A network that is up is listed, whatever is asked for, when names are normal.\<close>

lemma up_is_listed:
  assumes "up s \<subseteq> listed s"
  shows "connect n s = Some (r, s') \<Longrightarrow> up s' \<subseteq> listed s'"
    and "disconnect a s = (r, s') \<Longrightarrow> up s' \<subseteq> listed s'"
    and "forget a s = (r, s') \<Longrightarrow> norm (norm a) = norm a \<Longrightarrow> up s' \<subseteq> listed s'"
proof -
  show "connect n s = Some (r, s') \<Longrightarrow> up s' \<subseteq> listed s'" using assms connect_ok connect_error by (cases r) fastforce+
  show "disconnect a s = (r, s') \<Longrightarrow> up s' \<subseteq> listed s'" using assms disconnect_up[of a s] disconnect_listed[of a s] by auto
  show "forget a s = (r, s') \<Longrightarrow> norm (norm a) = norm a \<Longrightarrow> up s' \<subseteq> listed s'" using assms forget_up[of a s] forget_listed[of a s] by auto
qed

end

lemma remember_save_parts [simp]:
  "mg_nets (wo_mgr (remember_save e n w)) = mg_nets (wo_mgr w)"
  "mg_saved (wo_mgr (remember_save e n w)) = replace_network n (mg_saved (wo_mgr w))"
  "wo_live (remember_save e n w) = wo_live w"
  by (simp_all add: remember_save_def remember_def Let_def)

lemma begin_name: "connect_begin m n0 = Inr (n, prev, m') \<Longrightarrow>
    jn_alias n = net_name n0 \<and> jn_auto n \<and> prev = map_of (mg_nets m) (net_name n0) \<and>
    m' = m\<lparr>mg_nets := AList.delete (net_name n0) (mg_nets m)\<rparr>"
  by (auto simp: connect_begin_def net_name_def Let_def split: option.splits)

lemma dom_map_of_delete [simp]: "dom (map_of (AList.delete k m)) = dom (map_of m) - {k}"
  by (simp add: delete_conv')

text \<open>How a connect ends: refused, not started, or started.\<close>

lemma Connect_cases:
  assumes "manager_Connect e n0 w = Some (r, w')"
  obtains (refused) err where "r = Some (InvalidNetwork err)" "w' = w"
    | (failed) err n w1 where "r = Some err" "connect_begin (wo_mgr w) n0 = Inr (n, map_of (mg_nets (wo_mgr w)) (net_name n0), wo_mgr w1)"
        "w' = remember_save e n w1" "wo_mgr w1 = (wo_mgr w)\<lparr>mg_nets := AList.delete (net_name n0) (mg_nets (wo_mgr w))\<rparr>"
    | (started) n en w1 k cfg where "r = None" "w' = remember_save e n w1" "en_eng en = Some k" "wo_live w1 k = Some cfg"
        "wo_mgr w1 = connect_commit n en ((wo_mgr w)\<lparr>mg_nets := AList.delete (net_name n0) (mg_nets (wo_mgr w))\<rparr>)"
        "jn_alias n = net_name n0" "jn_auto n"
proof (cases "connect_begin (wo_mgr w) n0")
  case (Inl x)
  then show thesis using assms by (intro refused) (auto simp: manager_Connect_def)
next
  case (Inr b)
  obtain n prev m where b: "connect_begin (wo_mgr w) n0 = Inr (n, prev, m)" using Inr by (cases b) auto
  note nm = begin_name[OF b]
  let ?w1 = "w\<lparr>wo_mgr := m, wo_live := (case prev of None \<Rightarrow> wo_live w | Some en \<Rightarrow> stop_entry en (wo_live w))\<rparr>"
  obtain port q where r: "reserve (we_udpFree e) m = (port, q)" by (cases "reserve (we_udpFree e) m")
  show thesis
  proof (cases q)
    case (Inl x)
    then show thesis using assms b r nm
      by (intro failed[of "NoPrefix x" n ?w1]) (auto simp: manager_Connect_def Let_def split: if_splits)
  next
    case (Inr p)
    let ?cfg = "network_config (mg_cfg m) n port p (mg_dns m)"
    show thesis
    proof (cases "we_start e ?cfg")
      case False
      then show thesis using assms b r Inr nm
        by (intro failed[of EngineFailed n ?w1]) (auto simp: manager_Connect_def Let_def)
    next
      case True
      let ?en = "\<lparr>en_eng = Some (wo_next ?w1), en_port = port, en_prefix = p\<rparr>"
      show thesis using assms b r Inr nm True
        by (intro started[of n "?w1\<lparr>wo_live := (wo_live ?w1)(wo_next ?w1 \<mapsto> ?cfg), wo_next := wo_next ?w1 + 1, wo_mgr := connect_commit n ?en m\<rparr>"
              ?en "wo_next ?w1" ?cfg])
           (auto simp: manager_Connect_def Let_def)
    qed
  qed
qed

interpretation device: eng_handler "manager_Connect e" "manager_Disconnect e" "manager_Forget e" NormalizeAlias net_name known up_nets for e
proof
  show "up_nets w' = insert (net_name n) (up_nets w) \<and> known w' = insert (net_name n) (known w)"
    if "manager_Connect e n w = Some (None, w')" for n w w'
    using that by (cases rule: Connect_cases) (auto simp: up_nets_def known_def connect_commit_def update_conv' replace_network_aliases)
  show "w' = w \<or> up_nets w' = up_nets w - {net_name n} \<and> known w' = insert (net_name n) (known w)"
    if "manager_Connect e n w = Some (Some err, w')" for n w w' err
    using that by (cases rule: Connect_cases) (auto simp: up_nets_def known_def replace_network_aliases dest!: begin_name)
  show d: "up_nets (snd (manager_Disconnect e a w)) = up_nets w - {NormalizeAlias a}" for a w
    by (auto simp: manager_Disconnect_def disconnect_begin_def disconnect_end_def up_nets_def Let_def)
  show k: "known (snd (manager_Disconnect e a w)) = known w" for a w
    by (simp add: manager_Disconnect_def disconnect_begin_def known_def aliases_disconnect Let_def)
  show "up_nets (snd (manager_Forget e a w)) = up_nets w - {NormalizeAlias (NormalizeAlias a)}" for a w
    using d[of "NormalizeAlias a" w] by (simp add: manager_Forget_def forget_end_def up_nets_def Let_def)
  show "known (snd (manager_Forget e a w)) = known w - {NormalizeAlias a}" for a w
  proof -
    have "set (aliases (filter (\<lambda>n. jn_alias n \<noteq> b) ns)) = set (aliases ns) - {b}" for b ns by (auto simp: aliases_def)
    then show ?thesis using k[of "NormalizeAlias a" w] by (simp add: manager_Forget_def forget_end_def known_def Let_def)
  qed
qed

section \<open>What the answers show\<close>

definition engine_of :: "(nat \<Rightarrow> eng_status) \<Rightarrow> manager \<Rightarrow> string \<Rightarrow> eng_status" where
  "engine_of st m a = (case map_of (mg_nets m) a of None \<Rightarrow> no_status | Some en \<Rightarrow> (case en_eng en of None \<Rightarrow> no_status | Some k \<Rightarrow> st k))"

lemma Statuses_shows:
  "(\<lambda>s. (ss_network s, ss_engine s)) ` set (Statuses st m) = (\<lambda>n. (n, engine_of st m (jn_alias n))) ` set (mg_saved m)"
proof -
  have "(\<lambda>s. (ss_network s, ss_engine s)) ` set (addOverlapWarnings ss) = (\<lambda>s. (ss_network s, ss_engine s)) ` set ss" for ss
    unfolding addOverlapWarnings_def Let_def set_map image_image by (rule image_cong) simp_all
  then show ?thesis by (simp add: Statuses_def engine_of_def image_image)
qed

lemma shown_network: "n \<in> set (mg_saved m) \<Longrightarrow> \<exists>s \<in> set (Statuses st m). ss_network s = n \<and> ss_engine s = engine_of st m (jn_alias n)"
proof -
  assume "n \<in> set (mg_saved m)"
  then have "(n, engine_of st m (jn_alias n)) \<in> (\<lambda>s. (ss_network s, ss_engine s)) ` set (Statuses st m)"
    unfolding Statuses_shows by (rule imageI)
  then show ?thesis by auto
qed

lemma shown_of: "s \<in> set (Statuses st m) \<Longrightarrow> ss_network s \<in> set (mg_saved m) \<and> ss_engine s = engine_of st m (jn_alias (ss_network s))"
proof -
  assume "s \<in> set (Statuses st m)"
  then have "(ss_network s, ss_engine s) \<in> (\<lambda>n. (n, engine_of st m (jn_alias n))) ` set (mg_saved m)"
    unfolding Statuses_shows[symmetric] by (rule imageI)
  then show ?thesis by auto
qed

lemma replace_network_in: "n \<in> set (replace_network n ns)"
  by (induction ns) auto

lemma act_runs:
  assumes "wo_jobs w = []" and "eng_act e rq w = Some (err, w')"
  shows "mg_seq\<^sup>*\<^sup>* w w' \<and> wo_jobs w' = []"
  using assms Connect_runs[OF assms(1)] Disconnect_runs[OF assms(1)] Forget_runs[OF assms(1)]
  by (auto simp: eng_act_def split: if_splits option.splits prod.splits)

text \<open>What each request does to the networks that are saved and up.\<close>

lemma connect_started:
  assumes "manager_Connect e n w = Some (None, w')"
  shows "\<exists>s k. s \<in> set (Statuses st (wo_mgr w')) \<and> jn_alias (ss_network s) = net_name n \<and> jn_auto (ss_network s) \<and>
    ss_engine s = st k \<and> k \<in> dom (wo_live w')"
  using assms
proof (cases rule: Connect_cases)
  case (started n' en w1 k cfg)
  have "n' \<in> set (mg_saved (wo_mgr w'))" unfolding started(2) remember_save_parts by (rule replace_network_in)
  from shown_network[OF this, of st] obtain s where s: "s \<in> set (Statuses st (wo_mgr w'))" "ss_network s = n'"
    "ss_engine s = engine_of st (wo_mgr w') (jn_alias n')" by blast
  have "engine_of st (wo_mgr w') (jn_alias n') = st k"
    using started by (simp add: engine_of_def connect_commit_def update_conv')
  then show ?thesis using s started by (intro exI[of _ s] exI[of _ k]) auto
qed simp_all

lemma connect_not_started:
  assumes "manager_Connect e n w = Some (Some err, w')" and "\<forall>x. err \<noteq> InvalidNetwork x"
  shows "\<exists>s \<in> set (Statuses st (wo_mgr w')). jn_alias (ss_network s) = net_name n \<and> jn_auto (ss_network s) \<and> ss_engine s = no_status"
  using assms(1)
proof (cases rule: Connect_cases)
  case (failed x n' w1)
  have "n' \<in> set (mg_saved (wo_mgr w'))" unfolding failed(3) remember_save_parts by (rule replace_network_in)
  from shown_network[OF this, of st] obtain s where s: "s \<in> set (Statuses st (wo_mgr w'))" "ss_network s = n'"
    "ss_engine s = engine_of st (wo_mgr w') (jn_alias n')" by blast
  note nm = begin_name[OF failed(2)]
  then have "engine_of st (wo_mgr w') (jn_alias n') = no_status" using failed by (simp add: engine_of_def delete_conv')
  then show ?thesis using s nm by (intro bexI[of _ s]) auto
qed (use assms(2) in auto)

lemma disconnected:
  assumes "manager_Disconnect e a w = (err, w')" and "s \<in> set (Statuses st (wo_mgr w'))" and "jn_alias (ss_network s) = NormalizeAlias a"
  shows "ss_engine s = no_status \<and> \<not> jn_auto (ss_network s)"
proof -
  have m: "wo_mgr w' = disconnect_end (NormalizeAlias a) (snd (disconnect_begin (NormalizeAlias a) (wo_mgr w)))"
    using assms(1) by (auto simp: manager_Disconnect_def Let_def split: prod.splits)
  then have "map_of (mg_nets (wo_mgr w')) (NormalizeAlias a) = None"
    by (simp add: disconnect_begin_def disconnect_end_def delete_conv')
  then show ?thesis using shown_of[OF assms(2)] assms(3) m by (auto simp: engine_of_def disconnect_end_def split: if_splits)
qed

lemma forgotten:
  assumes "manager_Forget e a w = (err, w')" and "s \<in> set (Statuses st (wo_mgr w'))"
  shows "jn_alias (ss_network s) \<noteq> NormalizeAlias a"
  using shown_of[OF assms(2)] assms(1) by (auto simp: manager_Forget_def forget_end_def Let_def)

text \<open>C40: The reply shows what happened. A request that comes alone runs the operation to its end, and \<open>OK\<close> means it
  reported no error. A reply lists the known networks as they are after it, unless the request is not
  understood, which changes nothing. After an \<open>OK\<close> to a connect the network is listed under its normal alias with the
  status of an engine that runs, and will be connected again at the next start; after a connect that failed it
  is listed without one, and will be tried again, unless its settings were refused. After a disconnect it is
  listed, if at all, as down and not to be connected again; after a forget it is not listed.
\<close>

theorem the_reply_shows_what_happened:
  assumes "wo_jobs w = []" and "eng_dispatch e st rq w = Some (rsp, w')"
  shows "mg_seq\<^sup>*\<^sup>* w w' \<and> wo_jobs w' = [] \<and> (rp_OK rsp \<longleftrightarrow> rp_Error rsp = None) \<and>
    (rp_Networks rsp = Statuses st (wo_mgr w') \<or> rp_Networks rsp = [] \<and> \<not> rp_OK rsp \<and> w' = w) \<and>
    (er_Op rq = ''connect'' \<and> er_Network rq = Some n \<longrightarrow>
       (rp_OK rsp \<longrightarrow> (\<exists>s k. s \<in> set (rp_Networks rsp) \<and> jn_alias (ss_network s) = net_name n \<and> jn_auto (ss_network s) \<and>
          ss_engine s = st k \<and> k \<in> dom (wo_live w'))) \<and>
       (\<forall>err. rp_Error rsp = Some (InManager err) \<and> (\<forall>x. err \<noteq> InvalidNetwork x) \<longrightarrow>
          (\<exists>s \<in> set (rp_Networks rsp). jn_alias (ss_network s) = net_name n \<and> jn_auto (ss_network s) \<and> ss_engine s = no_status))) \<and>
    (er_Op rq = ''disconnect'' \<longrightarrow>
       (\<forall>s \<in> set (rp_Networks rsp). jn_alias (ss_network s) = NormalizeAlias (er_Alias rq) \<longrightarrow>
          ss_engine s = no_status \<and> \<not> jn_auto (ss_network s))) \<and>
    (er_Op rq = ''forget'' \<longrightarrow> (\<forall>s \<in> set (rp_Networks rsp). jn_alias (ss_network s) \<noteq> NormalizeAlias (er_Alias rq)))"
proof -
  obtain err where act: "eng_act e rq w = Some (err, w')" "rsp = eng_answer err (Statuses st (wo_mgr w'))"
    using assms(2) by (auto simp: eng_dispatch_def)
  have ans: "rp_OK rsp \<longleftrightarrow> rp_Error rsp = None" "rp_Error rsp = err"
    "rp_Networks rsp = Statuses st (wo_mgr w') \<or> rp_Networks rsp = [] \<and> \<not> rp_OK rsp \<and> (err = Some NetworkMissingInRequest \<or> (\<exists>op. err = Some (UnknownOp op)))"
    "rp_Networks rsp = [] \<or> rp_Networks rsp = Statuses st (wo_mgr w')"
    "err = None \<or> (\<exists>x. err = Some (InManager x)) \<Longrightarrow> rp_Networks rsp = Statuses st (wo_mgr w')"
    using act(2) by (auto simp: eng_answer_def split: option.splits eng_request_error.splits)
  have same: "w' = w" if "err = Some NetworkMissingInRequest \<or> (\<exists>op. err = Some (UnknownOp op))"
    using act(1) that by (auto simp: eng_act_def split: if_splits option.splits prod.splits)
  show ?thesis
  proof (intro conjI impI allI ballI)
    show "mg_seq\<^sup>*\<^sup>* w w'" "wo_jobs w' = []" using act_runs[OF assms(1) act(1)] by simp_all
    show "rp_OK rsp \<longleftrightarrow> rp_Error rsp = None" by (rule ans(1))
    show "rp_Networks rsp = Statuses st (wo_mgr w') \<or> rp_Networks rsp = [] \<and> \<not> rp_OK rsp \<and> w' = w" using ans(3) same by blast
  next
    assume c: "er_Op rq = ''connect'' \<and> er_Network rq = Some n" and ok: "rp_OK rsp"
    then have "manager_Connect e n w = Some (None, w')" using act(1) ans(1,2) by (auto simp: eng_act_def)
    from connect_started[OF this, of st] ans(5) ans(1,2) ok
    show "\<exists>s k. s \<in> set (rp_Networks rsp) \<and> jn_alias (ss_network s) = net_name n \<and> jn_auto (ss_network s) \<and>
          ss_engine s = st k \<and> k \<in> dom (wo_live w')" by simp
  next
    fix x
    assume c: "er_Op rq = ''connect'' \<and> er_Network rq = Some n"
      and x: "rp_Error rsp = Some (InManager x) \<and> (\<forall>y. x \<noteq> InvalidNetwork y)"
    then have m: "manager_Connect e n w = Some (Some x, w')" using act(1) ans(2) by (auto simp: eng_act_def)
    have "rp_Networks rsp = Statuses st (wo_mgr w')" using x ans(2,5) by auto
    then show "\<exists>s \<in> set (rp_Networks rsp). jn_alias (ss_network s) = net_name n \<and> jn_auto (ss_network s) \<and> ss_engine s = no_status"
      using connect_not_started[OF m conjunct2[OF x]] by simp
  next
    fix s
    assume "er_Op rq = ''disconnect''" and s: "s \<in> set (rp_Networks rsp)" "jn_alias (ss_network s) = NormalizeAlias (er_Alias rq)"
    then obtain r where d: "manager_Disconnect e (er_Alias rq) w = (r, w')" using act(1) by (auto simp: eng_act_def split: prod.splits)
    have m: "s \<in> set (Statuses st (wo_mgr w'))" using s(1) ans(4) by auto
    show "ss_engine s = no_status" "\<not> jn_auto (ss_network s)" using disconnected[OF d m s(2)] by simp_all
  next
    fix s
    assume "er_Op rq = ''forget''" and s: "s \<in> set (rp_Networks rsp)"
    then obtain r where d: "manager_Forget e (er_Alias rq) w = (r, w')" using act(1) by (auto simp: eng_act_def split: prod.splits)
    have "s \<in> set (Statuses st (wo_mgr w'))" using s(1) ans(4) by auto
    with d show "jn_alias (ss_network s) \<noteq> NormalizeAlias (er_Alias rq)" by (rule forgotten)
  qed
qed

section \<open>Requests one after the other\<close>

fun eng_requests :: "(world_env \<times> eng_request) list \<Rightarrow> world \<Rightarrow> world option" where
  "eng_requests [] w = Some w"
| "eng_requests ((e, rq) # rqs) w = (case eng_act e rq w of None \<Rightarrow> None | Some (err, w') \<Rightarrow> eng_requests rqs w')"

text \<open>The network a request is about.\<close>

definition about :: "eng_request \<Rightarrow> string \<Rightarrow> bool" where
  "about rq a \<longleftrightarrow> (er_Op rq = ''connect'' \<and> (case er_Network rq of None \<Rightarrow> False | Some n \<Rightarrow> net_name n = a)) \<or>
     (er_Op rq = ''disconnect'' \<and> NormalizeAlias (er_Alias rq) = a) \<or>
     (er_Op rq = ''forget'' \<and> (NormalizeAlias (er_Alias rq) = a \<or> NormalizeAlias (NormalizeAlias (er_Alias rq)) = a))"

lemma act_others:
  assumes "eng_act e rq w = Some (err, w')" and "\<not> about rq a"
  shows "(a \<in> up_nets w' \<longleftrightarrow> a \<in> up_nets w) \<and> (a \<in> known w' \<longleftrightarrow> a \<in> known w)"
proof -
  consider (connect) n r where "er_Op rq = ''connect''" "er_Network rq = Some n" "manager_Connect e n w = Some (r, w')"
    | (disconnect) r where "er_Op rq = ''disconnect''" "manager_Disconnect e (er_Alias rq) w = (r, w')"
    | (forget) r where "er_Op rq = ''forget''" "manager_Forget e (er_Alias rq) w = (r, w')"
    | (nothing) "w' = w"
    using assms(1) by (auto simp: eng_act_def split: if_splits option.splits prod.splits)
  then show ?thesis
  proof cases
    case connect
    then show ?thesis using assms(2) by (intro device.connect_others[OF connect(3)]) (auto simp: about_def)
  next
    case disconnect
    then show ?thesis using assms(2) by (intro device.disconnect_others[OF disconnect(2)]) (auto simp: about_def)
  next
    case forget
    then show ?thesis using assms(2) by (intro device.forget_others[OF forget(2)]) (auto simp: about_def)
  qed simp
qed

lemma requests_others:
  "eng_requests rqs w = Some w' \<Longrightarrow> \<forall>x \<in> set rqs. \<not> about (snd x) a \<Longrightarrow>
     (a \<in> up_nets w' \<longleftrightarrow> a \<in> up_nets w) \<and> (a \<in> known w' \<longleftrightarrow> a \<in> known w)"
proof (induction rqs w rule: eng_requests.induct)
  case (2 e rq rqs w)
  then obtain err w1 where a: "eng_act e rq w = Some (err, w1)" "eng_requests rqs w1 = Some w'" by (auto split: option.splits prod.splits)
  then show ?case using "2.IH"[OF a(1) refl a(2)] "2.prems"(2) act_others[OF a(1), of a] by simp
qed simp

text \<open>Each network follows the last request about it. Whatever requests about other networks come after it, a network
  whose connect was answered without an error is up and listed, one that was disconnected is down and listed if
  it was before, one that was forgotten is neither; and a network nobody asks about stays as it is.
\<close>

theorem the_last_request_decides:
  assumes "eng_act e rq w = Some (err, w1)" and "eng_requests rqs w1 = Some w'" and "\<forall>x \<in> set rqs. \<not> about (snd x) a"
  shows "(rq = connect_request n \<and> net_name n = a \<and> err = None \<longrightarrow> a \<in> up_nets w' \<and> a \<in> known w') \<and>
    (rq = disconnect_request b \<and> NormalizeAlias b = a \<longrightarrow> a \<notin> up_nets w' \<and> (a \<in> known w' \<longleftrightarrow> a \<in> known w)) \<and>
    (rq = forget_request b \<and> NormalizeAlias b = a \<and> NormalizeAlias a = a \<longrightarrow> a \<notin> up_nets w' \<and> a \<notin> known w') \<and>
    (\<not> about rq a \<longrightarrow> (a \<in> up_nets w' \<longleftrightarrow> a \<in> up_nets w) \<and> (a \<in> known w' \<longleftrightarrow> a \<in> known w))"
proof -
  note later = requests_others[OF assms(2,3)]
  show ?thesis
  proof (intro conjI[of "_ \<longrightarrow> _"] impI)
    assume c: "rq = connect_request n \<and> net_name n = a \<and> err = None"
    then have "manager_Connect e n w = Some (None, w1)" using assms(1) by (auto simp: eng_act_def connect_request_def)
    from device.connect_ok[OF this] show "a \<in> up_nets w' \<and> a \<in> known w'" using later c by simp
  next
    assume c: "rq = disconnect_request b \<and> NormalizeAlias b = a"
    then obtain r where "manager_Disconnect e b w = (r, w1)" using assms(1) by (auto simp: eng_act_def disconnect_request_def split: prod.splits)
    then show "a \<notin> up_nets w' \<and> (a \<in> known w' \<longleftrightarrow> a \<in> known w)"
      using device.disconnect_up[of e b w] device.disconnect_listed[of e b w] later c by simp
  next
    assume c: "rq = forget_request b \<and> NormalizeAlias b = a \<and> NormalizeAlias a = a"
    then obtain r where "manager_Forget e b w = (r, w1)" using assms(1) by (auto simp: eng_act_def forget_request_def split: prod.splits)
    then show "a \<notin> up_nets w' \<and> a \<notin> known w'"
      using device.forget_up[of e b w] device.forget_listed[of e b w] later c by simp
  next
    assume "\<not> about rq a"
    then show "(a \<in> up_nets w' \<longleftrightarrow> a \<in> up_nets w) \<and> (a \<in> known w' \<longleftrightarrow> a \<in> known w)" using later act_others[OF assms(1)] by simp
  qed
qed

section \<open>Witnesses\<close>

text \<open>A device that joins a network, then another, and leaves the second.\<close>

lemma demo_connect:
  assumes "a = ''home''" and "mg_nets (wo_mgr w) = []" and "mg_cfg (wo_mgr w) = mg_cfg (manager_New demo_mg_config)"
  shows "\<exists>w'. manager_Connect demo_world_env (demo_net a) w = Some (None, w')"
proof -
  obtain m where b: "connect_begin (wo_mgr w) (demo_net a) = Inr ((demo_net a)\<lparr>jn_auto := True\<rparr>, None, m)"
    using demo_begin[of a "wo_mgr w"] assms by auto
  then have m: "mg_nets m = []" "mg_cfg m = mg_cfg (manager_New demo_mg_config)" using begin_name[OF b] assms by auto
  obtain port p where "reserve (we_udpFree demo_world_env) m = (port, Inr p)" using demo_reserve[OF m(2), of "{}"] m(1) by auto
  then show ?thesis using b by (simp add: manager_Connect_def Let_def demo_world_env_def)
qed

lemma demo_joined:
  "\<exists>w1. eng_act demo_world_env (connect_request (demo_net ''home'')) (world_New demo_mg_config NoFile) = Some (None, w1)"
proof -
  have "mg_nets (wo_mgr (world_New demo_mg_config NoFile)) = []" "wo_mgr (world_New demo_mg_config NoFile) = manager_New demo_mg_config"
    by (simp_all add: world_New_def manager_New_def Let_def)
  then obtain w' where "manager_Connect demo_world_env (demo_net ''home'') (world_New demo_mg_config NoFile) = Some (None, w')"
    using demo_connect[of "''home''" "world_New demo_mg_config NoFile"] by auto
  then show ?thesis by (simp add: eng_act_def connect_request_def)
qed

lemma demo_home: "net_name (demo_net ''home'') = ''home''"
  unfolding net_name_def demo_net_def by code_simp

theorem the_reply_witness:
  "\<exists>rsp w' s k. eng_dispatch demo_world_env (\<lambda>k. demo_up) (connect_request (demo_net ''home'')) (world_New demo_mg_config NoFile) = Some (rsp, w') \<and>
     rp_OK rsp \<and> s \<in> set (rp_Networks rsp) \<and> jn_alias (ss_network s) = ''home'' \<and> ss_engine s = demo_up \<and> k \<in> dom (wo_live w')"
proof -
  let ?w = "world_New demo_mg_config NoFile"
  obtain w1 where w1: "eng_act demo_world_env (connect_request (demo_net ''home'')) ?w = Some (None, w1)" using demo_joined by blast
  define rsp where "rsp = eng_answer None (Statuses (\<lambda>k. demo_up) (wo_mgr w1))"
  have d: "eng_dispatch demo_world_env (\<lambda>k. demo_up) (connect_request (demo_net ''home'')) ?w = Some (rsp, w1)"
    using w1 by (simp add: eng_dispatch_def rsp_def)
  have ok: "rp_OK rsp" by (simp add: rsp_def eng_answer_def)
  have jobs: "wo_jobs ?w = []" by (simp add: world_New_def)
  have c: "er_Op (connect_request (demo_net ''home'')) = ''connect'' \<and> er_Network (connect_request (demo_net ''home'')) = Some (demo_net ''home'')"
    by (simp add: connect_request_def)
  note th = the_reply_shows_what_happened[OF jobs d, of "demo_net ''home''", THEN conjunct2, THEN conjunct2, THEN conjunct2, THEN conjunct2, THEN conjunct1]
  obtain s k where "s \<in> set (rp_Networks rsp)" "jn_alias (ss_network s) = net_name (demo_net ''home'')" "ss_engine s = demo_up" "k \<in> dom (wo_live w1)"
    using mp[OF conjunct1[OF mp[OF th c]] ok] by blast
  then show ?thesis using d ok unfolding demo_home by blast
qed

theorem the_last_request_witness:
  "\<exists>w1 w'. eng_act demo_world_env (connect_request (demo_net ''home'')) (world_New demo_mg_config NoFile) = Some (None, w1) \<and>
     eng_requests [(demo_world_env, disconnect_request ''work'')] w1 = Some w' \<and> ''home'' \<in> up_nets w'"
proof -
  obtain w1 where w1: "eng_act demo_world_env (connect_request (demo_net ''home'')) (world_New demo_mg_config NoFile) = Some (None, w1)"
    using demo_joined by blast
  obtain r w' where "manager_Disconnect demo_world_env ''work'' w1 = (r, w')" by fastforce
  then have w': "eng_requests [(demo_world_env, disconnect_request ''work'')] w1 = Some w'"
    by (simp add: eng_act_def disconnect_request_def)
  have "NormalizeAlias ''work'' = ''work''" by code_simp
  then have "\<forall>x \<in> set [(demo_world_env, disconnect_request ''work'')]. \<not> about (snd x) ''home''" by (simp add: about_def disconnect_request_def)
  from the_last_request_decides[OF w1 w' this, of "demo_net ''home''"] demo_home w1 w' show ?thesis by blast
qed

end
