(* ===== verification/Desktop.thy ===== *)
theory Desktop
  imports ClientIpc ServerConfig Update
begin

text \<open>
  The desktop program, \<open>gui/app.go\<close>, \<open>gui/tray.go\<close>, \<open>gui/i18n.go\<close>: the calls its window makes, where a hosted
  network is started (in the server's service, or in the program itself when there is none), and what the tray shows and does.
  The window and the menu library are not modelled: a menu entry is a record of what was set on it, and a click is the
  function its goroutine runs. Strings are bytes, so texts outside ASCII are written as their encoding.
\<close>

section \<open>Calls on the engine's service\<close>

text \<open>A call has a reply, or none when the pipe fails.\<close>

datatype 'e app_error = PipeFailed | Told 'e

definition app_unwrap :: "eng_response option \<Rightarrow> eng_request_error option app_error option \<times> status list" where
  "app_unwrap reply =
     (case reply of
        None \<Rightarrow> (Some PipeFailed, [])
      | Some r \<Rightarrow> (if \<not> rp_OK r then Some (Told (rp_Error r)) else None, rp_Networks r))"

definition ServiceUp :: "(eng_request \<Rightarrow> 'w \<Rightarrow> eng_response option \<times> 'w) \<Rightarrow> 'w \<Rightarrow> bool \<times> 'w" where
  "ServiceUp call w = (case call status_request w of (r, w') \<Rightarrow> (r \<noteq> None, w'))"

definition app_Networks :: "(eng_request \<Rightarrow> 'w \<Rightarrow> eng_response option \<times> 'w) \<Rightarrow> 'w \<Rightarrow> status list option \<times> 'w" where
  "app_Networks call w = (case call status_request w of (r, w') \<Rightarrow> (map_option rp_Networks r, w'))"

definition app_Connect :: "(eng_request \<Rightarrow> 'w \<Rightarrow> eng_response option \<times> 'w) \<Rightarrow> joined \<Rightarrow> 'w \<Rightarrow>
    (eng_request_error option app_error option \<times> status list) \<times> 'w" where
  "app_Connect call n w = (case call (connect_request n) w of (r, w') \<Rightarrow> (app_unwrap r, w'))"

definition app_Disconnect :: "(eng_request \<Rightarrow> 'w \<Rightarrow> eng_response option \<times> 'w) \<Rightarrow> string \<Rightarrow> 'w \<Rightarrow>
    (eng_request_error option app_error option \<times> status list) \<times> 'w" where
  "app_Disconnect call alias w = (case call (disconnect_request alias) w of (r, w') \<Rightarrow> (app_unwrap r, w'))"

definition app_Forget :: "(eng_request \<Rightarrow> 'w \<Rightarrow> eng_response option \<times> 'w) \<Rightarrow> string \<Rightarrow> 'w \<Rightarrow>
    (eng_request_error option app_error option \<times> status list) \<times> 'w" where
  "app_Forget call alias w = (case call (forget_request alias) w of (r, w') \<Rightarrow> (app_unwrap r, w'))"

section \<open>Hosting\<close>

record host_view =
  hv_state :: sup_state
  hv_ManagedByService :: bool

definition sup_status :: sup_request where
  "sup_status = \<lparr>rq_Op = ''status'', rq_Config = None\<rparr>"

definition ServerServiceUp :: "(sup_request \<Rightarrow> 'v \<Rightarrow> sup_response option \<times> 'v) \<Rightarrow> 'v \<Rightarrow> bool \<times> 'v" where
  "ServerServiceUp call v = (case call sup_status v of (r, v') \<Rightarrow> (r \<noteq> None, v'))"

definition HostGenToken :: "byte list \<Rightarrow> string" where
  "HostGenToken random16 = concat (map hex_byte random16)"

text \<open>The supervisor of the program itself, made (from the settings saved then) when it is first needed.\<close>

definition local_sup :: "supervisor \<Rightarrow> supervisor option \<Rightarrow> supervisor" where
  "local_sup fresh a = (case a of None \<Rightarrow> fresh | Some s \<Rightarrow> s)"

type_synonym host_error_told = "(request_error option + sup_error) app_error"

definition HostStart :: "sup_env \<Rightarrow> supervisor \<Rightarrow> (sup_request \<Rightarrow> 'v \<Rightarrow> sup_response option \<times> 'v) \<Rightarrow> srv_config \<Rightarrow>
    supervisor option \<times> 'v \<Rightarrow> host_error_told option \<times> supervisor option \<times> 'v" where
  "HostStart e fresh call c av =
     (case av of (a, v) \<Rightarrow>
      (case ServerServiceUp call v of
        (True, v1) \<Rightarrow>
          (case call \<lparr>rq_Op = ''start'', rq_Config = Some c\<rparr> v1 of
             (None, v2) \<Rightarrow> (Some PipeFailed, a, v2)
           | (Some r, v2) \<Rightarrow> (if \<not> rs_OK r then Some (Told (Inl (rs_Error r))) else None, a, v2))
      | (False, v1) \<Rightarrow>
          (case sup_Start e c (local_sup fresh a) of (err, s) \<Rightarrow> (map_option (\<lambda>x. Told (Inr x)) err, Some s, v1))))"

definition HostStop :: "sup_env \<Rightarrow> supervisor \<Rightarrow> (sup_request \<Rightarrow> 'v \<Rightarrow> sup_response option \<times> 'v) \<Rightarrow>
    supervisor option \<times> 'v \<Rightarrow> host_error_told option \<times> supervisor option \<times> 'v" where
  "HostStop e fresh call av =
     (case av of (a, v) \<Rightarrow>
      (case ServerServiceUp call v of
        (True, v1) \<Rightarrow>
          (case call \<lparr>rq_Op = ''stop'', rq_Config = None\<rparr> v1 of
             (None, v2) \<Rightarrow> (Some PipeFailed, a, v2)
           | (Some r, v2) \<Rightarrow> (if \<not> rs_OK r then Some (Told (Inl (rs_Error r))) else None, a, v2))
      | (False, v1) \<Rightarrow> (None, Some (sup_Stop e (local_sup fresh a)), v1)))"

definition hostState :: "sup_state \<Rightarrow> bool \<Rightarrow> host_view" where
  "hostState st managed = \<lparr>hv_state = st, hv_ManagedByService = managed\<rparr>"

definition HostStatus :: "member order \<Rightarrow> store_service order \<Rightarrow> supervisor \<Rightarrow> (sup_request \<Rightarrow> 'v \<Rightarrow> sup_response option \<times> 'v) \<Rightarrow>
    supervisor option \<times> 'v \<Rightarrow> host_view \<times> supervisor option \<times> 'v" where
  "HostStatus iterM iterS fresh call av =
     (case av of (a, v) \<Rightarrow>
      (let own = (\<lambda>v. (hostState (sup_State iterM iterS (local_sup fresh a)) False, Some (local_sup fresh a), v)) in
       case ServerServiceUp call v of
         (True, v1) \<Rightarrow>
           (case call sup_status v1 of
              (None, v2) \<Rightarrow> own v2
            | (Some r, v2) \<Rightarrow> (case rs_State r of None \<Rightarrow> own v2 | Some st \<Rightarrow> (hostState st True, a, v2)))
       | (False, v1) \<Rightarrow> own v1))"

section \<open>Access rules\<close>

text \<open>The loop of \<open>ParseACL\<close>: the number of the line, the rules so far; an error carries the number of its line.\<close>

fun acl_lines :: "nat \<Rightarrow> string list \<Rightarrow> rule list \<Rightarrow> nat \<times> acl_error + rule list" where
  "acl_lines i [] rules = Inr rules"
| "acl_lines i (l # ls) rules =
     (let line = trim_space l in
      if line = [] \<or> has_prefix line ''#'' then acl_lines (i + 1) ls rules
      else (case ParseRule line of
              Inl err \<Rightarrow> Inl (i + 1, err)
            | Inr r \<Rightarrow> acl_lines (i + 1) ls (rules @ [r])))"

definition ParseACL :: "string \<Rightarrow> nat \<times> acl_error + rule list" where
  "ParseACL text = acl_lines 0 (split_on CHR 0x0A text) []"

section \<open>Updates\<close>

definition CheckUpdate :: "(string \<Rightarrow> (nat \<times> string \<times> json option) option) \<Rightarrow> string \<Rightarrow> string \<Rightarrow> string \<Rightarrow> release option" where
  "CheckUpdate get owner repo version =
     (case Latest get owner repo of
        Inl e \<Rightarrow> None
      | Inr rel \<Rightarrow> if \<not> IsNewer version (rl_version rel) then None else Some rel)"

section \<open>Languages\<close>

datatype lang = EN | KO

record tray_text =
  tt_show :: string
  tt_showTip :: string
  tt_stopHosting :: string
  tt_stopHostTip :: string
  tt_quit :: string
  tt_quitTip :: string
  tt_tooltip :: string
  tt_idle :: string
  tt_joinedPrefix :: string
  tt_hostingPrefix :: string
  tt_disconnected :: string
  tt_connected :: string
  tt_leave :: string
  tt_join :: string

fun trayStrings :: "lang \<Rightarrow> tray_text" where
  "trayStrings EN = \<lparr>tt_show = ''Show'',
     tt_showTip = ''Show the zwan window'',
     tt_stopHosting = ''Stop hosting'',
     tt_stopHostTip = ''Stop the network this machine hosts'',
     tt_quit = ''Quit'',
     tt_quitTip = ''Quit zwan'',
     tt_tooltip = ''zwan overlay network'',
     tt_idle = ''zwan '' @ [CHR 0xE2, CHR 0x80, CHR 0x94] @ '' idle'',
     tt_joinedPrefix = ''joined '',
     tt_hostingPrefix = ''hosting '',
     tt_disconnected = ''disconnected'',
     tt_connected = ''connected'',
     tt_leave = ''Leave '',
     tt_join = ''Join ''\<rparr>"
| "trayStrings KO = \<lparr>tt_show = [CHR 0xEC, CHR 0xB0, CHR 0xBD] @ '' '' @ [CHR 0xEC, CHR 0x97, CHR 0xB4, CHR 0xEA, CHR 0xB8, CHR 0xB0],
     tt_showTip = ''zwan '' @ [CHR 0xEC, CHR 0xB0, CHR 0xBD, CHR 0xEC, CHR 0x9D, CHR 0x84] @ '' '' @ [CHR 0xEC, CHR 0x97, CHR 0xBD, CHR 0xEB, CHR 0x8B, CHR 0x88, CHR 0xEB, CHR 0x8B, CHR 0xA4],
     tt_stopHosting = [CHR 0xED, CHR 0x98, CHR 0xB8, CHR 0xEC, CHR 0x8A, CHR 0xA4, CHR 0xED, CHR 0x8C, CHR 0x85] @ '' '' @ [CHR 0xEC, CHR 0xA4, CHR 0x91, CHR 0xEC, CHR 0xA7, CHR 0x80],
     tt_stopHostTip = [CHR 0xEC, CHR 0x9D, CHR 0xB4] @ '' '' @ [CHR 0xEA, CHR 0xB8, CHR 0xB0, CHR 0xEA, CHR 0xB8, CHR 0xB0, CHR 0xEA, CHR 0xB0, CHR 0x80] @ '' '' @ [CHR 0xED, CHR 0x98, CHR 0xB8, CHR 0xEC, CHR 0x8A, CHR 0xA4, CHR 0xED, CHR 0x8C, CHR 0x85] @ '' '' @ [CHR 0xEC, CHR 0xA4, CHR 0x91, CHR 0xEC, CHR 0x9D, CHR 0xB8] @ '' '' @ [CHR 0xEB, CHR 0x84, CHR 0xA4, CHR 0xED, CHR 0x8A, CHR 0xB8, CHR 0xEC, CHR 0x9B, CHR 0x8C, CHR 0xED, CHR 0x81, CHR 0xAC, CHR 0xEB, CHR 0xA5, CHR 0xBC] @ '' '' @ [CHR 0xEB, CHR 0xA9, CHR 0x88, CHR 0xEC, CHR 0xB6, CHR 0xA5, CHR 0xEB, CHR 0x8B, CHR 0x88, CHR 0xEB, CHR 0x8B, CHR 0xA4],
     tt_quit = [CHR 0xEC, CHR 0xA2, CHR 0x85, CHR 0xEB, CHR 0xA3, CHR 0x8C],
     tt_quitTip = ''zwan '' @ [CHR 0xEC, CHR 0xA2, CHR 0x85, CHR 0xEB, CHR 0xA3, CHR 0x8C],
     tt_tooltip = ''zwan '' @ [CHR 0xEC, CHR 0x98, CHR 0xA4, CHR 0xEB, CHR 0xB2, CHR 0x84, CHR 0xEB, CHR 0xA0, CHR 0x88, CHR 0xEC, CHR 0x9D, CHR 0xB4] @ '' '' @ [CHR 0xEB, CHR 0x84, CHR 0xA4, CHR 0xED, CHR 0x8A, CHR 0xB8, CHR 0xEC, CHR 0x9B, CHR 0x8C, CHR 0xED, CHR 0x81, CHR 0xAC],
     tt_idle = ''zwan '' @ [CHR 0xE2, CHR 0x80, CHR 0x94] @ '' '' @ [CHR 0xEB, CHR 0x8C, CHR 0x80, CHR 0xEA, CHR 0xB8, CHR 0xB0] @ '' '' @ [CHR 0xEC, CHR 0xA4, CHR 0x91],
     tt_joinedPrefix = [CHR 0xEA, CHR 0xB0, CHR 0x80, CHR 0xEC, CHR 0x9E, CHR 0x85] @ '': '',
     tt_hostingPrefix = [CHR 0xED, CHR 0x98, CHR 0xB8, CHR 0xEC, CHR 0x8A, CHR 0xA4, CHR 0xED, CHR 0x8C, CHR 0x85] @ '': '',
     tt_disconnected = [CHR 0xEC, CHR 0x97, CHR 0xB0, CHR 0xEA, CHR 0xB2, CHR 0xB0] @ '' '' @ [CHR 0xEC, CHR 0x95, CHR 0x88] @ '' '' @ [CHR 0xEB, CHR 0x90, CHR 0xA8],
     tt_connected = [CHR 0xEC, CHR 0x97, CHR 0xB0, CHR 0xEA, CHR 0xB2, CHR 0xB0, CHR 0xEB, CHR 0x90, CHR 0xA8],
     tt_leave = [CHR 0xEB, CHR 0x82, CHR 0x98, CHR 0xEA, CHR 0xB0, CHR 0x80, CHR 0xEA, CHR 0xB8, CHR 0xB0] @ '': '',
     tt_join = [CHR 0xEA, CHR 0xB0, CHR 0x80, CHR 0xEC, CHR 0x9E, CHR 0x85] @ '': ''\<rparr>"

definition lang_of :: "string \<Rightarrow> lang" where
  "lang_of code = (if has_prefix (to_lower code) ''ko'' then KO else EN)"

text \<open>The entries of the menu that are titled once, and the tray with the functions to call on a change.\<close>

record fixed_items =
  fi_show :: string
  fi_showTip :: string
  fi_stopHost :: string
  fi_stopHostTip :: string
  fi_quit :: string
  fi_quitTip :: string

definition fixed_of :: "tray_text \<Rightarrow> fixed_items" where
  "fixed_of tx = \<lparr>fi_show = tt_show tx, fi_showTip = tt_showTip tx, fi_stopHost = tt_stopHosting tx, fi_stopHostTip = tt_stopHostTip tx,
     fi_quit = tt_quit tx, fi_quitTip = tt_quitTip tx\<rparr>"

definition retitle :: "tray_text \<Rightarrow> fixed_items \<Rightarrow> fixed_items" where
  "retitle tx it = it\<lparr>fi_show := tt_show tx, fi_showTip := tt_showTip tx, fi_stopHost := tt_stopHosting tx,
     fi_stopHostTip := tt_stopHostTip tx, fi_quit := tt_quit tx, fi_quitTip := tt_quitTip tx\<rparr>"

record tray =
  tr_current :: lang
  tr_onChange :: "(tray_text \<Rightarrow> fixed_items \<Rightarrow> fixed_items) list"
  tr_items :: fixed_items

definition tray_text_now :: "tray \<Rightarrow> tray_text" where
  "tray_text_now t = trayStrings (tr_current t)"

definition SetLanguage :: "string \<Rightarrow> tray \<Rightarrow> tray" where
  "SetLanguage code t =
     (let nxt = lang_of code in
      if nxt = tr_current t then t
      else (let t' = t\<lparr>tr_current := nxt\<rparr> in
            t'\<lparr>tr_items := fold (\<lambda>fn. fn (tray_text_now t')) (tr_onChange t) (tr_items t')\<rparr>))"

definition onLanguageChange :: "(tray_text \<Rightarrow> fixed_items \<Rightarrow> fixed_items) \<Rightarrow> tray \<Rightarrow> tray" where
  "onLanguageChange fn t = t\<lparr>tr_onChange := tr_onChange t @ [fn]\<rparr>"

definition initLanguage :: "string \<Rightarrow> tray \<Rightarrow> tray" where
  "initLanguage system t = (if has_prefix (to_lower system) ''ko'' then t\<lparr>tr_current := KO\<rparr> else t)"

text \<open>The language of the environment, where the system is not Windows.\<close>

fun systemLanguage :: "(string \<Rightarrow> string) \<Rightarrow> string list \<Rightarrow> string" where
  "systemLanguage getenv [] = []"
| "systemLanguage getenv (key # keys) = (if getenv key \<noteq> [] then getenv key else systemLanguage getenv keys)"

text \<open>The two steps of \<open>startTray\<close> that a change of language can come between.\<close>

definition build_menu :: "tray \<Rightarrow> tray" where
  "build_menu t = t\<lparr>tr_items := fixed_of (tray_text_now t)\<rparr>"

definition hook_menu :: "tray \<Rightarrow> tray" where
  "hook_menu t = onLanguageChange retitle t"

section \<open>The networks in the tray\<close>

definition traySlots :: nat where
  "traySlots = 8"

record slot =
  sl_title :: string
  sl_tip :: string
  sl_checked :: bool
  sl_shown :: bool

record network_slots =
  ns_items :: "slot list"
  ns_bound :: "status list"

definition new_slots :: network_slots where
  "new_slots = \<lparr>ns_items = replicate traySlots \<lparr>sl_title = [], sl_tip = [], sl_checked = False, sl_shown = False\<rparr>, ns_bound = []\<rparr>"

definition dash :: string where
  "dash = '' '' @ [CHR 0xE2, CHR 0x80, CHR 0x94] @ '' ''"

definition clickHint :: "tray_text \<Rightarrow> status \<Rightarrow> string" where
  "clickHint tx st = (if es_Connected (ss_engine st) then tt_leave tx @ jn_alias (ss_network st) else tt_join tx @ jn_alias (ss_network st))"

definition slot_label :: "tray_text \<Rightarrow> status \<Rightarrow> string" where
  "slot_label tx st =
     (if es_Connected (ss_engine st) then
        (if es_AssignedIP (ss_engine st) = [] then tt_connected tx else es_AssignedIP (ss_engine st))
      else tt_disconnected tx)"

definition set_slot :: "tray_text \<Rightarrow> status list \<Rightarrow> nat \<times> slot \<Rightarrow> slot" where
  "set_slot tx ss x =
     (case x of (i, item) \<Rightarrow>
       if i \<ge> length ss then item\<lparr>sl_shown := False\<rparr>
       else (let st = ss ! i in
             item\<lparr>sl_title := jn_alias (ss_network st) @ dash @ slot_label tx st, sl_tip := clickHint tx st,
                  sl_checked := es_Connected (ss_engine st), sl_shown := True\<rparr>))"

definition slots_set :: "tray_text \<Rightarrow> status list \<Rightarrow> network_slots \<Rightarrow> network_slots" where
  "slots_set tx ss s = s\<lparr>ns_bound := ss, ns_items := map (set_slot tx ss) (enumerate 0 (ns_items s))\<rparr>"

text \<open>What a click on the entry \<open>i\<close> asks the engine's service for.\<close>

definition slot_click :: "nat \<Rightarrow> network_slots \<Rightarrow> eng_request option" where
  "slot_click i s =
     (if i < length (ns_bound s) then
        (let st = ns_bound s ! i in
         if jn_alias (ss_network st) = [] then None
         else if es_Connected (ss_engine st) then Some (disconnect_request (jn_alias (ss_network st)))
         else Some (connect_request (ss_network st)))
      else None)"

definition tray_tooltip :: "tray_text \<Rightarrow> string list \<Rightarrow> string \<Rightarrow> string" where
  "tray_tooltip tx joined hosting =
     (let parts = (if joined \<noteq> [] then [tt_joinedPrefix tx @ join_with '', '' joined] else []) @ (if hosting \<noteq> [] then [hosting] else []) in
      if parts = [] then tt_idle tx else ''zwan'' @ dash @ join_with ''; '' parts)"

text \<open>One turn of \<open>trackState\<close>: the slots, whether hosting can be stopped, and the tooltip.\<close>

definition track_tick :: "tray_text \<Rightarrow> status list option \<Rightarrow> host_view \<Rightarrow> network_slots \<Rightarrow> network_slots \<times> bool \<times> string" where
  "track_tick tx answer host s =
     (let nets = (case answer of None \<Rightarrow> [] | Some ss \<Rightarrow> ss);
          joined = map (\<lambda>n. jn_alias (ss_network n)) (filter (\<lambda>n. es_Connected (ss_engine n)) nets);
          hosting = (if st_Running (hv_state host) then tt_hostingPrefix tx @ sc_NetworkID (st_Config (hv_state host)) else []) in
      (slots_set tx nets s, st_Running (hv_state host), tray_tooltip tx joined hosting))"

section \<open>Where a network is hosted\<close>

text \<open>The pipe of the control server's service, there or not.\<close>

definition service_pipe :: "sup_env \<Rightarrow> member order \<Rightarrow> store_service order \<Rightarrow> sup_request \<Rightarrow> supervisor option \<Rightarrow>
    sup_response option \<times> supervisor option" where
  "service_pipe e iterM iterS rq v =
     (case v of
        None \<Rightarrow> (None, None)
      | Some s \<Rightarrow> (case sup_dispatch e iterM iterS rq s of (r, s') \<Rightarrow> (Some r, Some s')))"

abbreviation hosts :: "supervisor \<Rightarrow> bool" where
  "hosts s \<equiv> Running (fst (sp_mac s))"

abbreviation sound :: "supervisor \<Rightarrow> bool" where
  "sound s \<equiv> machine_ok (sp_mac s)"

lemma pipe_status [simp]: "service_pipe e iterM iterS sup_status (Some s) =
    (Some \<lparr>rs_OK = True, rs_Error = None, rs_State = Some (sup_State iterM iterS s)\<rparr>, Some s)"
  by (simp add: service_pipe_def sup_dispatch_def request_act_def request_answer_def sup_status_def)

lemma pipe_up [simp]: "ServerServiceUp (service_pipe e iterM iterS) v = (v \<noteq> None, v)"
proof (cases v)
  case None
  then show ?thesis by (simp add: ServerServiceUp_def service_pipe_def)
next
  case (Some s)
  then show ?thesis unfolding ServerServiceUp_def Some pipe_status by simp
qed

lemma Start_there:
  "HostStart e fresh (service_pipe e' iterM iterS) c (a, Some s) =
     (case sup_Start e' c s of (err, s') \<Rightarrow> (map_option (\<lambda>x. Told (Inl (Some (NotStarted x)))) err, a, Some s'))"
  by (simp add: HostStart_def service_pipe_def sup_dispatch_def request_act_def request_answer_def split: prod.split option.split)

lemma Start_here:
  "HostStart e fresh (service_pipe e' iterM iterS) c (a, None) =
     (case sup_Start e c (local_sup fresh a) of (err, s') \<Rightarrow> (map_option (\<lambda>x. Told (Inr x)) err, Some s', None))"
  by (simp add: HostStart_def split: prod.split)

lemma Stop_there: "HostStop e fresh (service_pipe e' iterM iterS) (a, Some s) = (None, a, Some (sup_Stop e' s))"
  by (simp add: HostStop_def service_pipe_def sup_dispatch_def request_act_def request_answer_def)

lemma Stop_here: "HostStop e fresh (service_pipe e' iterM iterS) (a, None) = (None, Some (sup_Stop e (local_sup fresh a)), None)"
  by (simp add: HostStop_def)

lemma Status_there: "HostStatus iterM iterS fresh (service_pipe e' iterM iterS) (a, Some s) = (hostState (sup_State iterM iterS s) True, a, Some s)"
  by (simp add: HostStatus_def)

lemma Status_here: "HostStatus iterM iterS fresh (service_pipe e' iterM iterS) (a, None) =
    (hostState (sup_State iterM iterS (local_sup fresh a)) False, Some (local_sup fresh a), None)"
  by (simp add: HostStatus_def)

lemma State_facts: "st_Running (sup_State iterM iterS s) = hosts s" "st_Config (sup_State iterM iterS s) = sp_cfg s"
  by (simp_all add: sup_State_def Let_def)

text \<open>C35: A network is hosted by the server's service when there is one, and by the program itself when there is none. A start
  that gives no error is seen as running with the settings given, with the right owner named, and the stop that
  follows stops it; the side that was not asked stays as it is. But the side is chosen anew for every call: when the service comes up
  after the program has started hosting, its network is neither shown nor stopped any more, and goes on running.
\<close>

theorem hosting_goes_where_the_service_is:
  fixes c :: srv_config and a v :: "supervisor option"
  assumes "sound (local_sup fresh a)" and "\<forall>s. v = Some s \<longrightarrow> sound s"
    and "HostStart e fresh (service_pipe e' iterM iterS) c (a, v) = (None, a', v')"
  shows "(\<forall>view a'' v''. HostStatus iterM iterS fresh (service_pipe e' iterM iterS) (a', v') = (view, a'', v'') \<longrightarrow>
       st_Running (hv_state view) \<and> st_Config (hv_state view) = c\<lparr>sc_AutoStart := True\<rparr> \<and>
       (hv_ManagedByService view \<longleftrightarrow> v \<noteq> None) \<and> a'' = a' \<and> v'' = v') \<and>
    (\<forall>r a'' v''. HostStop e fresh (service_pipe e' iterM iterS) (a', v') = (r, a'', v'') \<longrightarrow>
       r = None \<and> (v = None \<longrightarrow> v'' = None \<and> (\<exists>s. a'' = Some s \<and> \<not> hosts s)) \<and>
       (v \<noteq> None \<longrightarrow> a'' = a \<and> (\<exists>s. v'' = Some s \<and> \<not> hosts s))) \<and>
    (v \<noteq> None \<longrightarrow> a' = a) \<and>
    (v = None \<longrightarrow> v' = None \<and> (\<exists>s. a' = Some s \<and> hosts s) \<and>
       (\<forall>late. HostStop e fresh (service_pipe e' iterM iterS) (a', Some late) = (None, a', Some (sup_Stop e' late)) \<and>
          HostStatus iterM iterS fresh (service_pipe e' iterM iterS) (a', Some late) = (hostState (sup_State iterM iterS late) True, a', Some late)))"
proof (cases v)
  case (Some s)
  obtain err s' where st: "sup_Start e' c s = (err, s')" by fastforce
  have r: "err = None" "a' = a" "v' = Some s'" using assms(3) unfolding Some Start_there st by simp_all
  have ok: "hosts s' \<and> sp_cfg s' = c\<lparr>sc_AutoStart := True\<rparr>" using pipe.start_ok[of s e' c s'] assms(2) Some st r(1) by simp
  have "sound s'" using sup_Start_machine_ok[of s e' c] assms(2) Some st by simp
  then have "\<not> hosts (sup_Stop e' s')" using pipe.stop_good[of s' e'] by simp
  then show ?thesis using ok r(2) unfolding r(3) Some Status_there Stop_there by (simp add: hostState_def State_facts)
next
  case None
  obtain err s' where st: "sup_Start e c (local_sup fresh a) = (err, s')" by fastforce
  have r: "err = None" "a' = Some s'" "v' = None" using assms(3) unfolding None Start_here st by simp_all
  have ok: "hosts s' \<and> sp_cfg s' = c\<lparr>sc_AutoStart := True\<rparr>" using pipe.start_ok[of "local_sup fresh a" e c s'] assms(1) st r(1) by simp
  have "sound s'" using sup_Start_machine_ok[OF assms(1), of e c] st by simp
  then have "\<not> hosts (sup_Stop e s')" using pipe.stop_good[of s' e] by simp
  then show ?thesis using ok unfolding r(2,3) None Status_here Stop_here Status_there Stop_there
    by (simp add: hostState_def State_facts local_sup_def)
qed

section \<open>Rules typed in the window\<close>

definition acl_blank :: "string \<Rightarrow> bool" where
  "acl_blank l \<longleftrightarrow> trim_space l = [] \<or> has_prefix (trim_space l) ''#''"

lemma acl_step:
  "acl_lines i (l # ls) rules =
     (if acl_blank l then acl_lines (i + 1) ls rules
      else (case ParseRule (trim_space l) of Inl err \<Rightarrow> Inl (i + 1, err) | Inr r \<Rightarrow> acl_lines (i + 1) ls (rules @ [r])))"
  by (simp add: acl_blank_def)

lemma acl_lines_ok:
  "acl_lines i ls rules = Inr rs \<longleftrightarrow>
     (\<exists>ps. map (\<lambda>l. ParseRule (trim_space l)) (filter (\<lambda>l. \<not> acl_blank l) ls) = map Inr ps \<and> rs = rules @ ps)"
proof (induction ls arbitrary: i rules)
  case (Cons l ls)
  show ?case
  proof (cases "acl_blank l")
    case True
    then show ?thesis using Cons.IH by (simp add: acl_step del: acl_lines.simps)
  next
    case False
    then show ?thesis using Cons.IH
      by (cases "ParseRule (trim_space l)") (auto simp: acl_step Cons_eq_map_conv simp del: acl_lines.simps)
  qed
qed auto

lemma acl_lines_error:
  "acl_lines i ls rules = Inl (k, err) \<longleftrightarrow>
     (\<exists>n < length ls. k = i + n + 1 \<and> \<not> acl_blank (ls ! n) \<and> ParseRule (trim_space (ls ! n)) = Inl err \<and>
        (\<forall>m < n. acl_blank (ls ! m) \<or> \<not> isl (ParseRule (trim_space (ls ! m)))))"
proof (induction ls arbitrary: i rules)
  case (Cons l ls)
  let ?rhs = "\<lambda>i ls. \<exists>n < length ls. k = i + n + 1 \<and> \<not> acl_blank (ls ! n) \<and> ParseRule (trim_space (ls ! n)) = Inl err \<and>
        (\<forall>m < n. acl_blank (ls ! m) \<or> \<not> isl (ParseRule (trim_space (ls ! m))))"
  have rhs: "?rhs i (l # ls) \<longleftrightarrow> k = i + 1 \<and> \<not> acl_blank l \<and> ParseRule (trim_space l) = Inl err \<or>
      (acl_blank l \<or> \<not> isl (ParseRule (trim_space l))) \<and> ?rhs (i + 1) ls"
    unfolding length_Cons Ex_less_Suc2 nth_Cons_0 nth_Cons_Suc All_less_Suc2 by auto
  show ?case
  proof (cases "acl_blank l")
    case True
    then show ?thesis using Cons.IH[of "i + 1" rules] unfolding rhs acl_step by simp
  next
    case False
    then show ?thesis using Cons.IH[of "i + 1"] unfolding rhs acl_step by (cases "ParseRule (trim_space l)") auto
  qed
qed simp

text \<open>The rules typed in the window are those the server's parser reads: the result is the rules of the lines in their order,
  blank lines and comments left out; if a line is not a rule, nothing is returned, and the error is that of the first such
  line, with its number counted from one.
\<close>

theorem typed_rules_are_the_servers:
  "(ParseACL text = Inr rs \<longleftrightarrow>
      map (\<lambda>l. ParseRule (trim_space l)) (filter (\<lambda>l. \<not> acl_blank l) (split_on CHR 0x0A text)) = map Inr rs) \<and>
   (ParseACL text = Inl (k, err) \<longleftrightarrow>
      (\<exists>n < length (split_on CHR 0x0A text). let ls = split_on CHR 0x0A text in
         k = n + 1 \<and> \<not> acl_blank (ls ! n) \<and> ParseRule (trim_space (ls ! n)) = Inl err \<and>
         (\<forall>m < n. acl_blank (ls ! m) \<or> \<not> isl (ParseRule (trim_space (ls ! m))))))"
  unfolding ParseACL_def acl_lines_ok acl_lines_error Let_def by auto

section \<open>The tray\<close>

lemma length_slots [simp]: "length (ns_items (slots_set tx ss s)) = length (ns_items s)"
  by (simp add: slots_set_def)

lemma nth_slots: "i < length (ns_items s) \<Longrightarrow> ns_items (slots_set tx ss s) ! i = set_slot tx ss (i, ns_items s ! i)"
  by (simp add: slots_set_def nth_enumerate_eq)

text \<open>A menu entry does what it says. After the menu is brought up to date with the list of the networks, the first eight
  networks have an entry each and the other entries are hidden and do nothing. An entry that is ticked says it
  leaves its network, and a click on it that is carried out takes that network, and no other, down; one that is not
  ticked says it joins, and a click that succeeds brings its network up with the settings it is known by.
\<close>

theorem menu_entries_do_what_they_say:
  fixes tx :: tray_text
  assumes "length (ns_items s0) = traySlots" and "ss = Statuses st (wo_mgr w)" and "i < traySlots"
  defines "s \<equiv> slots_set tx ss s0"
  shows "(length ss \<le> i \<longrightarrow> \<not> sl_shown (ns_items s ! i) \<and> slot_click i s = None) \<and>
    (i < length ss \<and> jn_alias (ss_network (ss ! i)) \<noteq> [] \<longrightarrow>
       (let n = ss_network (ss ! i); item = ns_items s ! i in
        sl_shown item \<and> has_prefix (sl_title item) (jn_alias n @ dash) \<and> n \<in> set (mg_saved (wo_mgr w)) \<and>
        (if sl_checked item
         then sl_tip item = tt_leave tx @ jn_alias n \<and> slot_click i s = Some (disconnect_request (jn_alias n)) \<and>
           (\<forall>e err w'. eng_act e (disconnect_request (jn_alias n)) w = Some (err, w') \<longrightarrow>
              up_nets w' = up_nets w - {net_name n} \<and> known w' = known w)
         else sl_tip item = tt_join tx @ jn_alias n \<and> slot_click i s = Some (connect_request n) \<and>
           (\<forall>e w'. eng_act e (connect_request n) w = Some (None, w') \<longrightarrow>
              up_nets w' = insert (net_name n) (up_nets w) \<and> known w' = insert (net_name n) (known w)))))"
proof (intro conjI impI)
  assume "length ss \<le> i"
  moreover have "ns_items s ! i = set_slot tx ss (i, ns_items s0 ! i)" using assms(1,3) by (simp add: s_def nth_slots)
  ultimately show "\<not> sl_shown (ns_items s ! i)" "slot_click i s = None"
    by (simp_all add: set_slot_def slot_click_def) (simp add: s_def slots_set_def)
next
  assume i: "i < length ss \<and> jn_alias (ss_network (ss ! i)) \<noteq> []"
  let ?n = "ss_network (ss ! i)"
  have "ss ! i \<in> set (Statuses st (wo_mgr w))" using i assms(2) by simp
  then have saved: "?n \<in> set (mg_saved (wo_mgr w))" using shown_of by blast
  have item: "ns_items s ! i = set_slot tx ss (i, ns_items s0 ! i)" using assms(1,3) by (simp add: s_def nth_slots)
  have title: "has_prefix (sl_title (ns_items s ! i)) (jn_alias ?n @ dash)"
    unfolding item using i by (simp add: set_slot_def Let_def has_prefix_iff)
  have click: "slot_click i s = Some (if es_Connected (ss_engine (ss ! i)) then disconnect_request (jn_alias ?n) else connect_request ?n)"
    using i by (simp add: slot_click_def s_def slots_set_def Let_def)
  have off: "up_nets w' = up_nets w - {net_name ?n} \<and> known w' = known w"
    if a: "eng_act e (disconnect_request (jn_alias ?n)) w = Some (err, w')" for e err w'
  proof -
    obtain r where "manager_Disconnect e (jn_alias ?n) w = (r, w')" using a by (auto simp: eng_act_def disconnect_request_def split: prod.splits)
    then show ?thesis using device.disconnect_up[of e "jn_alias ?n" w] device.disconnect_listed[of e "jn_alias ?n" w] by (simp add: net_name_def)
  qed
  have on: "up_nets w' = insert (net_name ?n) (up_nets w) \<and> known w' = insert (net_name ?n) (known w)"
    if a: "eng_act e (connect_request ?n) w = Some (None, w')" for e w'
  proof -
    have "manager_Connect e ?n w = Some (None, w')" using a by (auto simp: eng_act_def connect_request_def)
    then show ?thesis by (rule device.connect_ok)
  qed
  show "let n = ?n; item = ns_items s ! i in
        sl_shown item \<and> has_prefix (sl_title item) (jn_alias n @ dash) \<and> n \<in> set (mg_saved (wo_mgr w)) \<and>
        (if sl_checked item
         then sl_tip item = tt_leave tx @ jn_alias n \<and> slot_click i s = Some (disconnect_request (jn_alias n)) \<and>
           (\<forall>e err w'. eng_act e (disconnect_request (jn_alias n)) w = Some (err, w') \<longrightarrow>
              up_nets w' = up_nets w - {net_name n} \<and> known w' = known w)
         else sl_tip item = tt_join tx @ jn_alias n \<and> slot_click i s = Some (connect_request n) \<and>
           (\<forall>e w'. eng_act e (connect_request n) w = Some (None, w') \<longrightarrow>
              up_nets w' = insert (net_name n) (up_nets w) \<and> known w' = insert (net_name n) (known w)))"
    unfolding Let_def using title click saved off on i unfolding item by (simp add: set_slot_def clickHint_def Let_def)
qed

section \<open>The language of the tray\<close>

lemma retitle_fixed: "retitle tx it = fixed_of tx"
  by (cases it) (simp add: retitle_def fixed_of_def)

lemma SetLanguage_hooks [simp]: "tr_onChange (SetLanguage code t) = tr_onChange t"
  by (simp add: SetLanguage_def Let_def)

lemma SetLanguage_current: "tr_current (SetLanguage code t) = lang_of code"
  by (simp add: SetLanguage_def Let_def)

lemma SetLanguage_items:
  "tr_onChange t = [retitle] \<Longrightarrow> tr_items (SetLanguage code t) =
     (if lang_of code = tr_current t then tr_items t else fixed_of (trayStrings (lang_of code)))"
  by (simp add: SetLanguage_def retitle_fixed tray_text_now_def Let_def)

lemma languages_followed:
  "tr_onChange t = [retitle] \<Longrightarrow> tr_items t = fixed_of (tray_text_now t) \<Longrightarrow>
     tr_items (fold SetLanguage codes t) = fixed_of (tray_text_now (fold SetLanguage codes t))"
proof (induction codes arbitrary: t)
  case (Cons code codes)
  have "tr_items (SetLanguage code t) = fixed_of (tray_text_now (SetLanguage code t))"
    using Cons.prems by (simp add: SetLanguage_items SetLanguage_current tray_text_now_def)
  then show ?case using Cons by simp
qed simp

lemma texts_differ: "fixed_of (trayStrings EN) \<noteq> fixed_of (trayStrings KO)"
  by code_simp

lemma unhooked: "tr_onChange t = [] \<Longrightarrow> tr_items (fold SetLanguage codes t) = tr_items t \<and> tr_onChange (fold SetLanguage codes t) = []"
  by (induction codes arbitrary: t) (simp_all add: SetLanguage_def Let_def)

text \<open>The menu speaks the language in force. When the language is the same when the function that retitles the menu is registered
  as when the menu was built, the titles are those of the language in force ever after, whatever languages are chosen.
  A change between the two is missed: the menu then stays in the other language, through every request for the language
  in force, until the language is changed again.
\<close>

theorem menu_speaks_the_language_in_force:
  fixes early codes :: "string list"
  assumes "tr_onChange t = []"
  defines "u \<equiv> hook_menu (fold SetLanguage early (build_menu t))"
  shows "tr_current u = (if early = [] then tr_current t else lang_of (last early)) \<and>
    (tr_current u = tr_current t \<longrightarrow> tr_items (fold SetLanguage codes u) = fixed_of (tray_text_now (fold SetLanguage codes u))) \<and>
    (tr_current u \<noteq> tr_current t \<longrightarrow>
       ((\<forall>c \<in> set codes. lang_of c = tr_current u) \<longrightarrow>
          fold SetLanguage codes u = u \<and> tr_items u \<noteq> fixed_of (tray_text_now u)) \<and>
       (\<forall>c \<in> set codes. lang_of c \<noteq> tr_current u \<longrightarrow>
          (\<forall>codes'. tr_items (fold SetLanguage codes' (SetLanguage c u)) = fixed_of (tray_text_now (fold SetLanguage codes' (SetLanguage c u))))))"
proof -
  let ?b = "build_menu t"
  have b: "tr_onChange ?b = []" "tr_items ?b = fixed_of (trayStrings (tr_current t))" "tr_current ?b = tr_current t"
    using assms(1) by (simp_all add: build_menu_def tray_text_now_def)
  have u: "tr_onChange u = [retitle]" "tr_items u = fixed_of (trayStrings (tr_current t))" "tr_current u = tr_current (fold SetLanguage early ?b)"
    using unhooked[OF b(1), of early] b(2) by (simp_all add: u_def hook_menu_def onLanguageChange_def)
  have cur: "tr_current (fold SetLanguage cs x) = (if cs = [] then tr_current x else lang_of (last cs))" for cs x
    by (induction cs arbitrary: x) (simp_all add: SetLanguage_current)
  have same: "fold SetLanguage cs u = u" if "\<forall>c \<in> set cs. lang_of c = tr_current u" for cs
    using that by (induction cs) (simp_all add: SetLanguage_def Let_def)
  have stale: "tr_items u \<noteq> fixed_of (tray_text_now u)" if "tr_current u \<noteq> tr_current t"
    using that texts_differ texts_differ[symmetric] unfolding u(2) tray_text_now_def by (cases "tr_current u"; cases "tr_current t") simp_all
  have fresh: "tr_items (fold SetLanguage cs (SetLanguage c u)) = fixed_of (tray_text_now (fold SetLanguage cs (SetLanguage c u)))"
    if "lang_of c \<noteq> tr_current u" for c cs
    by (rule languages_followed) (use that u(1) in \<open>simp_all add: SetLanguage_items SetLanguage_current tray_text_now_def\<close>)
  have good: "tr_items (fold SetLanguage codes u) = fixed_of (tray_text_now (fold SetLanguage codes u))" if "tr_current u = tr_current t"
    by (rule languages_followed) (use that u in \<open>simp_all add: tray_text_now_def\<close>)
  show ?thesis using cur[of early ?b] u(3) b(3) same stale fresh good by simp
qed

section \<open>Witnesses\<close>

theorem hosting_witness:
  "\<exists>s. HostStart demo_sup_env demo_supervisor (service_pipe demo_sup_env (\<lambda>xs. xs) (\<lambda>xs. xs)) demo_srv_config (None, None) = (None, Some s, None) \<and>
     hosts s \<and> HostStop demo_sup_env demo_supervisor (service_pipe demo_sup_env (\<lambda>xs. xs) (\<lambda>xs. xs)) (Some s, Some demo_supervisor) =
       (None, Some s, Some (sup_Stop demo_sup_env demo_supervisor))"
proof -
  let ?pipe = "service_pipe demo_sup_env (\<lambda>xs. xs) (\<lambda>xs. xs)"
  obtain s where s: "sup_Start demo_sup_env demo_srv_config demo_supervisor = (None, s)" by (rule demo_hosting)
  have st: "HostStart demo_sup_env demo_supervisor ?pipe demo_srv_config (None, None) = (None, Some s, None)"
    by (simp add: Start_here local_sup_def s)
  have ok: "sound (local_sup demo_supervisor None)"
    using New_ok[of True "\<lambda>p. None" NoFile] by (simp add: local_sup_def demo_supervisor_def sup_ok_def)
  have no: "\<forall>s. (None :: supervisor option) = Some s \<longrightarrow> sound s" by simp
  note th = hosting_goes_where_the_service_is[OF ok no st, THEN conjunct2, THEN conjunct2, THEN conjunct2, THEN mp, OF refl]
  have "hosts s" using conjunct1[OF conjunct2[OF th]] by simp
  moreover have "HostStop demo_sup_env demo_supervisor ?pipe (Some s, Some demo_supervisor) = (None, Some s, Some (sup_Stop demo_sup_env demo_supervisor))"
    using conjunct2[OF conjunct2[OF th]] by blast
  ultimately show ?thesis using st by blast
qed

theorem menu_entries_witness:
  "\<exists>w' item. eng_act demo_world_env (connect_request (demo_net ''home'')) (world_New demo_mg_config NoFile) = Some (None, w') \<and>
     slot_click 0 (slots_set (trayStrings EN) (Statuses (\<lambda>k. demo_up) (wo_mgr w')) new_slots) = Some (disconnect_request ''home'') \<and>
     item = ns_items (slots_set (trayStrings EN) (Statuses (\<lambda>k. demo_up) (wo_mgr w')) new_slots) ! 0 \<and> sl_tip item = ''Leave home''"
proof -
  let ?w = "world_New demo_mg_config NoFile" and ?n = "demo_net ''home''"
  obtain w' where w': "eng_act demo_world_env (connect_request ?n) ?w = Some (None, w')" using demo_joined by blast
  then have m: "manager_Connect demo_world_env ?n ?w = Some (None, w')" by (auto simp: eng_act_def connect_request_def)
  let ?ss = "Statuses (\<lambda>k. demo_up) (wo_mgr w')"
  have none: "mg_saved (wo_mgr ?w) = []" by (simp add: world_New_def manager_New_def Let_def)
  have "length (mg_saved (wo_mgr w')) = 1" using m none by (cases rule: Connect_cases) (auto simp: connect_commit_def)
  then have len: "length ?ss = 1" by (simp add: Statuses_def addOverlapWarnings_def Let_def)
  obtain s where "s \<in> set ?ss" "jn_alias (ss_network s) = ''home''" "ss_engine s = demo_up"
    using connect_started[OF m, of "\<lambda>k. demo_up"] demo_home by auto
  then have s: "jn_alias (ss_network (?ss ! 0)) = ''home''" "ss_engine (?ss ! 0) = demo_up"
    using len by (auto simp: in_set_conv_nth)
  let ?s = "slots_set (trayStrings EN) ?ss new_slots"
  have slots: "length (ns_items new_slots) = traySlots" "0 < traySlots" by (simp_all add: new_slots_def traySlots_def)
  note th = menu_entries_do_what_they_say[OF slots(1) refl slots(2), where tx = "trayStrings EN" and st = "\<lambda>k. demo_up" and w = w']
  have "0 < length ?ss \<and> jn_alias (ss_network (?ss ! 0)) \<noteq> []" using len s(1) by simp
  note entry = mp[OF conjunct2[OF th] this, unfolded Let_def]
  have "es_Connected demo_up" by (simp add: demo_up_def)
  then have "sl_checked (ns_items ?s ! 0)" using len s(2) slots by (auto simp: nth_slots set_slot_def Let_def simp del: trayStrings.simps)
  with entry have "sl_tip (ns_items ?s ! 0) = tt_leave (trayStrings EN) @ ''home''" "slot_click 0 ?s = Some (disconnect_request ''home'')"
    unfolding s(1) by simp_all
  then show ?thesis using w' by simp
qed

theorem language_witness:
  "\<exists>t. tr_onChange t = [] \<and> tr_items (fold SetLanguage [''ko-KR'', ''en''] (hook_menu (fold SetLanguage [] (build_menu t)))) = fixed_of (trayStrings EN)"
proof -
  let ?t = "\<lparr>tr_current = EN, tr_onChange = [], tr_items = fixed_of (trayStrings KO)\<rparr>"
  have h: "tr_onChange ?t = []" by simp
  let ?u = "hook_menu (fold SetLanguage [] (build_menu ?t))"
  have c: "tr_current ?u = tr_current ?t" by (simp add: hook_menu_def onLanguageChange_def build_menu_def)
  have l: "lang_of ''en'' = EN" by code_simp
  have "tr_items (fold SetLanguage [''ko-KR'', ''en''] ?u) = fixed_of (tray_text_now (fold SetLanguage [''ko-KR'', ''en''] ?u))"
    using menu_speaks_the_language_in_force[OF h, of "[]" "[''ko-KR'', ''en'']"] c by blast
  moreover have "tray_text_now (fold SetLanguage [''ko-KR'', ''en''] ?u) = trayStrings EN"
    using l by (simp add: tray_text_now_def SetLanguage_current)
  ultimately show ?thesis using h by (intro exI[of _ ?t]) simp
qed

end
