(* ===== verification/TcpCopy.thy ===== *)
theory TcpCopy
  imports L4 Encoding
begin

text \<open>
  A connection the TCP proxy carries (\<open>TCPProxy.handle\<close> of \<open>client/l4/l4.go\<close>): two goroutines that copy one direction each,
  in any interleaving with what the two ends do, and the wait for both. \<open>io.Copy\<close> is its loop of a read of some of
  what has arrived and a write of what was read; a read or a write may fail at any time.
\<close>

section \<open>One direction\<close>

datatype copy_phase = Copying | CopyDone bool

text \<open>
  What the source has sent and whether it has ended its direction; how much was read, the part of it that is
  not yet written; what the sink has got. \<open>CopyDone True\<close> is the end after the end of the source, \<open>CopyDone False\<close>
  the end after an error; either way the sink's direction is ended then (\<open>CloseWrite\<close>).
\<close>

record half =
  hf_sent :: "byte list"
  hf_eof :: bool
  hf_held :: "byte list"
  hf_got :: "byte list"
  hf_phase :: copy_phase

definition half_New :: half where
  "half_New = \<lparr>hf_sent = [], hf_eof = False, hf_held = [], hf_got = [], hf_phase = Copying\<rparr>"

definition unread :: "half \<Rightarrow> byte list" where
  "unread h = drop (length (hf_got h) + length (hf_held h)) (hf_sent h)"

inductive source_step :: "half \<Rightarrow> half \<Rightarrow> bool" where
  src_send: "\<not> hf_eof h \<Longrightarrow> source_step h (h\<lparr>hf_sent := hf_sent h @ bs\<rparr>)"
| src_end: "source_step h (h\<lparr>hf_eof := True\<rparr>)"

inductive copy_step :: "half \<Rightarrow> half \<Rightarrow> bool" where
  copy_read: "hf_phase h = Copying \<Longrightarrow> hf_held h = [] \<Longrightarrow> 0 < n \<Longrightarrow> n \<le> length (unread h) \<Longrightarrow>
    copy_step h (h\<lparr>hf_held := take n (unread h)\<rparr>)"
| copy_write: "hf_phase h = Copying \<Longrightarrow> hf_held h \<noteq> [] \<Longrightarrow> copy_step h (h\<lparr>hf_got := hf_got h @ hf_held h, hf_held := []\<rparr>)"
| read_end: "hf_phase h = Copying \<Longrightarrow> hf_held h = [] \<Longrightarrow> hf_eof h \<Longrightarrow> unread h = [] \<Longrightarrow> copy_step h (h\<lparr>hf_phase := CopyDone True\<rparr>)"
| read_error: "hf_phase h = Copying \<Longrightarrow> hf_held h = [] \<Longrightarrow> copy_step h (h\<lparr>hf_phase := CopyDone False\<rparr>)"
| write_error: "hf_phase h = Copying \<Longrightarrow> hf_held h \<noteq> [] \<Longrightarrow> n < length (hf_held h) \<Longrightarrow>
    copy_step h (h\<lparr>hf_got := hf_got h @ take n (hf_held h), hf_held := [], hf_phase := CopyDone False\<rparr>)"

inductive_cases copy_stepE: "copy_step h h'"
inductive_cases source_stepE: "source_step h h'"

section \<open>The connection\<close>

text \<open>No backend, both directions, or both sockets closed after both copies have ended.\<close>

datatype carried = Refused | Carrying half half | Closed half half

definition carry_handle :: "bool \<Rightarrow> carried" where
  "carry_handle dialled = (if dialled then Carrying half_New half_New else Refused)"

definition half_ended :: "half \<Rightarrow> bool" where
  "half_ended h \<longleftrightarrow> hf_phase h \<noteq> Copying"

inductive carried_step :: "carried \<Rightarrow> carried \<Rightarrow> bool" where
  up_source: "source_step u u' \<Longrightarrow> carried_step (Carrying u d) (Carrying u' d)"
| up_copy: "copy_step u u' \<Longrightarrow> carried_step (Carrying u d) (Carrying u' d)"
| down_source: "source_step d d' \<Longrightarrow> carried_step (Carrying u d) (Carrying u d')"
| down_copy: "copy_step d d' \<Longrightarrow> carried_step (Carrying u d) (Carrying u d')"
| both_ended: "half_ended u \<Longrightarrow> half_ended d \<Longrightarrow> carried_step (Carrying u d) (Closed u d)"

inductive_cases carried_stepE: "carried_step c c'"

section \<open>What arrives is what was sent\<close>

definition half_ok :: "half \<Rightarrow> bool" where
  "half_ok h \<longleftrightarrow> hf_got h @ hf_held h = take (length (hf_got h) + length (hf_held h)) (hf_sent h) \<and>
     length (hf_got h) + length (hf_held h) \<le> length (hf_sent h) \<and>
     (half_ended h \<longrightarrow> hf_held h = []) \<and> (hf_phase h = CopyDone True \<longrightarrow> hf_eof h \<and> hf_got h = hf_sent h)"

lemma half_New_ok: "half_ok half_New"
  by (simp add: half_ok_def half_New_def half_ended_def)

lemma source_step_ok: "source_step h h' \<Longrightarrow> half_ok h \<Longrightarrow> half_ok h'"
  by (induction rule: source_step.induct) (auto simp: half_ok_def half_ended_def)

lemma copy_step_ok: "copy_step h h' \<Longrightarrow> half_ok h \<Longrightarrow> half_ok h'"
proof (induction rule: copy_step.induct)
  case (copy_read h n)
  let ?g = "length (hf_got h)"
  have g: "hf_got h = take ?g (hf_sent h)" "?g \<le> length (hf_sent h)" using copy_read by (simp_all add: half_ok_def)
  have n: "?g + n \<le> length (hf_sent h)" using copy_read by (simp add: unread_def)
  have "hf_got h @ take n (drop ?g (hf_sent h)) = take (?g + n) (hf_sent h)" using g(1) by (metis take_add)
  then show ?case using copy_read n by (simp add: half_ok_def unread_def half_ended_def)
next
  case (write_error h n)
  have "hf_got h @ take n (hf_held h) = take (length (hf_got h) + n) (hf_got h @ hf_held h)" by simp
  also have "\<dots> = take (length (hf_got h) + n) (hf_sent h)" using write_error by (simp add: half_ok_def min_def)
  finally show ?case using write_error by (simp add: half_ok_def half_ended_def)
qed (auto simp: half_ok_def half_ended_def unread_def)

fun carried_ok :: "carried \<Rightarrow> bool" where
  "carried_ok Refused = True"
| "carried_ok (Carrying u d) = (half_ok u \<and> half_ok d)"
| "carried_ok (Closed u d) = (half_ok u \<and> half_ok d \<and> half_ended u \<and> half_ended d)"

interpretation carrying: step_invariant carried_step carried_ok
proof
  show "carried_ok c' " if "carried_ok c" "carried_step c c'" for c c'
    using that(2,1) by (induction rule: carried_step.induct) (auto intro: source_step_ok copy_step_ok)
qed

text \<open>A copy that has something to do can do it; the end of the other direction changes nothing for it.\<close>

lemma copy_progress:
  "hf_phase h = Copying \<Longrightarrow> hf_held h \<noteq> [] \<or> unread h \<noteq> [] \<or> hf_eof h \<Longrightarrow>
     \<exists>h'. copy_step h h' \<and> hf_phase h' \<noteq> CopyDone False"
proof (cases "hf_held h = []")
  case True
  assume c: "hf_phase h = Copying" and "hf_held h \<noteq> [] \<or> unread h \<noteq> [] \<or> hf_eof h"
  then consider "unread h \<noteq> []" | "unread h = []" "hf_eof h" using True by auto
  then show ?thesis
  proof cases
    case 1
    then have "0 < length (unread h)" by simp
    from copy_read[OF c True this] show ?thesis using c by (intro exI conjI) auto
  next
    case 2
    from read_end[OF c True 2(2,1)] show ?thesis by (intro exI conjI) auto
  qed
next
  case False
  assume c: "hf_phase h = Copying"
  from copy_write[OF c False] show ?thesis using c by (intro exI conjI) auto
qed

text \<open>C31: A carried connection delivers what was sent. In every interleaving each end has got a beginning of what the other end
  sent, in order and without anything else; a direction that ended without an error has delivered all of it.
  One direction may end while the other goes on: the sockets are closed only when both have ended, and until
  then a direction with data or an end to pass on can pass it on.
\<close>

theorem carried_connections_deliver_what_was_sent:
  assumes "carried_step\<^sup>*\<^sup>* (carry_handle dialled) c"
  shows "case c of
      Refused \<Rightarrow> \<not> dialled
    | Closed u d \<Rightarrow> dialled \<and> (\<forall>h \<in> {u, d}. \<exists>rest. hf_sent h = hf_got h @ rest \<and> (hf_phase h = CopyDone True \<longrightarrow> rest = []) \<and> half_ended h)
    | Carrying u d \<Rightarrow> dialled \<and>
        (\<forall>h \<in> {u, d}. \<exists>rest. hf_sent h = hf_got h @ rest \<and> (hf_phase h = CopyDone True \<longrightarrow> rest = [])) \<and>
        (hf_phase u = Copying \<and> (hf_held u \<noteq> [] \<or> unread u \<noteq> [] \<or> hf_eof u) \<longrightarrow>
           (\<exists>u'. carried_step c (Carrying u' d) \<and> copy_step u u' \<and> hf_phase u' \<noteq> CopyDone False)) \<and>
        (hf_phase d = Copying \<and> (hf_held d \<noteq> [] \<or> unread d \<noteq> [] \<or> hf_eof d) \<longrightarrow>
           (\<exists>d'. carried_step c (Carrying u d') \<and> copy_step d d' \<and> hf_phase d' \<noteq> CopyDone False)) \<and>
        (\<forall>u' d'. carried_step c (Closed u' d') \<longleftrightarrow> u' = u \<and> d' = d \<and> half_ended u \<and> half_ended d)"
proof -
  have ok: "carried_ok c" using assms by (rule carrying.steps_inv) (simp add: carry_handle_def half_New_ok)
  have dial: "(c = Refused) = (\<not> dialled)"
    using assms by (induction rule: rtranclp_induct) (auto simp: carry_handle_def elim: carried_stepE)
  have got: "\<exists>rest. hf_sent h = hf_got h @ rest \<and> (hf_phase h = CopyDone True \<longrightarrow> rest = [])" if "half_ok h" for h
  proof -
    have "hf_got h = take (length (hf_got h)) (hf_sent h)"
      using that unfolding half_ok_def by (metis append_eq_conv_conj le_add1 min.absorb1 take_take)
    then have "hf_sent h = hf_got h @ drop (length (hf_got h)) (hf_sent h)" by (metis append_take_drop_id)
    moreover have "hf_phase h = CopyDone True \<Longrightarrow> drop (length (hf_got h)) (hf_sent h) = []" using that by (simp add: half_ok_def)
    ultimately show ?thesis by blast
  qed
  show ?thesis
  proof (cases c)
    case (Carrying u d)
    have closes: "\<forall>u' d'. carried_step c (Closed u' d') \<longleftrightarrow> u' = u \<and> d' = d \<and> half_ended u \<and> half_ended d"
      unfolding Carrying by (auto intro: carried_step.intros elim: carried_stepE)
    have "carried_step c (Carrying u' d)" if "copy_step u u'" for u' using that unfolding Carrying by (rule up_copy)
    moreover have "carried_step c (Carrying u d')" if "copy_step d d'" for d' using that unfolding Carrying by (rule down_copy)
    ultimately show ?thesis using ok dial got[of u] got[of d] copy_progress[of u] copy_progress[of d] closes
      unfolding Carrying by auto
  next
    case (Closed u d)
    then show ?thesis using ok dial got[of u] got[of d] by auto
  qed (use dial in simp)
qed

theorem carried_connections_witness:
  "\<exists>u d. carried_step\<^sup>*\<^sup>* (carry_handle True) (Carrying u d) \<and> hf_got u = [1, 2] \<and> hf_phase u = CopyDone True \<and> hf_phase d = Copying \<and>
     (\<exists>rest. hf_sent u = hf_got u @ rest \<and> rest = [])"
proof -
  let ?s = "half_New\<lparr>hf_sent := [1, 2]\<rparr>"
  let ?e = "?s\<lparr>hf_eof := True\<rparr>"
  let ?r = "?e\<lparr>hf_held := [1, 2]\<rparr>"
  let ?w = "?r\<lparr>hf_got := [1, 2], hf_held := []\<rparr>"
  let ?d = "?w\<lparr>hf_phase := CopyDone True\<rparr>"
  have "source_step half_New ?s" using source_step.src_send[of half_New "[1, 2]"] by (simp add: half_New_def)
  moreover have "source_step ?s ?e" by (rule source_step.src_end)
  moreover have "copy_step ?e ?r" using copy_step.copy_read[of ?e 2] by (simp add: half_New_def unread_def)
  moreover have "copy_step ?r ?w" using copy_step.copy_write[of ?r] by (simp add: half_New_def)
  moreover have "copy_step ?w ?d" using copy_step.read_end[of ?w] by (simp add: half_New_def unread_def)
  ultimately have run: "carried_step\<^sup>*\<^sup>* (carry_handle True) (Carrying ?d half_New)"
    unfolding carry_handle_def if_True by (meson carried_step.up_source carried_step.up_copy converse_rtranclp_into_rtranclp rtranclp.rtrancl_refl)
  have "\<exists>rest. hf_sent ?d = hf_got ?d @ rest \<and> (hf_phase ?d = CopyDone True \<longrightarrow> rest = [])"
    using carried_connections_deliver_what_was_sent[OF run] by simp
  then show ?thesis using run by (intro exI[of _ ?d] exI[of _ half_New]) (simp add: half_New_def)
qed

end
