(* ===== verification/Spec2Isabelle.thy ===== *)
theory Spec2Isabelle
  imports ApiTypes Relay Headless Agent Desktop TcpCopy
begin

text \<open>
  zwan (\<open>github.com/Zeliper/zwan\<close>): private overlay networks. A control server admits devices by join tokens, gives each
  an overlay address and tells them of each other; a relay carries tunnel packets between devices that cannot reach each
  other; a device joins any number of networks at once, each with its own adapter, tunnel, translated address range,
  names and services. This development models the Go code under \<open>src/\<close>, one group of definitions per component, in the
  code's order and under its names (a name that HOL already has carries its component: \<open>Ipam.new\<close>, \<open>api_New\<close>, \<open>eng_Start\<close>).

  \<^bold>\<open>How to read it.\<close> A struct is a record, an enumeration a datatype, a fallible function returns a sum with its own error
  datatype, a method takes the receiver and gives it back. Strings are lists of bytes. Addresses, ports of the packet code and
  checksums are words of their width; Go's \<open>int\<close> is \<open>int\<close> or \<open>nat\<close> where the code bounds it. A Go map is an association list
  with distinct keys (\<open>gomap\<close>), and where the code walks one the order is an argument (\<open>reorders\<close>). A section under a
  mutex is one definition; where the lock is given up in between there are several, and a step relation over all their
  interleavings. A panic is a value of its own.

  \<^bold>\<open>Shared ground.\<close>
  \<^item> \<open>Prelude\<close>: words, maps, the interfaces \<open>step_invariant\<close> (what every step keeps, every run keeps) and
    \<open>stable_allocator\<close> (a table that gives each key one value for good, no two the same).
  \<^item> \<open>GoStrings\<close>, \<open>NetAddr\<close>, \<open>Encoding\<close>, \<open>GoUrl\<close>, \<open>Json\<close>: what the code uses of Go's library for strings, addresses, base64
    and hexadecimal, URLs and JSON documents.

  \<^bold>\<open>The control server.\<close>
  \<^item> \<open>Acl\<close> (\<open>shared/acl\<close>): rules between groups, the join tokens, their text. \<open>Ipam\<close> (\<open>server/ipam\<close>): splitting the range into
    addresses of devices and of services, and the cursor that hands them out; an interpretation of \<open>stable_allocator\<close>.
  \<^item> \<open>Store\<close> (\<open>server/store\<close>): members and services; the interface \<open>token_table\<close>. \<open>Proto\<close> (\<open>shared/proto\<close>): the messages
    and their JSON. \<open>Api\<close>, \<open>ApiTypes\<close> (\<open>server/api\<close>): the handlers, with the two locked halves of a registration as separate
    steps, the invariant of every reachable server and the types of its answers.
  \<^item> \<open>Relay\<close> (\<open>server/relay\<close>): the claims and the forwarding of datagrams. \<open>TlsConf\<close>, \<open>Certpin\<close> (\<open>server/tlsconf\<close>,
    \<open>shared/certpin\<close>, \<open>shared/keys\<close>): the key that is pinned and the forms of its pin. \<open>Host\<close> (\<open>server/host\<close>): starting and
    stopping all of these with their sockets, and the link to hand out.
  \<^item> \<open>ServerConfig\<close> (\<open>server/config\<close>, \<open>server/supervisor\<close>, \<open>server/ipc\<close>): the saved settings, the supervisor, the requests
    of the pipe over the interface \<open>network_handler\<close>. \<open>Headless\<close> (\<open>cmd/zwan-server\<close>): flags and updates without a window.

  \<^bold>\<open>The device.\<close>
  \<^item> \<open>JoinClient\<close> (\<open>client/join\<close>): the client's calls, over the interface \<open>control_plane\<close>, which \<open>Api\<close> is shown to be.
  \<^item> \<open>Wg\<close> (\<open>client/wg\<close>): the text of the tunnel's configuration. \<open>Wgbind\<close> (\<open>client/wgbind\<close>): direct and relayed transport, with the
    keepalive goroutine as a step relation; the framing is the relay's (\<open>framing\<close>).
  \<^item> \<open>VipTable\<close>, \<open>Checksum\<close>, \<open>Rewrite\<close>, \<open>VipDevice\<close> (\<open>client/vip\<close>): the table of translated addresses, the rewriting of packets
    with their checksums (and the packets quoted in ICMP errors), the device between the system and the tunnel.
  \<^item> \<open>Resolver\<close>, \<open>Nrpt\<close> (\<open>client/resolver\<close>, \<open>client/nrpt\<close>): the names of the joined networks and the system's policy that
    sends them there. \<open>L4\<close>, \<open>TcpCopy\<close> (\<open>client/l4\<close>): who may use a published service, and what its proxies carry.
  \<^item> \<open>Translate\<close>, \<open>EngineTick\<close>, \<open>EngineSync\<close>, \<open>DeviceName\<close>, \<open>Engine\<close> (\<open>client/engine\<close>): one connection, its refresh and its life.
  \<^item> \<open>Profile\<close> (\<open>client/profile\<close>), \<open>LocalPool\<close>, \<open>Manager\<close>, \<open>ManagerView\<close> (\<open>client/manager\<close>): the known networks, the ports and
    ranges they get, the operations in every interleaving, the list that is shown, the follower of the names.
  \<^item> \<open>ClientIpc\<close> (\<open>client/ipc\<close>): whole calls of the manager, shown to be runs of its sections, and the requests of the pipe over
    the interface \<open>eng_handler\<close>. \<open>Netsh\<close> (\<open>client/tun\<close>, \<open>shared/firewall\<close>): addresses, routes and firewall rules.

  \<^bold>\<open>The programs.\<close> \<open>WinService\<close> (\<open>cmd/zwan-service\<close>, \<open>cmd/zwan-server\<close>): the two Windows services; \<open>Agent\<close> (\<open>cmd/zwan-agent\<close>):
  the command line client; \<open>Desktop\<close> (\<open>gui\<close>): the calls of the window and the tray; \<open>Update\<close> (\<open>client/update\<close>): versions,
  assets and installing.

  \<^bold>\<open>What the lemmas show.\<close> Per component: its invariant and that every operation keeps it, what each operation does on each
  branch, round trips of its texts and messages. Across components: a link a host hands out reaches it with its pin and is
  accepted (\<open>Host\<close>, \<open>JoinClient\<close>); what the control server lists becomes a tunnel in which each address has one owner
  (\<open>Api\<close>, \<open>EngineSync\<close>); a packet that leaves through the translating device comes back as it was (\<open>Rewrite\<close>, \<open>VipDevice\<close>);
  two networks of one device never share a port or a range as long as calls do not overlap, and may when they do
  (\<open>Manager\<close>); whatever is started is given back by the stop that follows (\<open>Engine\<close>, \<open>Host\<close>, \<open>WinService\<close>, \<open>Agent\<close>). Where
  the code does not do what it says, the theorem states what it does; those are among the findings of the manifest.

  \<^bold>\<open>Loops and bounds.\<close> Loops over lists and texts recurse on them. The scan for a free address recurses on the addresses left
  in the range. The search for a port tries 64, for a range every slice of the pool, the address of an adapter 12 times:
  these are the code's bounds, and the theorems say what happens when they are reached. Loops that only end with the
  program (a refresh, the follower, a keepalive, a service's commands, the update check) are lists of what they see per
  turn or step relations, so that the theorems speak of every number of turns. No definition runs on fuel.

  \<^bold>\<open>Parameters.\<close> Sockets, files, the clock, randomness, PowerShell, \<open>netsh\<close>, the service manager, the pipes, hashing and
  certificates, the WireGuard and Wintun libraries are arguments: functions from their state to an answer and a state. Where
  a property needs them to behave, a named definition says how (\<open>firewall_ok\<close>, \<open>carries_out\<close>, \<open>policy_system\<close>,
  \<open>machine_fresh\<close>), and its witness has an instance.

  \<^bold>\<open>Not modelled.\<close> The cryptography of the tunnel and of TLS; the WireGuard, Wintun, ACME, DNS message and window libraries,
  which are not in the repository; the listening and encoding of the two pipes; socket options; the log lines of
  a start; \<open>cmd/wgprobe\<close>, a probe for development; the frontend of the window, the installer and the scripts, which are not Go.
  Two supervisors on one machine (the service's and the desktop program's) are modelled with a state directory each.
\<close>

end
